(* ===== verification/Prelude.thy ===== *)
theory Prelude
  imports Main "HOL-Library.Char_ord" "HOL-Library.List_Lexorder"
begin

text \<open>
  What the components share: the names of the model's basic types, the seam to the Redis
  server, the collections the proofs draw on, and generic lemmas on lists, options and maps.

  The Redis server is a service the repository calls. Its behaviour enters the model as
  arguments: the millisecond clock a script reads with \<open>TIME\<close> is the argument \<open>now\<close>, and
  the fate of one round trip is a value of \<open>net\<close>. What the code keeps \<^emph>\<open>in\<close> Redis (the
  fields it writes, under the names it writes them) is modelled as records by the
  components; a script runs atomically, so it is one function on such a record.
\<close>

section \<open>Names and collections\<close>

type_synonym ms = nat
type_synonym shard_id = string
type_synonym zone_id = string
type_synonym player_id = string

named_theorems lease_defs \<open>definitions of the lease scripts and what they read\<close>
named_theorems drain_defs \<open>definitions of the drain, rebalance and occupancy keys\<close>
named_theorems player_defs \<open>definitions of the player placement scripts\<close>
named_theorems lock_defs \<open>definitions of the single-session lock\<close>

section \<open>One round trip to a service\<close>

text \<open>
  A call either is served, never reaches the server, or is executed by the server and its
  reply is lost. The Go wrappers see an error in the last two cases and cannot tell them
  apart, so the model keeps both.
\<close>

datatype 'e net = Served | Lost_Request 'e | Lost_Reply 'e

definition round_trip :: "'e net \<Rightarrow> ('s \<Rightarrow> 'r \<times> 's) \<Rightarrow> 's \<Rightarrow> ('e + 'r) \<times> 's" where
  "round_trip n script s =
     (case n of
        Served \<Rightarrow> (Inr (fst (script s)), snd (script s))
      | Lost_Request e \<Rightarrow> (Inl e, s)
      | Lost_Reply e \<Rightarrow> (Inl e, snd (script s)))"

lemma round_trip_simps [simp]:
  "round_trip Served script s = (Inr (fst (script s)), snd (script s))"
  "round_trip (Lost_Request e) script s = (Inl e, s)"
  "round_trip (Lost_Reply e) script s = (Inl e, snd (script s))"
  by (simp_all add: round_trip_def)

text \<open>Whatever the outcome, the server's state is either untouched or the script's result.\<close>

lemma round_trip_state: "snd (round_trip n script s) \<in> {s, snd (script s)}"
  by (cases n) auto

lemma round_trip_ok:
  "fst (round_trip n script s) = Inr r \<Longrightarrow> n = Served \<and> fst (script s) = r"
  by (cases n) auto

lemma round_trip_preserves:
  assumes "P s" and "P (snd (script s))"
  shows "P (snd (round_trip n script s))"
  using assms by (cases n) auto

text \<open>A script of one key lifted to the keyspace it lives in.\<close>

definition on_key :: "('h \<Rightarrow> 'r \<times> 'h) \<Rightarrow> 'k \<Rightarrow> ('k \<Rightarrow> 'h) \<Rightarrow> 'r \<times> ('k \<Rightarrow> 'h)" where
  "on_key script k d = (fst (script (d k)), d(k := snd (script (d k))))"

lemma on_key_simps [simp]:
  "fst (on_key script k d) = fst (script (d k))"
  "snd (on_key script k d) = d(k := snd (script (d k)))"
  by (simp_all add: on_key_def)

text \<open>The reply a wrapper turns into a boolean: \<open>res == 1\<close>.\<close>

definition reply_is_1 :: "'e + nat \<Rightarrow> 'e + bool" where
  "reply_is_1 r = map_sum id (\<lambda>n. n = 1) r"

lemma reply_is_1_simps [simp]:
  "reply_is_1 (Inl e) = Inl e"
  "reply_is_1 (Inr n) = Inr (n = 1)"
  by (simp_all add: reply_is_1_def)

section \<open>Keys that expire\<close>

text \<open>
  A key written with an expiry is stored with the instant it lapses at; a command issued at
  \<open>now\<close> sees it while that instant is in the future. A key without an expiry is always seen.
\<close>

type_synonym 'a timed = "'a \<times> ms option"

definition visible :: "ms \<Rightarrow> 'a timed option \<Rightarrow> 'a option" where
  "visible now k =
     (case k of
        None \<Rightarrow> None
      | Some (v, None) \<Rightarrow> Some v
      | Some (v, Some t) \<Rightarrow> if now < t then Some v else None)"

lemma visible_simps [simp]:
  "visible now None = None"
  "visible now (Some (v, None)) = Some v"
  "visible now (Some (v, Some t)) = (if now < t then Some v else None)"
  by (simp_all add: visible_def)

lemma visible_SomeD: "visible now k = Some v \<Longrightarrow> \<exists>t. k = Some (v, t)"
  by (auto simp: visible_def split: option.splits if_splits)

lemma visible_antimono: "visible t k = Some v \<Longrightarrow> now \<le> t \<Longrightarrow> visible now k = Some v"
  by (auto simp: visible_def split: option.splits if_splits)

section \<open>Generic lemmas\<close>

lemma case_sum_fst_Inr: "(case x of Inl e \<Rightarrow> Inl e | Inr r \<Rightarrow> Inr (f r)) = Inr y \<longleftrightarrow> (\<exists>r. x = Inr r \<and> y = f r)"
  by (cases x) auto

lemma map_option_eq_SomeD: "map_option f x = Some y \<Longrightarrow> \<exists>z. x = Some z \<and> y = f z"
  by (cases x) auto

lemma append_eq_prefix_inj: "p @ xs = p @ ys \<longleftrightarrow> xs = ys"
  by simp

lemma foldl_invariant:
  assumes "P a" and "\<And>a x. x \<in> set xs \<Longrightarrow> P a \<Longrightarrow> P (f a x)"
  shows "P (foldl f a xs)"
  using assms by (induction xs arbitrary: a) auto

lemma sum_list_map_filter_le:
  fixes f :: "'a \<Rightarrow> nat"
  shows "sum_list (map f (filter P xs)) \<le> sum_list (map f xs)"
  by (induction xs) auto

end
