(* ===== verification/Lease_Contract.thy ===== *)
theory Lease_Contract
  imports Prelude
begin

text \<open>
  The contract of a time-fenced exclusive lease, the primitive zone ownership, leader
  election and shard registration rest on: a claim is refused exactly while somebody else
  holds an unexpired lease, and a granted claim holds for its whole lifetime. The lemmas of
  the locale are what every client relies on, whichever record keeps the lease.
\<close>

text \<open>A schedule of claims: each entry is the instant, the claimant and the lifetime.\<close>

fun claim_seq ::
  "('o \<Rightarrow> nat \<Rightarrow> ms \<Rightarrow> 'h \<Rightarrow> nat \<times> 'h) \<Rightarrow> (ms \<times> 'o \<times> nat) list \<Rightarrow> 'h \<Rightarrow> nat list \<times> 'h" where
  "claim_seq claim [] h = ([], h)"
| "claim_seq claim ((t, me, ttl) # cs) h =
     (let (r, h') = claim me ttl t h; (rs, h'') = claim_seq claim cs h' in (r # rs, h''))"

locale exclusive_lease =
  fixes claim :: "'o \<Rightarrow> nat \<Rightarrow> ms \<Rightarrow> 'h \<Rightarrow> nat \<times> 'h"
    and holder :: "ms \<Rightarrow> 'h \<Rightarrow> 'o option"
  assumes claim_reply: "fst (claim me ttl now h) = (if \<exists>w. holder now h = Some w \<and> w \<noteq> me then 0 else 1)"
    and claim_refused: "fst (claim me ttl now h) = 0 \<Longrightarrow> now \<le> t \<Longrightarrow> holder t (snd (claim me ttl now h)) = holder t h"
    and claim_granted: "fst (claim me ttl now h) = 1 \<Longrightarrow> now \<le> t \<Longrightarrow>
      holder t (snd (claim me ttl now h)) = (if t < now + ttl then Some me else None)"
    and holder_earlier: "holder t h = Some w \<Longrightarrow> now \<le> t \<Longrightarrow> holder now h = Some w"
begin

lemma free_claim_granted: "holder now h = None \<Longrightarrow> fst (claim me ttl now h) = 1"
  by (simp add: claim_reply)

lemma renewal_granted: "holder now h = Some me \<Longrightarrow> fst (claim me ttl now h) = 1"
  by (simp add: claim_reply)

lemma rival_refused:
  assumes "holder u h = Some w" and "w \<noteq> me" and "t \<le> u"
  shows "fst (claim me ttl t h) = 0" and "holder u (snd (claim me ttl t h)) = Some w"
proof -
  have "holder t h = Some w" using assms(1,3) by (rule holder_earlier)
  with assms(2) show "fst (claim me ttl t h) = 0" by (simp add: claim_reply)
  then show "holder u (snd (claim me ttl t h)) = Some w"
    using claim_refused assms(1,3) by simp
qed

lemma rivals_refused:
  assumes "holder u h = Some w" and "\<forall>(t, me, ttl) \<in> set cs. me \<noteq> w \<and> t \<le> u"
  shows "fst (claim_seq claim cs h) = replicate (length cs) 0 \<and>
         holder u (snd (claim_seq claim cs h)) = Some w"
  using assms
proof (induction cs arbitrary: h)
  case Nil
  then show ?case by simp
next
  case (Cons c cs)
  obtain t me ttl where c: "c = (t, me, ttl)" by (cases c) auto
  with Cons.prems(2) have "w \<noteq> me" "t \<le> u" by auto
  note r = rival_refused [OF Cons.prems(1) this]
  from Cons.IH [OF r(2)] Cons.prems(2) r(1) show ?case
    by (simp add: c Let_def split_beta)
qed

text \<open>
  The single-owner guarantee: once a claim is granted, every rival claim made before the
  lease runs out is refused, in any number and any order, and the holder is unchanged.
\<close>

lemma granted_excludes_rivals:
  assumes "fst (claim w ttl now h) = 1"
    and "\<forall>(t, me, l) \<in> set cs. me \<noteq> w \<and> t < now + ttl"
    and "now \<le> t" and "t < now + ttl"
  shows "fst (claim_seq claim cs (snd (claim w ttl now h))) = replicate (length cs) 0 \<and>
         holder t (snd (claim_seq claim cs (snd (claim w ttl now h)))) = Some w"
proof -
  let ?u = "now + ttl - 1"
  have le: "t \<le> ?u" using assms(4) by simp
  have u: "holder ?u (snd (claim w ttl now h)) = Some w"
    using claim_granted [OF assms(1), of ?u] assms(3,4) by auto
  have "\<forall>(t, me, l) \<in> set cs. me \<noteq> w \<and> t \<le> ?u"
    using assms(2) by auto
  note all = rivals_refused [OF u this]
  then show ?thesis using holder_earlier [OF _ le] by blast
qed

end

end
