(* ===== verification/Directory_Leases.thy ===== *)
theory Directory_Leases
  imports Lease_Contract
begin

text \<open>
  The lease half of \<^verbatim>\<open>internal/directory/redis.go\<close>: the generic exclusive lease
  (leader election), the zone lease with its monotonic generation, and the shard
  registration. Each Lua script is one function on the hash it owns, with the Redis clock as
  the argument \<open>now\<close>; each Go method is the script run over the directory's keyspace through
  one round trip.
\<close>

section \<open>Keys\<close>

text \<open>\<^verbatim>\<open>Redis.zoneKey\<close> and its siblings: one namespace per kind of record.\<close>

definition NewRedis_ns :: "string \<Rightarrow> string" where
  "NewRedis_ns ns = (if ns = '''' then ''telos'' else ns)"

definition zoneKey :: "string \<Rightarrow> zone_id \<Rightarrow> string" where
  "zoneKey ns z = ns @ '':dir:zone:'' @ z"

definition shardKey :: "string \<Rightarrow> shard_id \<Rightarrow> string" where
  "shardKey ns s = ns @ '':dir:shard:'' @ s"

definition playerKey :: "string \<Rightarrow> player_id \<Rightarrow> string" where
  "playerKey ns p = ns @ '':dir:player:'' @ p"

definition leaseKey :: "string \<Rightarrow> string \<Rightarrow> string" where
  "leaseKey ns l = ns @ '':dir:lease:'' @ l"

definition drainResvKey :: "string \<Rightarrow> shard_id \<Rightarrow> string" where
  "drainResvKey ns t = ns @ '':dir:drainresv:'' @ t"

definition drainingKey :: "string \<Rightarrow> shard_id \<Rightarrow> string" where
  "drainingKey ns s = ns @ '':dir:draining:'' @ s"

definition occKey :: "string \<Rightarrow> zone_id \<Rightarrow> string" where
  "occKey ns z = ns @ '':dir:occ:'' @ z"

definition tmplUseKey :: "string \<Rightarrow> string \<Rightarrow> string" where
  "tmplUseKey ns t = ns @ '':dir:tmplinuse:'' @ t"

definition rebalanceKey :: "string \<Rightarrow> zone_id \<Rightarrow> string" where
  "rebalanceKey ns z = ns @ '':dir:rebalance:'' @ z"

definition cooldownKey :: "string \<Rightarrow> zone_id \<Rightarrow> string" where
  "cooldownKey ns z = ns @ '':dir:cooldown:'' @ z"

lemmas key_defs = zoneKey_def shardKey_def playerKey_def leaseKey_def drainResvKey_def
  drainingKey_def occKey_def tmplUseKey_def rebalanceKey_def cooldownKey_def

section \<open>The generic lease\<close>

record lease_hash =
  l_owner :: "string option"
  l_expires :: "ms option"
  l_kexp :: "ms option"

definition no_lease :: lease_hash where
  "no_lease = \<lparr>l_owner = None, l_expires = None, l_kexp = None\<rparr>"

text \<open>A key whose own expiry has passed reads as absent.\<close>

definition lease_seen :: "ms \<Rightarrow> lease_hash \<Rightarrow> lease_hash" where
  "lease_seen now l =
     (case l_kexp l of Some t \<Rightarrow> (if now < t then l else no_lease) | None \<Rightarrow> l)"

definition live_expiry :: "ms \<Rightarrow> ms option \<Rightarrow> bool" where
  "live_expiry now e = (case e of Some t \<Rightarrow> now < t | None \<Rightarrow> False)"

definition held_by_other :: "string \<Rightarrow> ms \<Rightarrow> string option \<Rightarrow> ms option \<Rightarrow> bool" where
  "held_by_other me now own e =
     (case own of Some w \<Rightarrow> w \<noteq> me \<and> live_expiry now e | None \<Rightarrow> False)"

definition claimLease :: "string \<Rightarrow> nat \<Rightarrow> ms \<Rightarrow> lease_hash \<Rightarrow> nat \<times> lease_hash" where
  "claimLease me ttl now l0 =
     (let l = lease_seen now l0 in
      if held_by_other me now (l_owner l) (l_expires l) then (0, l)
      else (1, l\<lparr>l_owner := Some me, l_expires := Some (now + ttl),
                 l_kexp := Some (now + (ttl + 5000))\<rparr>))"

definition releaseLease :: "string \<Rightarrow> ms \<Rightarrow> lease_hash \<Rightarrow> nat \<times> lease_hash" where
  "releaseLease me now l0 =
     (let l = lease_seen now l0 in
      (1, if l_owner l = Some me then no_lease else l))"

section \<open>The zone lease\<close>

record zone_hash =
  z_owner :: "shard_id option"
  z_expires :: "ms option"
  z_gen :: "nat option"

definition no_zone :: zone_hash where
  "no_zone = \<lparr>z_owner = None, z_expires = None, z_gen = None\<rparr>"

text \<open>\<open>HINCRBY key field 1\<close>: a missing field counts as 0.\<close>

definition hincr :: "nat option \<Rightarrow> nat option" where
  "hincr x = Some (case x of None \<Rightarrow> 1 | Some n \<Rightarrow> n + 1)"

definition claimZone :: "shard_id \<Rightarrow> nat \<Rightarrow> ms \<Rightarrow> zone_hash \<Rightarrow> nat \<times> zone_hash" where
  "claimZone me ttl now z =
     (if held_by_other me now (z_owner z) (z_expires z) then (0, z)
      else
        let z1 = (if z_owner z \<noteq> Some me
                  then (let z0 = (if z_gen z = None then z\<lparr>z_gen := Some now\<rparr> else z)
                        in z0\<lparr>z_gen := hincr (z_gen z0)\<rparr>)
                  else z)
        in (1, z1\<lparr>z_owner := Some me, z_expires := Some (now + ttl)\<rparr>))"

definition releaseZone :: "shard_id \<Rightarrow> zone_hash \<Rightarrow> nat \<times> zone_hash" where
  "releaseZone me z =
     (1, if z_owner z = Some me then z\<lparr>z_owner := None, z_expires := None\<rparr> else z)"

definition handoverZone :: "shard_id \<Rightarrow> shard_id \<Rightarrow> nat \<Rightarrow> ms \<Rightarrow> zone_hash \<Rightarrow> nat \<times> zone_hash" where
  "handoverZone src dst ttl now z =
     (if src = dst then (0, z)
      else if z_owner z \<noteq> Some src then (0, z)
      else if \<not> live_expiry now (z_expires z) then (0, z)
      else (1, z\<lparr>z_gen := hincr (z_gen z), z_owner := Some dst, z_expires := Some (now + ttl)\<rparr>))"

definition zoneOwner :: "ms \<Rightarrow> zone_hash \<Rightarrow> string" where
  "zoneOwner now z =
     (case z_owner z of
        None \<Rightarrow> ''''
      | Some w \<Rightarrow> if live_expiry now (z_expires z) then w else '''')"

definition zoneLease :: "ms \<Rightarrow> zone_hash \<Rightarrow> string \<times> nat" where
  "zoneLease now z =
     (if z_owner z = None \<or> \<not> live_expiry now (z_expires z) then '''' else the (z_owner z),
      case z_gen z of None \<Rightarrow> 0 | Some g \<Rightarrow> g)"

section \<open>The shard registration\<close>

record shard_hash =
  s_endpoint :: "string option"
  s_expires :: "ms option"
  s_kexp :: "ms option"

definition no_shard :: shard_hash where
  "no_shard = \<lparr>s_endpoint = None, s_expires = None, s_kexp = None\<rparr>"

definition shard_seen :: "ms \<Rightarrow> shard_hash \<Rightarrow> shard_hash" where
  "shard_seen now s =
     (case s_kexp s of Some t \<Rightarrow> (if now < t then s else no_shard) | None \<Rightarrow> s)"

definition registerShard :: "string \<Rightarrow> nat \<Rightarrow> ms \<Rightarrow> shard_hash \<Rightarrow> nat \<times> shard_hash" where
  "registerShard ep ttl now s0 =
     (let s = shard_seen now s0 in
      if held_by_other ep now (s_endpoint s) (s_expires s) then (0, s)
      else (1, s\<lparr>s_endpoint := Some ep, s_expires := Some (now + ttl),
                 s_kexp := Some (now + ttl * 3)\<rparr>))"

definition shardEndpoint :: "ms \<Rightarrow> shard_hash \<Rightarrow> string" where
  "shardEndpoint now s0 =
     (let s = shard_seen now s0 in
      case s_endpoint s of
        None \<Rightarrow> ''''
      | Some ep \<Rightarrow> if live_expiry now (s_expires s) then ep else '''')"

definition deregisterShard :: "string \<Rightarrow> ms \<Rightarrow> shard_hash \<Rightarrow> nat \<times> shard_hash" where
  "deregisterShard ep now s0 =
     (let s = shard_seen now s0 in
      (1, if s_endpoint s = Some ep then no_shard else s))"

declare no_lease_def [lease_defs] lease_seen_def [lease_defs] live_expiry_def [lease_defs]
  held_by_other_def [lease_defs] claimLease_def [lease_defs] releaseLease_def [lease_defs]
  no_zone_def [lease_defs] hincr_def [lease_defs] claimZone_def [lease_defs]
  releaseZone_def [lease_defs] handoverZone_def [lease_defs] zoneOwner_def [lease_defs]
  zoneLease_def [lease_defs] no_shard_def [lease_defs] shard_seen_def [lease_defs]
  registerShard_def [lease_defs] shardEndpoint_def [lease_defs] deregisterShard_def [lease_defs]

section \<open>The Go methods over the keyspace\<close>

type_synonym zones = "zone_id \<Rightarrow> zone_hash"
type_synonym shards = "shard_id \<Rightarrow> shard_hash"
type_synonym leases = "string \<Rightarrow> lease_hash"

text \<open>The sentinel errors of the package, and a failed call carrying the client's error.\<close>

datatype dir_error = ErrNotFound | ErrZoneClaimed | ErrShardConflict | RedisErr string

definition DefaultZoneLease :: nat where "DefaultZoneLease = 15000"

definition ClaimLease ::
  "dir_error net \<Rightarrow> ms \<Rightarrow> string \<Rightarrow> string \<Rightarrow> nat \<Rightarrow> leases \<Rightarrow> (dir_error + bool) \<times> leases" where
  "ClaimLease net now leaseID me ttl d =
     (let (r, d') = round_trip net (on_key (claimLease me ttl now) leaseID) d
      in (reply_is_1 r, d'))"

definition ReleaseLease ::
  "dir_error net \<Rightarrow> ms \<Rightarrow> string \<Rightarrow> string \<Rightarrow> leases \<Rightarrow> (dir_error + unit) \<times> leases" where
  "ReleaseLease net now leaseID me d =
     (let (r, d') = round_trip net (on_key (releaseLease me now) leaseID) d
      in (map_sum id (\<lambda>_. ()) r, d'))"

definition ClaimZone ::
  "dir_error net \<Rightarrow> ms \<Rightarrow> zone_id \<Rightarrow> shard_id \<Rightarrow> nat \<Rightarrow> zones \<Rightarrow> (dir_error + bool) \<times> zones" where
  "ClaimZone net now zoneID me ttl d =
     (let (r, d') = round_trip net (on_key (claimZone me ttl now) zoneID) d
      in (reply_is_1 r, d'))"

definition RegisterZone ::
  "dir_error net \<Rightarrow> ms \<Rightarrow> zone_id \<Rightarrow> shard_id \<Rightarrow> zones \<Rightarrow> (dir_error + unit) \<times> zones" where
  "RegisterZone net now zoneID me d =
     (case ClaimZone net now zoneID me DefaultZoneLease d of
        (Inl e, d') \<Rightarrow> (Inl e, d')
      | (Inr ok, d') \<Rightarrow> (if \<not> ok then Inl ErrZoneClaimed else Inr (), d'))"

definition ReleaseZone ::
  "dir_error net \<Rightarrow> zone_id \<Rightarrow> shard_id \<Rightarrow> zones \<Rightarrow> (dir_error + unit) \<times> zones" where
  "ReleaseZone net zoneID me d =
     (let (r, d') = round_trip net (on_key (releaseZone me) zoneID) d
      in (map_sum id (\<lambda>_. ()) r, d'))"

definition HandoverZone ::
  "dir_error net \<Rightarrow> ms \<Rightarrow> zone_id \<Rightarrow> shard_id \<Rightarrow> shard_id \<Rightarrow> nat \<Rightarrow> zones
     \<Rightarrow> (dir_error + bool) \<times> zones" where
  "HandoverZone net now zoneID src dst ttl d =
     (let (r, d') = round_trip net (on_key (handoverZone src dst ttl now) zoneID) d
      in (reply_is_1 r, d'))"

text \<open>The read-only methods leave the keyspace alone, so they return the answer only.\<close>

definition ZoneLease :: "dir_error net \<Rightarrow> ms \<Rightarrow> zone_id \<Rightarrow> zones \<Rightarrow> dir_error + (string \<times> nat)" where
  "ZoneLease net now zoneID d = fst (round_trip net (\<lambda>d. (zoneLease now (d zoneID), d)) d)"

definition ShardForZone :: "dir_error net \<Rightarrow> ms \<Rightarrow> zone_id \<Rightarrow> zones \<Rightarrow> dir_error + shard_id" where
  "ShardForZone net now zoneID d =
     (case fst (round_trip net (\<lambda>d. (zoneOwner now (d zoneID), d)) d) of
        Inl e \<Rightarrow> Inl e
      | Inr w \<Rightarrow> if w = '''' then Inl ErrNotFound else Inr w)"

definition RegisterShard ::
  "dir_error net \<Rightarrow> ms \<Rightarrow> shard_id \<Rightarrow> string \<Rightarrow> nat \<Rightarrow> shards \<Rightarrow> (dir_error + unit) \<times> shards" where
  "RegisterShard net now shardID ep ttl d =
     (case round_trip net (on_key (registerShard ep ttl now) shardID) d of
        (Inl e, d') \<Rightarrow> (Inl e, d')
      | (Inr res, d') \<Rightarrow> (if res = 0 then Inl ErrShardConflict else Inr (), d'))"

definition EndpointForShard :: "dir_error net \<Rightarrow> ms \<Rightarrow> shard_id \<Rightarrow> shards \<Rightarrow> dir_error + string" where
  "EndpointForShard net now shardID d =
     (case fst (round_trip net (\<lambda>d. (shardEndpoint now (d shardID), d)) d) of
        Inl e \<Rightarrow> Inl e
      | Inr ep \<Rightarrow> if ep = '''' then Inl ErrNotFound else Inr ep)"

definition DeregisterShard ::
  "dir_error net \<Rightarrow> ms \<Rightarrow> shard_id \<Rightarrow> string \<Rightarrow> shards \<Rightarrow> (dir_error + unit) \<times> shards" where
  "DeregisterShard net now shardID ep d =
     (let (r, d') = round_trip net (on_key (deregisterShard ep now) shardID) d
      in (map_sum id (\<lambda>_. ()) r, d'))"

text \<open>
  \<open>ListShards\<close> walks the pages of a \<open>SCAN\<close>. What the server returns page by page is an
  argument (a page is an error or the ids behind the keys of that page); so is the fate of
  the endpoint read of each id, whose failure skips the id.
\<close>

definition shard_listed :: "(shard_id \<Rightarrow> dir_error net) \<Rightarrow> ms \<Rightarrow> shards \<Rightarrow> shard_id \<Rightarrow> bool" where
  "shard_listed rd now d i =
     (i \<noteq> '''' \<and>
      (case fst (round_trip (rd i) (\<lambda>d. (shardEndpoint now (d i), d)) d) of
         Inl _ \<Rightarrow> False | Inr ep \<Rightarrow> ep \<noteq> ''''))"

fun ListShards ::
  "(dir_error + shard_id list) list \<Rightarrow> (shard_id \<Rightarrow> dir_error net) \<Rightarrow> ms \<Rightarrow> shards
     \<Rightarrow> dir_error + shard_id list" where
  "ListShards [] rd now d = Inr []"
| "ListShards (Inl e # pages) rd now d = Inl e"
| "ListShards (Inr ids # pages) rd now d =
     (case ListShards pages rd now d of
        Inl e \<Rightarrow> Inl e
      | Inr rest \<Rightarrow> Inr (filter (shard_listed rd now d) ids @ rest))"

section \<open>The keys of different records never meet\<close>

text \<open>
  The model keeps one map per kind of record. The key builders justify it: within a kind
  they are injective, and the segment after \<open>:dir:\<close> separates the kinds.
\<close>

lemma key_builders_injective:
  "zoneKey ns a = zoneKey ns b \<longleftrightarrow> a = b"
  "shardKey ns a = shardKey ns b \<longleftrightarrow> a = b"
  "playerKey ns a = playerKey ns b \<longleftrightarrow> a = b"
  "leaseKey ns a = leaseKey ns b \<longleftrightarrow> a = b"
  "drainResvKey ns a = drainResvKey ns b \<longleftrightarrow> a = b"
  "rebalanceKey ns a = rebalanceKey ns b \<longleftrightarrow> a = b"
  by (simp_all add: key_defs)

lemma key_kinds_distinct:
  "distinct [zoneKey ns a, shardKey ns b, playerKey ns c, leaseKey ns d, drainResvKey ns e,
             drainingKey ns f, occKey ns g, tmplUseKey ns h, rebalanceKey ns i, cooldownKey ns j]"
  by (simp add: key_defs)

section \<open>The three records implement the lease contract\<close>

definition lease_holder :: "ms \<Rightarrow> lease_hash \<Rightarrow> string option" where
  "lease_holder now l0 =
     (let l = lease_seen now l0 in if live_expiry now (l_expires l) then l_owner l else None)"

definition zone_holder :: "ms \<Rightarrow> zone_hash \<Rightarrow> shard_id option" where
  "zone_holder now z = (if live_expiry now (z_expires z) then z_owner z else None)"

definition shard_holder :: "ms \<Rightarrow> shard_hash \<Rightarrow> string option" where
  "shard_holder now s0 =
     (let s = shard_seen now s0 in if live_expiry now (s_expires s) then s_endpoint s else None)"

declare lease_holder_def [lease_defs] zone_holder_def [lease_defs] shard_holder_def [lease_defs]

lemma held_by_other_iff:
  "held_by_other me now own e \<longleftrightarrow> (\<exists>w. own = Some w \<and> w \<noteq> me \<and> live_expiry now e)"
  by (cases own) (auto simp: held_by_other_def)

lemma live_expiry_simps [simp]:
  "live_expiry now None = False"
  "live_expiry now (Some t) = (now < t)"
  by (simp_all add: live_expiry_def)

lemma live_expiry_earlier: "live_expiry t e \<Longrightarrow> now \<le> t \<Longrightarrow> live_expiry now e"
  by (auto simp: live_expiry_def split: option.splits)

interpretation lease: exclusive_lease claimLease lease_holder
  by unfold_locales
    (auto simp: Let_def claimLease_def lease_holder_def lease_seen_def no_lease_def held_by_other_iff
      split: option.splits if_splits dest: live_expiry_earlier)

interpretation zone: exclusive_lease claimZone zone_holder
  by unfold_locales
    (auto simp: Let_def claimZone_def zone_holder_def held_by_other_iff
      split: option.splits if_splits dest: live_expiry_earlier)

interpretation shard: exclusive_lease registerShard shard_holder
  by unfold_locales
    (auto simp: Let_def registerShard_def shard_holder_def shard_seen_def no_shard_def held_by_other_iff
      split: option.splits if_splits dest: live_expiry_earlier)

end
