(* ===== verification/Zone_Lease.thy ===== *)
theory Zone_Lease
  imports Directory_Leases
begin

text \<open>
  Histories of one zone's lease record: what any sequence of claims, releases, handovers and
  losses of the key does to ownership and to the generation that \<open>AdoptZone\<close> binds.
\<close>

section \<open>Events and runs\<close>

text \<open>
  The scripts that write a zone record, and the loss of the key (a flush, an eviction, a
  failover to a replica that missed the write), which the seeding of \<open>gen\<close> is there for.
\<close>

datatype zone_event =
    ZClaim shard_id nat
  | ZRelease shard_id
  | ZHandover shard_id shard_id nat
  | ZLost

fun zone_apply :: "ms \<Rightarrow> zone_event \<Rightarrow> zone_hash \<Rightarrow> nat \<times> zone_hash" where
  "zone_apply now (ZClaim me ttl) z = claimZone me ttl now z"
| "zone_apply now (ZRelease me) z = releaseZone me z"
| "zone_apply now (ZHandover src dst ttl) z = handoverZone src dst ttl now z"
| "zone_apply now ZLost z = (1, no_zone)"

fun zone_run :: "(ms \<times> zone_event) list \<Rightarrow> zone_hash \<Rightarrow> zone_hash" where
  "zone_run [] z = z"
| "zone_run ((t, e) # evs) z = zone_run evs (snd (zone_apply t e z))"

text \<open>Events issued by a shard other than \<open>w\<close>.\<close>

fun foreign :: "shard_id \<Rightarrow> zone_event \<Rightarrow> bool" where
  "foreign w (ZClaim me ttl) = (me \<noteq> w)"
| "foreign w (ZRelease me) = (me \<noteq> w)"
| "foreign w (ZHandover src dst ttl) = (src \<noteq> w)"
| "foreign w ZLost = False"

lemma foreign_event_no_effect:
  assumes "z_owner z = Some w" and "live_expiry t (z_expires z)" and "foreign w e"
  shows "snd (zone_apply t e z) = z"
  using assms
  by (cases e) (auto simp: claimZone_def releaseZone_def handoverZone_def held_by_other_iff)

lemma foreign_run_no_effect:
  assumes "z_owner z = Some w" and "\<forall>(t, e) \<in> set evs. foreign w e \<and> live_expiry t (z_expires z)"
  shows "zone_run evs z = z"
  using assms(2)
proof (induction evs)
  case Nil
  then show ?case by simp
next
  case (Cons te evs)
  obtain t e where te: "te = (t, e)" by (cases te)
  with Cons.prems have "snd (zone_apply t e z) = z"
    by (auto intro: foreign_event_no_effect [OF assms(1)])
  with Cons te show ?case by simp
qed

lemma claimZone_granted_record:
  assumes "fst (claimZone w ttl now z) = 1"
  shows "z_owner (snd (claimZone w ttl now z)) = Some w \<and>
         z_expires (snd (claimZone w ttl now z)) = Some (now + ttl)"
  using assms by (auto simp: claimZone_def Let_def split: if_splits)

section \<open>Generations\<close>

text \<open>
  The state of a history: the clock, the record, the generations issued so far (newest
  first) and the instant of the last ownership change. A step that changes ownership is
  taken strictly later than the previous change: this is the assumption the source names,
  that the clock outruns the zone's ownership changes.
\<close>

record zone_sys =
  zs_now :: ms
  zs_rec :: zone_hash
  zs_issued :: "nat list"
  zs_last :: ms

definition zone_init :: zone_sys where
  "zone_init = \<lparr>zs_now = 0, zs_rec = no_zone, zs_issued = [], zs_last = 0\<rparr>"

definition issue :: "zone_sys \<Rightarrow> zone_hash \<Rightarrow> zone_sys" where
  "issue s z' =
     (case z_gen z' of
        Some g \<Rightarrow> if z_gen (zs_rec s) = Some g then s\<lparr>zs_rec := z'\<rparr>
                  else s\<lparr>zs_rec := z', zs_issued := g # zs_issued s, zs_last := zs_now s\<rparr>
      | None \<Rightarrow> s\<lparr>zs_rec := z'\<rparr>)"

inductive zone_step :: "zone_sys \<Rightarrow> zone_sys \<Rightarrow> bool" where
  tick: "zs_now s \<le> t \<Longrightarrow> zone_step s (s\<lparr>zs_now := t\<rparr>)"
| act: "z' = snd (zone_apply (zs_now s) e (zs_rec s)) \<Longrightarrow>
        (z_gen z' \<noteq> None \<and> z_gen z' \<noteq> z_gen (zs_rec s) \<longrightarrow> zs_last s < zs_now s) \<Longrightarrow>
        zone_step s (issue s z')"

definition gen_inv :: "zone_sys \<Rightarrow> bool" where
  "gen_inv s \<longleftrightarrow>
     sorted_wrt (>) (zs_issued s) \<and>
     (\<forall>g. z_gen (zs_rec s) = Some g \<longrightarrow> zs_issued s \<noteq> [] \<and> hd (zs_issued s) = g) \<and>
     (zs_issued s \<noteq> [] \<longrightarrow> hd (zs_issued s) \<le> zs_last s + 1) \<and>
     zs_last s \<le> zs_now s \<and>
     (z_owner (zs_rec s) \<noteq> None \<longrightarrow> z_gen (zs_rec s) \<noteq> None)"

text \<open>What an event does to the generation: keep it, advance it by one, seed it, or lose it.\<close>

lemma zone_apply_gen:
  assumes "z_owner z \<noteq> None \<longrightarrow> z_gen z \<noteq> None" and "z' = snd (zone_apply now e z)"
  shows "(z_gen z' = z_gen z \<or> z_gen z' = None \<or>
          (\<exists>g. z_gen z = Some g \<and> z_gen z' = Some (g + 1)) \<or>
          (z_gen z = None \<and> z_gen z' = Some (now + 1))) \<and>
         (z_owner z' \<noteq> None \<longrightarrow> z_gen z' \<noteq> None)"
  using assms
  by (cases e)
    (auto simp: claimZone_def releaseZone_def handoverZone_def no_zone_def hincr_def Let_def
      split: option.splits if_splits)

lemma gen_inv_issue:
  assumes inv: "gen_inv s" and z': "z' = snd (zone_apply (zs_now s) e (zs_rec s))"
    and later: "z_gen z' \<noteq> None \<and> z_gen z' \<noteq> z_gen (zs_rec s) \<longrightarrow> zs_last s < zs_now s"
  shows "gen_inv (issue s z')"
proof -
  have wf: "z_owner (zs_rec s) \<noteq> None \<longrightarrow> z_gen (zs_rec s) \<noteq> None"
    using inv by (simp add: gen_inv_def)
  note g = zone_apply_gen [OF wf z']
  show ?thesis
  proof (cases "z_gen z' = None \<or> z_gen z' = z_gen (zs_rec s)")
    case True
    with g inv show ?thesis by (auto simp: gen_inv_def issue_def split: option.splits)
  next
    case False
    then obtain n where n: "z_gen z' = Some n" by auto
    with False later have lt: "zs_last s < zs_now s" by auto
    from False g n have "(z_gen (zs_rec s) = Some (n - 1) \<and> 0 < n) \<or> n = zs_now s + 1"
      by auto
    with inv lt have top: "zs_issued s = [] \<or> hd (zs_issued s) < n" and bound: "n \<le> zs_now s + 1"
      by (fastforce simp: gen_inv_def)+
    have "\<forall>m \<in> set (zs_issued s). m < n"
      using top inv by (cases "zs_issued s") (auto simp: gen_inv_def)
    with False g n bound inv show ?thesis
      by (auto simp: gen_inv_def issue_def)
  qed
qed

lemma gen_inv_init: "gen_inv zone_init"
  by (simp add: gen_inv_def zone_init_def no_zone_def)

lemma gen_inv_step: "zone_step s s' \<Longrightarrow> gen_inv s \<Longrightarrow> gen_inv s'"
proof (induction rule: zone_step.induct)
  case (tick s t)
  then show ?case by (auto simp: gen_inv_def)
next
  case (act z' s e)
  then show ?case by (blast intro: gen_inv_issue)
qed

lemma gen_inv_reachable: "zone_step\<^sup>*\<^sup>* zone_init s \<Longrightarrow> gen_inv s"
  by (induction rule: rtranclp_induct) (auto intro: gen_inv_init gen_inv_step)

lemma issued_grows_step: "zone_step s s' \<Longrightarrow> \<exists>new. zs_issued s' = new @ zs_issued s"
  by (induction rule: zone_step.induct) (auto simp: issue_def split: option.splits)

lemma issued_grows: "zone_step\<^sup>*\<^sup>* s s' \<Longrightarrow> \<exists>new. zs_issued s' = new @ zs_issued s"
proof (induction rule: rtranclp_induct)
  case base
  then show ?case by simp
next
  case (step y z)
  then obtain a b where "zs_issued y = a @ zs_issued s" "zs_issued z = b @ zs_issued y"
    using issued_grows_step by blast
  then show ?case by (intro exI [of _ "b @ a"]) simp
qed

lemma superseded_generation_gone:
  assumes "zone_step\<^sup>*\<^sup>* zone_init s" and "zone_step\<^sup>*\<^sup>* s s'"
    and "g \<in> set (tl (zs_issued s))"
  shows "z_gen (zs_rec s') \<noteq> Some g"
proof
  assume gen: "z_gen (zs_rec s') = Some g"
  have inv: "gen_inv s'"
    using assms(1,2) by (intro gen_inv_reachable) (rule rtranclp_trans)
  obtain new where new: "zs_issued s' = new @ zs_issued s"
    using issued_grows [OF assms(2)] by blast
  from inv gen have h: "zs_issued s' \<noteq> []" "hd (zs_issued s') = g" "sorted_wrt (>) (zs_issued s')"
    by (auto simp: gen_inv_def)
  have "g \<in> set (tl (zs_issued s'))"
    using assms(3) by (cases new; cases "zs_issued s") (auto simp: new)
  with h show False by (cases "zs_issued s'") auto
qed

section \<open>Properties\<close>

text \<open>
  C2. Single writer. Once \<open>ClaimZone\<close> grants a shard a zone, no sequence of claims, releases
  and handovers by other shards before the lease runs out changes the record: routing
  (\<open>zoneOwner\<close>) names that shard at every instant of the lease.
\<close>

theorem zone_single_writer:
  assumes "fst (claimZone w ttl now z) = 1"
    and "\<forall>(t, e) \<in> set evs. foreign w e \<and> t < now + ttl"
    and "t < now + ttl"
  shows "zone_run evs (snd (claimZone w ttl now z)) = snd (claimZone w ttl now z) \<and>
         zoneOwner t (zone_run evs (snd (claimZone w ttl now z))) = w"
proof -
  let ?z = "snd (claimZone w ttl now z)"
  have rec: "z_owner ?z = Some w" "z_expires ?z = Some (now + ttl)"
    using claimZone_granted_record [OF assms(1)] by auto
  with assms(2) have "zone_run evs ?z = ?z"
    by (intro foreign_run_no_effect) auto
  with rec assms(3) show ?thesis by (simp add: zoneOwner_def)
qed

theorem zone_single_writer_witness:
  "zoneOwner 5000 (zone_run [(1000, ZClaim ''b'' 9000), (2000, ZRelease ''b''), (3000, ZHandover ''b'' ''c'' 1)]
     (snd (claimZone ''a'' 15000 0 no_zone))) = ''a''"
  by (rule zone_single_writer [THEN conjunct2])
    (simp_all add: claimZone_def no_zone_def held_by_other_def hincr_def)

text \<open>
  C12. The generation never re-treads. In every history, including losses of the key, a
  generation that has been superseded is never again the generation of the zone, so an
  \<open>AdoptZone\<close> bound to it stays dead.
\<close>

theorem superseded_generation_never_returns:
  assumes "zone_step\<^sup>*\<^sup>* zone_init s" and "zone_step\<^sup>*\<^sup>* s s'"
    and "g \<in> set (tl (zs_issued s))"
  shows "z_gen (zs_rec s') \<noteq> Some g"
  using assms by (rule superseded_generation_gone)

theorem superseded_generation_never_returns_witness:
  "\<exists>s s'. zone_step\<^sup>*\<^sup>* zone_init s \<and> zone_step\<^sup>*\<^sup>* s s' \<and> 8 \<in> set (tl (zs_issued s)) \<and>
          z_gen (zs_rec s') \<noteq> Some 8"
proof -
  define s1 where "s1 = zone_init\<lparr>zs_now := 7\<rparr>"
  define s2 where "s2 = issue s1 (snd (zone_apply 7 (ZClaim ''a'' 10) (zs_rec s1)))"
  define s3 where "s3 = s2\<lparr>zs_now := 9\<rparr>"
  define s4 where "s4 = issue s3 (snd (zone_apply 9 (ZHandover ''a'' ''b'' 10) (zs_rec s3)))"
  note ev = zone_init_def no_zone_def claimZone_def held_by_other_def hincr_def issue_def
    handoverZone_def s1_def s2_def s3_def s4_def
  have "zone_step zone_init s1" unfolding s1_def by (rule zone_step.tick) (simp add: zone_init_def)
  moreover have "zone_step s1 s2"
    unfolding s2_def by (rule zone_step.act [where e = "ZClaim ''a'' 10"]) (simp_all add: ev)
  moreover have "zone_step s2 s3" unfolding s3_def by (rule zone_step.tick) (simp add: ev)
  moreover have "zone_step s3 s4"
    unfolding s4_def by (rule zone_step.act [where e = "ZHandover ''a'' ''b'' 10"]) (simp_all add: ev)
  ultimately have r: "zone_step\<^sup>*\<^sup>* zone_init s4"
    by (metis rtranclp.simps)
  moreover have m: "8 \<in> set (tl (zs_issued s4))" by (simp add: ev)
  ultimately show ?thesis
    using superseded_generation_never_returns [OF r rtranclp.rtrancl_refl m] by blast
qed

end
