(* ===== verification/Directory_Players.thy ===== *)
theory Directory_Players
  imports Directory_Leases
begin

text \<open>
  The player half of \<^verbatim>\<open>internal/directory/redis.go\<close>: the placement record of a player, the
  handoff compare-and-set, the login registration, the clean-logout tombstone and the reads
  built on them. Epochs and nonces are unsigned counters; Lua compares them as doubles, which
  is exact below \<open>2\<^sup>5\<^sup>3\<close>, the range the model's naturals stand for.
\<close>

section \<open>The placement record\<close>

record player_hash =
  p_shard :: "shard_id option"
  p_zone :: "zone_id option"
  p_epoch :: "nat option"
  p_nonce :: "nat option"

definition no_player :: player_hash where
  "no_player = \<lparr>p_shard = None, p_zone = None, p_epoch = None, p_nonce = None\<rparr>"

definition casPlacement :: "shard_id \<Rightarrow> zone_id \<Rightarrow> nat \<Rightarrow> player_hash \<Rightarrow> nat \<times> player_hash" where
  "casPlacement sh zn ep p =
     (if (case p_epoch p of Some cur \<Rightarrow> cur \<ge> ep | None \<Rightarrow> False) then (0, p)
      else (1, p\<lparr>p_shard := Some sh, p_zone := Some zn, p_epoch := Some ep, p_nonce := None\<rparr>))"

definition registerPlacement ::
  "shard_id \<Rightarrow> zone_id \<Rightarrow> nat \<Rightarrow> nat \<Rightarrow> player_hash \<Rightarrow> nat \<times> player_hash" where
  "registerPlacement sh zn mine nonce p =
     (if (case p_epoch p of Some cur \<Rightarrow> cur > mine | None \<Rightarrow> False) then (0, p)
      else
        let keep = (case p_epoch p of Some cur \<Rightarrow> (if cur > mine then cur else mine) | None \<Rightarrow> mine)
        in (1, p\<lparr>p_shard := Some sh, p_zone := Some zn, p_epoch := Some keep, p_nonce := Some nonce\<rparr>))"

definition clearPlayerShard ::
  "shard_id \<Rightarrow> zone_id \<Rightarrow> nat \<Rightarrow> nat \<Rightarrow> player_hash \<Rightarrow> nat \<times> player_hash" where
  "clearPlayerShard sh zn ep nonce p =
     (if p_shard p \<noteq> Some sh then (0, p)
      else if p_epoch p \<noteq> Some ep then (0, p)
      else if (case p_nonce p of Some n \<Rightarrow> n \<noteq> nonce | None \<Rightarrow> False) then (0, p)
      else
        let p1 = (if zn \<noteq> '''' then p\<lparr>p_zone := Some zn\<rparr> else p)
        in (1, p1\<lparr>p_shard := None\<rparr>))"

declare no_player_def [player_defs] casPlacement_def [player_defs]
  registerPlacement_def [player_defs] clearPlayerShard_def [player_defs]

section \<open>The Go methods\<close>

type_synonym players = "player_id \<Rightarrow> player_hash"

record placement =
  ShardID :: shard_id
  ZoneID :: zone_id
  Epoch :: nat
  Nonce :: nat

definition SetPlayerShard ::
  "dir_error net \<Rightarrow> player_id \<Rightarrow> shard_id \<Rightarrow> zone_id \<Rightarrow> nat \<Rightarrow> players \<Rightarrow> (dir_error + bool) \<times> players" where
  "SetPlayerShard net pid sh zn ep d =
     (let (r, d') = round_trip net (on_key (casPlacement sh zn ep) pid) d in (reply_is_1 r, d'))"

definition RegisterPlacement ::
  "dir_error net \<Rightarrow> player_id \<Rightarrow> shard_id \<Rightarrow> zone_id \<Rightarrow> nat \<Rightarrow> nat \<Rightarrow> players
     \<Rightarrow> (dir_error + bool) \<times> players" where
  "RegisterPlacement net pid sh zn ep nonce d =
     (let (r, d') = round_trip net (on_key (registerPlacement sh zn ep nonce) pid) d
      in (reply_is_1 r, d'))"

definition ClearPlayerShard ::
  "dir_error net \<Rightarrow> player_id \<Rightarrow> shard_id \<Rightarrow> zone_id \<Rightarrow> nat \<Rightarrow> nat \<Rightarrow> players
     \<Rightarrow> (dir_error + bool) \<times> players" where
  "ClearPlayerShard net pid sh zn ep nonce d =
     (let (r, d') = round_trip net (on_key (clearPlayerShard sh zn ep nonce) pid) d
      in (reply_is_1 r, d'))"

definition PlayerPlacement :: "dir_error net \<Rightarrow> player_id \<Rightarrow> players \<Rightarrow> dir_error + placement" where
  "PlayerPlacement net pid d =
     (case fst (round_trip net (\<lambda>d. (d pid, d)) d) of
        Inl e \<Rightarrow> Inl e
      | Inr p \<Rightarrow>
          (case p_epoch p of
             None \<Rightarrow> Inl ErrNotFound
           | Some ep \<Rightarrow>
               Inr \<lparr>ShardID = (case p_shard p of None \<Rightarrow> '''' | Some s \<Rightarrow> s),
                    ZoneID = (case p_zone p of None \<Rightarrow> '''' | Some z \<Rightarrow> z),
                    Epoch = ep,
                    Nonce = (case p_nonce p of None \<Rightarrow> 0 | Some n \<Rightarrow> n)\<rparr>))"

definition PlayerEpoch :: "dir_error net \<Rightarrow> player_id \<Rightarrow> players \<Rightarrow> dir_error + (nat \<times> bool)" where
  "PlayerEpoch net pid d =
     (case PlayerPlacement net pid d of
        Inl e \<Rightarrow> if e = ErrNotFound then Inr (0, False) else Inl e
      | Inr pl \<Rightarrow> Inr (Epoch pl, True))"

definition PlayerShard :: "dir_error net \<Rightarrow> player_id \<Rightarrow> players \<Rightarrow> dir_error + (shard_id \<times> bool)" where
  "PlayerShard net pid d =
     (case PlayerPlacement net pid d of
        Inl e \<Rightarrow> if e = ErrNotFound then Inr ('''', False) else Inl e
      | Inr pl \<Rightarrow> Inr (ShardID pl, True))"

definition ClearPlayer :: "dir_error net \<Rightarrow> player_id \<Rightarrow> players \<Rightarrow> (dir_error + unit) \<times> players" where
  "ClearPlayer net pid d = round_trip net (\<lambda>d. ((), d(pid := no_player))) d"

section \<open>Histories\<close>

text \<open>The writes that can reach a record between two logins, in any order.\<close>

datatype player_event =
    PHandoff shard_id zone_id nat
  | PRegister shard_id zone_id nat nat
  | PLogout shard_id zone_id nat nat

fun player_apply :: "player_event \<Rightarrow> player_hash \<Rightarrow> nat \<times> player_hash" where
  "player_apply (PHandoff sh zn ep) p = casPlacement sh zn ep p"
| "player_apply (PRegister sh zn ep n) p = registerPlacement sh zn ep n p"
| "player_apply (PLogout sh zn ep n) p = clearPlayerShard sh zn ep n p"

fun player_run :: "player_event list \<Rightarrow> player_hash \<Rightarrow> player_hash" where
  "player_run [] p = p"
| "player_run (e # es) p = player_run es (snd (player_apply e p))"

definition epoch_le :: "nat option \<Rightarrow> nat option \<Rightarrow> bool" where
  "epoch_le a b = (case a of None \<Rightarrow> True | Some x \<Rightarrow> (case b of None \<Rightarrow> False | Some y \<Rightarrow> x \<le> y))"

lemma epoch_le_refl [simp]: "epoch_le a a"
  by (simp add: epoch_le_def split: option.splits)

lemma epoch_le_trans [trans]: "epoch_le a b \<Longrightarrow> epoch_le b c \<Longrightarrow> epoch_le a c"
  by (auto simp: epoch_le_def split: option.splits)

lemma player_apply_epoch: "epoch_le (p_epoch p) (p_epoch (snd (player_apply e p)))"
  by (cases e) (auto simp: player_defs epoch_le_def Let_def split: option.splits)

lemma player_run_epoch: "epoch_le (p_epoch p) (p_epoch (player_run es p))"
  by (induction es arbitrary: p) (auto intro: epoch_le_trans player_apply_epoch)

lemma casPlacement_stale: "epoch_le (Some ep) (p_epoch p) \<Longrightarrow> casPlacement sh zn ep p = (0, p)"
  by (auto simp: casPlacement_def epoch_le_def split: option.splits)

section \<open>Properties\<close>



text \<open>
  The logout fence. A clean logout by a session whose nonce the record no longer carries
  (the player has logged in again, on the same shard and at the same epoch) is refused and
  the live placement survives.
\<close>

lemma late_logout_cannot_evict_relog:
  assumes "fst (registerPlacement sh zn ep fresh p) = 1" and "fresh \<noteq> old"
  shows "clearPlayerShard sh' zn' ep' old (snd (registerPlacement sh zn ep fresh p)) =
         (0, snd (registerPlacement sh zn ep fresh p)) \<and>
         p_shard (snd (registerPlacement sh zn ep fresh p)) = Some sh"
  using assms by (auto simp: player_defs Let_def split: if_splits)

end
