(* ===== verification/Directory_Drain.thy ===== *)
theory Directory_Drain
  imports Directory_Leases
begin

text \<open>
  The drain and rebalance half of \<^verbatim>\<open>internal/directory/redis.go\<close>: the counting reservation a
  draining shard takes on a target, the draining marker, the zone occupancy signal, the
  rebalance directive with its cooldown, and the instance-template claim.
\<close>

section \<open>The drain reservation\<close>

text \<open>
  One hash per target, one field per drainer. A field is written as \<open>count:expiry\<close>; a bare
  count is the shape an older release wrote, and anything else does not parse.
\<close>

datatype resv_val = Hold nat ms | Bare_Count nat | Malformed

record resv_key =
  r_fields :: "(shard_id \<times> resv_val) list"
  r_kexp :: "ms option"

definition no_resv :: resv_key where
  "no_resv = \<lparr>r_fields = [], r_kexp = None\<rparr>"

definition resv_seen :: "ms \<Rightarrow> resv_key \<Rightarrow> resv_key" where
  "resv_seen now k = (case r_kexp k of Some t \<Rightarrow> (if now < t then k else no_resv) | None \<Rightarrow> k)"

fun hold_live :: "ms \<Rightarrow> shard_id \<times> resv_val \<Rightarrow> bool" where
  "hold_live now (f, Hold cnt e) = (now < e)"
| "hold_live now (f, v) = False"

fun hold_count :: "shard_id \<times> resv_val \<Rightarrow> nat" where
  "hold_count (f, Hold cnt e) = cnt"
| "hold_count (f, v) = 0"

fun hold_exp :: "shard_id \<times> resv_val \<Rightarrow> ms" where
  "hold_exp (f, Hold cnt e) = e"
| "hold_exp (f, v) = 0"

text \<open>\<open>HSET\<close> on a hash kept as an association list: overwrite in place or append.\<close>

fun hset :: "'f \<Rightarrow> 'v \<Rightarrow> ('f \<times> 'v) list \<Rightarrow> ('f \<times> 'v) list" where
  "hset f v [] = [(f, v)]"
| "hset f v ((g, w) # xs) = (if g = f then (f, v) # xs else (g, w) # hset f v xs)"

definition hdel :: "'f \<Rightarrow> ('f \<times> 'v) list \<Rightarrow> ('f \<times> 'v) list" where
  "hdel f xs = filter (\<lambda>(g, _). g \<noteq> f) xs"

fun max_other_exp :: "shard_id \<Rightarrow> (shard_id \<times> resv_val) list \<Rightarrow> ms" where
  "max_other_exp me [] = 0"
| "max_other_exp me (fv # xs) =
     (if fst fv = me then max_other_exp me xs else max (hold_exp fv) (max_other_exp me xs))"

definition resv_total :: "(shard_id \<times> resv_val) list \<Rightarrow> nat" where
  "resv_total fs = sum_list (map hold_count fs)"

definition resv_mine :: "shard_id \<Rightarrow> (shard_id \<times> resv_val) list \<Rightarrow> nat" where
  "resv_mine me fs = (case map_of fs me of Some v \<Rightarrow> hold_count (me, v) | None \<Rightarrow> 0)"

definition reserveDrainTarget ::
  "shard_id \<Rightarrow> nat \<Rightarrow> int \<Rightarrow> nat \<Rightarrow> ms \<Rightarrow> resv_key \<Rightarrow> nat \<times> resv_key" where
  "reserveDrainTarget drainer incoming headroom ttl now k0 =
     (let k = resv_seen now k0;
          live = filter (hold_live now) (r_fields k);
          total = resv_total live;
          maxexp = max_other_exp drainer live
      in if int total + int incoming > headroom
         then (0, k\<lparr>r_fields := live,
                    r_kexp := (if maxexp > 0 then Some (maxexp + 1000)
                               else if live = [] then None else r_kexp k)\<rparr>)
         else
           let myexp = now + ttl;
               maxexp' = (if myexp > maxexp then myexp else maxexp)
           in (1, k\<lparr>r_fields := hset drainer (Hold (resv_mine drainer live + incoming) myexp) live,
                    r_kexp := Some (maxexp' + 1000)\<rparr>))"

definition expireDrainTargetSoon :: "shard_id \<Rightarrow> nat \<Rightarrow> ms \<Rightarrow> resv_key \<Rightarrow> nat \<times> resv_key" where
  "expireDrainTargetSoon drainer ttl now k0 =
     (let k = resv_seen now k0 in
      case map_of (r_fields k) drainer of
        Some (Hold cnt e) \<Rightarrow>
          let want = now + ttl
          in if want \<ge> e then (0, k)
             else (1, k\<lparr>r_fields := hset drainer (Hold cnt want) (r_fields k)\<rparr>)
      | _ \<Rightarrow> (0, k))"

definition hdelDrainer :: "shard_id \<Rightarrow> ms \<Rightarrow> resv_key \<Rightarrow> nat \<times> resv_key" where
  "hdelDrainer drainer now k0 =
     (let k = resv_seen now k0;
          fs = hdel drainer (r_fields k)
      in (1, k\<lparr>r_fields := fs, r_kexp := (if fs = [] then None else r_kexp k)\<rparr>))"

type_synonym resvs = "shard_id \<Rightarrow> resv_key"

definition ReserveDrainTarget ::
  "dir_error net \<Rightarrow> ms \<Rightarrow> shard_id \<Rightarrow> shard_id \<Rightarrow> int \<Rightarrow> nat \<Rightarrow> nat \<Rightarrow> resvs
     \<Rightarrow> (dir_error + bool) \<times> resvs" where
  "ReserveDrainTarget net now target drainer headroom incoming ttl d =
     (let (r, d') = round_trip net (on_key (reserveDrainTarget drainer incoming headroom ttl now) target) d
      in (reply_is_1 r, d'))"

definition ReleaseDrainTarget ::
  "dir_error net \<Rightarrow> ms \<Rightarrow> shard_id \<Rightarrow> shard_id \<Rightarrow> resvs \<Rightarrow> (dir_error + unit) \<times> resvs" where
  "ReleaseDrainTarget net now target drainer d =
     (let (r, d') = round_trip net (on_key (hdelDrainer drainer now) target) d
      in (map_sum id (\<lambda>_. ()) r, d'))"

definition ExpireDrainTargetSoon ::
  "dir_error net \<Rightarrow> ms \<Rightarrow> shard_id \<Rightarrow> shard_id \<Rightarrow> nat \<Rightarrow> resvs \<Rightarrow> (dir_error + bool) \<times> resvs" where
  "ExpireDrainTargetSoon net now target drainer ttl d =
     (let (r, d') = round_trip net (on_key (expireDrainTargetSoon drainer ttl now) target) d
      in (reply_is_1 r, d'))"

section \<open>Plain keys with a lifetime\<close>

text \<open>\<open>SET key value\<close> with an expiration; go-redis writes no expiry for a zero duration.\<close>

definition set_px :: "'v \<Rightarrow> nat \<Rightarrow> ms \<Rightarrow> 'v timed option" where
  "set_px v ttl now = Some (v, if ttl = 0 then None else Some (now + ttl))"

type_synonym 'v keys = "string \<Rightarrow> 'v timed option"

definition SetDraining ::
  "dir_error net \<Rightarrow> ms \<Rightarrow> shard_id \<Rightarrow> nat \<Rightarrow> string keys \<Rightarrow> (dir_error + unit) \<times> string keys" where
  "SetDraining net now shardID ttl d =
     round_trip net (\<lambda>d. ((), d(shardID := set_px ''1'' ttl now))) d"

definition ClearDraining ::
  "dir_error net \<Rightarrow> shard_id \<Rightarrow> string keys \<Rightarrow> (dir_error + unit) \<times> string keys" where
  "ClearDraining net shardID d = round_trip net (\<lambda>d. ((), d(shardID := None))) d"

fun ListDraining :: "(dir_error + shard_id list) list \<Rightarrow> dir_error + shard_id set" where
  "ListDraining [] = Inr {}"
| "ListDraining (Inl e # pages) = Inl e"
| "ListDraining (Inr ids # pages) =
     (case ListDraining pages of
        Inl e \<Rightarrow> Inl e
      | Inr out \<Rightarrow> Inr (set (filter (\<lambda>i. i \<noteq> '''') ids) \<union> out))"

definition SetZoneOccupancy ::
  "dir_error net \<Rightarrow> ms \<Rightarrow> zone_id \<Rightarrow> nat \<Rightarrow> nat \<Rightarrow> nat keys \<Rightarrow> (dir_error + unit) \<times> nat keys" where
  "SetZoneOccupancy net now zoneID players ttl d =
     round_trip net (\<lambda>d. ((), d(zoneID := set_px players ttl now))) d"

text \<open>The key of a page may lapse, or its read fail, before the \<open>GET\<close>: the zone is skipped.\<close>

definition occ_read :: "(zone_id \<Rightarrow> dir_error net) \<Rightarrow> ms \<Rightarrow> nat keys \<Rightarrow> zone_id \<Rightarrow> nat option" where
  "occ_read rd now d z =
     (if z = '''' then None
      else case fst (round_trip (rd z) (\<lambda>d. (visible now (d z), d)) d) of
             Inl _ \<Rightarrow> None | Inr n \<Rightarrow> n)"

fun ZoneOccupancies ::
  "(dir_error + zone_id list) list \<Rightarrow> (zone_id \<Rightarrow> dir_error net) \<Rightarrow> ms \<Rightarrow> nat keys
     \<Rightarrow> (zone_id \<rightharpoonup> nat) \<Rightarrow> dir_error + (zone_id \<rightharpoonup> nat)" where
  "ZoneOccupancies [] rd now d out = Inr out"
| "ZoneOccupancies (Inl e # pages) rd now d out = Inl e"
| "ZoneOccupancies (Inr zs # pages) rd now d out =
     ZoneOccupancies pages rd now d
       (foldl (\<lambda>m z. case occ_read rd now d z of Some n \<Rightarrow> m(z \<mapsto> n) | None \<Rightarrow> m) out zs)"

section \<open>The rebalance directive and the cooldown\<close>

definition IssueRebalance ::
  "dir_error net \<Rightarrow> ms \<Rightarrow> zone_id \<Rightarrow> shard_id \<Rightarrow> nat \<Rightarrow> string keys \<Rightarrow> (dir_error + unit) \<times> string keys" where
  "IssueRebalance net now zoneID toShard ttl d =
     round_trip net (\<lambda>d. ((), d(zoneID := set_px toShard ttl now))) d"

definition ReadRebalance ::
  "dir_error net \<Rightarrow> ms \<Rightarrow> zone_id \<Rightarrow> string keys \<Rightarrow> dir_error + (shard_id \<times> bool)" where
  "ReadRebalance net now zoneID d =
     (case fst (round_trip net (\<lambda>d. (visible now (d zoneID), d)) d) of
        Inl e \<Rightarrow> Inl e
      | Inr None \<Rightarrow> Inr ('''', False)
      | Inr (Some to) \<Rightarrow> Inr (to, to \<noteq> ''''))"

definition refreshRebalance ::
  "shard_id \<Rightarrow> nat \<Rightarrow> ms \<Rightarrow> string timed option \<Rightarrow> nat \<times> string timed option" where
  "refreshRebalance toShard ttl now k =
     (if visible now k = Some toShard
      then (1, if ttl = 0 then None else Some (toShard, Some (now + ttl)))
      else (0, k))"

definition clearRebalance :: "shard_id \<Rightarrow> ms \<Rightarrow> string timed option \<Rightarrow> nat \<times> string timed option" where
  "clearRebalance toShard now k = (1, if visible now k = Some toShard then None else k)"

definition RefreshRebalance ::
  "dir_error net \<Rightarrow> ms \<Rightarrow> zone_id \<Rightarrow> shard_id \<Rightarrow> nat \<Rightarrow> string keys \<Rightarrow> (dir_error + unit) \<times> string keys" where
  "RefreshRebalance net now zoneID toShard ttl d =
     (let (r, d') = round_trip net (on_key (refreshRebalance toShard ttl now) zoneID) d
      in (map_sum id (\<lambda>_. ()) r, d'))"

definition ClearRebalance ::
  "dir_error net \<Rightarrow> ms \<Rightarrow> zone_id \<Rightarrow> shard_id \<Rightarrow> string keys \<Rightarrow> (dir_error + unit) \<times> string keys" where
  "ClearRebalance net now zoneID toShard d =
     (let (r, d') = round_trip net (on_key (clearRebalance toShard now) zoneID) d
      in (map_sum id (\<lambda>_. ()) r, d'))"

definition SetCooldown ::
  "dir_error net \<Rightarrow> ms \<Rightarrow> zone_id \<Rightarrow> nat \<Rightarrow> string keys \<Rightarrow> (dir_error + unit) \<times> string keys" where
  "SetCooldown net now zoneID ttl d = round_trip net (\<lambda>d. ((), d(zoneID := set_px ''1'' ttl now))) d"

definition OnCooldown :: "dir_error net \<Rightarrow> ms \<Rightarrow> zone_id \<Rightarrow> string keys \<Rightarrow> dir_error + bool" where
  "OnCooldown net now zoneID d =
     fst (round_trip net (\<lambda>d. (visible now (d zoneID) \<noteq> None, d)) d)"

section \<open>Templates in use\<close>

text \<open>
  One pipeline for the whole batch: the server executes the commands in order, and a failed
  \<open>Exec\<close> has executed some prefix of them (the argument \<open>pipe\<close>).
\<close>

definition set_templates :: "string list \<Rightarrow> shard_id \<Rightarrow> nat \<Rightarrow> ms \<Rightarrow> string keys \<Rightarrow> string keys" where
  "set_templates ts sh ttl now d = foldl (\<lambda>d t. d(t := set_px sh ttl now)) d ts"

definition SetTemplatesInUse ::
  "(nat \<times> dir_error) option \<Rightarrow> ms \<Rightarrow> string list \<Rightarrow> shard_id \<Rightarrow> nat \<Rightarrow> string keys
     \<Rightarrow> (dir_error + unit) \<times> string keys" where
  "SetTemplatesInUse pipe now ts sh ttl d =
     (if ts = [] then (Inr (), d)
      else case pipe of
             None \<Rightarrow> (Inr (), set_templates ts sh ttl now d)
           | Some (n, e) \<Rightarrow> (Inl e, set_templates (take n ts) sh ttl now d))"

definition TemplateInUse :: "dir_error net \<Rightarrow> ms \<Rightarrow> string \<Rightarrow> string keys \<Rightarrow> dir_error + bool" where
  "TemplateInUse net now t d = fst (round_trip net (\<lambda>d. (visible now (d t) \<noteq> None, d)) d)"

declare no_resv_def [drain_defs] resv_seen_def [drain_defs] resv_total_def [drain_defs]
  resv_mine_def [drain_defs] reserveDrainTarget_def [drain_defs]
  expireDrainTargetSoon_def [drain_defs] hdelDrainer_def [drain_defs] hdel_def [drain_defs]
  set_px_def [drain_defs] refreshRebalance_def [drain_defs] clearRebalance_def [drain_defs]

section \<open>Lemmas on the reservation hash\<close>

definition resv_live :: "ms \<Rightarrow> resv_key \<Rightarrow> nat" where
  "resv_live t k = resv_total (filter (hold_live t) (r_fields (resv_seen t k)))"

definition resv_wf :: "resv_key \<Rightarrow> bool" where
  "resv_wf k \<longleftrightarrow> distinct (map fst (r_fields k))"

lemma set_hset_fst: "fst ` set (hset f v xs) = insert f (fst ` set xs)"
  by (induction f v xs rule: hset.induct) auto

lemma distinct_hset: "distinct (map fst xs) \<Longrightarrow> distinct (map fst (hset f v xs))"
  by (induction f v xs rule: hset.induct) (auto simp: set_hset_fst [simplified])

lemma map_of_hset: "map_of (hset f v xs) = (map_of xs)(f \<mapsto> v)"
  by (induction f v xs rule: hset.induct) (auto simp: fun_eq_iff)

lemma distinct_filter_fst: "distinct (map fst xs) \<Longrightarrow> distinct (map fst (filter P xs))"
  by (induction xs) auto

lemma hset_total:
  assumes "distinct (map fst xs)"
  shows "resv_total (hset f (Hold (resv_mine f xs + n) e) xs) = resv_total xs + n"
proof -
  have "resv_total (hset f (Hold (resv_mine f xs + n) e) xs) + resv_mine f xs =
        resv_total xs + (resv_mine f xs + n)"
    using assms
  proof (induction xs)
    case Nil
    then show ?case by (simp add: resv_total_def resv_mine_def)
  next
    case (Cons a xs)
    obtain g w where a: "a = (g, w)" by (cases a)
    show ?case
    proof (cases "g = f")
      case True
      then show ?thesis by (simp add: a resv_total_def resv_mine_def)
    next
      case False
      have "hold_count (g, w) = hold_count a" by (simp add: a)
      with False Cons show ?thesis by (simp add: a resv_total_def resv_mine_def)
    qed
  qed
  then show ?thesis by simp
qed

lemma hset_subset: "x \<in> set (hset f v xs) \<Longrightarrow> x = (f, v) \<or> x \<in> set xs"
  by (induction f v xs rule: hset.induct) (auto split: if_splits)

lemma hold_live_earlier: "hold_live t' x \<Longrightarrow> t \<le> t' \<Longrightarrow> hold_live t x"
  by (cases "(t', x)" rule: hold_live.cases) auto

lemma hold_live_iff: "hold_live t x \<Longrightarrow> t < hold_exp x"
  by (cases "(t, x)" rule: hold_live.cases) auto

lemma max_other_exp_upper:
  "x \<in> set xs \<Longrightarrow> fst x \<noteq> me \<Longrightarrow> hold_exp x \<le> max_other_exp me xs"
  by (induction xs) auto

lemma resv_total_filter_mono:
  "(\<And>x. x \<in> set xs \<Longrightarrow> P x \<Longrightarrow> Q x) \<Longrightarrow> resv_total (filter P xs) \<le> resv_total (filter Q xs)"
  by (induction xs) (auto simp: resv_total_def intro: le_SucI add_mono trans_le_add2)

lemma resv_live_antimono: "t \<le> t' \<Longrightarrow> resv_live t' k \<le> resv_live t k"
proof -
  assume le: "t \<le> t'"
  have "r_fields (resv_seen t' k) = [] \<or> resv_seen t' k = k \<and> resv_seen t k = k"
    using le by (auto simp: resv_seen_def no_resv_def split: option.splits)
  then show ?thesis
    using resv_total_filter_mono [of "r_fields k" "hold_live t'" "hold_live t"] hold_live_earlier le
    by (auto simp: resv_live_def resv_total_def [of "[]"])
qed

lemma resv_wf_seen: "resv_wf k \<Longrightarrow> resv_wf (resv_seen now k)"
  by (auto simp: resv_wf_def resv_seen_def no_resv_def split: option.splits)

lemma reserve_wf: "resv_wf k \<Longrightarrow> resv_wf (snd (reserveDrainTarget me n h ttl now k))"
  using resv_wf_seen [of k now]
  by (auto simp: reserveDrainTarget_def Let_def resv_wf_def intro: distinct_hset distinct_filter_fst)

lemma hset_hold_live:
  assumes "\<forall>x \<in> set xs. hold_live now x" and "0 < ttl"
  shows "filter (hold_live now) (hset f (Hold c (now + ttl)) xs) = hset f (Hold c (now + ttl)) xs"
  using assms by (intro filter_True) (auto dest!: hset_subset)

text \<open>The sum at the instant of the call: exactly \<open>incoming\<close> more when admitted, unchanged when refused.\<close>

lemma reserve_admitted_live:
  assumes "resv_wf k" and "0 < ttl" and "fst (reserveDrainTarget me n h ttl now k) = 1"
  shows "resv_live now (snd (reserveDrainTarget me n h ttl now k)) = resv_live now k + n \<and>
         int (resv_live now k) + int n \<le> h"
proof -
  let ?live = "filter (hold_live now) (r_fields (resv_seen now k))"
  have fits: "\<not> int (resv_total ?live) + int n > h"
    using assms(3) by (auto simp: reserveDrainTarget_def Let_def split: if_splits)
  have d: "distinct (map fst ?live)"
    using resv_wf_seen [OF assms(1)] by (auto simp: resv_wf_def intro: distinct_filter_fst)
  have "resv_live now (snd (reserveDrainTarget me n h ttl now k)) =
        resv_total (hset me (Hold (resv_mine me ?live + n) (now + ttl)) ?live)"
    using fits assms(2)
    by (simp add: resv_live_def reserveDrainTarget_def Let_def resv_seen_def [of now "_ :: resv_key"]
        hset_hold_live)
  then show ?thesis using hset_total [OF d] fits by (simp add: resv_live_def)
qed

lemma max_other_exp_live:
  "\<forall>x \<in> set xs. hold_live now x \<Longrightarrow> 0 < max_other_exp me xs \<Longrightarrow> now < max_other_exp me xs"
  by (induction xs) (auto simp: less_max_iff_disj dest: hold_live_iff split: if_splits)

lemma resv_seen_visible: "case r_kexp k of Some t \<Rightarrow> now < t | None \<Rightarrow> True \<Longrightarrow> resv_seen now k = k"
  by (auto simp: resv_seen_def split: option.splits)

lemma resv_seen_kexp: "case r_kexp (resv_seen now k) of Some t \<Rightarrow> now < t | None \<Rightarrow> True"
  by (auto simp: resv_seen_def no_resv_def split: option.splits)

lemma reserve_refused_live:
  assumes "fst (reserveDrainTarget me n h ttl now k) = 0"
  shows "resv_live now (snd (reserveDrainTarget me n h ttl now k)) = resv_live now k"
proof -
  let ?k = "resv_seen now k"
  let ?live = "filter (hold_live now) (r_fields ?k)"
  let ?m = "max_other_exp me ?live"
  have out: "snd (reserveDrainTarget me n h ttl now k) =
    ?k\<lparr>r_fields := ?live,
       r_kexp := (if ?m > 0 then Some (?m + 1000) else if ?live = [] then None else r_kexp ?k)\<rparr>"
    using assms by (auto simp: reserveDrainTarget_def Let_def split: if_splits)
  have key: "case r_kexp (?k\<lparr>r_fields := ?live,
       r_kexp := (if ?m > 0 then Some (?m + 1000) else if ?live = [] then None else r_kexp ?k)\<rparr>) of
      Some t \<Rightarrow> now < t | None \<Rightarrow> True"
    using max_other_exp_live [of ?live now me] resv_seen_kexp [of now k] by auto
  show ?thesis
    unfolding out resv_live_def resv_seen_visible [OF key] by simp
qed

lemma reserve_reply: "fst (reserveDrainTarget me n h ttl now k) \<in> {0, 1}"
  by (simp add: reserveDrainTarget_def Let_def)

section \<open>Histories of one target\<close>

text \<open>A reserve call: the instant, the drainer, the players it sends, the headroom it computed, its lifetime.\<close>

type_synonym reserve_call = "ms \<times> shard_id \<times> nat \<times> int \<times> nat"

fun reserve_run :: "reserve_call list \<Rightarrow> resv_key \<Rightarrow> resv_key" where
  "reserve_run [] k = k"
| "reserve_run ((t, me, n, h, ttl) # cs) k = reserve_run cs (snd (reserveDrainTarget me n h ttl t k))"

lemma reserve_call_bound:
  assumes "resv_wf k" and "0 < ttl" and "h \<le> H" and "int (resv_live now k) \<le> H"
  shows "int (resv_live now (snd (reserveDrainTarget me n h ttl now k))) \<le> H"
  using reserve_reply [of me n h ttl now k] reserve_admitted_live [OF assms(1,2), of me n h now]
    reserve_refused_live [of me n h ttl now k] assms(3,4)
  by auto

lemma reserve_run_bound:
  assumes "resv_wf k" and "sorted (map fst cs)" and "\<forall>(t, me, n, h, ttl) \<in> set cs. u \<le> t \<and> 0 < ttl \<and> h \<le> H"
    and "int (resv_live u k) \<le> H" and "\<forall>c \<in> set cs. fst c \<le> t" and "u \<le> t"
  shows "int (resv_live t (reserve_run cs k)) \<le> H"
  using assms
proof (induction cs arbitrary: k u)
  case Nil
  then show ?case using resv_live_antimono [of u t k] by simp
next
  case (Cons c cs)
  obtain s me n h ttl where c: "c = (s, me, n, h, ttl)" by (cases c) auto
  let ?k = "snd (reserveDrainTarget me n h ttl s k)"
  from Cons.prems c have s: "u \<le> s" "0 < ttl" "h \<le> H" "s \<le> t" by auto
  have "int (resv_live s k) \<le> H"
    using Cons.prems(4) resv_live_antimono [OF s(1), of k] by linarith
  then have "int (resv_live s ?k) \<le> H" by (rule reserve_call_bound [OF Cons.prems(1) s(2,3)])
  then have "int (resv_live t (reserve_run cs ?k)) \<le> H"
    using Cons.prems c s(4) by (intro Cons.IH [OF reserve_wf [OF Cons.prems(1)]]) auto
  then show ?case by (simp add: c)
qed

section \<open>Properties\<close>

text \<open>
  The reservation never over-commits a target. Whatever drainers reserve, in whatever
  order, if no call computes a headroom above \<open>H\<close> then the live reservations on the target
  never add up to more than \<open>H\<close>.
\<close>

lemma reservations_fit_headroom:
  assumes "sorted (map fst cs)" and "\<forall>(t, me, n, h, ttl) \<in> set cs. 0 < ttl \<and> h \<le> H"
    and "0 \<le> H" and "\<forall>c \<in> set cs. fst c \<le> t"
  shows "int (resv_live t (reserve_run cs no_resv)) \<le> H"
proof (rule reserve_run_bound [where u = 0])
  show "resv_wf no_resv" by (simp add: resv_wf_def no_resv_def)
  show "sorted (map fst cs)" by (rule assms(1))
  show "\<forall>(t, me, n, h, ttl) \<in> set cs. 0 \<le> t \<and> 0 < ttl \<and> h \<le> H" using assms(2) by auto
  show "int (resv_live 0 no_resv) \<le> H"
    using assms(3) by (simp add: resv_live_def resv_seen_def no_resv_def resv_total_def)
qed (use assms(4) in auto)

text \<open>
  A refused reservation can evict the caller's own live hold. The key's expiry is reset
  to the latest expiry among the \<^emph>\<open>other\<close> drainers plus one second, which may come before
  the caller's own hold lapses; the hold then disappears early, and the target's reserved
  load is under-counted. Here \<open>b\<close> holds 5 players until 100000; its refused second call at
  time 1 makes the whole key lapse at 2000, so at 3000 nothing is reserved.
\<close>

lemma refused_reserve_drops_own_hold:
  "let k = reserve_run [(0, ''a'', 1, 10, 1000), (0, ''b'', 5, 10, 100000)] no_resv;
       k' = snd (reserveDrainTarget ''b'' 100 10 100000 1 k)
   in resv_live 3000 k = 5 \<and> fst (reserveDrainTarget ''b'' 100 10 100000 1 k) = 0 \<and> resv_live 3000 k' = 0"
  by (simp add: reserveDrainTarget_def Let_def resv_live_def resv_seen_def no_resv_def resv_total_def
      resv_mine_def)

definition resv_by :: "ms \<Rightarrow> shard_id \<Rightarrow> resv_key \<Rightarrow> nat" where
  "resv_by t d k = resv_total (filter (\<lambda>x. fst x = d \<and> hold_live t x) (r_fields (resv_seen t k)))"

definition holds_lapse_by :: "ms \<Rightarrow> shard_id \<Rightarrow> resv_key \<Rightarrow> bool" where
  "holds_lapse_by e d k \<longleftrightarrow> (\<forall>x \<in> set (r_fields k). fst x = d \<longrightarrow> hold_exp x \<le> e)"

lemma resv_seen_fields: "set (r_fields (resv_seen now k)) \<subseteq> set (r_fields k)"
  by (auto simp: resv_seen_def no_resv_def split: option.splits)

lemma reserve_fields:
  "set (r_fields (snd (reserveDrainTarget me n h ttl now k))) \<subseteq>
     set (r_fields k) \<union> {(me, Hold c (now + ttl)) | c. True}"
  using resv_seen_fields [of now k]
  by (auto simp: reserveDrainTarget_def Let_def dest!: hset_subset)

lemma holds_lapse_by_reserve:
  "holds_lapse_by e d k \<Longrightarrow> me \<noteq> d \<Longrightarrow> holds_lapse_by e d (snd (reserveDrainTarget me n h ttl now k))"
  using reserve_fields [of me n h ttl now k] unfolding holds_lapse_by_def by fastforce

lemma holds_lapse_by_run:
  "holds_lapse_by e d k \<Longrightarrow> \<forall>c \<in> set cs. fst (snd c) \<noteq> d \<Longrightarrow> holds_lapse_by e d (reserve_run cs k)"
  by (induction cs k rule: reserve_run.induct) (auto intro: holds_lapse_by_reserve)

lemma holds_lapse_by_zero: "holds_lapse_by e d k \<Longrightarrow> e \<le> t \<Longrightarrow> resv_by t d k = 0"
proof -
  assume h: "holds_lapse_by e d k" "e \<le> t"
  have "filter (\<lambda>x. fst x = d \<and> hold_live t x) (r_fields (resv_seen t k)) = []"
    using h resv_seen_fields [of t k]
    by (fastforce simp: filter_empty_conv holds_lapse_by_def dest: hold_live_iff)
  then show ?thesis by (simp add: resv_by_def resv_total_def)
qed

text \<open>
  A crashed drainer's hold lapses on its own clock. Once all holds of a drainer expire by
  \<open>e\<close>, nothing other drainers reserve afterwards, however often, keeps any of them counted at
  or after \<open>e\<close>.
\<close>

lemma crashed_drainer_hold_lapses:
  assumes "holds_lapse_by e d k" and "\<forall>c \<in> set cs. fst (snd c) \<noteq> d" and "e \<le> t"
  shows "resv_by t d (reserve_run cs k) = 0"
  using holds_lapse_by_zero [OF holds_lapse_by_run [OF assms(1,2)] assms(3)] .

text \<open>
  The rebalance fence. An owner finishing or refreshing a drain to one target cannot
  clear, nor keep alive, a directive the coordinator has re-pointed at another target.
\<close>

lemma rebalance_fence:
  assumes "new \<noteq> old"
  shows "clearRebalance old now (set_px new ttl t) = (1, set_px new ttl t) \<and>
         refreshRebalance old ttl' now (set_px new ttl t) = (0, set_px new ttl t)"
  using assms by (auto simp: drain_defs dest!: visible_SomeD)

end
