(* ===== verification/Session_Lock.thy ===== *)
theory Session_Lock
  imports Prelude
begin

text \<open>
  \<^verbatim>\<open>internal/sessionlock\<close>: one live session per character. The interface is a locale; the
  in-memory lock (\<^verbatim>\<open>mem.go\<close>) and the Redis lock (\<^verbatim>\<open>redis.go\<close>) both interpret it. The client
  is the renewer of \<^verbatim>\<open>internal/world/server.go\<close>, which kicks its connection when a renewal
  reports the lock lost.
\<close>

definition Key :: "string \<Rightarrow> string" where
  "Key character = ''session:'' @ character"

section \<open>The in-memory lock\<close>

record memEntry =
  e_token :: string
  e_expires :: ms

text \<open>\<open>time.Now().After(e.expires)\<close> is strict: the entry is live up to and including its expiry.\<close>

definition liveLocked :: "ms \<Rightarrow> memEntry option \<Rightarrow> memEntry option" where
  "liveLocked now x =
     (case x of None \<Rightarrow> None | Some e \<Rightarrow> if e_expires e < now then None else Some e)"

definition mem_Acquire :: "string \<Rightarrow> nat \<Rightarrow> ms \<Rightarrow> memEntry option \<Rightarrow> string \<times> memEntry option" where
  "mem_Acquire token ttl now x =
     (case liveLocked now x of Some e \<Rightarrow> e_token e | None \<Rightarrow> '''',
      Some \<lparr>e_token = token, e_expires = now + ttl\<rparr>)"

definition mem_Renew :: "string \<Rightarrow> nat \<Rightarrow> ms \<Rightarrow> memEntry option \<Rightarrow> bool \<times> memEntry option" where
  "mem_Renew token ttl now x =
     (case liveLocked now x of
        Some e \<Rightarrow> if e_token e = token then (True, Some \<lparr>e_token = token, e_expires = now + ttl\<rparr>)
                  else (False, x)
      | None \<Rightarrow> (False, x))"

definition mem_Release :: "string \<Rightarrow> ms \<Rightarrow> memEntry option \<Rightarrow> memEntry option" where
  "mem_Release token now x =
     (case x of Some e \<Rightarrow> (if e_token e = token then None else x) | None \<Rightarrow> x)"

definition mem_holder :: "ms \<Rightarrow> memEntry option \<Rightarrow> string option" where
  "mem_holder now x = map_option e_token (liveLocked now x)"

section \<open>The Redis lock\<close>

text \<open>
  \<open>SET key token EX ttl GET\<close>, and the two compare-and-act scripts. A zero duration writes no
  expiry on \<open>SET\<close>; \<open>PEXPIRE\<close> with 0 deletes the key.
\<close>

definition redis_Acquire :: "string \<Rightarrow> nat \<Rightarrow> ms \<Rightarrow> string timed option \<Rightarrow> string \<times> string timed option" where
  "redis_Acquire token ttl now k =
     (case visible now k of Some prev \<Rightarrow> prev | None \<Rightarrow> '''',
      Some (token, if ttl = 0 then None else Some (now + ttl)))"

definition renewScript :: "string \<Rightarrow> nat \<Rightarrow> ms \<Rightarrow> string timed option \<Rightarrow> nat \<times> string timed option" where
  "renewScript token ttl now k =
     (if visible now k = Some token
      then (1, if ttl = 0 then None else Some (token, Some (now + ttl)))
      else (0, k))"

definition releaseScript :: "string \<Rightarrow> ms \<Rightarrow> string timed option \<Rightarrow> nat \<times> string timed option" where
  "releaseScript token now k = (if visible now k = Some token then (1, None) else (0, k))"

definition redis_Renew :: "string \<Rightarrow> nat \<Rightarrow> ms \<Rightarrow> string timed option \<Rightarrow> bool \<times> string timed option" where
  "redis_Renew token ttl now k =
     (fst (renewScript token ttl now k) = 1, snd (renewScript token ttl now k))"

definition redis_Release :: "string \<Rightarrow> ms \<Rightarrow> string timed option \<Rightarrow> string timed option" where
  "redis_Release token now k = snd (releaseScript token now k)"

declare liveLocked_def [lock_defs] mem_Acquire_def [lock_defs] mem_Renew_def [lock_defs]
  mem_Release_def [lock_defs] mem_holder_def [lock_defs] redis_Acquire_def [lock_defs]
  renewScript_def [lock_defs] releaseScript_def [lock_defs] redis_Renew_def [lock_defs]
  redis_Release_def [lock_defs]

section \<open>The client\<close>

text \<open>
  One session of \<^verbatim>\<open>runSessionLockRenewer\<close>: each tick renews through a round trip that may
  fail. An error keeps the session; a definite \<open>owned = false\<close> kicks it and ends the loop.
\<close>

datatype renewer = Renewing | Kicked

definition renew_tick ::
  "(string \<Rightarrow> nat \<Rightarrow> ms \<Rightarrow> 'h \<Rightarrow> bool \<times> 'h) \<Rightarrow> string \<Rightarrow> nat \<Rightarrow> string net \<Rightarrow> ms \<Rightarrow> renewer \<times> 'h
     \<Rightarrow> renewer \<times> 'h" where
  "renew_tick renew token ttl net now s =
     (case s of
        (Kicked, h) \<Rightarrow> (Kicked, h)
      | (Renewing, h) \<Rightarrow>
          (case round_trip net (renew token ttl now) h of
             (Inl _, h') \<Rightarrow> (Renewing, h')
           | (Inr owned, h') \<Rightarrow> (if owned then Renewing else Kicked, h')))"

section \<open>The contract\<close>

locale session_lock =
  fixes acquire :: "string \<Rightarrow> nat \<Rightarrow> ms \<Rightarrow> 'h \<Rightarrow> string \<times> 'h"
    and renew :: "string \<Rightarrow> nat \<Rightarrow> ms \<Rightarrow> 'h \<Rightarrow> bool \<times> 'h"
    and release :: "string \<Rightarrow> ms \<Rightarrow> 'h \<Rightarrow> 'h"
    and holder :: "ms \<Rightarrow> 'h \<Rightarrow> string option"
  assumes acquire_prev: "fst (acquire tok ttl now h) = (case holder now h of Some w \<Rightarrow> w | None \<Rightarrow> '''')"
    and acquire_holder: "now \<le> t \<Longrightarrow> t < now + ttl \<Longrightarrow> holder t (snd (acquire tok ttl now h)) = Some tok"
    and renew_owned: "fst (renew tok ttl now h) = (holder now h = Some tok)"
    and renew_extends: "holder now h = Some tok \<Longrightarrow> now \<le> t \<Longrightarrow> t < now + ttl \<Longrightarrow>
      holder t (snd (renew tok ttl now h)) = Some tok"
    and renew_displaced: "holder now h \<noteq> Some tok \<Longrightarrow> snd (renew tok ttl now h) = h"
    and release_own: "holder now h = Some tok \<Longrightarrow> now \<le> t \<Longrightarrow> holder t (release tok now h) = None"
    and release_displaced: "holder now h = Some w \<Longrightarrow> w \<noteq> tok \<Longrightarrow> release tok now h = h"
    and holder_earlier: "holder t h = Some w \<Longrightarrow> now \<le> t \<Longrightarrow> holder now h = Some w"
begin

text \<open>
  Takeover: while the newer session's lock is live, the displaced session's next served
  renewal kicks it, and nothing it does (ticks, a failed tick, its final release) disturbs
  the newer session's lock.
\<close>

lemma displaced_tick:
  assumes "holder t h = Some new" and "now \<le> t" and "new \<noteq> old"
  shows "renew_tick renew old ttl net now (Renewing, h) =
         ((if net = Served then Kicked else Renewing), h)"
proof -
  have h: "holder now h = Some new" using holder_earlier [OF assms(1,2)] .
  with assms(3) have "snd (renew old ttl now h) = h" "\<not> fst (renew old ttl now h)"
    using renew_displaced renew_owned by auto
  then show ?thesis by (cases net) (auto simp: renew_tick_def)
qed

lemma displaced_release:
  assumes "holder t h = Some new" and "now \<le> t" and "new \<noteq> old"
  shows "release old now h = h"
  using release_displaced [OF holder_earlier [OF assms(1,2)]] assms(3) by blast

lemma takeover_kicks_and_keeps:
  assumes "now \<le> t" and "t < now + ttl" and "new \<noteq> old"
  shows "renew_tick renew old ttl' Served t (Renewing, snd (acquire new ttl now h)) =
           (Kicked, snd (acquire new ttl now h)) \<and>
         holder t (release old t (snd (acquire new ttl now h))) = Some new"
proof -
  have a: "holder t (snd (acquire new ttl now h)) = Some new"
    using assms(1,2) by (rule acquire_holder)
  then show ?thesis
    using displaced_tick [OF a order_refl assms(3)] displaced_release [OF a order_refl assms(3)] by simp
qed

lemma holder_keeps_lock:
  assumes "holder now h = Some tok" and "0 < ttl"
  shows "fst (renew_tick renew tok ttl net now (Renewing, h)) = Renewing \<and>
         holder now (snd (renew_tick renew tok ttl net now (Renewing, h))) = Some tok"
  using assms renew_owned [of tok ttl now h] renew_extends [of now h tok now ttl]
  by (cases net) (auto simp: renew_tick_def)

end

interpretation mem: session_lock mem_Acquire mem_Renew mem_Release mem_holder
  by unfold_locales (auto simp: lock_defs split: option.splits if_splits)

interpretation redis: session_lock redis_Acquire redis_Renew redis_Release "visible :: ms \<Rightarrow> string timed option \<Rightarrow> string option"
  by unfold_locales (auto simp: lock_defs visible_def split: option.splits if_splits)

section \<open>Properties\<close>

text \<open>
  Takeover, across shards. After a newer login acquires the Redis lock, any renewal of the
  displaced session served within the new lock's lifetime kicks that session, and its late
  release leaves the new holder's lock in place.
\<close>

lemma redis_takeover:
  assumes "now \<le> t" and "t < now + ttl" and "new \<noteq> old"
  shows "renew_tick redis_Renew old ttl' Served t (Renewing, snd (redis_Acquire new ttl now k)) =
           (Kicked, snd (redis_Acquire new ttl now k)) \<and>
         visible t (redis_Release old t (snd (redis_Acquire new ttl now k))) = Some new"
  using redis.takeover_kicks_and_keeps [OF assms] .

text \<open>
  The holder is never kicked by its own renewer: while it owns the lock, every tick,
  served or failed, keeps the session and leaves it the holder.
\<close>

lemma redis_holder_not_kicked:
  assumes "visible now k = Some tok" and "0 < ttl"
  shows "fst (renew_tick redis_Renew tok ttl net now (Renewing, k)) = Renewing \<and>
         visible now (snd (renew_tick redis_Renew tok ttl net now (Renewing, k))) = Some tok"
  using redis.holder_keeps_lock [OF assms] .

end
