(* ===== verification/Gate_Session.thy ===== *)
theory Gate_Session
  imports Prelude
begin

text \<open>
  The gate's per-connection session (\<open>internal/gate/session.go\<close>), the bridge that runs one Play
  stream for it (\<open>internal/gate/gate.go\<close>: \<open>runStream\<close>, \<open>runWriter\<close>, \<open>doReplay\<close>, \<open>runForwarder\<close>)
  and the world's side of the same stream (\<open>internal/world/zone.go\<close>: \<open>handleInput\<close>, the freeze of a
  handoff, \<open>handoffFailed\<close>, \<open>redirect\<close> and the handoff bind of \<open>attach\<close>), as one transition system:
  the interleavings of the gate's two goroutines, of the stream and of the zone are the sequences
  of \<open>link_event\<close>. The theorems are the exactly-once contract of a redirect.
\<close>

section \<open>The session and its buffer\<close>

record bufferedIn =
  bi_seq :: nat
  bi_text :: string

record session =
  s_id :: string
  nextSeq :: nat
  buf :: "bufferedIn list"
  frozen :: bool

definition newSession :: "string \<Rightarrow> session" where
  "newSession i = \<lparr>s_id = i, nextSeq = 0, buf = [], frozen = False\<rparr>"

definition add :: "string \<Rightarrow> session \<Rightarrow> (nat \<times> bool) \<times> session" where
  "add t s =
     (let q = nextSeq s + 1;
          s' = s\<lparr>nextSeq := q, buf := buf s @ [\<lparr>bi_seq = q, bi_text = t\<rparr>]\<rparr>
      in ((q, frozen s), s'))"

text \<open>The index loop of \<open>prune\<close> and \<open>replayFrom\<close>: the length of the acked prefix.\<close>

fun acked_prefix :: "nat \<Rightarrow> bufferedIn list \<Rightarrow> nat" where
  "acked_prefix ack [] = 0"
| "acked_prefix ack (b # bs) = (if bi_seq b \<le> ack then Suc (acked_prefix ack bs) else 0)"

definition prune :: "nat \<Rightarrow> session \<Rightarrow> nat \<times> session" where
  "prune ack s =
     (if ack = 0 then (0, s)
      else let i = acked_prefix ack (buf s)
           in if i = 0 then (0, s) else (i, s\<lparr>buf := drop i (buf s)\<rparr>))"

definition nextSeqValue :: "session \<Rightarrow> nat" where
  "nextSeqValue s = nextSeq s + 1"

definition freeze :: "session \<Rightarrow> session" where
  "freeze s = s\<lparr>frozen := True\<rparr>"

definition replayFrom :: "nat \<Rightarrow> session \<Rightarrow> bufferedIn list \<times> session" where
  "replayFrom ack s =
     (let i = acked_prefix ack (buf s);
          s' = (if i > 0 then s\<lparr>buf := drop i (buf s)\<rparr> else s)
      in (buf s', s'))"

definition tailAfter :: "nat \<Rightarrow> session \<Rightarrow> bufferedIn list" where
  "tailAfter sentThrough s = filter (\<lambda>b. bi_seq b > sentThrough) (buf s)"

definition thawIfDrained :: "nat \<Rightarrow> session \<Rightarrow> bool \<times> session" where
  "thawIfDrained sentThrough s =
     (if \<exists>b \<in> set (buf s). bi_seq b > sentThrough then (False, s)
      else (True, s\<lparr>frozen := False\<rparr>))"

section \<open>The world's side\<close>

record world_session =
  appliedSeq :: nat
  w_frozen :: bool
  handedOff :: bool

text \<open>
  \<open>handleInput\<close> for a resident player: the new session and whether the line is dispatched.
\<close>

definition handleInput :: "bufferedIn \<Rightarrow> world_session \<Rightarrow> bool \<times> world_session" where
  "handleInput v w =
     (if w_frozen w then (False, w)
      else if bi_seq v \<noteq> 0 \<and> bi_seq v \<le> appliedSeq w then (False, w)
      else (True, if bi_seq v \<noteq> 0 then w\<lparr>appliedSeq := bi_seq v\<rparr> else w))"

text \<open>The freeze of \<open>initiateHandoff\<close>, the commit marker, the thaw of a failed handoff.\<close>

definition initiateHandoff :: "world_session \<Rightarrow> world_session" where
  "initiateHandoff w = w\<lparr>w_frozen := True, handedOff := False\<rparr>"

definition markHandedOff :: "world_session \<Rightarrow> world_session" where
  "markHandedOff w = w\<lparr>handedOff := True\<rparr>"

definition handoffFailed :: "world_session \<Rightarrow> world_session" where
  "handoffFailed w = w\<lparr>w_frozen := False\<rparr>"

text \<open>
  The destination's bind: \<open>prepare\<close> seeded \<open>appliedSeq\<close> from the snapshot taken at the freeze,
  and \<open>attach\<close> unfreezes.
\<close>

definition handoff_bind :: "world_session \<Rightarrow> world_session" where
  "handoff_bind snap = \<lparr>appliedSeq = appliedSeq snap, w_frozen = False, handedOff = False\<rparr>"

text \<open>The fence of a link-dead resume or a second login (\<open>attach\<close>, no token).\<close>

definition reattach_fence :: "nat \<Rightarrow> world_session \<Rightarrow> world_session" where
  "reattach_fence inputSeq w =
     (if inputSeq \<ge> 1 \<and> inputSeq \<le> appliedSeq w then w\<lparr>appliedSeq := inputSeq - 1\<rparr> else w)"

section \<open>The bridge\<close>

datatype down_frame = Frame nat | Redirect nat

text \<open>
  Where the writer goroutine stands. \<open>Live\<close>: no replay owed. \<open>Await\<close>: a re-dial whose first frame
  has not come. \<open>Replaying lines sentThrough\<close>: inside \<open>doReplay\<close>. \<open>Broken\<close>: a replay send failed and
  \<open>doReplay\<close> returned. \<open>Closed\<close>: a redirect was taken and the send side closed.
\<close>

datatype phase = Live | Await | Replaying "bufferedIn list" nat | Broken | Closed

text \<open>
  \<open>hand\<close> is the line the forwarder has added and not yet sent; \<open>fwd\<close> says the forwarder runs;
  \<open>wire\<close> and \<open>down\<close> are the two directions of the current stream. \<open>typed\<close> and \<open>dispatched\<close> are the
  history the theorems speak of: what the player typed and what the world ran.
\<close>

record link =
  typed :: "string list"
  sess :: session
  hand :: "bufferedIn option"
  fwd :: bool
  phase :: phase
  wire :: "bufferedIn list"
  down :: "down_frame list"
  world :: world_session
  dispatched :: "bufferedIn list"

datatype link_event =
    Type_Line string | Send_Live | Send_Fails | Forwarder_Stops
  | Recv_Frame | Replay_Send | Replay_Fails | Replay_Check | Redial
  | Deliver | Emit_Frame | World_Freeze | World_Abort | World_Redirect

definition login :: "string \<Rightarrow> link" where
  "login i = \<lparr>typed = [], sess = newSession i, hand = None, fwd = True, phase = Live,
     wire = [], down = [], world = \<lparr>appliedSeq = 0, w_frozen = False, handedOff = False\<rparr>,
     dispatched = []\<rparr>"

text \<open>\<open>runForwarder\<close>: take a line, buffer it, and unless frozen hold it for the live send.\<close>

definition forwarder_takes :: "string \<Rightarrow> link \<Rightarrow> link" where
  "forwarder_takes t k =
     (case add t (sess k) of
        ((q, fr), s') \<Rightarrow>
          k\<lparr>typed := typed k @ [t], sess := s',
            hand := (if fr then None else Some \<lparr>bi_seq = q, bi_text = t\<rparr>)\<rparr>)"

text \<open>
  \<open>runWriter\<close>: every frame prunes; the first frame of a re-dial starts \<open>doReplay\<close>; a redirect
  closes the send side and ends the stream.
\<close>

definition writer_frame :: "nat \<Rightarrow> link \<Rightarrow> link" where
  "writer_frame ack k =
     (let s1 = snd (prune ack (sess k))
      in if phase k = Await
         then (case replayFrom ack s1 of
                 (ls, s2) \<Rightarrow> k\<lparr>sess := s2, phase := Replaying ls 0\<rparr>)
         else k\<lparr>sess := s1\<rparr>)"

definition writer_redirect :: "nat \<Rightarrow> link \<Rightarrow> link" where
  "writer_redirect ack k = k\<lparr>sess := snd (prune ack (sess k)), phase := Closed\<rparr>"

text \<open>The end of a replay batch in \<open>doReplay\<close>: thaw if drained, else fetch the tail.\<close>

definition replay_check :: "nat \<Rightarrow> link \<Rightarrow> link" where
  "replay_check sent k =
     (case thawIfDrained sent (sess k) of
        (True, s') \<Rightarrow> k\<lparr>sess := s', phase := Live\<rparr>
      | (False, s') \<Rightarrow> k\<lparr>sess := s', phase := Replaying (tailAfter sent s') sent\<rparr>)"

text \<open>
  \<open>runStream\<close> with a token: a fresh stream, the session frozen before its goroutines start, and the
  destination's \<open>Attached\<close> frame, which carries the resume point.
\<close>

definition redial :: "link \<Rightarrow> link" where
  "redial k =
     (let w = handoff_bind (world k)
      in k\<lparr>sess := freeze (sess k), fwd := True, phase := Await, wire := [],
           down := [Frame (appliedSeq w)], world := w\<rparr>)"

definition deliver :: "bufferedIn \<Rightarrow> bufferedIn list \<Rightarrow> link \<Rightarrow> link" where
  "deliver v rest k =
     (case handleInput v (world k) of
        (run, w') \<Rightarrow>
          k\<lparr>wire := rest, world := w',
            dispatched := (if run then dispatched k @ [v] else dispatched k)\<rparr>)"

text \<open>
  One step, \<open>None\<close> where it is not enabled. \<open>doReplay\<close> holds the send lock and the writer, so in
  \<open>Replaying\<close> there is neither a live send nor a received frame. A handoff is committed by
  \<open>World_Redirect\<close>; until then it may fail.
\<close>

fun link_step :: "link_event \<Rightarrow> link \<Rightarrow> link option" where
  "link_step (Type_Line t) k =
     (if fwd k \<and> hand k = None then Some (forwarder_takes t k) else None)"
| "link_step Send_Live k =
     (case hand k of
        Some b \<Rightarrow> if phase k = Live then Some (k\<lparr>wire := wire k @ [b], hand := None\<rparr>) else None
      | None \<Rightarrow> None)"
| "link_step Send_Fails k =
     (if hand k \<noteq> None then Some (k\<lparr>hand := None, fwd := False\<rparr>) else None)"
| "link_step Forwarder_Stops k =
     (if phase k = Closed \<and> hand k = None then Some (k\<lparr>fwd := False\<rparr>) else None)"
| "link_step Recv_Frame k =
     (case down k of
        Frame ack # rest \<Rightarrow>
          if phase k \<in> {Live, Await, Broken} then Some (writer_frame ack (k\<lparr>down := rest\<rparr>)) else None
      | Redirect ack # rest \<Rightarrow>
          if phase k \<in> {Live, Broken} then Some (writer_redirect ack (k\<lparr>down := rest\<rparr>)) else None
      | [] \<Rightarrow> None)"
| "link_step Replay_Send k =
     (case phase k of
        Replaying (b # bs) _ \<Rightarrow> Some (k\<lparr>wire := wire k @ [b], phase := Replaying bs (bi_seq b)\<rparr>)
      | _ \<Rightarrow> None)"
| "link_step Replay_Fails k =
     (case phase k of Replaying (b # bs) _ \<Rightarrow> Some (k\<lparr>phase := Broken\<rparr>) | _ \<Rightarrow> None)"
| "link_step Replay_Check k =
     (case phase k of Replaying [] sent \<Rightarrow> Some (replay_check sent k) | _ \<Rightarrow> None)"
| "link_step Redial k =
     (if phase k = Closed \<and> hand k = None \<and> \<not> fwd k then Some (redial k) else None)"
| "link_step Deliver k =
     (case wire k of v # rest \<Rightarrow> Some (deliver v rest k) | [] \<Rightarrow> None)"
| "link_step Emit_Frame k = Some (k\<lparr>down := down k @ [Frame (appliedSeq (world k))]\<rparr>)"
| "link_step World_Freeze k =
     (if w_frozen (world k) then None else Some (k\<lparr>world := initiateHandoff (world k)\<rparr>))"
| "link_step World_Abort k =
     (if w_frozen (world k) \<and> \<not> handedOff (world k)
      then Some (k\<lparr>world := handoffFailed (world k)\<rparr>) else None)"
| "link_step World_Redirect k =
     (if w_frozen (world k) \<and> \<not> handedOff (world k)
      then Some (k\<lparr>world := markHandedOff (world k),
                   down := down k @ [Redirect (appliedSeq (world k))]\<rparr>)
      else None)"

fun link_run :: "link_event list \<Rightarrow> link \<Rightarrow> link option" where
  "link_run [] k = Some k"
| "link_run (e # es) k = (case link_step e k of None \<Rightarrow> None | Some k' \<Rightarrow> link_run es k')"

section \<open>Numbered stretches of the typed lines\<close>

definition entry :: "string list \<Rightarrow> nat \<Rightarrow> bufferedIn" where
  "entry ts j = \<lparr>bi_seq = Suc j, bi_text = ts ! j\<rparr>"

text \<open>The lines with sequence numbers \<open>a + 1\<close> to \<open>b\<close>.\<close>

definition nums :: "string list \<Rightarrow> nat \<Rightarrow> nat \<Rightarrow> bufferedIn list" where
  "nums ts a b = map (entry ts) [a..<b]"

lemma entry_sel [simp]: "bi_seq (entry ts j) = Suc j" "bi_text (entry ts j) = ts ! j"
  by (simp_all add: entry_def)

lemma nums_empty [simp]: "b \<le> a \<Longrightarrow> nums ts a b = []"
  by (simp add: nums_def)

lemma nums_eq_Nil_iff [simp]: "nums ts a b = [] \<longleftrightarrow> b \<le> a"
  by (auto simp: nums_def)

lemma nums_Nil_iff [simp]: "[] = nums ts a b \<longleftrightarrow> b \<le> a"
  by (metis nums_eq_Nil_iff)

lemma nums_snoc: "a \<le> b \<Longrightarrow> nums ts a (Suc b) = nums ts a b @ [entry ts b]"
  by (simp add: nums_def)

lemma nums_Cons: "a < b \<Longrightarrow> nums ts a b = entry ts a # nums ts (Suc a) b"
  by (simp add: nums_def upt_conv_Cons)

lemma nums_ConsD:
  assumes "v # rest = nums ts a b"
  shows "a < b \<and> v = entry ts a \<and> rest = nums ts (Suc a) b"
  using assms by (cases "a < b") (simp_all add: nums_Cons)

lemma drop_nums: "drop j (nums ts a b) = nums ts (a + j) b"
  by (simp add: nums_def drop_map)

lemma nums_append: "b \<le> length ts \<Longrightarrow> nums (ts @ us) a b = nums ts a b"
  by (auto simp: nums_def entry_def nth_append)

lemma map_text_nums: "b \<le> length ts \<Longrightarrow> map bi_text (nums ts 0 b) = take b ts"
  by (rule nth_equalityI) (simp_all add: nums_def)

lemma acked_prefix_nums: "acked_prefix ack (nums ts a b) = min ack b - a"
proof (induction "b - a" arbitrary: a)
  case (Suc x)
  then have "a < b" "x = b - Suc a" by simp_all
  then show ?case using Suc.hyps(1) [of "Suc a"] by (auto simp: nums_Cons)
qed simp

lemma filter_upt_greater: "a \<le> c \<Longrightarrow> filter (\<lambda>j. c < Suc j) [a..<b] = [c..<b]"
  by (induction b) auto

lemma filter_nums_greater:
  assumes "a \<le> c" "sent = c \<or> sent = 0 \<and> c = a"
  shows "filter (\<lambda>x. bi_seq x > sent) (nums ts a b) = nums ts c b"
  using assms filter_upt_greater [of a c b] by (auto simp: nums_def filter_map comp_def)

section \<open>The invariant of a connection whose handoffs all commit\<close>

fun frame_ack :: "down_frame \<Rightarrow> nat" where
  "frame_ack (Frame a) = a"
| "frame_ack (Redirect a) = a"

fun is_redirect :: "down_frame \<Rightarrow> bool" where
  "is_redirect (Frame a) = False"
| "is_redirect (Redirect a) = True"

text \<open>
  What holds whatever the phase: the buffer is a stretch that reaches the last typed line and
  starts at or below the world's high-water mark, acks never run ahead of it, and the world ran
  exactly the first \<open>appliedSeq\<close> lines. \<open>p\<close> is where the buffer starts.
\<close>

definition base_ok :: "nat \<Rightarrow> link \<Rightarrow> bool" where
  "base_ok p k \<longleftrightarrow>
     nextSeq (sess k) = length (typed k) \<and>
     buf (sess k) = nums (typed k) p (length (typed k)) \<and>
     p \<le> appliedSeq (world k) \<and>
     appliedSeq (world k) \<le> length (typed k) \<and>
     (\<forall>f \<in> set (down k). frame_ack f \<le> appliedSeq (world k)) \<and>
     dispatched k = nums (typed k) 0 (appliedSeq (world k)) \<and>
     (phase k = Closed \<or> (\<exists>f \<in> set (down k). is_redirect f) \<longrightarrow> w_frozen (world k))"

text \<open>
  What holds while the world acts for the player: the wire carries a stretch that starts at or
  below the high-water mark, and what is still to be sent continues it without a gap.
\<close>

definition wire_ok :: "nat \<Rightarrow> nat \<Rightarrow> link \<Rightarrow> bool" where
  "wire_ok a b k \<longleftrightarrow>
     wire k = nums (typed k) a b \<and> a \<le> appliedSeq (world k) \<and> a \<le> b \<and> b \<le> length (typed k)"

definition phase_ok :: "nat \<Rightarrow> link \<Rightarrow> bool" where
  "phase_ok p k \<longleftrightarrow>
     (let n = length (typed k) in
      case phase k of
        Live \<Rightarrow> \<not> frozen (sess k) \<and>
          (case hand k of
             None \<Rightarrow> \<exists>a b. wire_ok a b k \<and> (fwd k \<longrightarrow> b = n)
           | Some h \<Rightarrow> \<exists>a. n \<noteq> 0 \<and> fwd k \<and> wire_ok a (n - 1) k \<and> h = entry (typed k) (n - 1))
      | Await \<Rightarrow> frozen (sess k) \<and> hand k = None \<and> wire k = [] \<and> fwd k \<and>
          (\<exists>ack rest. down k = Frame ack # rest)
      | Replaying ls sent \<Rightarrow> frozen (sess k) \<and> hand k = None \<and> fwd k \<and>
          (\<exists>a c d. wire_ok a c k \<and> p \<le> c \<and> c \<le> d \<and> d \<le> n \<and> ls = nums (typed k) c d \<and>
             (sent = c \<or> sent = 0 \<and> c = p \<and> a = c))
      | Broken \<Rightarrow> frozen (sess k) \<and> hand k = None \<and> (\<exists>a b. wire_ok a b k)
      | Closed \<Rightarrow> True)"

definition link_inv :: "link \<Rightarrow> bool" where
  "link_inv k \<longleftrightarrow> (\<exists>p. base_ok p k \<and> (w_frozen (world k) \<or> phase_ok p k))"

lemma link_inv_login: "link_inv (login i)"
  unfolding link_inv_def
  by (rule exI [of _ 0]) (auto simp: login_def newSession_def base_ok_def phase_ok_def wire_ok_def)

lemma prune_nums:
  assumes "buf s = nums ts p n" "ack \<le> ap" "p \<le> ap" "ap \<le> n"
  shows "\<exists>q \<ge> p. q \<le> ap \<and> snd (prune ack s) = s\<lparr>buf := nums ts q n\<rparr> \<and> ack \<le> q"
proof (cases "ack \<le> p")
  case True
  then have "snd (prune ack s) = s"
    using assms by (simp add: prune_def acked_prefix_nums)
  then show ?thesis using True assms by (intro exI [of _ p]) (simp flip: assms(1))
next
  case False
  then have "snd (prune ack s) = s\<lparr>buf := nums ts ack n\<rparr>"
    using assms by (simp add: prune_def acked_prefix_nums drop_nums Let_def)
  then show ?thesis using False assms by (intro exI [of _ ack]) simp
qed

lemma replayFrom_nums:
  assumes "buf s = nums ts q n" "ack \<le> q"
  shows "replayFrom ack s = (nums ts q n, s)"
  using assms by (simp add: replayFrom_def acked_prefix_nums)

lemma base_ok_pruned:
  assumes "base_ok p k" "ack \<le> appliedSeq (world k)"
  obtains q where "q \<ge> p" "ack \<le> q" "snd (prune ack (sess k)) = (sess k)\<lparr>buf := nums (typed k) q (length (typed k))\<rparr>"
    "base_ok q (k\<lparr>sess := snd (prune ack (sess k))\<rparr>)"
  using assms prune_nums [of "sess k" "typed k" p "length (typed k)" ack "appliedSeq (world k)"]
  by (auto simp: base_ok_def)

lemma phase_ok_Replaying:
  assumes "phase k = Replaying (nums (typed k) c d) sent" "frozen (sess k)" "hand k = None" "fwd k"
    "wire_ok a c k" "p \<le> c" "c \<le> d" "d \<le> length (typed k)" "sent = c \<or> sent = 0 \<and> c = p \<and> a = c"
  shows "phase_ok p k"
  using assms(1-4) unfolding phase_ok_def Let_def
  by simp (use assms(5-9) in blast)

lemma phase_ok_frame:
  assumes "phase_ok p k" "typed k' = typed k" "phase k' = phase k" "frozen (sess k') = frozen (sess k)"
    "hand k' = hand k" "fwd k' = fwd k" "wire k' = wire k" "appliedSeq (world k') = appliedSeq (world k)"
    "down k' = down k @ fs \<or> phase k \<noteq> Await" "q = p \<or> phase k \<in> {Live, Broken}"
  shows "phase_ok q k'"
proof -
  have "wire_ok a b k' = wire_ok a b k" for a b by (simp add: wire_ok_def assms)
  then show ?thesis using assms by (auto simp: phase_ok_def Let_def split: phase.splits option.splits)
qed

text \<open>One lemma per kind of step.\<close>

lemma inv_Type_Line:
  assumes "link_inv k" "link_step (Type_Line t) k = Some k'"
  shows "link_inv k'"
proof -
  obtain p where p: "base_ok p k" "w_frozen (world k) \<or> phase_ok p k"
    using assms(1) by (auto simp: link_inv_def)
  let ?n = "length (typed k)"
  have k': "k' = forwarder_takes t k" "fwd k" "hand k = None" using assms(2) by (auto split: if_splits)
  have pn: "p \<le> ?n" "nextSeq (sess k) = ?n" using p(1) by (auto simp: base_ok_def)
  have b: "base_ok p k'"
    using p(1) pn by (auto simp: base_ok_def k' forwarder_takes_def add_def Let_def nums_snoc nums_append entry_def)
  have w: "wire_ok a c k \<Longrightarrow> wire_ok a c k'" for a c
    by (auto simp: wire_ok_def k' forwarder_takes_def add_def Let_def nums_append)
  have "phase_ok p k'" if ph: "phase_ok p k"
  proof (cases "phase k")
    case Live
    then obtain a where "wire_ok a ?n k" "\<not> frozen (sess k)" using ph k' by (auto simp: phase_ok_def)
    then show ?thesis using w [of a ?n] Live pn(2)
      by (auto simp: phase_ok_def k' forwarder_takes_def add_def Let_def entry_def)
  next
    case (Replaying ls sent)
    then obtain a c d where "frozen (sess k)" "wire_ok a c k" "p \<le> c" "c \<le> d" "d \<le> ?n" "ls = nums (typed k) c d"
      "sent = c \<or> sent = 0 \<and> c = p \<and> a = c" using ph by (auto simp: phase_ok_def)
    then show ?thesis using w [of a c] Replaying k'(2,3)
      by (intro phase_ok_Replaying [of k' c d sent a p])
        (simp_all add: k'(1) forwarder_takes_def add_def Let_def nums_append)
  next
    case Broken
    then obtain a c where "wire_ok a c k" "frozen (sess k)" using ph by (auto simp: phase_ok_def)
    then show ?thesis using w [of a c] Broken
      by (auto simp: phase_ok_def k' forwarder_takes_def add_def Let_def)
  qed (use ph k' in \<open>auto simp: phase_ok_def forwarder_takes_def add_def Let_def\<close>)
  then show ?thesis using b p(2)
    by (auto simp: link_inv_def k' forwarder_takes_def add_def Let_def intro!: exI [of _ p])
qed

lemma link_invI: "base_ok p k \<Longrightarrow> w_frozen (world k) \<or> phase_ok p k \<Longrightarrow> link_inv k"
  by (auto simp: link_inv_def)

lemma link_invE:
  assumes "link_inv k"
  obtains p where "base_ok p k" "w_frozen (world k) \<or> phase_ok p k"
  using assms by (auto simp: link_inv_def)

lemma inv_Send_Live:
  assumes "link_inv k" "link_step Send_Live k = Some k'"
  shows "link_inv k'"
proof -
  obtain p where p: "base_ok p k" "w_frozen (world k) \<or> phase_ok p k" using assms(1) by (rule link_invE)
  obtain h where h: "hand k = Some h" "phase k = Live" "k' = k\<lparr>wire := wire k @ [h], hand := None\<rparr>"
    using assms(2) by (auto split: option.splits if_splits)
  have "phase_ok p k'" if ph: "phase_ok p k"
  proof -
    obtain a m where a: "length (typed k) = Suc m" "wire_ok a m k" "h = entry (typed k) m" "\<not> frozen (sess k)"
      using ph h by (cases "length (typed k)") (auto simp: phase_ok_def)
    then have "wire_ok a (Suc m) k'" by (auto simp: wire_ok_def h nums_snoc)
    then show ?thesis using a h by (auto simp: phase_ok_def)
  qed
  moreover have "base_ok p k'" using p(1) h by (auto simp: base_ok_def)
  ultimately show ?thesis using p(2) h by (auto intro: link_invI)
qed

lemma inv_Send_Fails:
  assumes "link_inv k" "link_step Send_Fails k = Some k'"
  shows "link_inv k'"
proof -
  obtain p where p: "base_ok p k" "w_frozen (world k) \<or> phase_ok p k" using assms(1) by (rule link_invE)
  have k': "hand k \<noteq> None" "k' = k\<lparr>hand := None, fwd := False\<rparr>" using assms(2) by (auto split: if_splits)
  have "base_ok p k'" using p(1) by (auto simp: base_ok_def k')
  moreover have "phase_ok p k'" if "phase_ok p k"
    using that k' by (auto simp: phase_ok_def wire_ok_def Let_def split: phase.splits option.splits) fastforce
  ultimately show ?thesis using p(2) k' by (auto intro: link_invI)
qed

lemma inv_Forwarder_Stops:
  assumes "link_inv k" "link_step Forwarder_Stops k = Some k'"
  shows "link_inv k'"
proof -
  obtain p where p: "base_ok p k" "w_frozen (world k) \<or> phase_ok p k" using assms(1) by (rule link_invE)
  have k': "phase k = Closed" "k' = k\<lparr>fwd := False\<rparr>" using assms(2) by (auto split: if_splits)
  have "base_ok p k'" "w_frozen (world k')" using p(1) by (auto simp: base_ok_def k')
  then show ?thesis by (auto intro: link_invI)
qed

lemma inv_Recv_Frame:
  assumes "link_inv k" "link_step Recv_Frame k = Some k'"
  shows "link_inv k'"
proof -
  obtain p where p: "base_ok p k" "w_frozen (world k) \<or> phase_ok p k" using assms(1) by (rule link_invE)
  obtain f rest where f: "down k = f # rest" using assms(2) by (cases "down k") auto
  let ?k = "k\<lparr>down := rest\<rparr>" and ?s = "snd (prune (frame_ack f) (sess k))"
  have "base_ok p ?k" "frame_ack f \<le> appliedSeq (world ?k)" using p(1) f by (auto simp: base_ok_def)
  then obtain q where q: "q \<ge> p" "frame_ack f \<le> q" "base_ok q (?k\<lparr>sess := ?s\<rparr>)"
    "?s = (sess k)\<lparr>buf := nums (typed k) q (length (typed k))\<rparr>"
    by (rule base_ok_pruned) auto
  then have buf_eq: "buf ?s = nums (typed k) q (length (typed k))" by simp
  show ?thesis
  proof (cases "phase k = Await")
    case True
    then have k': "k' = ?k\<lparr>sess := ?s, phase := Replaying (nums (typed k) q (length (typed k))) 0\<rparr>"
      using assms(2) f q(2) replayFrom_nums [OF buf_eq, of "frame_ack f"]
      by (cases f) (auto simp: writer_frame_def)
    have "base_ok q k'" using q(3) True by (auto simp: base_ok_def k')
    moreover have "phase_ok q k'" if "phase_ok p k"
    proof -
      have "frozen (sess k)" "hand k = None" "wire k = []" "fwd k" using that True by (auto simp: phase_ok_def)
      moreover have "q \<le> appliedSeq (world k)" "appliedSeq (world k) \<le> length (typed k)"
        using q(3) by (auto simp: base_ok_def)
      ultimately show ?thesis
        by (intro phase_ok_Replaying [of k' q "length (typed k)" 0 q q]) (simp_all add: k' q(4) wire_ok_def)
    qed
    ultimately show ?thesis using p(2) by (auto simp: k' intro: link_invI)
  next
    case False
    then have k': "k' = ?k\<lparr>sess := ?s\<rparr> \<and> phase k \<in> {Live, Broken} \<or> k' = ?k\<lparr>sess := ?s, phase := Closed\<rparr> \<and> is_redirect f"
      using assms(2) f by (cases f) (auto simp: writer_frame_def writer_redirect_def split: if_splits)
    have "is_redirect f \<Longrightarrow> w_frozen (world k)" using p(1) f by (auto simp: base_ok_def)
    moreover have "base_ok q k'" using q(3) k' calculation by (auto simp: base_ok_def)
    moreover have "phase_ok q (?k\<lparr>sess := ?s\<rparr>)" if "phase_ok p k" "phase k \<in> {Live, Broken}"
      by (rule phase_ok_frame [OF that(1)]) (use that(2) in \<open>auto simp: q(4)\<close>)
    ultimately show ?thesis using p(2) k' by (auto intro!: link_invI [of q])
  qed
qed

lemma inv_Replay_Send:
  assumes "link_inv k" "link_step Replay_Send k = Some k'"
  shows "link_inv k'"
proof -
  obtain p where p: "base_ok p k" "w_frozen (world k) \<or> phase_ok p k" using assms(1) by (rule link_invE)
  obtain b bs st where k': "phase k = Replaying (b # bs) st"
    "k' = k\<lparr>wire := wire k @ [b], phase := Replaying bs (bi_seq b)\<rparr>"
    using assms(2) by (auto split: phase.splits list.splits)
  have "phase_ok p k'" if ph: "phase_ok p k"
  proof -
    obtain a c d where o: "frozen (sess k)" "hand k = None" "fwd k" "wire_ok a c k" "p \<le> c" "d \<le> length (typed k)"
      "b # bs = nums (typed k) c d" using ph k' by (auto simp: phase_ok_def)
    then have d: "c < d" "b = entry (typed k) c" "bs = nums (typed k) (Suc c) d" by (auto dest: nums_ConsD)
    then have "wire_ok a (Suc c) k'" using o by (auto simp: wire_ok_def k' nums_snoc)
    then show ?thesis using o d
      by (intro phase_ok_Replaying [of k' "Suc c" d _ a p]) (simp_all add: k')
  qed
  moreover have "base_ok p k'" using p(1) by (auto simp: base_ok_def k')
  ultimately show ?thesis using p(2) k' by (auto intro: link_invI)
qed

lemma inv_Replay_Fails:
  assumes "link_inv k" "link_step Replay_Fails k = Some k'"
  shows "link_inv k'"
proof -
  obtain p where p: "base_ok p k" "w_frozen (world k) \<or> phase_ok p k" using assms(1) by (rule link_invE)
  obtain b bs st where k': "phase k = Replaying (b # bs) st" "k' = k\<lparr>phase := Broken\<rparr>"
    using assms(2) by (auto split: phase.splits list.splits)
  have "base_ok p k'" using p(1) by (auto simp: base_ok_def k')
  moreover have "phase_ok p k'" if "phase_ok p k" using that by (auto simp: phase_ok_def k' wire_ok_def)
  ultimately show ?thesis using p(2) k' by (auto intro: link_invI)
qed

lemma replay_check_nums:
  assumes "buf (sess k) = nums ts p n" "p \<le> c" "c \<le> n" "sent = c \<or> sent = 0 \<and> c = p"
  shows "replay_check sent k =
           (if c = n then k\<lparr>sess := (sess k)\<lparr>frozen := False\<rparr>, phase := Live\<rparr>
            else k\<lparr>phase := Replaying (nums ts c n) sent\<rparr>)"
proof -
  have "(\<exists>b \<in> set (buf (sess k)). bi_seq b > sent) \<longleftrightarrow> filter (\<lambda>b. bi_seq b > sent) (buf (sess k)) \<noteq> []"
    by (auto simp: filter_empty_conv)
  also have "\<dots> \<longleftrightarrow> c \<noteq> n" using assms by (auto simp: filter_nums_greater)
  finally show ?thesis
    using assms by (simp add: replay_check_def thawIfDrained_def tailAfter_def filter_nums_greater)
qed

lemma inv_Replay_Check:
  assumes "link_inv k" "link_step Replay_Check k = Some k'"
  shows "link_inv k'"
proof -
  obtain p where p: "base_ok p k" "w_frozen (world k) \<or> phase_ok p k" using assms(1) by (rule link_invE)
  obtain sent where k': "phase k = Replaying [] sent" "k' = replay_check sent k"
    using assms(2) by (auto split: phase.splits list.splits)
  have frame: "typed k' = typed k" "buf (sess k') = buf (sess k)" "nextSeq (sess k') = nextSeq (sess k)"
    "world k' = world k" "down k' = down k" "dispatched k' = dispatched k" "hand k' = hand k" "wire k' = wire k"
    "fwd k' = fwd k" "phase k' \<noteq> Closed"
    by (auto simp: k' replay_check_def thawIfDrained_def split: if_splits)
  have "phase_ok p k'" if ph: "phase_ok p k"
  proof -
    obtain a c where o: "frozen (sess k)" "hand k = None" "fwd k" "wire_ok a c k" "p \<le> c" "c \<le> length (typed k)"
      "sent = c \<or> sent = 0 \<and> c = p \<and> a = c" using ph k' by (auto simp: phase_ok_def)
    moreover have "wire_ok a c k'" using o(4) by (auto simp: wire_ok_def frame)
    moreover have "k' = (if c = length (typed k) then k\<lparr>sess := (sess k)\<lparr>frozen := False\<rparr>, phase := Live\<rparr>
            else k\<lparr>phase := Replaying (nums (typed k) c (length (typed k))) sent\<rparr>)"
      using p(1) o(5-7) unfolding k'(2) by (intro replay_check_nums [of _ _ p]) (auto simp: base_ok_def)
    ultimately show ?thesis
      by (cases "c = length (typed k)")
        (auto simp: phase_ok_def intro: phase_ok_Replaying [of k' c "length (typed k)" sent a p])
  qed
  moreover have "base_ok p k'" using p(1) by (auto simp: base_ok_def frame)
  ultimately show ?thesis using p(2) by (auto simp: frame intro: link_invI)
qed

lemma inv_Redial:
  assumes "link_inv k" "link_step Redial k = Some k'"
  shows "link_inv k'"
proof -
  obtain p where p: "base_ok p k" using assms(1) by (rule link_invE)
  have k': "hand k = None" "k' = redial k" using assms(2) by (auto split: if_splits)
  have "base_ok p k'" "phase_ok p k'"
    using p k' by (auto simp: base_ok_def phase_ok_def redial_def handoff_bind_def freeze_def Let_def)
  then show ?thesis by (auto intro: link_invI)
qed

lemma inv_Deliver:
  assumes "link_inv k" "link_step Deliver k = Some k'"
  shows "link_inv k'"
proof -
  obtain p where p: "base_ok p k" "w_frozen (world k) \<or> phase_ok p k" using assms(1) by (rule link_invE)
  obtain v rest where v: "wire k = v # rest" "k' = deliver v rest k"
    using assms(2) by (auto split: list.splits)
  show ?thesis
  proof (cases "w_frozen (world k)")
    case True
    then have "k' = k\<lparr>wire := rest\<rparr>" using v by (simp add: deliver_def handleInput_def)
    then show ?thesis using p(1) True by (intro link_invI [of p]) (auto simp: base_ok_def)
  next
    case False
    then have ph: "phase_ok p k" using p(2) by simp
    let ?ap = "max (appliedSeq (world k)) (bi_seq v)"
    have w: "\<And>a b. wire_ok a b k \<Longrightarrow> a < b \<and> v = entry (typed k) a \<and> rest = nums (typed k) (Suc a) b"
      using v nums_ConsD by (fastforce simp: wire_ok_def)
    have "\<exists>a b. wire_ok a b k"
      using ph p(1) False v
      by (cases "phase k"; cases "hand k") (auto simp: phase_ok_def base_ok_def Let_def)
    then obtain a0 where a0: "v = entry (typed k) a0" "a0 \<le> appliedSeq (world k)" "a0 < length (typed k)"
      using w by (fastforce simp: wire_ok_def)
    have k': "typed k' = typed k" "sess k' = sess k" "hand k' = hand k" "fwd k' = fwd k" "phase k' = phase k"
      "wire k' = rest" "down k' = down k" "w_frozen (world k') = w_frozen (world k)"
      using v by (simp_all add: deliver_def handleInput_def)
    have ap: "appliedSeq (world k') = ?ap" using False a0(1) v by (simp add: deliver_def handleInput_def max_def)
    have di: "dispatched k' = nums (typed k) 0 ?ap"
    proof (cases "a0 < appliedSeq (world k)")
      case True
      then show ?thesis using False a0(1) v p(1) by (simp add: deliver_def handleInput_def base_ok_def max_absorb1)
    next
      case False': False
      then have "appliedSeq (world k) = a0" using a0(2) by simp
      then show ?thesis using False a0(1) v p(1)
        by (simp add: deliver_def handleInput_def base_ok_def max_def nums_snoc)
    qed
    have b: "base_ok p k'" using p(1) a0 False by (auto simp: base_ok_def k' ap di)
    have w': "wire_ok a b k \<Longrightarrow> wire_ok (Suc a) b k'" for a b
      using w [of a b] by (auto simp: wire_ok_def k' ap)
    have "phase_ok p k'"
    proof (cases "phase k")
      case (Replaying ls sent)
      then obtain a c d where o: "frozen (sess k)" "hand k = None" "fwd k" "wire_ok a c k" "p \<le> c" "c \<le> d"
        "d \<le> length (typed k)" "ls = nums (typed k) c d" "sent = c \<or> sent = 0 \<and> c = p \<and> a = c"
        using ph by (auto simp: phase_ok_def)
      then show ?thesis using w [of a c] w' [of a c] Replaying
        by (intro phase_ok_Replaying [of k' c d sent "Suc a" p]) (auto simp: k')
    next
      case Live
      then show ?thesis using ph w' by (simp add: phase_ok_def k' Let_def split: option.splits) blast+
    next
      case Broken
      then show ?thesis using ph w' by (simp add: phase_ok_def k' Let_def) blast
    qed (use ph v(1) in \<open>auto simp: phase_ok_def k'\<close>)
    then show ?thesis using b by (auto intro: link_invI)
  qed
qed

lemma inv_world_steps:
  assumes "link_inv k" "link_step e k = Some k'" "e \<in> {Emit_Frame, World_Freeze, World_Redirect}"
  shows "link_inv k'"
proof -
  obtain p where p: "base_ok p k" "w_frozen (world k) \<or> phase_ok p k" using assms(1) by (rule link_invE)
  have "base_ok p k' \<and> (w_frozen (world k') \<or> phase_ok p k')"
  proof (cases "e = Emit_Frame")
    case True
    then have k': "k' = k\<lparr>down := down k @ [Frame (appliedSeq (world k))]\<rparr>" using assms(2) by simp
    have "phase_ok p k'" if "phase_ok p k" by (rule phase_ok_frame [OF that, where fs = "[Frame (appliedSeq (world k))]"]) (simp_all add: k')
    moreover have "base_ok p k'" using p(1) by (auto simp: base_ok_def k')
    ultimately show ?thesis using p(2) by (auto simp: k')
  next
    case False
    then have "w_frozen (world k')" "typed k' = typed k" "sess k' = sess k" "dispatched k' = dispatched k"
      "appliedSeq (world k') = appliedSeq (world k)" "\<forall>f \<in> set (down k'). f \<in> set (down k) \<or> frame_ack f = appliedSeq (world k)"
      using assms(2,3) by (auto simp: initiateHandoff_def markHandedOff_def split: if_splits)
    then show ?thesis using p(1) by (auto simp: base_ok_def)
  qed
  then show ?thesis by (auto intro: link_invI)
qed

lemma link_inv_step: "link_inv k \<Longrightarrow> link_step e k = Some k' \<Longrightarrow> e \<noteq> World_Abort \<Longrightarrow> link_inv k'"
  by (cases e)
    (blast intro: inv_Type_Line inv_Send_Live inv_Send_Fails inv_Forwarder_Stops inv_Recv_Frame
      inv_Replay_Send inv_Replay_Fails inv_Replay_Check inv_Redial inv_Deliver inv_world_steps)+

lemma link_inv_run:
  "link_inv k \<Longrightarrow> link_run es k = Some k' \<Longrightarrow> World_Abort \<notin> set es \<Longrightarrow> link_inv k'"
  by (induction es arbitrary: k) (auto split: option.splits dest: link_inv_step)

section \<open>What every schedule keeps, failed handoffs included\<close>

definition of_typed :: "string list \<Rightarrow> bufferedIn \<Rightarrow> bool" where
  "of_typed ts b \<longleftrightarrow> 1 \<le> bi_seq b \<and> bi_seq b \<le> length ts \<and> bi_text b = ts ! (bi_seq b - 1)"

definition lines_of :: "link \<Rightarrow> bufferedIn set" where
  "lines_of k = set (buf (sess k)) \<union> set (wire k) \<union> set_option (hand k) \<union> set (dispatched k) \<union>
     (case phase k of Replaying ls _ \<Rightarrow> set ls | _ \<Rightarrow> {})"

definition once_inv :: "link \<Rightarrow> bool" where
  "once_inv k \<longleftrightarrow>
     nextSeq (sess k) = length (typed k) \<and>
     (\<forall>b \<in> lines_of k. of_typed (typed k) b) \<and>
     sorted_wrt (<) (map bi_seq (dispatched k)) \<and>
     (\<forall>b \<in> set (dispatched k). bi_seq b \<le> appliedSeq (world k))"

lemma of_typed_append: "of_typed ts b \<Longrightarrow> of_typed (ts @ us) b"
  by (auto simp: of_typed_def nth_append)

lemma once_inv_forwarder_takes: "once_inv k \<Longrightarrow> once_inv (forwarder_takes t k)"
  by (auto simp: once_inv_def lines_of_def forwarder_takes_def add_def Let_def of_typed_append
      split: phase.splits) (auto simp: of_typed_def)

lemma once_inv_fewer_lines:
  assumes "once_inv k" "lines_of k' \<subseteq> lines_of k" "typed k' = typed k" "nextSeq (sess k') = nextSeq (sess k)"
    "dispatched k' = dispatched k" "appliedSeq (world k') = appliedSeq (world k)"
  shows "once_inv k'"
  using assms by (auto simp: once_inv_def)

lemma snd_prune: "\<exists>i. snd (prune ack s) = s\<lparr>buf := drop i (buf s)\<rparr>"
proof (cases "ack = 0 \<or> acked_prefix ack (buf s) = 0")
  case True
  then show ?thesis by (intro exI [of _ 0]) (auto simp: prune_def Let_def)
qed (auto simp: prune_def Let_def)

lemma replayFrom_drop: "\<exists>i. replayFrom ack s = (drop i (buf s), s\<lparr>buf := drop i (buf s)\<rparr>)"
proof (cases "acked_prefix ack (buf s) = 0")
  case True
  then show ?thesis by (intro exI [of _ 0]) (auto simp: replayFrom_def Let_def)
qed (auto simp: replayFrom_def Let_def)

lemma once_inv_writer_frame: "once_inv k \<Longrightarrow> once_inv (writer_frame ack k)"
proof -
  assume k: "once_inv k"
  obtain i where i: "snd (prune ack (sess k)) = (sess k)\<lparr>buf := drop i (buf (sess k))\<rparr>" using snd_prune by blast
  obtain j where "replayFrom ack (snd (prune ack (sess k))) =
      (drop j (drop i (buf (sess k))), (sess k)\<lparr>buf := drop j (drop i (buf (sess k)))\<rparr>)"
    using replayFrom_drop [of ack "snd (prune ack (sess k))"] by (auto simp: i)
  then show ?thesis using i
    by (intro once_inv_fewer_lines [OF k])
      (auto simp: writer_frame_def lines_of_def Let_def split: phase.splits dest!: in_set_dropD)
qed

lemma once_inv_writer_redirect: "once_inv k \<Longrightarrow> once_inv (writer_redirect ack k)"
  using snd_prune [of ack "sess k"]
  by (elim exE, elim once_inv_fewer_lines)
    (auto simp: writer_redirect_def lines_of_def split: phase.splits dest!: in_set_dropD)

lemma once_inv_deliver:
  assumes "once_inv k" "wire k = v # rest"
  shows "once_inv (deliver v rest k)"
proof -
  have "of_typed (typed k) v" using assms by (auto simp: once_inv_def lines_of_def)
  moreover have "lines_of (deliver v rest k) \<subseteq> lines_of k"
    using assms(2) by (auto simp: lines_of_def deliver_def handleInput_def split: phase.splits if_splits)
  ultimately show ?thesis
    using assms by (auto simp: once_inv_def deliver_def handleInput_def of_typed_def sorted_wrt_append
        split: if_splits dest: order_trans)
qed

lemma once_inv_step: "once_inv k \<Longrightarrow> link_step e k = Some k' \<Longrightarrow> once_inv k'"
proof (cases e)
  case (Type_Line t)
  then show "once_inv k \<Longrightarrow> link_step e k = Some k' \<Longrightarrow> once_inv k'"
    by (auto split: if_splits intro: once_inv_forwarder_takes)
next
  case Recv_Frame
  assume k: "once_inv k" "link_step e k = Some k'"
  have "once_inv (k\<lparr>down := r\<rparr>)" for r by (rule once_inv_fewer_lines [OF k(1)]) (simp_all add: lines_of_def)
  then show "once_inv k'" using k(2) Recv_Frame
    by (auto split: list.splits down_frame.splits if_splits
        intro: once_inv_writer_frame once_inv_writer_redirect)
next
  case Deliver
  then show "once_inv k \<Longrightarrow> link_step e k = Some k' \<Longrightarrow> once_inv k'"
    by (auto split: list.splits intro: once_inv_deliver)
qed (erule once_inv_fewer_lines;
    auto simp: lines_of_def replay_check_def thawIfDrained_def tailAfter_def redial_def handoff_bind_def freeze_def
      initiateHandoff_def handoffFailed_def markHandedOff_def Let_def
      split: option.splits if_splits phase.splits list.splits)+

lemma once_inv_run: "once_inv k \<Longrightarrow> link_run es k = Some k' \<Longrightarrow> once_inv k'"
  by (induction es arbitrary: k) (auto split: option.splits dest: once_inv_step)

section \<open>A replay always catches up\<close>

definition quiescent :: "link \<Rightarrow> bool" where
  "quiescent k \<longleftrightarrow> phase k = Live \<and> fwd k \<and> hand k = None \<and> wire k = [] \<and> \<not> w_frozen (world k)"

lemma quiescent_all_dispatched:
  assumes "link_inv k" "quiescent k"
  shows "map bi_text (dispatched k) = typed k"
proof -
  obtain p where "base_ok p k" "phase_ok p k" using assms by (auto simp: quiescent_def elim: link_invE)
  then show ?thesis using assms(2)
    by (auto simp: quiescent_def base_ok_def phase_ok_def wire_ok_def Let_def map_text_nums)
qed

text \<open>What is left to do before everything typed is on the wire and delivered.\<close>

definition rank :: "link \<Rightarrow> nat" where
  "rank k = length (wire k) +
     (case phase k of
        Live \<Rightarrow> if hand k = None then 0 else 2
      | Await \<Rightarrow> 3 * length (typed k) + 3
      | Replaying ls sent \<Rightarrow> 3 * length (tailAfter sent (sess k)) + (if ls = [] then 2 else 1)
      | _ \<Rightarrow> 0)"

definition catching_up :: "link \<Rightarrow> bool" where
  "catching_up k \<longleftrightarrow> link_inv k \<and> \<not> w_frozen (world k) \<and> fwd k \<and> phase k \<noteq> Broken"

lemma length_nums [simp]: "length (nums ts a b) = b - a"
  by (simp add: nums_def)

lemma progress_replay:
  assumes "base_ok p k" "phase_ok p k" "phase k = Replaying ls sent"
  shows "\<exists>e k'. e \<noteq> World_Abort \<and> link_step e k = Some k' \<and> world k' = world k \<and> typed k' = typed k \<and>
           fwd k' = fwd k \<and> phase k' \<noteq> Broken \<and> rank k' < rank k"
proof -
  let ?n = "length (typed k)"
  obtain a c d where o: "p \<le> c" "c \<le> d" "d \<le> ?n" "ls = nums (typed k) c d" "hand k = None"
    "sent = c \<or> sent = 0 \<and> c = p \<and> a = c" using assms(2,3) by (auto simp: phase_ok_def)
  have buf: "buf (sess k) = nums (typed k) p ?n" using assms(1) by (simp add: base_ok_def)
  have tail: "tailAfter sent (sess k) = nums (typed k) c ?n"
    using o buf by (auto simp: tailAfter_def filter_nums_greater)
  show ?thesis
  proof (cases "c = d")
    case True
    have "replay_check sent k = (if c = ?n then k\<lparr>sess := (sess k)\<lparr>frozen := False\<rparr>, phase := Live\<rparr>
            else k\<lparr>phase := Replaying (nums (typed k) c ?n) sent\<rparr>)"
      using o buf by (intro replay_check_nums [of _ _ p]) auto
    then show ?thesis using True o tail assms(3)
      by (intro exI [of _ Replay_Check] exI [of _ "replay_check sent k"]) (auto simp: rank_def)
  next
    case False
    then have ls: "ls = entry (typed k) c # nums (typed k) (Suc c) d" using o by (simp add: nums_Cons)
    have "tailAfter (Suc c) (sess k) = nums (typed k) (Suc c) ?n"
      using o(1) buf by (simp add: tailAfter_def filter_nums_greater)
    moreover define k' where "k' = k\<lparr>wire := wire k @ [entry (typed k) c], phase := Replaying (nums (typed k) (Suc c) d) (Suc c)\<rparr>"
    moreover have "link_step Replay_Send k = Some k'" using assms(3) by (simp add: ls k'_def)
    moreover have "c < ?n" using False o by simp
    ultimately show ?thesis using ls tail assms(3)
      by (intro exI [of _ Replay_Send] exI [of _ k']) (auto simp: rank_def)
  qed
qed

lemma progress_await:
  assumes "base_ok p k" "phase_ok p k" "phase k = Await"
  shows "\<exists>e k'. e \<noteq> World_Abort \<and> link_step e k = Some k' \<and> world k' = world k \<and> typed k' = typed k \<and>
           fwd k' = fwd k \<and> phase k' \<noteq> Broken \<and> rank k' < rank k"
proof -
  obtain ack rest where d: "down k = Frame ack # rest" "wire k = []"
    using assms(2,3) by (auto simp: phase_ok_def)
  have "ack \<le> appliedSeq (world k)" using assms(1) d by (simp add: base_ok_def)
  then obtain q where q: "q \<ge> p" "ack \<le> q"
    "snd (prune ack (sess k)) = (sess k)\<lparr>buf := nums (typed k) q (length (typed k))\<rparr>"
    using base_ok_pruned [OF assms(1)] by blast
  let ?s = "(sess k)\<lparr>buf := nums (typed k) q (length (typed k))\<rparr>"
  have "length (tailAfter 0 ?s) \<le> length (typed k)"
    by (simp add: tailAfter_def order_trans [OF length_filter_le])
  moreover have "rank (writer_frame ack (k\<lparr>down := rest\<rparr>)) \<le> 3 * length (tailAfter 0 ?s) + 2"
    using assms(3) d q replayFrom_nums [of ?s "typed k" q "length (typed k)" ack]
    by (simp add: rank_def writer_frame_def Let_def del: nums_empty)
  moreover have "rank k = 3 * length (typed k) + 3" using assms(3) d by (simp add: rank_def)
  ultimately have "rank (writer_frame ack (k\<lparr>down := rest\<rparr>)) < rank k" by linarith
  then show ?thesis using assms(3) d q
    by (intro exI [of _ Recv_Frame] exI [of _ "writer_frame ack (k\<lparr>down := rest\<rparr>)"])
      (simp add: writer_frame_def Let_def replayFrom_nums)
qed

lemma progress:
  assumes "catching_up k" "\<not> quiescent k"
  shows "\<exists>e k'. e \<noteq> World_Abort \<and> link_step e k = Some k' \<and> catching_up k' \<and> typed k' = typed k \<and> rank k' < rank k"
proof -
  obtain p where p: "base_ok p k" "phase_ok p k" using assms(1) by (auto simp: catching_up_def elim: link_invE)
  have "\<exists>e k'. e \<noteq> World_Abort \<and> link_step e k = Some k' \<and> w_frozen (world k') = w_frozen (world k) \<and>
          typed k' = typed k \<and> fwd k' = fwd k \<and> phase k' \<noteq> Broken \<and> rank k' < rank k"
  proof (cases "phase k")
    case Await
    then show ?thesis using progress_await [OF p] by metis
  next
    case (Replaying ls sent)
    then show ?thesis using progress_replay [OF p] by metis
  next
    case Live
    show ?thesis
    proof (cases "hand k")
      case (Some h)
      then show ?thesis using Live
        by (intro exI [of _ Send_Live] exI [of _ "k\<lparr>wire := wire k @ [h], hand := None\<rparr>"]) (simp add: rank_def)
    next
      case None
      then obtain v rest where "wire k = v # rest"
        using Live assms by (cases "wire k") (auto simp: quiescent_def catching_up_def)
      then show ?thesis using Live None
        by (intro exI [of _ Deliver] exI [of _ "deliver v rest k"]) (simp add: rank_def deliver_def handleInput_def)
    qed
  next
    case Closed
    then show ?thesis using p(1) assms(1) by (auto simp: base_ok_def catching_up_def)
  qed (use assms(1) in \<open>simp add: catching_up_def\<close>)
  then obtain e k' where "e \<noteq> World_Abort" "link_step e k = Some k'" "w_frozen (world k') = w_frozen (world k)"
    "typed k' = typed k" "fwd k' = fwd k" "phase k' \<noteq> Broken" "rank k' < rank k" by blast
  then show ?thesis using assms(1) link_inv_step [of k e k'] by (auto simp: catching_up_def)
qed

lemma catches_up:
  "catching_up k \<Longrightarrow> \<exists>es k'. World_Abort \<notin> set es \<and> link_run es k = Some k' \<and> quiescent k' \<and> link_inv k' \<and> typed k' = typed k"
proof (induction "rank k" arbitrary: k rule: less_induct)
  case less
  show ?case
  proof (cases "quiescent k")
    case True
    then show ?thesis using less.prems by (intro exI [of _ "[]"] exI [of _ k]) (simp add: catching_up_def)
  next
    case False
    then obtain e k1 where e: "e \<noteq> World_Abort" "link_step e k = Some k1" "catching_up k1" "typed k1 = typed k" "rank k1 < rank k"
      using progress less.prems by blast
    then obtain es k' where "World_Abort \<notin> set es" "link_run es k1 = Some k'" "quiescent k'" "link_inv k'" "typed k' = typed k1"
      using less.hyps by blast
    then show ?thesis using e by (intro exI [of _ "e # es"] exI [of _ k']) auto
  qed
qed

section \<open>Properties\<close>

text \<open>
  C1. Exactly once, in order, nothing lost: whatever the interleaving of typing, live sends, failed
  sends, acks, freezes, redirects, re-dials and replays, as long as every handoff that freezes the
  player commits, the commands the world ran are exactly the first \<open>appliedSeq\<close> lines typed, each
  once and in order; and once the connection is quiescent they are all the lines typed.
\<close>

theorem redirect_exactly_once:
  assumes "link_run es (login i) = Some k" "World_Abort \<notin> set es"
  shows "map bi_text (dispatched k) = take (appliedSeq (world k)) (typed k) \<and>
         (quiescent k \<longrightarrow> map bi_text (dispatched k) = typed k)"
proof -
  have inv: "link_inv k" using link_inv_run [OF link_inv_login] assms by blast
  then have "map bi_text (dispatched k) = take (appliedSeq (world k)) (typed k)"
    by (auto simp: base_ok_def map_text_nums elim!: link_invE)
  then show ?thesis using inv quiescent_all_dispatched by blast
qed

text \<open>
  A redirect with one line acked, one in flight to the frozen source, one typed during the freeze
  and one typed while the replay runs.
\<close>

definition redirect_trace :: "link_event list" where
  "redirect_trace =
     [Type_Line ''north'', Send_Live, Deliver, Emit_Frame, Recv_Frame, World_Freeze,
      Type_Line ''look'', Send_Live, Deliver, World_Redirect, Recv_Frame,
      Type_Line ''say hi'', Send_Fails, Redial, Type_Line ''get sword'', Recv_Frame,
      Replay_Send, Type_Line ''score'', Replay_Send, Deliver, Replay_Send, Replay_Check,
      Replay_Send, Replay_Check, Deliver, Deliver, Deliver]"

theorem redirect_exactly_once_witness:
  "\<exists>k. link_run redirect_trace (login ''p'') = Some k \<and> World_Abort \<notin> set redirect_trace \<and> quiescent k \<and>
       map bi_text (dispatched k) = typed k \<and> length (typed k) = 5"
proof -
  obtain k where k: "link_run redirect_trace (login ''p'') = Some k \<and> quiescent k \<and> length (typed k) = 5"
    by (rule that [of "the (link_run redirect_trace (login ''p''))"]) code_simp
  moreover have "World_Abort \<notin> set redirect_trace" by (simp add: redirect_trace_def)
  ultimately show ?thesis using redirect_exactly_once [of redirect_trace "''p''" k] by blast
qed





definition aborted_trace :: "link_event list" where
  "aborted_trace =
     [Type_Line ''north'', Send_Live, Deliver, World_Freeze, Type_Line ''look'', Send_Live, Deliver,
      World_Abort, Type_Line ''score'', Send_Live, Deliver, Emit_Frame, Recv_Frame]"


text \<open>
  The dedup fence of a reconnect: a fresh gate session numbers its lines from 1 again, and after
  \<open>attach\<close> has clamped the fence its first line is run, whatever the character's old high-water
  mark; while an attach that reports no resume point, or one above the fence, leaves the dedup of
  already applied lines untouched.
\<close>

lemma reattach_runs_first_line:
  assumes "\<not> w_frozen w"
  shows "fst (handleInput (entry (t # ts) 0) (reattach_fence (nextSeqValue (newSession i)) w)) \<and>
         (m = 0 \<or> m > appliedSeq w \<longrightarrow> reattach_fence m w = w) \<and>
         (\<forall>b. bi_seq b \<noteq> 0 \<and> bi_seq b \<le> appliedSeq (reattach_fence m w) \<longrightarrow> \<not> fst (handleInput b (reattach_fence m w)))"
  using assms by (auto simp: handleInput_def reattach_fence_def nextSeqValue_def newSession_def)

end
