(* ===== verification/Float64.thy ===== *)
theory Float64
  imports Complex_Main
begin

text \<open>
  Go's \<open>float64\<close>: NaN, the two infinities and the finite values, which are kept as the exact
  rationals they stand for. Every arithmetic operation is the exact one followed by \<open>fround\<close>, the
  rounding of IEEE 754 to the nearest double, ties to even, with gradual underflow (exponents from
  -1074) and overflow to an infinity. The sign of a zero is not represented: no operation of the
  modelled code divides by a zero or reads its sign.
\<close>

section \<open>Rounding\<close>

function bitlen :: "int \<Rightarrow> int" where
  "bitlen n = (if n \<le> 0 then 0 else 1 + bitlen (n div 2))"
  by pat_completeness auto
termination by (relation "measure nat") auto

declare bitlen.simps [simp del]

lemma bitlen_nonneg [simp]: "0 \<le> bitlen n"
  by (induction n rule: bitlen.induct) (subst bitlen.simps, auto)

lemma bitlen_upper: "n < 2 ^ nat (bitlen n)"
proof (induction n rule: bitlen.induct)
  case (1 n)
  show ?case
  proof (cases "n \<le> 0")
    case True
    then show ?thesis by (simp add: bitlen.simps)
  next
    case False
    then have "n div 2 < 2 ^ nat (bitlen (n div 2))"
      using 1 by simp
    then have "n < 2 * 2 ^ nat (bitlen (n div 2))"
      by presburger
    then show ?thesis
      using False by (subst bitlen.simps) (simp add: nat_add_distrib)
  qed
qed

lemma bitlen_le: "n < 2 ^ k \<Longrightarrow> bitlen n \<le> int k"
proof (induction n arbitrary: k rule: bitlen.induct)
  case (1 n)
  show ?case
  proof (cases "n \<le> 0")
    case True
    then show ?thesis by (simp add: bitlen.simps)
  next
    case False
    then obtain j where k: "k = Suc j"
      using 1(2) by (cases k) auto
    have "n div 2 < 2 ^ j"
      using 1(2) k by simp
    then have "bitlen (n div 2) \<le> int j"
      using 1(1) False by simp
    then show ?thesis
      using False k by (subst bitlen.simps) simp
  qed
qed

text \<open>The exponent of the leading bit of a positive rational, a power of two, the nearest integer.\<close>

definition ilog2 :: "rat \<Rightarrow> int" where
  "ilog2 q = (if 1 \<le> q then bitlen \<lfloor>q\<rfloor> - 1 else - bitlen (\<lceil>1 / q\<rceil> - 1))"

definition pow2 :: "int \<Rightarrow> rat" where
  "pow2 e = (if 0 \<le> e then 2 ^ nat e else 1 / 2 ^ nat (- e))"

definition rne :: "rat \<Rightarrow> int" where
  "rne q = (let f = \<lfloor>q\<rfloor>; r = q - of_int f
            in if r < 1 / 2 \<or> (r = 1 / 2 \<and> even f) then f else f + 1)"

section \<open>Values and operations\<close>

datatype flt = NaN | Infty bool | Fin rat

text \<open>\<open>Infty True\<close> is negative infinity.\<close>

definition fround :: "rat \<Rightarrow> flt" where
  "fround q =
     (if q = 0 then Fin 0
      else let e = max (-1074) (ilog2 \<bar>q\<bar> - 52);
               r = of_int (rne (\<bar>q\<bar> / pow2 e)) * pow2 e
           in if 2 ^ 1024 \<le> r then Infty (q < 0)
              else Fin (if q < 0 then - r else r))"

definition of_int_flt :: "int \<Rightarrow> flt" where
  "of_int_flt n = fround (of_int n)"

fun fneg :: "flt \<Rightarrow> flt" where
  "fneg NaN = NaN"
| "fneg (Infty s) = Infty (\<not> s)"
| "fneg (Fin q) = Fin (- q)"

fun fadd :: "flt \<Rightarrow> flt \<Rightarrow> flt" where
  "fadd (Fin a) (Fin b) = fround (a + b)"
| "fadd (Infty s) (Infty t) = (if s = t then Infty s else NaN)"
| "fadd (Infty s) (Fin _) = Infty s"
| "fadd (Fin _) (Infty t) = Infty t"
| "fadd _ _ = NaN"

definition fsub :: "flt \<Rightarrow> flt \<Rightarrow> flt" where
  "fsub x y = fadd x (fneg y)"

fun fmul :: "flt \<Rightarrow> flt \<Rightarrow> flt" where
  "fmul (Fin a) (Fin b) = fround (a * b)"
| "fmul (Infty s) (Infty t) = Infty (s \<noteq> t)"
| "fmul (Infty s) (Fin b) = (if b = 0 then NaN else Infty (s \<noteq> (b < 0)))"
| "fmul (Fin a) (Infty t) = (if a = 0 then NaN else Infty ((a < 0) \<noteq> t))"
| "fmul _ _ = NaN"

fun fdiv :: "flt \<Rightarrow> flt \<Rightarrow> flt" where
  "fdiv (Fin a) (Fin b) =
     (if b = 0 then (if a = 0 then NaN else Infty (a < 0)) else fround (a / b))"
| "fdiv (Infty s) (Fin b) = Infty (s \<noteq> (b < 0))"
| "fdiv (Fin _) (Infty _) = Fin 0"
| "fdiv _ _ = NaN"

fun fless :: "flt \<Rightarrow> flt \<Rightarrow> bool" where
  "fless (Fin a) (Fin b) = (a < b)"
| "fless (Infty s) (Infty t) = (s \<and> \<not> t)"
| "fless (Infty s) (Fin _) = s"
| "fless (Fin _) (Infty t) = (\<not> t)"
| "fless _ _ = False"

fun fleq :: "flt \<Rightarrow> flt \<Rightarrow> bool" where
  "fleq NaN _ = False"
| "fleq _ NaN = False"
| "fleq x y = (\<not> fless y x)"

text \<open>Go's \<open>==\<close> on doubles: NaN is not equal to itself.\<close>

fun feq :: "flt \<Rightarrow> flt \<Rightarrow> bool" where
  "feq NaN _ = False"
| "feq x y = (x = y)"

fun fabs :: "flt \<Rightarrow> flt" where
  "fabs NaN = NaN"
| "fabs (Infty _) = Infty False"
| "fabs (Fin q) = Fin \<bar>q\<bar>"

fun isNaN :: "flt \<Rightarrow> bool" where
  "isNaN NaN = True"
| "isNaN _ = False"

fun isInf :: "flt \<Rightarrow> bool" where
  "isInf (Infty _) = True"
| "isInf _ = False"

fun signbit :: "flt \<Rightarrow> bool" where
  "signbit (Fin q) = (q < 0)"
| "signbit (Infty s) = s"
| "signbit NaN = False"

definition copysign :: "flt \<Rightarrow> flt \<Rightarrow> flt" where
  "copysign x s = (if signbit s then fneg (fabs x) else fabs x)"

definition trunc_rat :: "rat \<Rightarrow> int" where
  "trunc_rat q = (if 0 \<le> q then \<lfloor>q\<rfloor> else \<lceil>q\<rceil>)"

fun ffloor :: "flt \<Rightarrow> flt" where
  "ffloor (Fin q) = Fin (of_int \<lfloor>q\<rfloor>)"
| "ffloor x = x"

fun fceil :: "flt \<Rightarrow> flt" where
  "fceil (Fin q) = Fin (of_int \<lceil>q\<rceil>)"
| "fceil x = x"

text \<open>\<open>math.Round\<close> rounds halves away from zero; \<open>math.Mod\<close> keeps the sign of its first argument.\<close>

fun fround_away :: "flt \<Rightarrow> flt" where
  "fround_away (Fin q) = Fin (of_int (if 0 \<le> q then \<lfloor>q + 1 / 2\<rfloor> else \<lceil>q - 1 / 2\<rceil>))"
| "fround_away x = x"

fun fmod :: "flt \<Rightarrow> flt \<Rightarrow> flt" where
  "fmod (Fin a) (Fin b) = (if b = 0 then NaN else Fin (a - b * of_int (trunc_rat (a / b))))"
| "fmod (Fin a) (Infty _) = Fin a"
| "fmod _ _ = NaN"

section \<open>Facts\<close>

lemma fless_NaN [simp]: "\<not> fless NaN x" "\<not> fless x NaN"
  by (cases x; simp)+

lemma feq_Fin [simp]: "feq x (Fin q) \<longleftrightarrow> x = Fin q"
  by (cases x) simp_all

lemma pow2_pos [simp]: "0 < pow2 e"
  by (simp add: pow2_def)

lemma pow2_nz [simp]: "pow2 e \<noteq> 0"
  using pow2_pos [of e] by linarith

lemma rne_of_int [simp]: "rne (of_int n) = n"
  by (simp add: rne_def)

lemma of_int_div_pow2:
  assumes "e \<le> 0"
  shows "of_int n / pow2 e = (of_int (n * 2 ^ nat (- e)) :: rat)"
  using assms by (cases "e = 0") (simp_all add: pow2_def)

lemma fround_0 [simp]: "fround 0 = Fin 0"
  by (simp add: fround_def)

text \<open>Integers of at most 53 bits are doubles.\<close>

lemma fround_of_int:
  assumes "\<bar>n\<bar> < 2 ^ 53"
  shows "fround (of_int n) = Fin (of_int n)"
proof (cases "n = 0")
  case False
  define a where "a = \<bar>n\<bar>"
  have abs: "\<bar>of_int n :: rat\<bar> = of_int a"
    by (simp add: a_def)
  have a: "1 \<le> a" "a < 2 ^ 53"
    using False assms by (auto simp: a_def)
  have "bitlen a \<le> 53"
    using bitlen_le [of a 53] a by simp
  then have lg: "ilog2 (of_int a) - 52 \<le> 0"
    using a by (simp add: ilog2_def)
  define e where "e = max (-1074) (ilog2 (of_int a) - 52)"
  have e: "e \<le> 0"
    using lg by (simp add: e_def)
  have exact: "of_int (rne (of_int a / pow2 e)) * pow2 e = (of_int a :: rat)"
    using e by (simp add: of_int_div_pow2 del: of_int_mult)
               (simp add: pow2_def)
  have "(of_int a :: rat) < 2 ^ 53"
    using a(2) by (metis of_int_less_iff of_int_numeral of_int_power)
  moreover have "(2 :: rat) ^ 53 \<le> 2 ^ 1024"
    by (rule power_increasing) auto
  ultimately have "\<not> (2 ^ 1024 \<le> (of_int a :: rat))"
    by linarith
  then show ?thesis
    using False exact unfolding fround_def abs Let_def e_def [symmetric]
    by (auto simp: a_def)
qed simp

lemma fround_numeral [simp]:
  "(numeral k :: int) < 2 ^ 53 \<Longrightarrow> fround (numeral k) = Fin (numeral k)"
  "(numeral k :: int) < 2 ^ 53 \<Longrightarrow> fround (- numeral k) = Fin (- numeral k)"
  using fround_of_int [of "numeral k"] fround_of_int [of "- numeral k"] by simp_all

lemma fround_1 [simp]: "fround 1 = Fin 1" "fround (- 1) = Fin (- 1)"
  using fround_of_int [of 1] fround_of_int [of "- 1"] by simp_all

lemma of_int_flt_small: "\<bar>n\<bar> < 2 ^ 53 \<Longrightarrow> of_int_flt n = Fin (of_int n)"
  by (simp add: of_int_flt_def fround_of_int)

end
