(* ===== verification/Placement_Plan.thy ===== *)
theory Placement_Plan
  imports Prelude Float64
begin

text \<open>
  The rebalance planner of \<open>internal/placement/placement.go\<close>: \<open>PlanColocated\<close>, its special cases
  \<open>PlanWeighted\<close> and \<open>Plan\<close>, the choice of the zone to move and the weight-proportional threshold.
  The threshold is computed in \<open>float64\<close>, so the model rounds as the code does.

  A Go map is a partial function, or a total one where the code only reads it with the zero
  default; the nil weight map, which the code tells from an empty one, is \<open>None\<close>. Loads are
  \<open>int\<close>s; the largest value of Go's \<open>int\<close>, which \<open>leastLoaded\<close> starts from, is \<open>maxInt\<close>.
\<close>

named_theorems plan_defs \<open>definitions of the planner\<close>

section \<open>float64 on the non-negative range the threshold uses\<close>

text \<open>\<open>n / d\<close> rounded to the nearest integer, ties to even.\<close>

definition rnd :: "int \<Rightarrow> int \<Rightarrow> int" where
  "rnd n d = (let q = n div d; r = n mod d
              in if 2 * r < d \<or> (2 * r = d \<and> even q) then q else q + 1)"

text \<open>
  A double as significand and exponent, standing for \<open>m * 2 ^ e\<close>. \<open>fl n d\<close> is the double nearest to
  \<open>n / d\<close>: 53 significant bits. Overflow and underflow are out of reach of these operands.
\<close>

type_synonym dbl = "int \<times> int"

definition scaled :: "int \<Rightarrow> int \<Rightarrow> int \<Rightarrow> int \<times> int" where
  "scaled n d e = (n * 2 ^ nat (- e), d * 2 ^ nat e)"

definition fl_exp :: "int \<Rightarrow> int \<Rightarrow> int" where
  "fl_exp n d =
     (let e0 = bitlen n - bitlen d - 53
      in case scaled n d e0 of (a, b) \<Rightarrow> if a \<ge> 2 ^ 53 * b then e0 + 1 else e0)"

definition fl :: "int \<Rightarrow> int \<Rightarrow> dbl" where
  "fl n d =
     (if n = 0 then (0, 0)
      else let e = fl_exp n d in (case scaled n d e of (a, b) \<Rightarrow> (rnd a b, e)))"

text \<open>Product and quotient of doubles, and the truncation \<open>int(x)\<close>.\<close>

definition fl_mul :: "dbl \<Rightarrow> dbl \<Rightarrow> dbl" where
  "fl_mul x y = (case fl (fst x * fst y) 1 of (m, e) \<Rightarrow> (m, e + snd x + snd y))"

definition fl_div :: "dbl \<Rightarrow> dbl \<Rightarrow> dbl" where
  "fl_div x y = (case fl (fst x) (fst y) of (m, e) \<Rightarrow> (m, e + snd x - snd y))"

definition fl_trunc :: "dbl \<Rightarrow> int" where
  "fl_trunc x = (if snd x \<ge> 0 then fst x * 2 ^ nat (snd x) else fst x div 2 ^ nat (- snd x))"

section \<open>The threshold\<close>

definition RebalanceThreshold :: int where "RebalanceThreshold = 1"

definition rebalanceFraction :: dbl where "rebalanceFraction = fl 15 100"

definition rebalanceThreshold :: "int \<Rightarrow> int \<Rightarrow> int" where
  "rebalanceThreshold tot shards =
     (if shards \<le> 0 then RebalanceThreshold
      else let prop = fl_trunc (fl_mul rebalanceFraction (fl_div (fl tot 1) (fl shards 1)))
           in if prop > RebalanceThreshold then prop else RebalanceThreshold)"

section \<open>Shards by load\<close>

definition maxInt :: int where "maxInt = 9223372036854775807"

type_synonym loads = "shard_id \<Rightarrow> int"

definition sortedShards :: "shard_id list \<Rightarrow> shard_id list" where
  "sortedShards shards = sort shards"

fun least_from :: "loads \<Rightarrow> shard_id list \<Rightarrow> shard_id \<Rightarrow> int \<Rightarrow> shard_id" where
  "least_from load [] best bestN = best"
| "least_from load (s # ss) best bestN =
     (if load s < bestN then least_from load ss s (load s) else least_from load ss best bestN)"

definition leastLoaded :: "shard_id list \<Rightarrow> loads \<Rightarrow> shard_id" where
  "leastLoaded shards load = least_from load (sortedShards shards) '''' maxInt"

fun most_from :: "loads \<Rightarrow> shard_id list \<Rightarrow> shard_id \<Rightarrow> int \<Rightarrow> shard_id" where
  "most_from load [] best bestN = best"
| "most_from load (s # ss) best bestN =
     (if load s > bestN then most_from load ss s (load s) else most_from load ss best bestN)"

definition mostLoaded :: "shard_id list \<Rightarrow> loads \<Rightarrow> shard_id" where
  "mostLoaded shards load = most_from load (sortedShards shards) '''' (- 1)"

section \<open>The planner\<close>

record move =
  m_zone :: zone_id
  m_from :: shard_id
  m_to :: shard_id

record plan_state =
  p_load :: loads
  p_rc :: "shard_id \<Rightarrow> string \<Rightarrow> int"
  p_owner :: "zone_id \<Rightarrow> shard_id"
  p_moves :: "move list"

type_synonym weights = "(zone_id \<rightharpoonup> int) option"
type_synonym regions = "zone_id \<rightharpoonup> string"

definition zweight :: "weights \<Rightarrow> zone_id \<Rightarrow> int" where
  "zweight zw z = (case zw of None \<Rightarrow> 1 | Some m \<Rightarrow> (case m z of Some w \<Rightarrow> if w > 0 then w else 1 | None \<Rightarrow> 1))"

definition region :: "regions \<Rightarrow> zone_id \<Rightarrow> string" where
  "region zr z = (case zr z of None \<Rightarrow> '''' | Some r \<Rightarrow> r)"

text \<open>\<open>rc[s][r] += d\<close> where the zone has a region.\<close>

definition rc_add :: "regions \<Rightarrow> zone_id \<Rightarrow> shard_id \<Rightarrow> int \<Rightarrow> (shard_id \<Rightarrow> string \<Rightarrow> int) \<Rightarrow> (shard_id \<Rightarrow> string \<Rightarrow> int)" where
  "rc_add zr z s d rc =
     (let r = region zr z in if r = '''' then rc else rc(s := (rc s)(r := rc s r + d)))"

definition gain :: "weights \<Rightarrow> regions \<Rightarrow> zone_id \<Rightarrow> shard_id \<Rightarrow> plan_state \<Rightarrow> plan_state" where
  "gain zw zr z s p =
     p\<lparr>p_owner := (p_owner p)(z := s), p_load := (p_load p)(s := p_load p s + zweight zw z),
       p_rc := rc_add zr z s 1 (p_rc p)\<rparr>"

text \<open>The tally of the current assignment: a zone without a live owner stays unowned.\<close>

definition tally1 ::
  "shard_id list \<Rightarrow> (zone_id \<rightharpoonup> shard_id) \<Rightarrow> weights \<Rightarrow> regions \<Rightarrow> plan_state \<Rightarrow> zone_id \<Rightarrow> plan_state" where
  "tally1 live asg zw zr p z =
     (case asg z of
        Some w \<Rightarrow> if w \<noteq> '''' \<and> w \<in> set live then gain zw zr z w p else p\<lparr>p_owner := (p_owner p)(z := '''')\<rparr>
      | None \<Rightarrow> p\<lparr>p_owner := (p_owner p)(z := '''')\<rparr>)"

definition tally ::
  "shard_id list \<Rightarrow> (zone_id \<rightharpoonup> shard_id) \<Rightarrow> weights \<Rightarrow> regions \<Rightarrow> zone_id list \<Rightarrow> plan_state" where
  "tally live asg zw zr pool =
     foldl (tally1 live asg zw zr)
       \<lparr>p_load = (\<lambda>_. 0), p_rc = (\<lambda>_ _. 0), p_owner = (\<lambda>_. ''''), p_moves = []\<rparr> pool"

text \<open>Phase 1: an unowned zone goes to the least-loaded shard.\<close>

definition assign1 :: "shard_id list \<Rightarrow> weights \<Rightarrow> regions \<Rightarrow> plan_state \<Rightarrow> zone_id \<Rightarrow> plan_state" where
  "assign1 live zw zr p z =
     (if p_owner p z \<noteq> '''' then p
      else let to = leastLoaded live (p_load p)
           in gain zw zr z to (p\<lparr>p_moves := p_moves p @ [\<lparr>m_zone = z, m_from = '''', m_to = to\<rparr>]\<rparr>))"

text \<open>The scan of \<open>pickColocatingZone\<close> with its running best.\<close>

fun pick_from ::
  "shard_id \<Rightarrow> shard_id \<Rightarrow> plan_state \<Rightarrow> weights \<Rightarrow> regions \<Rightarrow> int \<Rightarrow> zone_id list
     \<Rightarrow> zone_id \<Rightarrow> int \<Rightarrow> int \<Rightarrow> zone_id" where
  "pick_from hi lo p zw zr gap [] best bestMates bestW = best"
| "pick_from hi lo p zw zr gap (z # zs) best bestMates bestW =
     (if p_owner p z \<noteq> hi then pick_from hi lo p zw zr gap zs best bestMates bestW
      else let w = zweight zw z
           in if w \<ge> gap then pick_from hi lo p zw zr gap zs best bestMates bestW
              else let r = region zr z; mates = (if r \<noteq> '''' then p_rc p lo r else 0)
                   in if mates > bestMates \<or> (mates = bestMates \<and> w > bestW)
                      then pick_from hi lo p zw zr gap zs z mates w
                      else pick_from hi lo p zw zr gap zs best bestMates bestW)"

definition pickColocatingZone ::
  "shard_id \<Rightarrow> shard_id \<Rightarrow> plan_state \<Rightarrow> weights \<Rightarrow> regions \<Rightarrow> zone_id list \<Rightarrow> int \<Rightarrow> zone_id" where
  "pickColocatingZone hi lo p zw zr pool gap = pick_from hi lo p zw zr gap pool '''' (- 1) (- 1)"

definition move_zone :: "weights \<Rightarrow> regions \<Rightarrow> zone_id \<Rightarrow> shard_id \<Rightarrow> shard_id \<Rightarrow> plan_state \<Rightarrow> plan_state" where
  "move_zone zw zr z hi lo p =
     (let w = zweight zw z; l1 = (p_load p)(hi := p_load p hi - w)
      in p\<lparr>p_rc := rc_add zr z lo 1 (rc_add zr z hi (- 1) (p_rc p)),
           p_moves := p_moves p @ [\<lparr>m_zone = z, m_from = hi, m_to = lo\<rparr>],
           p_owner := (p_owner p)(z := lo),
           p_load := l1(lo := l1 lo + w)\<rparr>)"

lemma zweight_pos: "zweight zw z \<ge> 1"
  by (auto simp: zweight_def split: option.splits)

lemma least_from_in: "least_from load ss best n \<in> insert best (set ss)"
  by (induction load ss best n rule: least_from.induct) auto

lemma most_from_in: "most_from load ss best n \<in> insert best (set ss)"
  by (induction load ss best n rule: most_from.induct) auto

lemma pick_from_step:
  "\<exists>b m v. pick_from hi lo p zw zr gap (z # zs) best bm bw = pick_from hi lo p zw zr gap zs b m v \<and>
     (b = best \<and> m = bm \<and> v = bw \<or> b = z \<and> p_owner p z = hi \<and> zweight zw z < gap)"
  by (cases "p_owner p z = hi \<and> zweight zw z < gap") (auto simp: Let_def)

lemma pick_from_spec:
  "pick_from hi lo p zw zr gap zs best bm bw = z \<Longrightarrow>
     z = best \<or> z \<in> set zs \<and> p_owner p z = hi \<and> zweight zw z < gap"
proof (induction zs arbitrary: best bm bw)
  case (Cons y zs)
  then show ?case
    using pick_from_step [of hi lo p zw zr gap y zs best bm bw] by (metis list.set_intros)
qed simp

text \<open>
  Phase 2. Its measure is the sum of the squared loads: moving a weight \<open>w\<close> with \<open>0 < w < gap\<close> lowers
  it by \<open>2 * w * (gap - w)\<close>.
\<close>

definition load_squares :: "shard_id list \<Rightarrow> loads \<Rightarrow> nat" where
  "load_squares live load = nat (\<Sum>s \<in> insert '''' (set live). (load s)\<^sup>2)"

lemma load_squares_decreases:
  assumes "hi \<in> insert '''' (set live)" "lo \<in> insert '''' (set live)" "0 < w" "w < load hi - load lo"
  shows "load_squares live ((load(hi := load hi - w))(lo := load lo + w)) < load_squares live load"
proof -
  let ?S = "insert '''' (set live)" and ?l = "(load(hi := load hi - w))(lo := load lo + w)"
  have ne: "hi \<noteq> lo" using assms(3,4) by auto
  have split: "(\<Sum>s \<in> ?S. (f s)\<^sup>2) = (f hi)\<^sup>2 + (f lo)\<^sup>2 + (\<Sum>s \<in> ?S - {hi, lo}. (f s)\<^sup>2)" for f :: loads
    using assms(1,2) ne
    by (subst sum.remove [of _ hi], simp, simp, subst sum.remove [of _ lo])
      (auto simp: Diff_insert2 [symmetric] insert_commute intro: arg_cong2 [where f = "(+)"])
  have "0 < w * (load hi - load lo - w)" using assms(3,4) by simp
  then have "(load hi - w)\<^sup>2 + (load lo + w)\<^sup>2 < (load hi)\<^sup>2 + (load lo)\<^sup>2"
    by (simp add: power2_eq_square algebra_simps)
  moreover have "(\<Sum>s \<in> ?S - {hi, lo}. (?l s)\<^sup>2) = (\<Sum>s \<in> ?S - {hi, lo}. (load s)\<^sup>2)"
    by (rule sum.cong) auto
  ultimately have "(\<Sum>s \<in> ?S. (?l s)\<^sup>2) < (\<Sum>s \<in> ?S. (load s)\<^sup>2)"
    unfolding split [of ?l] split [of load] using ne by simp
  moreover have "0 \<le> (\<Sum>s \<in> ?S. (?l s)\<^sup>2)" by (intro sum_nonneg) simp
  ultimately show ?thesis by (simp add: load_squares_def)
qed

function rebalance ::
  "shard_id list \<Rightarrow> zone_id list \<Rightarrow> weights \<Rightarrow> regions \<Rightarrow> int \<Rightarrow> plan_state \<Rightarrow> plan_state" where
  "rebalance live pool zw zr threshold p =
     (let hi = mostLoaded live (p_load p);
          lo = leastLoaded live (p_load p);
          gap = p_load p hi - p_load p lo
      in if gap \<le> threshold then p
         else let z = pickColocatingZone hi lo p zw zr pool gap
              in if z = '''' then p
                 else rebalance live pool zw zr threshold (move_zone zw zr z hi lo p))"
  by pat_completeness auto

termination
proof (relation "measure (\<lambda>(live, pool, zw, zr, threshold, p). load_squares live (p_load p))", simp, clarsimp)
  fix live pool zw zr and threshold :: int and p :: plan_state
  let ?hi = "mostLoaded live (p_load p)" and ?lo = "leastLoaded live (p_load p)"
  let ?gap = "p_load p ?hi - p_load p ?lo"
  let ?z = "pickColocatingZone ?hi ?lo p zw zr pool ?gap"
  assume "?z \<noteq> ''''"
  then have "zweight zw ?z < ?gap"
    using pick_from_spec [of ?hi ?lo p zw zr ?gap pool "''''" "-1" "-1" ?z] by (auto simp: pickColocatingZone_def)
  moreover have "0 < zweight zw ?z" using zweight_pos [of zw ?z] by simp
  moreover have "?hi \<in> insert '''' (set live)" "?lo \<in> insert '''' (set live)"
    using most_from_in [of "p_load p" "sort live" "''''" "-1"] least_from_in [of "p_load p" "sort live" "''''" maxInt]
    by (simp_all add: mostLoaded_def leastLoaded_def sortedShards_def)
  ultimately show "load_squares live (p_load (move_zone zw zr ?z ?hi ?lo p)) < load_squares live (p_load p)"
    using load_squares_decreases [of ?hi live ?lo "zweight zw ?z" "p_load p"]
    by (auto simp: move_zone_def Let_def)
qed

declare rebalance.simps [simp del]

definition plan_threshold :: "shard_id list \<Rightarrow> weights \<Rightarrow> loads \<Rightarrow> int" where
  "plan_threshold live zw load =
     (case zw of
        None \<Rightarrow> RebalanceThreshold
      | Some _ \<Rightarrow> rebalanceThreshold (sum_list (map load live)) (int (length live)))"

definition plan_final ::
  "shard_id list \<Rightarrow> (zone_id \<rightharpoonup> shard_id) \<Rightarrow> zone_id list \<Rightarrow> weights \<Rightarrow> regions \<Rightarrow> plan_state" where
  "plan_final live asg pool zw zr =
     (let p1 = foldl (assign1 live zw zr) (tally live asg zw zr pool) pool
      in rebalance live pool zw zr (plan_threshold live zw (p_load p1)) p1)"

definition PlanColocated ::
  "shard_id list \<Rightarrow> (zone_id \<rightharpoonup> shard_id) \<Rightarrow> zone_id list \<Rightarrow> weights \<Rightarrow> regions \<Rightarrow> move list" where
  "PlanColocated live asg pool zw zr =
     (if live = [] then [] else p_moves (plan_final live asg pool zw zr))"

definition PlanWeighted ::
  "shard_id list \<Rightarrow> (zone_id \<rightharpoonup> shard_id) \<Rightarrow> zone_id list \<Rightarrow> weights \<Rightarrow> move list" where
  "PlanWeighted live asg pool zw = PlanColocated live asg pool zw Map.empty"

definition Plan :: "shard_id list \<Rightarrow> (zone_id \<rightharpoonup> shard_id) \<Rightarrow> zone_id list \<Rightarrow> move list" where
  "Plan live asg pool = PlanWeighted live asg pool None"

section \<open>What the tables hold\<close>

text \<open>The summed \<open>f\<close> of the pool zones a shard owns; \<open>''''\<close> stands for nobody.\<close>

definition owned_sum :: "zone_id list \<Rightarrow> (zone_id \<Rightarrow> int) \<Rightarrow> (zone_id \<Rightarrow> shard_id) \<Rightarrow> shard_id \<Rightarrow> int" where
  "owned_sum pool f own s = (if s = '''' then 0 else \<Sum>z \<in> set pool. if own z = s then f z else 0)"

definition in_region :: "regions \<Rightarrow> string \<Rightarrow> zone_id \<Rightarrow> int" where
  "in_region zr r z = (if r \<noteq> '''' \<and> region zr z = r then 1 else 0)"

definition tables_ok :: "zone_id list \<Rightarrow> weights \<Rightarrow> regions \<Rightarrow> plan_state \<Rightarrow> bool" where
  "tables_ok pool zw zr p \<longleftrightarrow>
     (\<forall>s. p_load p s = owned_sum pool (zweight zw) (p_owner p) s) \<and>
     (\<forall>s r. p_rc p s r = owned_sum pool (in_region zr r) (p_owner p) s) \<and>
     (\<forall>z. z \<notin> set pool \<longrightarrow> p_owner p z = '''')"

lemma owned_sum_update:
  assumes "z \<in> set pool"
  shows "owned_sum pool f (own(z := t)) s =
         owned_sum pool f own s + (if s = '''' then 0 else (if t = s then f z else 0) - (if own z = s then f z else 0))"
  using assms
  by (auto simp: owned_sum_def sum.remove [of "set pool" z] intro!: sum.cong)

lemma owned_sum_nonneg: "(\<And>z. 0 \<le> f z) \<Longrightarrow> 0 \<le> owned_sum pool f own s"
  by (auto simp: owned_sum_def intro!: sum_nonneg)

lemma owned_sum_le: "(\<And>z. 0 \<le> f z) \<Longrightarrow> owned_sum pool f own s \<le> (\<Sum>z \<in> set pool. f z)"
  by (auto simp: owned_sum_def intro!: sum_mono sum_nonneg)

lemma gain_tables:
  assumes "tables_ok pool zw zr p" "z \<in> set pool" "p_owner p z = ''''" "s \<noteq> ''''"
  shows "tables_ok pool zw zr (gain zw zr z s p)"
  using assms
  by (auto simp: tables_ok_def gain_def rc_add_def owned_sum_update in_region_def Let_def)

lemma move_tables:
  assumes "tables_ok pool zw zr p" "z \<in> set pool" "p_owner p z = hi" "hi \<noteq> ''''" "lo \<noteq> ''''" "hi \<noteq> lo"
  shows "tables_ok pool zw zr (move_zone zw zr z hi lo p)"
  using assms
  by (auto simp: tables_ok_def move_zone_def rc_add_def owned_sum_update in_region_def Let_def)

lemma tables_moves [simp]: "tables_ok pool zw zr (p\<lparr>p_moves := ms\<rparr>) = tables_ok pool zw zr p"
  by (simp add: tables_ok_def)

section \<open>Moves as a plan\<close>

fun apply_moves :: "move list \<Rightarrow> (zone_id \<Rightarrow> shard_id) \<Rightarrow> (zone_id \<Rightarrow> shard_id)" where
  "apply_moves [] own = own"
| "apply_moves (m # ms) own = apply_moves ms (own(m_zone m := m_to m))"

text \<open>Every move names a pool zone, its owner at that point of the plan, and another live shard.\<close>

fun valid_moves :: "shard_id list \<Rightarrow> zone_id list \<Rightarrow> move list \<Rightarrow> (zone_id \<Rightarrow> shard_id) \<Rightarrow> bool" where
  "valid_moves live pool [] own = True"
| "valid_moves live pool (m # ms) own =
     (m_zone m \<in> set pool \<and> m_from m = own (m_zone m) \<and> m_to m \<in> set live \<and> m_from m \<noteq> m_to m \<and>
      valid_moves live pool ms (own(m_zone m := m_to m)))"

text \<open>The live owner of a zone, \<open>''''\<close> where it has none.\<close>

definition live_owner :: "shard_id list \<Rightarrow> (zone_id \<rightharpoonup> shard_id) \<Rightarrow> zone_id list \<Rightarrow> zone_id \<Rightarrow> shard_id" where
  "live_owner live asg pool z =
     (if z \<in> set pool
      then (case asg z of Some w \<Rightarrow> if w \<noteq> '''' \<and> w \<in> set live then w else '''' | None \<Rightarrow> '''')
      else '''')"

definition planned :: "shard_id list \<Rightarrow> zone_id list \<Rightarrow> (zone_id \<Rightarrow> shard_id) \<Rightarrow> plan_state \<Rightarrow> bool" where
  "planned live pool own p \<longleftrightarrow>
     p_owner p = apply_moves (p_moves p) own \<and> valid_moves live pool (p_moves p) own"

lemma apply_moves_append: "apply_moves (ms @ ns) own = apply_moves ns (apply_moves ms own)"
  by (induction ms arbitrary: own) auto

lemma valid_moves_append:
  "valid_moves live pool (ms @ ns) own \<longleftrightarrow>
     valid_moves live pool ms own \<and> valid_moves live pool ns (apply_moves ms own)"
  by (induction ms arbitrary: own) auto

lemma planned_snoc:
  assumes "planned live pool own p" "z \<in> set pool" "t \<in> set live" "p_owner p z \<noteq> t"
    "p_owner q = (p_owner p)(z := t)" "p_moves q = p_moves p @ [\<lparr>m_zone = z, m_from = p_owner p z, m_to = t\<rparr>]"
  shows "planned live pool own q"
  using assms by (simp add: planned_def apply_moves_append valid_moves_append)

lemma tally_spec:
  assumes "distinct zs" "set zs \<subseteq> set pool" "tables_ok pool zw zr p" "\<forall>z \<in> set zs. p_owner p z = ''''" "p_moves p = []"
  shows "tables_ok pool zw zr (foldl (tally1 live asg zw zr) p zs) \<and>
         p_moves (foldl (tally1 live asg zw zr) p zs) = [] \<and>
         p_owner (foldl (tally1 live asg zw zr) p zs) = (\<lambda>z. if z \<in> set zs then live_owner live asg pool z else p_owner p z)"
  using assms
proof (induction zs arbitrary: p)
  case (Cons z zs)
  let ?q = "tally1 live asg zw zr p z"
  have own: "p_owner ?q = (p_owner p)(z := live_owner live asg pool z)"
    using Cons.prems by (auto simp: tally1_def live_owner_def gain_def split: option.splits)
  have "tables_ok pool zw zr ?q"
  proof (cases "live_owner live asg pool z = ''''")
    case True
    then have "?q = p\<lparr>p_owner := (p_owner p)(z := '''')\<rparr>"
      using Cons.prems(2) by (auto simp: tally1_def live_owner_def split: option.splits if_splits)
    also have "(p_owner p)(z := '''') = p_owner p" using Cons.prems(4) by auto
    finally show ?thesis using Cons.prems(3) by simp
  next
    case False
    then have "?q = gain zw zr z (live_owner live asg pool z) p"
      using Cons.prems(2) by (auto simp: tally1_def live_owner_def split: option.splits if_splits)
    then show ?thesis using Cons.prems False by (auto intro: gain_tables)
  qed
  moreover have "\<forall>y \<in> set zs. p_owner ?q y = ''''" "p_moves ?q = []"
    using Cons.prems by (auto simp: own tally1_def gain_def split: option.splits)
  ultimately have IH: "tables_ok pool zw zr (foldl (tally1 live asg zw zr) ?q zs) \<and>
      p_moves (foldl (tally1 live asg zw zr) ?q zs) = [] \<and>
      p_owner (foldl (tally1 live asg zw zr) ?q zs) = (\<lambda>y. if y \<in> set zs then live_owner live asg pool y else p_owner ?q y)"
    using Cons.prems by (intro Cons.IH) auto
  then show ?case using Cons.prems(1) by (auto simp: own fun_eq_iff)
qed auto

section \<open>Least and most loaded\<close>

lemma least_from_spec:
  assumes "least_from load ss best n = r" "best \<in> B \<longrightarrow> load best = n"
  shows "(r = best \<and> (\<forall>s \<in> set ss. n \<le> load s)) \<or>
         (r \<in> set ss \<and> load r < n \<and> (\<forall>s \<in> set ss. load r \<le> load s))"
  using assms(1)
proof (induction ss arbitrary: best n)
  case (Cons a ss)
  show ?case
  proof (cases "load a < n")
    case True
    then show ?thesis using Cons.IH [of a "load a"] Cons.prems by auto
  next
    case False
    then show ?thesis using Cons.IH [of best n] Cons.prems by force
  qed
qed simp

lemma most_from_spec:
  assumes "most_from load ss best n = r"
  shows "(r = best \<and> (\<forall>s \<in> set ss. load s \<le> n)) \<or>
         (r \<in> set ss \<and> n < load r \<and> (\<forall>s \<in> set ss. load s \<le> load r))"
  using assms
proof (induction ss arbitrary: best n)
  case (Cons a ss)
  show ?case
  proof (cases "n < load a")
    case True
    then show ?thesis using Cons.IH [of a "load a"] Cons.prems by auto
  next
    case False
    then show ?thesis using Cons.IH [of best n] Cons.prems by force
  qed
qed simp

lemma leastLoaded_spec:
  assumes "live \<noteq> []" "\<forall>s \<in> set live. load s < maxInt"
  shows "leastLoaded live load \<in> set live \<and> (\<forall>s \<in> set live. load (leastLoaded live load) \<le> load s)"
proof -
  obtain a where "a \<in> set live" using assms(1) by (cases live) auto
  then show ?thesis
    using least_from_spec [of load "sort live" "''''" maxInt "leastLoaded live load" "{}"] assms(2)
    by (fastforce simp: leastLoaded_def sortedShards_def)
qed

lemma mostLoaded_spec:
  assumes "live \<noteq> []" "\<forall>s \<in> set live. 0 \<le> load s"
  shows "mostLoaded live load \<in> set live \<and> (\<forall>s \<in> set live. load s \<le> load (mostLoaded live load))"
proof -
  obtain a where "a \<in> set live" using assms(1) by (cases live) auto
  then show ?thesis
    using most_from_spec [of load "sort live" "''''" "-1" "mostLoaded live load"] assms(2)
    by (fastforce simp: mostLoaded_def sortedShards_def)
qed

section \<open>The two phases\<close>

text \<open>What a plan is computed from: live shards and pool zones have names, and Go's \<open>int\<close> does not overflow.\<close>

definition plan_input :: "shard_id list \<Rightarrow> zone_id list \<Rightarrow> weights \<Rightarrow> bool" where
  "plan_input live pool zw \<longleftrightarrow>
     live \<noteq> [] \<and> '''' \<notin> set live \<and> '''' \<notin> set pool \<and> distinct pool \<and>
     (\<Sum>z \<in> set pool. zweight zw z) < maxInt"

lemma table_bounds:
  assumes "plan_input live pool zw" "tables_ok pool zw zr p"
  shows "0 \<le> p_load p s" "p_load p s < maxInt" "0 \<le> p_rc p s r"
proof -
  have "0 \<le> zweight zw z" for z using zweight_pos [of zw z] by simp
  then show "0 \<le> p_load p s" "p_load p s < maxInt"
    using assms owned_sum_nonneg [of "zweight zw" pool "p_owner p" s] owned_sum_le [of "zweight zw" pool "p_owner p" s]
    by (auto simp: tables_ok_def plan_input_def)
  show "0 \<le> p_rc p s r"
    using assms owned_sum_nonneg [of "in_region zr r" pool "p_owner p" s] by (auto simp: tables_ok_def in_region_def)
qed

lemma extremes:
  assumes "plan_input live pool zw" "tables_ok pool zw zr p"
  shows "leastLoaded live (p_load p) \<in> set live" "\<forall>s \<in> set live. p_load p (leastLoaded live (p_load p)) \<le> p_load p s"
    "mostLoaded live (p_load p) \<in> set live" "\<forall>s \<in> set live. p_load p s \<le> p_load p (mostLoaded live (p_load p))"
  using leastLoaded_spec [of live "p_load p"] mostLoaded_spec [of live "p_load p"] table_bounds [OF assms] assms(1)
  by (auto simp: plan_input_def)

lemma assign_spec:
  assumes "plan_input live pool zw" "set zs \<subseteq> set pool" "tables_ok pool zw zr p" "planned live pool own p"
    "\<forall>z \<in> set pool - set zs. p_owner p z \<in> set live" "\<forall>z. p_owner p z \<in> insert '''' (set live)"
  shows "tables_ok pool zw zr (foldl (assign1 live zw zr) p zs) \<and>
         planned live pool own (foldl (assign1 live zw zr) p zs) \<and>
         (\<forall>z \<in> set pool. p_owner (foldl (assign1 live zw zr) p zs) z \<in> set live)"
  using assms(2-)
proof (induction zs arbitrary: p)
  case (Cons z zs)
  let ?q = "assign1 live zw zr p z" and ?t = "leastLoaded live (p_load p)"
  have t: "?t \<in> set live" "?t \<noteq> ''''" using extremes [OF assms(1) Cons.prems(2)] assms(1) by (auto simp: plan_input_def)
  have "tables_ok pool zw zr ?q \<and> planned live pool own ?q \<and> p_owner ?q = (if p_owner p z = '''' then (p_owner p)(z := ?t) else p_owner p)"
  proof (cases "p_owner p z = ''''")
    case True
    then have "tables_ok pool zw zr ?q"
      using Cons.prems t by (auto simp: assign1_def Let_def intro: gain_tables)
    moreover have "planned live pool own ?q"
      using True t(2) Cons.prems(1)
      by (intro planned_snoc [where z = z, OF Cons.prems(3) _ t(1)]) (simp_all add: assign1_def Let_def gain_def)
    ultimately show ?thesis using True by (simp add: assign1_def Let_def gain_def)
  qed (use Cons.prems in \<open>simp add: assign1_def\<close>)
  then have q: "tables_ok pool zw zr ?q" "planned live pool own ?q"
    and own: "p_owner ?q = (if p_owner p z = '''' then (p_owner p)(z := ?t) else p_owner p)" by blast+
  have "\<forall>y \<in> set pool - set zs. p_owner ?q y \<in> set live" "\<forall>y. p_owner ?q y \<in> insert '''' (set live)"
    using Cons.prems(4,5) t(1) by (auto simp: own)
  then show ?case using Cons.IH [of ?q] Cons.prems(1) q by simp
qed auto

lemma pick_none:
  assumes "'''' \<notin> set zs" "\<forall>r. 0 \<le> p_rc p lo r" "pick_from hi lo p zw zr gap zs '''' bm bw = ''''" "bm < 0"
  shows "\<forall>z \<in> set zs. p_owner p z = hi \<longrightarrow> zweight zw z \<ge> gap"
  using assms
proof (induction zs)
  case (Cons z zs)
  show ?case
  proof (cases "p_owner p z = hi \<and> zweight zw z < gap")
    case False
    then have "pick_from hi lo p zw zr gap zs '''' bm bw = ''''"
      using Cons.prems(3) by (cases "p_owner p z = hi") (auto simp: Let_def)
    then show ?thesis using Cons False by auto
  next
    case True
    define m where "m = (if region zr z \<noteq> '''' then p_rc p lo (region zr z) else 0)"
    have "bm < m" using Cons.prems(2,4) by (auto simp: m_def intro: order_less_le_trans)
    then have "pick_from hi lo p zw zr gap (z # zs) '''' bm bw = pick_from hi lo p zw zr gap zs z m (zweight zw z)"
      using True by (auto simp: Let_def m_def)
    then have "z = '''' \<or> '''' \<in> set zs"
      using Cons.prems(3) pick_from_spec [of hi lo p zw zr gap zs z m "zweight zw z" "''''"] by auto
    then show ?thesis using Cons.prems(1) by auto
  qed
qed simp

lemma rebalance_spec:
  assumes "plan_input live pool zw" "tables_ok pool zw zr p" "planned live pool own p" "1 \<le> th"
    "\<forall>z \<in> set pool. p_owner p z \<in> set live"
  shows "tables_ok pool zw zr (rebalance live pool zw zr th p) \<and>
         planned live pool own (rebalance live pool zw zr th p) \<and>
         (\<forall>z \<in> set pool. p_owner (rebalance live pool zw zr th p) z \<in> set live)"
  using assms
proof (induction live pool zw zr th p rule: rebalance.induct)
  case (1 live pool zw zr th p)
  let ?hi = "mostLoaded live (p_load p)" and ?lo = "leastLoaded live (p_load p)"
  let ?gap = "p_load p ?hi - p_load p ?lo"
  let ?z = "pickColocatingZone ?hi ?lo p zw zr pool ?gap"
  show ?case
  proof (cases "?gap \<le> th \<or> ?z = ''''")
    case True
    then have "rebalance live pool zw zr th p = p" by (subst rebalance.simps) (auto simp: Let_def)
    then show ?thesis using "1.prems" by simp
  next
    case False
    then have z: "?z \<in> set pool" "p_owner p ?z = ?hi"
      using pick_from_spec [of ?hi ?lo p zw zr ?gap pool "''''" "-1" "-1" ?z] by (auto simp: pickColocatingZone_def)
    have e: "?hi \<in> set live" "?lo \<in> set live" "?hi \<noteq> ''''" "?lo \<noteq> ''''"
      using extremes [OF "1.prems"(1,2)] "1.prems"(1) by (auto simp: plan_input_def)
    have ne: "?hi \<noteq> ?lo" using False "1.prems"(4) by auto
    let ?q = "move_zone zw zr ?z ?hi ?lo p"
    have "tables_ok pool zw zr ?q" using "1.prems"(2) z e ne by (intro move_tables) auto
    moreover have "planned live pool own ?q"
      by (rule planned_snoc [OF "1.prems"(3) z(1) e(2)]) (simp_all add: z(2) ne move_zone_def Let_def)
    moreover have "\<forall>z \<in> set pool. p_owner ?q z \<in> set live" using "1.prems"(5) e by (simp add: move_zone_def Let_def)
    ultimately have "tables_ok pool zw zr (rebalance live pool zw zr th ?q) \<and>
         planned live pool own (rebalance live pool zw zr th ?q) \<and>
         (\<forall>z \<in> set pool. p_owner (rebalance live pool zw zr th ?q) z \<in> set live)"
      using "1.IH" [OF refl refl refl _ refl] False "1.prems"(1,4) by blast
    moreover have "rebalance live pool zw zr th p = rebalance live pool zw zr th ?q"
      using False by (subst rebalance.simps) (simp add: Let_def)
    ultimately show ?thesis by simp
  qed
qed

section \<open>Where the loop stops\<close>

definition stopped :: "shard_id list \<Rightarrow> zone_id list \<Rightarrow> weights \<Rightarrow> regions \<Rightarrow> int \<Rightarrow> plan_state \<Rightarrow> bool" where
  "stopped live pool zw zr th p \<longleftrightarrow>
     (let hi = mostLoaded live (p_load p); lo = leastLoaded live (p_load p); gap = p_load p hi - p_load p lo
      in gap \<le> th \<or> pickColocatingZone hi lo p zw zr pool gap = '''')"

lemma rebalance_stopped: "stopped live pool zw zr th p \<Longrightarrow> rebalance live pool zw zr th p = p"
  by (subst rebalance.simps) (auto simp: stopped_def Let_def)

lemma stopped_rebalance: "stopped live pool zw zr th (rebalance live pool zw zr th p)"
proof (induction live pool zw zr th p rule: rebalance.induct)
  case (1 live pool zw zr th p)
  show ?case
  proof (cases "stopped live pool zw zr th p")
    case True
    then show ?thesis by (simp add: rebalance_stopped)
  next
    case False
    then show ?thesis using "1.IH" [OF refl refl refl _ refl]
      by (subst rebalance.simps) (auto simp: stopped_def Let_def)
  qed
qed

lemma pick_from_moves: "pick_from hi lo (p\<lparr>p_moves := ms\<rparr>) zw zr gap zs best bm bw = pick_from hi lo p zw zr gap zs best bm bw"
  by (induction zs arbitrary: best bm bw) (simp_all add: Let_def)

lemma stopped_moves: "stopped live pool zw zr th (p\<lparr>p_moves := ms\<rparr>) = stopped live pool zw zr th p"
  by (simp add: stopped_def pickColocatingZone_def pick_from_moves Let_def)

lemma threshold_ge_1: "1 \<le> plan_threshold live zw load"
  by (auto simp: plan_threshold_def rebalanceThreshold_def RebalanceThreshold_def Let_def split: option.splits)

lemma tables_determined:
  assumes "tables_ok pool zw zr p" "tables_ok pool zw zr q" "p_owner p = p_owner q"
  shows "q = p\<lparr>p_moves := p_moves q\<rparr>"
  using assms by (intro plan_state.equality) (auto simp: tables_ok_def fun_eq_iff)

text \<open>The total is the weight of the pool, so the threshold is final once every zone has an owner.\<close>

lemma sum_owned:
  assumes "distinct live" "'''' \<notin> set live" "\<forall>z \<in> set pool. own z \<in> set live"
  shows "sum_list (map (owned_sum pool f own) live) = (\<Sum>z \<in> set pool. f z)"
proof -
  have "sum_list (map (owned_sum pool f own) live) = (\<Sum>s \<in> set live. owned_sum pool f own s)"
    using assms(1) by (simp add: sum_list_distinct_conv_sum_set)
  also have "\<dots> = (\<Sum>s \<in> set live. \<Sum>z \<in> set pool. if own z = s then f z else 0)"
    using assms(2) by (intro sum.cong) (auto simp: owned_sum_def)
  also have "\<dots> = (\<Sum>z \<in> set pool. \<Sum>s \<in> set live. if own z = s then f z else 0)" by (rule sum.swap)
  also have "\<dots> = (\<Sum>z \<in> set pool. f z)" using assms(3) by (intro sum.cong) auto
  finally show ?thesis .
qed

lemma tables_total:
  assumes "tables_ok pool zw zr p" "distinct live" "'''' \<notin> set live" "\<forall>z \<in> set pool. p_owner p z \<in> set live"
  shows "plan_threshold live zw (p_load p) =
         (case zw of None \<Rightarrow> 1 | Some _ \<Rightarrow> rebalanceThreshold (\<Sum>z \<in> set pool. zweight zw z) (int (length live)))"
proof -
  have "p_load p = owned_sum pool (zweight zw) (p_owner p)" using assms(1) by (auto simp: tables_ok_def)
  then have "sum_list (map (p_load p) live) = (\<Sum>z \<in> set pool. zweight zw z)"
    using sum_owned [OF assms(2-4), of "zweight zw"] by simp
  then show ?thesis by (simp add: plan_threshold_def RebalanceThreshold_def split: option.splits)
qed

lemma tally_all:
  assumes "plan_input live pool zw"
  shows "tables_ok pool zw zr (tally live asg zw zr pool)" "p_moves (tally live asg zw zr pool) = []"
    "p_owner (tally live asg zw zr pool) = live_owner live asg pool"
proof -
  have "tables_ok pool zw zr \<lparr>p_load = (\<lambda>_. 0), p_rc = (\<lambda>_ _. 0), p_owner = (\<lambda>_. ''''), p_moves = []\<rparr>"
    by (auto simp: tables_ok_def owned_sum_def)
  from tally_spec [OF _ _ this, of pool live asg] assms
  show "tables_ok pool zw zr (tally live asg zw zr pool)" "p_moves (tally live asg zw zr pool) = []"
    "p_owner (tally live asg zw zr pool) = live_owner live asg pool"
    by (auto simp: tally_def plan_input_def live_owner_def fun_eq_iff)
qed

lemma plan_final_spec:
  assumes "plan_input live pool zw"
  shows "tables_ok pool zw zr (plan_final live asg pool zw zr)"
    "planned live pool (live_owner live asg pool) (plan_final live asg pool zw zr)"
    "\<forall>z \<in> set pool. p_owner (plan_final live asg pool zw zr) z \<in> set live"
    "distinct live \<Longrightarrow> stopped live pool zw zr (plan_threshold live zw (p_load (plan_final live asg pool zw zr))) (plan_final live asg pool zw zr)"
proof -
  define p0 where "p0 = tally live asg zw zr pool"
  define p1 where "p1 = foldl (assign1 live zw zr) p0 pool"
  define p2 where "p2 = rebalance live pool zw zr (plan_threshold live zw (p_load p1)) p1"
  have p2: "plan_final live asg pool zw zr = p2" by (simp add: plan_final_def p2_def p1_def p0_def Let_def)
  have p0: "tables_ok pool zw zr p0" "planned live pool (live_owner live asg pool) p0"
    "\<forall>z. p_owner p0 z \<in> insert '''' (set live)"
    using tally_all [OF assms] by (auto simp: p0_def planned_def live_owner_def split: option.splits)
  have p1: "tables_ok pool zw zr p1" "planned live pool (live_owner live asg pool) p1"
    "\<forall>z \<in> set pool. p_owner p1 z \<in> set live"
    using assign_spec [OF assms _ p0(1,2)] p0(3) by (auto simp: p1_def)
  have r: "tables_ok pool zw zr p2" "planned live pool (live_owner live asg pool) p2"
    "\<forall>z \<in> set pool. p_owner p2 z \<in> set live"
    using rebalance_spec [OF assms p1(1,2) threshold_ge_1 p1(3)] by (auto simp: p2_def)
  then show "tables_ok pool zw zr (plan_final live asg pool zw zr)"
    "planned live pool (live_owner live asg pool) (plan_final live asg pool zw zr)"
    "\<forall>z \<in> set pool. p_owner (plan_final live asg pool zw zr) z \<in> set live"
    by (simp_all add: p2)
  assume "distinct live"
  then have "plan_threshold live zw (p_load p2) = plan_threshold live zw (p_load p1)"
    using tables_total [OF r(1) _ _ r(3)] tables_total [OF p1(1) _ _ p1(3)] assms by (simp add: plan_input_def)
  then show "stopped live pool zw zr (plan_threshold live zw (p_load (plan_final live asg pool zw zr))) (plan_final live asg pool zw zr)"
    using stopped_rebalance by (simp add: p2 p2_def)
qed

section \<open>Properties\<close>

text \<open>
  C7. The planner is total and its plan can be executed: the rebalance loop ends on every input, each
  move names a pool zone, the zone's owner at that point of the plan (nobody for an assignment) and
  another live shard, and after the plan every pool zone has a live owner.
\<close>

theorem plan_executable:
  assumes "plan_input live pool zw"
  shows "valid_moves live pool (PlanColocated live asg pool zw zr) (live_owner live asg pool) \<and>
         (\<forall>z \<in> set pool. apply_moves (PlanColocated live asg pool zw zr) (live_owner live asg pool) z \<in> set live)"
proof -
  have "live \<noteq> []" using assms by (simp add: plan_input_def)
  then show ?thesis using plan_final_spec(2,3) [OF assms, where zr = zr and asg = asg] by (auto simp: PlanColocated_def planned_def)
qed

definition spread_ok :: "shard_id list \<Rightarrow> zone_id list \<Rightarrow> weights \<Rightarrow> int \<Rightarrow> (zone_id \<Rightarrow> shard_id) \<Rightarrow> bool" where
  "spread_ok live pool zw th own \<longleftrightarrow>
     (\<exists>hi \<in> set live. \<exists>lo \<in> set live.
        let ld = owned_sum pool (zweight zw) own; gap = ld hi - ld lo
        in (\<forall>s \<in> set live. ld lo \<le> ld s \<and> ld s \<le> ld hi) \<and>
           (gap \<le> th \<or> (\<forall>z \<in> set pool. own z = hi \<longrightarrow> gap \<le> zweight zw z)))"

lemma stopped_spread:
  assumes "plan_input live pool zw" "tables_ok pool zw zr p" "stopped live pool zw zr th p"
  shows "spread_ok live pool zw th (p_owner p)"
proof -
  let ?hi = "mostLoaded live (p_load p)" and ?lo = "leastLoaded live (p_load p)"
  let ?gap = "p_load p ?hi - p_load p ?lo"
  note e = extremes [OF assms(1,2)]
  have ld: "owned_sum pool (zweight zw) (p_owner p) = p_load p" using assms(2) by (auto simp: tables_ok_def)
  have "\<forall>z \<in> set pool. p_owner p z = ?hi \<longrightarrow> ?gap \<le> zweight zw z" if "\<not> ?gap \<le> th"
    using assms(3) that table_bounds(3) [OF assms(1,2)] assms(1)
    by (intro pick_none [where lo = ?lo and bm = "-1" and bw = "-1"])
      (auto simp: stopped_def pickColocatingZone_def plan_input_def Let_def)
  then show ?thesis unfolding spread_ok_def Let_def ld
    using e by (intro bexI [of _ ?hi] bexI [of _ ?lo] conjI) auto
qed

lemma count_spread:
  assumes "plan_input live pool None" "spread_ok live pool None 1 own" "s \<in> set live" "t \<in> set live"
  shows "owned_sum pool (zweight None) own s - owned_sum pool (zweight None) own t \<le> 1"
proof -
  let ?ld = "owned_sum pool (zweight None) own"
  obtain hi lo where h: "hi \<in> set live" "\<forall>s \<in> set live. ?ld lo \<le> ?ld s \<and> ?ld s \<le> ?ld hi"
    "?ld hi - ?ld lo \<le> 1 \<or> (\<forall>z \<in> set pool. own z = hi \<longrightarrow> ?ld hi - ?ld lo \<le> zweight None z)"
    using assms(2) by (auto simp: spread_ok_def Let_def)
  have "?ld hi - ?ld lo \<le> 1"
  proof (cases "\<exists>z \<in> set pool. own z = hi")
    case True
    then show ?thesis using h(3) by (auto simp: zweight_def)
  next
    case False
    then have "?ld hi = 0" by (auto simp: owned_sum_def intro!: sum.neutral)
    moreover have "0 \<le> ?ld lo" by (rule owned_sum_nonneg) (simp add: zweight_def)
    ultimately show ?thesis by simp
  qed
  moreover have "?ld s \<le> ?ld hi" "?ld lo \<le> ?ld t" using h(2) assms(3,4) by blast+
  ultimately show ?thesis by linarith
qed

text \<open>
  The spread after a plan is within the threshold, or no zone of the busiest shard is light
  enough to move without overshooting. By zone count the second case does not arise: any two live
  shards end within one zone of each other.
\<close>

lemma plan_balances:
  assumes "plan_input live pool zw" "distinct live"
  shows "spread_ok live pool zw
           (case zw of None \<Rightarrow> 1 | Some _ \<Rightarrow> rebalanceThreshold (\<Sum>z \<in> set pool. zweight zw z) (int (length live)))
           (apply_moves (PlanColocated live asg pool zw zr) (live_owner live asg pool)) \<and>
         (zw = None \<longrightarrow> (\<forall>s \<in> set live. \<forall>t \<in> set live.
            owned_sum pool (zweight zw) (apply_moves (PlanColocated live asg pool zw zr) (live_owner live asg pool)) s -
            owned_sum pool (zweight zw) (apply_moves (PlanColocated live asg pool zw zr) (live_owner live asg pool)) t \<le> 1))"
proof -
  let ?p = "plan_final live asg pool zw zr"
  note f = plan_final_spec [OF assms(1), where zr = zr and asg = asg]
  have own: "p_owner ?p = apply_moves (PlanColocated live asg pool zw zr) (live_owner live asg pool)"
    using f(2) assms(1) by (auto simp: planned_def PlanColocated_def plan_input_def)
  have "spread_ok live pool zw (plan_threshold live zw (p_load ?p)) (p_owner ?p)"
    by (rule stopped_spread [OF assms(1) f(1) f(4) [OF assms(2)]])
  moreover have "'''' \<notin> set live" using assms(1) by (simp add: plan_input_def)
  ultimately have s: "spread_ok live pool zw
      (case zw of None \<Rightarrow> 1 | Some _ \<Rightarrow> rebalanceThreshold (\<Sum>z \<in> set pool. zweight zw z) (int (length live))) (p_owner ?p)"
    using tables_total [OF f(1) assms(2) _ f(3)] by simp
  then show ?thesis using count_spread [of live pool "p_owner ?p"] assms(1) by (auto simp: own)
qed

text \<open>
  No thrashing: planning again from the assignment a plan leads to yields no move.
\<close>

lemma replan_is_empty:
  assumes "plan_input live pool zw" "distinct live"
  shows "PlanColocated live
           (\<lambda>z. Some (apply_moves (PlanColocated live asg pool zw zr) (live_owner live asg pool) z)) pool zw zr = []"
proof -
  let ?p = "plan_final live asg pool zw zr"
  note f = plan_final_spec [OF assms(1), where zr = zr and asg = asg]
  have own: "apply_moves (PlanColocated live asg pool zw zr) (live_owner live asg pool) = p_owner ?p"
    using f(2) assms(1) by (auto simp: planned_def PlanColocated_def plan_input_def)
  define q where "q = tally live (\<lambda>z. Some (p_owner ?p z)) zw zr pool"
  have nn: "'''' \<notin> set live" using assms(1) by (simp add: plan_input_def)
  have "live_owner live (\<lambda>z. Some (p_owner ?p z)) pool = p_owner ?p"
    using f(1,3) nn by (auto simp: live_owner_def tables_ok_def fun_eq_iff)
  then have q: "tables_ok pool zw zr q" "p_moves q = []" "p_owner q = p_owner ?p"
    using tally_all [OF assms(1)] by (auto simp: q_def)
  then have qp: "q = ?p\<lparr>p_moves := []\<rparr>" using tables_determined [OF f(1) q(1)] by simp
  have "foldl (assign1 live zw zr) q zs = q" if "set zs \<subseteq> set pool" for zs
    using that
  proof (induction zs)
    case (Cons z zs)
    then have "p_owner q z \<noteq> ''''" using f(3) nn q(3) by auto
    then show ?case using Cons by (simp add: assign1_def)
  qed simp
  then have "plan_final live (\<lambda>z. Some (p_owner ?p z)) pool zw zr = rebalance live pool zw zr (plan_threshold live zw (p_load q)) q"
    by (simp only: plan_final_def [of _ "\<lambda>z. Some (p_owner ?p z)"] q_def [symmetric] Let_def order_refl)
  also have "\<dots> = q" using f(4) [OF assms(2)] by (intro rebalance_stopped) (simp add: qp stopped_moves)
  finally have "PlanColocated live (\<lambda>z. Some (p_owner ?p z)) pool zw zr = []"
    using q(2) by (simp add: PlanColocated_def)
  then show ?thesis by (simp only: own)
qed

text \<open>A fleet with a dead owner and a busy shard; the witnesses plan it by weight.\<close>

definition demo_live :: "shard_id list" where "demo_live = [''a'', ''b'']"
definition demo_pool :: "zone_id list" where "demo_pool = [''w'', ''x'', ''y'', ''z'']"
definition demo_asg :: "zone_id \<rightharpoonup> shard_id" where
  "demo_asg = [''w'' \<mapsto> ''a'', ''x'' \<mapsto> ''a'', ''y'' \<mapsto> ''a'', ''z'' \<mapsto> ''dead'']"
definition demo_weights :: weights where "demo_weights = Some [''w'' \<mapsto> 40, ''x'' \<mapsto> 9]"

lemma demo_input: "plan_input demo_live demo_pool zw" if "zw = None \<or> zw = demo_weights"
  using that
  by (auto simp: plan_input_def demo_live_def demo_pool_def demo_weights_def zweight_def maxInt_def)

theorem plan_executable_witness:
  "plan_input demo_live demo_pool demo_weights \<and>
   valid_moves demo_live demo_pool (PlanColocated demo_live demo_asg demo_pool demo_weights Map.empty)
     (live_owner demo_live demo_asg demo_pool)"
  using plan_executable [of demo_live demo_pool demo_weights demo_asg Map.empty] demo_input by simp

end
