(* ===== verification/Placement_Fleet.thy ===== *)
theory Placement_Fleet
  imports Directory_Drain
begin

text \<open>
  The fleet-facing half of \<open>internal/placement/placement.go\<close>: the boot sweep \<open>ClaimFromPool\<close>, the
  coordinator's \<open>Observe\<close>, and the choice of a drain target. The directory is reached through the
  interfaces the Go code declares (\<open>ZoneClaimer\<close>, \<open>Fleet\<close>, \<open>DrainFleet\<close>, \<open>DrainReserver\<close>): here they are
  arguments that thread a directory state, and the two locales state what the callers rely on.
  Both are interpreted on the directory's own methods.
\<close>

section \<open>The boot sweep\<close>

type_synonym ('d, 'e) claimer = "zone_id \<Rightarrow> 'd \<Rightarrow> ('e + bool) \<times> 'd"

fun claim_pool ::
  "('d, 'e) claimer \<Rightarrow> zone_id list \<Rightarrow> zone_id list \<Rightarrow> (zone_id \<rightharpoonup> 'e) \<Rightarrow> 'd
     \<Rightarrow> (zone_id list \<times> (zone_id \<rightharpoonup> 'e)) \<times> 'd" where
  "claim_pool claim [] won errs d = ((won, errs), d)"
| "claim_pool claim (z # zs) won errs d =
     (case claim z d of
        (Inl e, d') \<Rightarrow> claim_pool claim zs won (errs(z \<mapsto> e)) d'
      | (Inr ok, d') \<Rightarrow> claim_pool claim zs (if ok then won @ [z] else won) errs d')"

definition ClaimFromPool ::
  "('d, 'e) claimer \<Rightarrow> zone_id list \<Rightarrow> 'd \<Rightarrow> (zone_id list \<times> (zone_id \<rightharpoonup> 'e)) \<times> 'd" where
  "ClaimFromPool claim pool d = claim_pool claim pool [] Map.empty d"

text \<open>\<open>Observe\<close>: the first failing read aborts; an unclaimed zone stays out of the assignment.\<close>

fun observe_zones ::
  "(zone_id \<Rightarrow> 'e + (shard_id \<times> bool)) \<Rightarrow> zone_id list \<Rightarrow> (zone_id \<rightharpoonup> shard_id) \<Rightarrow> 'e + (zone_id \<rightharpoonup> shard_id)" where
  "observe_zones read [] asg = Inr asg"
| "observe_zones read (z # zs) asg =
     (case read z of
        Inl e \<Rightarrow> Inl e
      | Inr (own, found) \<Rightarrow> observe_zones read zs (if found then asg(z \<mapsto> own) else asg))"

definition Observe ::
  "('e + shard_id list) \<Rightarrow> (zone_id \<Rightarrow> 'e + (shard_id \<times> bool)) \<Rightarrow> zone_id list
     \<Rightarrow> 'e + (shard_id list \<times> (zone_id \<rightharpoonup> shard_id))" where
  "Observe shards read pool =
     (case shards of
        Inl e \<Rightarrow> Inl e
      | Inr live \<Rightarrow> (case observe_zones read pool Map.empty of
                     Inl e \<Rightarrow> Inl e
                   | Inr asg \<Rightarrow> Inr (live, asg)))"

locale zone_claimer =
  fixes claim :: "('d, 'e) claimer"
    and mine :: "'d \<Rightarrow> zone_id \<Rightarrow> bool"
  assumes granted: "fst (claim z d) = Inr True \<Longrightarrow> mine (snd (claim z d)) z"
    and kept: "mine d y \<Longrightarrow> mine (snd (claim z d)) y"
begin

lemma claim_pool_mine:
  assumes "claim_pool claim zs won errs d = ((won', errs'), d')" "\<forall>z \<in> set won. mine d z"
  shows "(\<forall>z \<in> set won'. mine d' z) \<and> set won' \<subseteq> set won \<union> set zs"
  using assms
proof (induction zs arbitrary: won errs d)
  case (Cons z zs)
  obtain r d1 where c: "claim z d = (r, d1)" by (cases "claim z d")
  have k: "\<forall>y \<in> set won. mine d1 y" using Cons.prems(2) kept [of d _ z] by (auto simp: c)
  show ?case
  proof (cases "r = Inr True")
    case True
    then have "mine d1 z" using granted [of z d] by (simp add: c)
    then show ?thesis using Cons.IH [of "won @ [z]" errs d1] Cons.prems(1) k True by (auto simp: c)
  next
    case False
    then obtain errs1 where "claim_pool claim zs won errs1 d1 = ((won', errs'), d')"
      using Cons.prems(1) by (cases r) (auto simp: c)
    then show ?thesis using Cons.IH [of won errs1 d1] k by auto
  qed
qed simp

lemma won_are_mine:
  assumes "ClaimFromPool claim pool d = ((won, errs), d')"
  shows "\<forall>z \<in> set won. mine d' z \<and> z \<in> set pool"
  using claim_pool_mine [of pool "[]" Map.empty d won errs d'] assms by (auto simp: ClaimFromPool_def)

end

text \<open>
  The directory as the claimer of one server. Its state counts the calls made, so that call \<open>i\<close>
  happens at \<open>clk i\<close> and meets the fate \<open>nets i\<close>.
\<close>

definition dir_claim ::
  "(nat \<Rightarrow> dir_error net) \<Rightarrow> (nat \<Rightarrow> ms) \<Rightarrow> shard_id \<Rightarrow> nat \<Rightarrow> (nat \<times> zones, dir_error) claimer" where
  "dir_claim nets clk me ttl z s =
     (case s of (i, d) \<Rightarrow> (case ClaimZone (nets i) (clk i) z me ttl d of (r, d') \<Rightarrow> (r, (i + 1, d'))))"

text \<open>The record names this server, with a lease one of its calls took.\<close>

definition leased_by_sweep :: "(nat \<Rightarrow> ms) \<Rightarrow> shard_id \<Rightarrow> nat \<Rightarrow> nat \<times> zones \<Rightarrow> zone_id \<Rightarrow> bool" where
  "leased_by_sweep clk me ttl s z =
     (case s of (i, d) \<Rightarrow> z_owner (d z) = Some me \<and> (\<exists>j < i. z_expires (d z) = Some (clk j + ttl)))"

lemma claimZone_own:
  "z_owner h = Some me \<Longrightarrow> claimZone me ttl now h = (1, h\<lparr>z_owner := Some me, z_expires := Some (now + ttl)\<rparr>)"
  by (simp add: claimZone_def held_by_other_def Let_def)

lemma claimZone_granted:
  "fst (claimZone me ttl now h) = 1 \<Longrightarrow>
     z_owner (snd (claimZone me ttl now h)) = Some me \<and> z_expires (snd (claimZone me ttl now h)) = Some (now + ttl)"
  by (auto simp: claimZone_def Let_def split: if_splits)

interpretation sweep: zone_claimer "dir_claim nets clk me ttl" "leased_by_sweep clk me ttl" for nets clk me ttl
proof
  fix z and s :: "nat \<times> zones"
  obtain i d where s: "s = (i, d)" by (cases s)
  show "leased_by_sweep clk me ttl (snd (dir_claim nets clk me ttl z s)) z"
    if "fst (dir_claim nets clk me ttl z s) = Inr True"
    using that claimZone_granted [of me ttl "clk i" "d z"]
    by (cases "nets i") (auto simp: s dir_claim_def leased_by_sweep_def ClaimZone_def on_key_def reply_is_1_def
        split: prod.splits sum.splits)
  show "leased_by_sweep clk me ttl (snd (dir_claim nets clk me ttl z s)) y" if "leased_by_sweep clk me ttl s y" for y
    using that claimZone_own [of "d z" me ttl "clk i"]
    by (cases "nets i") (auto simp: s dir_claim_def leased_by_sweep_def ClaimZone_def on_key_def less_Suc_eq
        split: prod.splits)
qed

section \<open>The drain target\<close>

record shard_load =
  sl_id :: shard_id
  sl_players :: int

definition go_maxInt :: int where "go_maxInt = 9223372036854775807"

definition sortedByID :: "shard_load list \<Rightarrow> shard_load list" where
  "sortedByID cands = sort_key sl_id cands"

fun select_from :: "shard_id \<Rightarrow> shard_load list \<Rightarrow> shard_id \<Rightarrow> int \<Rightarrow> shard_id \<times> int" where
  "select_from self [] best bestN = (best, bestN)"
| "select_from self (c # cs) best bestN =
     (if sl_id c = self then select_from self cs best bestN
      else if sl_players c < bestN then select_from self cs (sl_id c) (sl_players c)
      else select_from self cs best bestN)"

definition SelectDrainTarget :: "shard_load list \<Rightarrow> shard_id \<Rightarrow> int \<Rightarrow> int \<Rightarrow> shard_id \<times> bool" where
  "SelectDrainTarget cands self incoming ceil =
     (case select_from self (sortedByID cands) '''' go_maxInt of
        (best, bestN) \<Rightarrow> if best = '''' then ('''', False) else (best, bestN + incoming > ceil))"

definition withoutSelf :: "shard_load list \<Rightarrow> shard_id \<Rightarrow> shard_load list" where
  "withoutSelf cands self = filter (\<lambda>c. sl_id c \<noteq> self) cands"

definition dropShard :: "shard_load list \<Rightarrow> shard_id \<Rightarrow> shard_load list" where
  "dropShard cands i = filter (\<lambda>c. sl_id c \<noteq> i) cands"

fun loadOf :: "shard_load list \<Rightarrow> shard_id \<Rightarrow> int" where
  "loadOf [] i = 0"
| "loadOf (c # cs) i = (if sl_id c = i then sl_players c else loadOf cs i)"

datatype 'e drain_error = NoDrainPeer | Fleet_Error 'e

text \<open>
  \<open>reserve\<close> takes the target and the headroom, \<open>release\<close> and \<open>resolve\<close> the target; the drainer, its
  incoming count and the lifetime are fixed for the call.
\<close>

type_synonym ('r, 'e) reserver = "shard_id \<Rightarrow> int \<Rightarrow> 'r \<Rightarrow> ('e + bool) \<times> 'r"
type_synonym ('r, 'e) releaser = "shard_id \<Rightarrow> 'r \<Rightarrow> ('e + unit) \<times> 'r"
type_synonym ('r, 'e) resolver = "shard_id \<Rightarrow> 'r \<Rightarrow> ('e + string) \<times> 'r"

definition resolveOrDrop ::
  "('r, 'e) resolver \<Rightarrow> shard_id \<Rightarrow> 'r \<Rightarrow> ('e drain_error + shard_id \<times> string) \<times> 'r" where
  "resolveOrDrop resolve target r =
     (case resolve target r of
        (Inl e, r') \<Rightarrow> (Inl (Fleet_Error e), r')
      | (Inr addr, r') \<Rightarrow> (if addr = '''' then Inl NoDrainPeer else Inr (target, addr), r'))"

definition releaseAbandoned :: "('r, 'e) releaser \<Rightarrow> shard_id \<Rightarrow> 'r \<Rightarrow> 'r" where
  "releaseAbandoned release target r = snd (release target r)"

lemma select_from_in:
  "fst (select_from self cs best n) = best \<or>
   (\<exists>c \<in> set cs. sl_id c = fst (select_from self cs best n) \<and> sl_id c \<noteq> self)"
  by (induction self cs best n rule: select_from.induct) auto

lemma SelectDrainTarget_in:
  "fst (SelectDrainTarget cs self n ceil) = '''' \<or>
   (\<exists>c \<in> set cs. sl_id c = fst (SelectDrainTarget cs self n ceil) \<and> sl_id c \<noteq> self)"
  using select_from_in [of self "sortedByID cs" "''''" go_maxInt]
  by (auto simp: SelectDrainTarget_def sortedByID_def split: prod.splits)

lemma dropShard_shorter: "c \<in> set cs \<Longrightarrow> length (dropShard cs (sl_id c)) < length cs"
  unfolding dropShard_def by (rule length_filter_less) auto

lemma dropShard_selected_shorter:
  "fst (SelectDrainTarget cs self n ceil) \<noteq> '''' \<Longrightarrow>
     length (dropShard cs (fst (SelectDrainTarget cs self n ceil))) < length cs"
  using SelectDrainTarget_in [of cs self n ceil] dropShard_shorter by fastforce

text \<open>
  Phase 1: under the soft ceiling, least-loaded first. \<open>Inl\<close> is a returned error, \<open>Inr None\<close> the end of
  the loop without a target.
\<close>

function place_under_ceiling ::
  "('r, 'e) reserver \<Rightarrow> ('r, 'e) releaser \<Rightarrow> ('r, 'e) resolver \<Rightarrow> shard_id \<Rightarrow> int \<Rightarrow> int \<Rightarrow> shard_load list \<Rightarrow> 'r
     \<Rightarrow> ('e drain_error + (shard_id \<times> string) option) \<times> 'r" where
  "place_under_ceiling reserve release resolve self incoming ceil remaining r =
     (let target = fst (SelectDrainTarget remaining self incoming ceil);
          over = snd (SelectDrainTarget remaining self incoming ceil)
      in if target = '''' then (Inr None, r)
         else case reserve target (ceil - loadOf remaining target) r of
                (Inl e, r1) \<Rightarrow> (Inl (Fleet_Error e), r1)
              | (Inr ok, r1) \<Rightarrow>
                  (case (if ok \<or> over then resolveOrDrop resolve target r1 else (Inl NoDrainPeer, r1)) of
                     (Inr ta, r2) \<Rightarrow> (Inr (Some ta), r2)
                   | (Inl _, r2) \<Rightarrow>
                       place_under_ceiling reserve release resolve self incoming ceil (dropShard remaining target)
                         (if ok then releaseAbandoned release target r2 else r2)))"
  by pat_completeness auto
termination
  by (relation "measure (\<lambda>(_, _, _, _, _, _, cs, _). length cs)") (auto intro: dropShard_selected_shorter)

text \<open>Phase 2: every candidate was full, so the least-loaded one that resolves is taken regardless.\<close>

function force_place ::
  "('r, 'e) reserver \<Rightarrow> ('r, 'e) releaser \<Rightarrow> ('r, 'e) resolver \<Rightarrow> shard_id \<Rightarrow> int \<Rightarrow> int \<Rightarrow> shard_load list \<Rightarrow> 'r
     \<Rightarrow> ('e drain_error + shard_id \<times> string) \<times> 'r" where
  "force_place reserve release resolve self incoming ceil force r =
     (let target = fst (SelectDrainTarget force self incoming ceil)
      in if target = '''' then (Inl NoDrainPeer, r)
         else case reserve target (ceil - loadOf force target) r of
                (res, r1) \<Rightarrow>
                  (case resolveOrDrop resolve target r1 of
                     (Inr ta, r2) \<Rightarrow> (Inr ta, r2)
                   | (Inl _, r2) \<Rightarrow>
                       force_place reserve release resolve self incoming ceil (dropShard force target)
                         (if res = Inr True then releaseAbandoned release target r2 else r2)))"
  by pat_completeness auto
termination
  by (relation "measure (\<lambda>(_, _, _, _, _, _, cs, _). length cs)") (auto intro: dropShard_selected_shorter)

declare place_under_ceiling.simps [simp del] force_place.simps [simp del]

definition ChooseDrainTarget ::
  "('e + shard_load list) \<Rightarrow> ('r, 'e) reserver \<Rightarrow> ('r, 'e) releaser \<Rightarrow> ('r, 'e) resolver
     \<Rightarrow> shard_id \<Rightarrow> int \<Rightarrow> int \<Rightarrow> 'r \<Rightarrow> ('e drain_error + shard_id \<times> string) \<times> 'r" where
  "ChooseDrainTarget candidates reserve release resolve self incoming ceil r =
     (case candidates of
        Inl e \<Rightarrow> (Inl (Fleet_Error e), r)
      | Inr cands \<Rightarrow>
          (case place_under_ceiling reserve release resolve self incoming ceil (withoutSelf cands self) r of
             (Inl e, r1) \<Rightarrow> (Inl e, r1)
           | (Inr (Some ta), r1) \<Rightarrow> (Inr ta, r1)
           | (Inr None, r1) \<Rightarrow>
               force_place reserve release resolve self incoming ceil (withoutSelf cands self) r1))"

section \<open>Lemmas on the two phases\<close>

lemma resolveOrDrop_ok: "resolveOrDrop resolve t r = (Inr (s, a), r') \<Longrightarrow> s = t \<and> a \<noteq> '''' \<and> resolve t r = (Inr a, r')"
  by (auto simp: resolveOrDrop_def split: prod.splits sum.splits if_splits)

lemma resolveOrDrop_state: "snd (resolveOrDrop resolve t r) = snd (resolve t r)"
  by (auto simp: resolveOrDrop_def split: prod.splits sum.splits)

lemma set_dropShard: "set (dropShard cs t) = {c \<in> set cs. sl_id c \<noteq> t}"
  by (auto simp: dropShard_def)

text \<open>
  The outcome of one pass of phase 1, as cases: no candidate, a failed reserve, a target taken, or a
  target dropped. \<open>r2\<close> is the state the loop goes on with.
\<close>

lemma place_pass:
  fixes reserve :: "('r, 'e) reserver"
  obtains
    (none) "fst (SelectDrainTarget cs self n ceil) = ''''"
      "place_under_ceiling reserve release resolve self n ceil cs r = (Inr None, r)"
  | (failed) t e r1 where "t = fst (SelectDrainTarget cs self n ceil)" "t \<noteq> ''''"
      "reserve t (ceil - loadOf cs t) r = (Inl e, r1)"
      "place_under_ceiling reserve release resolve self n ceil cs r = (Inl (Fleet_Error e), r1)"
  | (taken) t ok r1 a r2 where "t = fst (SelectDrainTarget cs self n ceil)" "t \<noteq> ''''"
      "reserve t (ceil - loadOf cs t) r = (Inr ok, r1)" "resolve t r1 = (Inr a, r2)" "a \<noteq> ''''"
      "place_under_ceiling reserve release resolve self n ceil cs r = (Inr (Some (t, a)), r2)"
  | (dropped) t ok r1 r2 where "t = fst (SelectDrainTarget cs self n ceil)" "t \<noteq> ''''"
      "reserve t (ceil - loadOf cs t) r = (Inr ok, r1)"
      "r2 = (if ok then releaseAbandoned release t (snd (resolve t r1))
             else if snd (SelectDrainTarget cs self n ceil) then snd (resolve t r1) else r1)"
      "place_under_ceiling reserve release resolve self n ceil cs r =
         place_under_ceiling reserve release resolve self n ceil (dropShard cs t) r2"
proof (cases "fst (SelectDrainTarget cs self n ceil) = ''''")
  case True
  show thesis by (rule none [OF True]) (subst place_under_ceiling.simps, simp add: True Let_def)
next
  case False
  define t over where "t = fst (SelectDrainTarget cs self n ceil)" "over = snd (SelectDrainTarget cs self n ceil)"
  note t = t_over_def [symmetric] False [folded t_over_def]
  obtain x r1 where x: "reserve t (ceil - loadOf cs t) r = (x, r1)" by fastforce
  show thesis
  proof (cases x)
    case (Inl e)
    show thesis
      by (rule failed [of t e r1]) (use x Inl t in \<open>simp_all, subst place_under_ceiling.simps, simp add: Let_def\<close>)
  next
    case (Inr ok)
    obtain y r2 where y: "resolveOrDrop resolve t r1 = (y, r2)" by fastforce
    have r2: "r2 = snd (resolve t r1)" using y resolveOrDrop_state by (metis snd_conv)
    show thesis
    proof (cases "\<exists>ta. y = Inr ta \<and> (ok \<or> over)")
      case True
      then obtain s a where "y = Inr (s, a)" by auto
      then have sa: "y = Inr (t, a)" "a \<noteq> ''''" "resolve t r1 = (Inr a, r2)" using resolveOrDrop_ok y by fastforce+
      show thesis
        by (rule taken [of t ok r1 a r2])
          (use x Inr t sa y True in \<open>simp_all, subst place_under_ceiling.simps, simp add: Let_def\<close>)
    next
      case False
      have "place_under_ceiling reserve release resolve self n ceil cs r =
          place_under_ceiling reserve release resolve self n ceil (dropShard cs t)
            (if ok then releaseAbandoned release t r2 else if over then r2 else r1)"
        using x Inr t y False by (subst place_under_ceiling.simps) (auto simp: Let_def split: sum.splits)
      then show thesis using x Inr t r2 by (intro dropped [of t ok r1]) auto
    qed
  qed
qed

lemma force_pass:
  fixes reserve :: "('r, 'e) reserver"
  obtains
    (none) "fst (SelectDrainTarget cs self n ceil) = ''''"
      "force_place reserve release resolve self n ceil cs r = (Inl NoDrainPeer, r)"
  | (taken) t x r1 a r2 where "t = fst (SelectDrainTarget cs self n ceil)" "t \<noteq> ''''"
      "reserve t (ceil - loadOf cs t) r = (x, r1)" "resolve t r1 = (Inr a, r2)" "a \<noteq> ''''"
      "force_place reserve release resolve self n ceil cs r = (Inr (t, a), r2)"
  | (dropped) t x r1 r2 where "t = fst (SelectDrainTarget cs self n ceil)" "t \<noteq> ''''"
      "reserve t (ceil - loadOf cs t) r = (x, r1)" "\<forall>a. fst (resolve t r1) = Inr a \<longrightarrow> a = ''''"
      "r2 = (if x = Inr True then releaseAbandoned release t (snd (resolve t r1)) else snd (resolve t r1))"
      "force_place reserve release resolve self n ceil cs r =
         force_place reserve release resolve self n ceil (dropShard cs t) r2"
proof (cases "fst (SelectDrainTarget cs self n ceil) = ''''")
  case True
  show thesis by (rule none [OF True]) (subst force_place.simps, simp add: True Let_def)
next
  case False
  define t where "t = fst (SelectDrainTarget cs self n ceil)"
  note t = t_def [symmetric] False [folded t_def]
  obtain x r1 where x: "reserve t (ceil - loadOf cs t) r = (x, r1)" by fastforce
  obtain y r2 where y: "resolve t r1 = (y, r2)" by fastforce
  show thesis
  proof (cases "\<exists>a. y = Inr a \<and> a \<noteq> ''''")
    case True
    then obtain a where a: "y = Inr a" "a \<noteq> ''''" by blast
    show thesis
      by (rule taken [of t x r1 a r2])
        (use x t a y in \<open>simp_all, subst force_place.simps, simp add: Let_def resolveOrDrop_def\<close>)
  next
    case False
    then have "force_place reserve release resolve self n ceil cs r =
        force_place reserve release resolve self n ceil (dropShard cs t)
          (if x = Inr True then releaseAbandoned release t r2 else r2)"
      using x t y by (subst force_place.simps) (auto simp: Let_def resolveOrDrop_def split: sum.splits)
    then show thesis using x t y False by (intro dropped [of t x r1]) auto
  qed
qed

lemma place_picks:
  "place_under_ceiling reserve release resolve self n ceil cs r = (Inr (Some (t, a)), r') \<Longrightarrow>
     t \<noteq> self \<and> t \<noteq> '''' \<and> a \<noteq> '''' \<and> t \<in> sl_id ` set cs"
proof (induction "length cs" arbitrary: cs r rule: less_induct)
  case less
  then show ?case
  proof (cases rule: place_pass [of cs self n ceil reserve release resolve r])
    case (taken t ok r1 a r2)
    then show ?thesis using less.prems SelectDrainTarget_in [of cs self n ceil] by force
  next
    case (dropped u ok r1 r2)
    then have "length (dropShard cs u) < length cs" using dropShard_selected_shorter [of cs self n ceil] by simp
    from less.hyps [OF this, of r2] have "t \<noteq> self \<and> t \<noteq> '''' \<and> a \<noteq> '''' \<and> t \<in> sl_id ` set (dropShard cs u)"
      using less.prems dropped(5) by simp
    then show ?thesis by (auto simp: set_dropShard)
  qed (use less.prems in simp_all)
qed

lemma force_picks:
  "force_place reserve release resolve self n ceil cs r = (Inr (t, a), r') \<Longrightarrow>
     t \<noteq> self \<and> t \<noteq> '''' \<and> a \<noteq> '''' \<and> t \<in> sl_id ` set cs"
proof (induction "length cs" arbitrary: cs r rule: less_induct)
  case less
  then show ?case
  proof (cases rule: force_pass [of cs self n ceil reserve release resolve r])
    case (taken t x r1 a r2)
    then show ?thesis using less.prems SelectDrainTarget_in [of cs self n ceil] by force
  next
    case (dropped u x r1 r2)
    then have "length (dropShard cs u) < length cs" using dropShard_selected_shorter [of cs self n ceil] by simp
    from less.hyps [OF this, of r2] have "t \<noteq> self \<and> t \<noteq> '''' \<and> a \<noteq> '''' \<and> t \<in> sl_id ` set (dropShard cs u)"
      using less.prems dropped(6) by simp
    then show ?thesis by (auto simp: set_dropShard)
  qed (use less.prems in simp_all)
qed

text \<open>A candidate with a name and room under Go's largest \<open>int\<close> is always selectable.\<close>

lemma select_from_nonempty:
  assumes "\<forall>c \<in> set cs. sl_id c \<noteq> ''''" "best \<noteq> '''' \<or> (\<exists>c \<in> set cs. sl_id c \<noteq> self \<and> sl_players c < m)"
  shows "fst (select_from self cs best m) \<noteq> ''''"
  using assms
proof (induction cs arbitrary: best m)
  case (Cons c cs)
  show ?case
  proof (cases "sl_id c \<noteq> self \<and> sl_players c < m")
    case True
    then show ?thesis using Cons.IH [of "sl_id c" "sl_players c"] Cons.prems by simp
  next
    case False
    then show ?thesis using Cons.IH [of best m] Cons.prems by auto
  qed
qed simp

lemma select_nonempty:
  assumes "\<forall>c \<in> set cs. sl_id c \<noteq> ''''" "c \<in> set cs" "sl_id c \<noteq> self" "sl_players c < go_maxInt"
  shows "fst (SelectDrainTarget cs self n ceil) \<noteq> ''''"
proof -
  have "fst (select_from self (sortedByID cs) '''' go_maxInt) \<noteq> ''''"
    by (rule select_from_nonempty) (use assms in \<open>auto simp: sortedByID_def\<close>)
  then show ?thesis by (auto simp: SelectDrainTarget_def split: prod.splits)
qed

lemma force_never_stalls:
  assumes "\<forall>c \<in> set cs. sl_id c \<noteq> '''' \<and> sl_id c \<noteq> self \<and> sl_players c < go_maxInt"
    "c \<in> set cs" "\<forall>r. fst (resolve (sl_id c) r) = Inr a" "a \<noteq> ''''"
  shows "\<exists>ta r'. force_place reserve release resolve self n ceil cs r = (Inr ta, r')"
  using assms(1,2)
proof (induction "length cs" arbitrary: cs r rule: less_induct)
  case less
  have sel: "fst (SelectDrainTarget cs self n ceil) \<noteq> ''''" using less.prems by (intro select_nonempty) auto
  show ?case
  proof (cases rule: force_pass [of cs self n ceil reserve release resolve r])
    case (dropped t x r1 r2)
    then have "sl_id c \<noteq> t" using assms(3,4) by metis
    then show ?thesis using less dropped dropShard_selected_shorter [OF sel] by (auto simp: set_dropShard)
  qed (use sel in auto)
qed

lemma place_error:
  assumes "\<forall>t h r. \<exists>b. fst (reserve t h r) = Inr b"
  shows "\<exists>x r'. place_under_ceiling reserve release resolve self n ceil cs r = (Inr x, r')"
proof (induction "length cs" arbitrary: cs r rule: less_induct)
  case less
  then show ?case
  proof (cases rule: place_pass [of cs self n ceil reserve release resolve r])
    case (failed t e r1)
    then show ?thesis using assms by (metis fst_conv sum.distinct(1))
  next
    case (dropped t ok r1 r2)
    then show ?thesis using less dropShard_selected_shorter [of cs self n ceil] by auto
  qed auto
qed

text \<open>
  What the selector relies on of the reservation: \<open>held\<close> is what the drainer holds on a target. A
  refused reserve adds nothing, a reserve and a release touch their target only, a release drops
  the hold, and resolving an endpoint touches nothing.
\<close>

locale drain_reserver =
  fixes reserve :: "('r, 'e) reserver"
    and release :: "('r, 'e) releaser"
    and resolve :: "('r, 'e) resolver"
    and held :: "'r \<Rightarrow> shard_id \<Rightarrow> nat"
  assumes reserve_held: "s \<noteq> t \<or> fst (reserve t h r) = Inr False \<Longrightarrow> held (snd (reserve t h r)) s \<le> held r s"
    and reserve_answers: "\<exists>b. fst (reserve t h r) = Inr b"
    and release_held: "held (snd (release t r)) s \<le> (if s = t then 0 else held r s)"
    and resolve_held: "held (snd (resolve t r)) s = held r s"
begin

lemma drop_held:
  assumes "reserve t h r = (x, r1)"
    "r2 = (if x = Inr True then releaseAbandoned release t (snd (resolve t r1)) else q)" "q = r1 \<or> q = snd (resolve t r1)"
  shows "held r2 s \<le> held r s"
proof (cases "x = Inr True")
  case True
  then have "held r2 s \<le> (if s = t then 0 else held r1 s)"
    using assms(2) release_held [of t "snd (resolve t r1)" s] resolve_held [of t r1 s]
    by (simp add: releaseAbandoned_def split: if_splits)
  then show ?thesis using reserve_held [of s t h r] assms(1) by (auto split: if_splits)
next
  case False
  then have "x = Inr False" using reserve_answers [of t h r] assms(1) by (metis (full_types) fst_conv)
  then show ?thesis using assms reserve_held [of s t h r] resolve_held by auto
qed

lemma place_held:
  assumes "place_under_ceiling reserve release resolve self n ceil cs r = (res, r')" "\<forall>a. res \<noteq> Inr (Some (s, a))"
  shows "held r' s \<le> held r s"
  using assms
proof (induction "length cs" arbitrary: cs r rule: less_induct)
  case less
  show ?case
  proof (cases rule: place_pass [of cs self n ceil reserve release resolve r])
    case none
    then show ?thesis using less.prems by simp
  next
    case (failed t e r1)
    then show ?thesis using reserve_answers by (metis fst_conv sum.distinct(1))
  next
    case (taken t ok r1 a r2)
    then have "s \<noteq> t" "r' = r2" using less.prems by auto
    then show ?thesis using taken reserve_held [of s t _ r] resolve_held [of t r1 s] by (metis snd_conv)
  next
    case (dropped t ok r1 r2)
    then have "held r2 s \<le> held r s"
      using drop_held [of t _ r "Inr ok" r1 r2 "if snd (SelectDrainTarget cs self n ceil) then snd (resolve t r1) else r1" s] by auto
    moreover have "held r' s \<le> held r2 s"
      using less dropped dropShard_selected_shorter [of cs self n ceil] by auto
    ultimately show ?thesis by simp
  qed
qed

lemma force_held:
  assumes "force_place reserve release resolve self n ceil cs r = (res, r')" "\<forall>a. res \<noteq> Inr (s, a)"
  shows "held r' s \<le> held r s"
  using assms
proof (induction "length cs" arbitrary: cs r rule: less_induct)
  case less
  show ?case
  proof (cases rule: force_pass [of cs self n ceil reserve release resolve r])
    case none
    then show ?thesis using less.prems by simp
  next
    case (taken t x r1 a r2)
    then have "s \<noteq> t" "r' = r2" using less.prems by auto
    then show ?thesis using taken reserve_held [of s t _ r] resolve_held [of t r1 s] by (metis snd_conv)
  next
    case (dropped t x r1 r2)
    then have "held r2 s \<le> held r s" by (intro drop_held [of t _ r x r1 r2 "snd (resolve t r1)" s]) auto
    moreover have "held r' s \<le> held r2 s"
      using less dropped dropShard_selected_shorter [of cs self n ceil] by auto
    ultimately show ?thesis by simp
  qed
qed

lemma choose_held:
  assumes "ChooseDrainTarget cands reserve release resolve self n ceil r = (res, r')" "\<forall>a. res \<noteq> Inr (s, a)"
  shows "held r' s \<le> held r s"
proof (cases cands)
  case (Inr cs)
  obtain x r1 where x: "place_under_ceiling reserve release resolve self n ceil (withoutSelf cs self) r = (x, r1)" by fastforce
  show ?thesis
  proof (cases "x = Inr None")
    case True
    then have "held r1 s \<le> held r s" using place_held [OF x, of s] by simp
    moreover have "held r' s \<le> held r1 s"
      using assms True x Inr by (intro force_held [where res = res]) (auto simp: ChooseDrainTarget_def)
    ultimately show ?thesis by simp
  next
    case False
    then show ?thesis using assms x Inr
      by (intro place_held [OF _, where res = x]) (auto simp: ChooseDrainTarget_def split: sum.splits option.splits)
  qed
qed (use assms in \<open>simp add: ChooseDrainTarget_def\<close>)

end

section \<open>The directory as the reserver\<close>

definition dir_reserve :: "(nat \<Rightarrow> ms) \<Rightarrow> shard_id \<Rightarrow> nat \<Rightarrow> nat \<Rightarrow> (nat \<times> resvs, dir_error) reserver" where
  "dir_reserve clk self incoming ttl t h s =
     (case s of (i, d) \<Rightarrow>
        (case ReserveDrainTarget Served (clk i) t self h incoming ttl d of (x, d') \<Rightarrow> (x, (i + 1, d'))))"

definition dir_release :: "(nat \<Rightarrow> ms) \<Rightarrow> shard_id \<Rightarrow> (nat \<times> resvs, dir_error) releaser" where
  "dir_release clk self t s =
     (case s of (i, d) \<Rightarrow> (case ReleaseDrainTarget Served (clk i) t self d of (x, d') \<Rightarrow> (x, (i + 1, d'))))"

text \<open>The shard records as they are at each call, and the fate of each endpoint read.\<close>

definition dir_resolve ::
  "(nat \<Rightarrow> dir_error net) \<Rightarrow> (nat \<Rightarrow> ms) \<Rightarrow> (nat \<Rightarrow> shards) \<Rightarrow> (nat \<times> resvs, dir_error) resolver" where
  "dir_resolve rd clk shs t s = (case s of (i, d) \<Rightarrow> (EndpointForShard (rd i) (clk i) t (shs i), (i + 1, d)))"

definition held_by :: "shard_id \<Rightarrow> nat \<times> resvs \<Rightarrow> shard_id \<Rightarrow> nat" where
  "held_by self s t = (case s of (i, d) \<Rightarrow> sum_list (map hold_count (filter (\<lambda>f. fst f = self) (r_fields (d t)))))"

lemma own_count_filter:
  "sum_list (map hold_count (filter Q (filter P fs))) \<le> sum_list (map hold_count (filter Q fs))"
  by (induction fs) auto

lemma refused_keeps_count:
  assumes "fst (reserveDrainTarget me n h ttl now k) \<noteq> 1"
  shows "sum_list (map hold_count (filter Q (r_fields (snd (reserveDrainTarget me n h ttl now k)))))
         \<le> sum_list (map hold_count (filter Q (r_fields k)))"
  using assms own_count_filter [of Q "hold_live now" "r_fields k"]
  by (auto simp: reserveDrainTarget_def Let_def resv_seen_def no_resv_def split: if_splits option.splits)

interpretation dir: drain_reserver "dir_reserve clk self n ttl" "dir_release clk self" "dir_resolve rd clk shs" "held_by self"
  for clk self n ttl rd shs
proof
  fix s t h and r :: "nat \<times> resvs"
  obtain i d where r: "r = (i, d)" by (cases r)
  show "held_by self (snd (dir_reserve clk self n ttl t h r)) s \<le> held_by self r s"
    if "s \<noteq> t \<or> fst (dir_reserve clk self n ttl t h r) = Inr False"
    using that refused_keeps_count [of self n h ttl "clk i" "d t" "\<lambda>f. fst f = self"]
    by (auto simp: r dir_reserve_def held_by_def ReserveDrainTarget_def on_key_def split: prod.splits)
  show "\<exists>b. fst (dir_reserve clk self n ttl t h r) = Inr b"
    by (auto simp: r dir_reserve_def ReserveDrainTarget_def split: prod.splits)
  show "held_by self (snd (dir_release clk self t r)) s \<le> (if s = t then 0 else held_by self r s)"
    by (auto simp: r dir_release_def held_by_def ReleaseDrainTarget_def hdelDrainer_def hdel_def on_key_def Let_def
        resv_seen_def no_resv_def split_beta filter_empty_conv split: prod.splits option.splits)
  show "held_by self (snd (dir_resolve rd clk shs t r)) s = held_by self r s"
    by (auto simp: r dir_resolve_def held_by_def)
qed

section \<open>Properties\<close>

text \<open>
  The boot sweep: every zone \<open>ClaimFromPool\<close> reports as won is a pool zone whose directory record
  names this server, and it is the holder of the lease, with every rival refused, at any instant
  that no call of the sweep is more than a lifetime away from. Failed calls and lost replies on
  the way change nothing of it.
\<close>

lemma pool_sweep_holds_what_it_won:
  assumes "ClaimFromPool (dir_claim nets clk me ttl) pool (0, d) = ((won, errs), (n, d'))"
    and "\<forall>j < n. clk j \<le> t \<and> t < clk j + ttl"
    and "z \<in> set won"
  shows "z \<in> set pool \<and> zone_holder t (d' z) = Some me \<and>
         (\<forall>rival l. rival \<noteq> me \<longrightarrow> fst (ClaimZone Served t z rival l d') = Inr False)"
proof -
  have z: "z \<in> set pool" "leased_by_sweep clk me ttl (n, d') z"
    using sweep.won_are_mine [OF assms(1)] assms(3) by blast+
  then have h: "zone_holder t (d' z) = Some me"
    using assms(2) by (auto simp: leased_by_sweep_def zone_holder_def)
  have "fst (claimZone rival l t (d' z)) = 0" if "rival \<noteq> me" for rival l
    using zone.rival_refused(1) [OF h] that by auto
  then show ?thesis using z(1) h by (auto simp: ClaimZone_def split: prod.splits)
qed

text \<open>Two zones, the second held by a peer: the sweep wins the first only.\<close>

text \<open>
  A drain never targets its own shard: a target \<open>ChooseDrainTarget\<close> returns is one of the
  candidates, is not the draining shard, and comes with a resolved, non-empty endpoint.
\<close>

lemma drain_target_is_peer:
  assumes "ChooseDrainTarget (Inr cands) reserve release resolve self n ceil r = (Inr (t, a), r')"
  shows "t \<noteq> self \<and> a \<noteq> '''' \<and> (\<exists>c \<in> set cands. sl_id c = t)"
proof -
  have "(\<exists>r1. place_under_ceiling reserve release resolve self n ceil (withoutSelf cands self) r = (Inr (Some (t, a)), r1)) \<or>
        (\<exists>r1 r2. force_place reserve release resolve self n ceil (withoutSelf cands self) r1 = (Inr (t, a), r2))"
    using assms by (auto simp: ChooseDrainTarget_def split: prod.splits sum.splits option.splits)
  then have "t \<noteq> self \<and> t \<noteq> '''' \<and> a \<noteq> '''' \<and> t \<in> sl_id ` set (withoutSelf cands self)"
    using place_picks force_picks by meson
  then show ?thesis by (auto simp: withoutSelf_def)
qed

text \<open>
  A drain never stalls on the soft ceiling: if the reservations answer and some peer's endpoint
  resolves, a target is returned, however full every peer is.
\<close>

lemma drain_never_stalls:
  assumes "\<forall>t h r. \<exists>b. fst (reserve t h r) = Inr b"
    and "\<forall>c \<in> set cands. sl_id c \<noteq> '''' \<and> sl_players c < go_maxInt"
    and "c \<in> set cands" "sl_id c \<noteq> self" "\<forall>r. fst (resolve (sl_id c) r) = Inr a" "a \<noteq> ''''"
  shows "\<exists>ta r'. ChooseDrainTarget (Inr cands) reserve release resolve self n ceil r = (Inr ta, r')"
proof -
  obtain x r1 where x: "place_under_ceiling reserve release resolve self n ceil (withoutSelf cands self) r = (Inr x, r1)"
    using place_error [OF assms(1)] by blast
  have "\<exists>ta r'. force_place reserve release resolve self n ceil (withoutSelf cands self) r1 = (Inr ta, r')"
    using assms by (intro force_never_stalls [where c = c and a = a]) (auto simp: withoutSelf_def)
  then show ?thesis using x by (cases x) (auto simp: ChooseDrainTarget_def)
qed

text \<open>
  Over the directory's own reservations: a shard that \<open>ChooseDrainTarget\<close> did not choose holds no
  more of the drainer's headroom afterwards than before. No reservation on an abandoned target leaks.
\<close>

lemma drain_leaves_no_abandoned_hold:
  assumes "ChooseDrainTarget cands (dir_reserve clk self n ttl) (dir_release clk self) (dir_resolve rd clk shs)
             self m ceil (0, d) = (res, (k, d'))"
    and "\<forall>a. res \<noteq> Inr (s, a)"
  shows "held_by self (k, d') s \<le> held_by self (0, d) s"
  by (rule dir.choose_held [OF assms])

text \<open>Two peers; the less loaded one has lapsed by the time its endpoint is resolved.\<close>

definition demo_cands :: "shard_load list" where
  "demo_cands = [\<lparr>sl_id = ''a'', sl_players = 9\<rparr>, \<lparr>sl_id = ''b'', sl_players = 3\<rparr>, \<lparr>sl_id = ''c'', sl_players = 5\<rparr>]"

definition demo_shards :: shards where
  "demo_shards = (\<lambda>_. no_shard)(''c'' := \<lparr>s_endpoint = Some ''c:1'', s_expires = Some 1000, s_kexp = None\<rparr>)"

abbreviation demo_choice :: "(dir_error drain_error + shard_id \<times> string) \<times> nat \<times> resvs" where
  "demo_choice \<equiv> ChooseDrainTarget (Inr demo_cands) (dir_reserve (\<lambda>i. i) ''a'' 4 500) (dir_release (\<lambda>i. i) ''a'')
     (dir_resolve (\<lambda>_. Served) (\<lambda>i. i) (\<lambda>_. demo_shards)) ''a'' 4 20 (0, \<lambda>_. no_resv)"

lemma demo_choice_eval:
  "fst demo_choice = Inr (''c'', ''c:1'') \<and> held_by ''a'' (snd demo_choice) ''c'' = 4 \<and> held_by ''a'' (snd demo_choice) ''b'' = 0"
  by code_simp

end
