(* ===== verification/Director_Election.thy ===== *)
theory Director_Election
  imports Directory_Leases
begin

text \<open>
  Leader election of a director (\<open>internal/director/election.go\<close>): several instances campaign for
  one named lease of the directory, each keeping a flag that says whether its last campaign won.
  The flag lags the lease, so the theorem is about both.
\<close>

definition DefaultLeaseTTL :: nat where "DefaultLeaseTTL = 9000"

definition scopeLabel :: "string \<Rightarrow> string" where
  "scopeLabel regionID = (if regionID = '''' then ''world'' else ''region:'' @ regionID)"

record candidate =
  c_claimer :: bool
  c_instance :: string
  c_leaseID :: string
  c_leaseTTL :: nat
  c_leader :: bool

definition WithElection :: "string \<Rightarrow> string \<Rightarrow> candidate \<Rightarrow> candidate" where
  "WithElection regionID instanceID c =
     c\<lparr>c_claimer := True, c_instance := instanceID, c_leaseID := ''director:'' @ scopeLabel regionID,
       c_leaseTTL := (if c_leaseTTL c = 0 then DefaultLeaseTTL else c_leaseTTL c)\<rparr>"

definition WithLeaseTTL :: "nat \<Rightarrow> candidate \<Rightarrow> candidate" where
  "WithLeaseTTL ttl c = (if ttl > 0 then c\<lparr>c_leaseTTL := ttl\<rparr> else c)"

definition campaign :: "dir_error net \<Rightarrow> ms \<Rightarrow> candidate \<times> leases \<Rightarrow> candidate \<times> leases" where
  "campaign net now s =
     (case s of (c, d) \<Rightarrow>
        (case ClaimLease net now (c_leaseID c) (c_instance c) (c_leaseTTL c) d of
           (Inl e, d') \<Rightarrow> (c\<lparr>c_leader := False\<rparr>, d')
         | (Inr held, d') \<Rightarrow> (c\<lparr>c_leader := held\<rparr>, d')))"

definition resign :: "dir_error net \<Rightarrow> ms \<Rightarrow> candidate \<times> leases \<Rightarrow> candidate \<times> leases" where
  "resign net now s =
     (case s of (c, d) \<Rightarrow>
        (c\<lparr>c_leader := False\<rparr>,
         if c_claimer c \<and> c_leader c then snd (ReleaseLease net now (c_leaseID c) (c_instance c) d) else d))"

text \<open>The start of \<open>Run\<close>: without a claimer a director always leads.\<close>

definition run_start :: "dir_error net \<Rightarrow> ms \<Rightarrow> candidate \<times> leases \<Rightarrow> candidate \<times> leases" where
  "run_start net now s =
     (if \<not> c_claimer (fst s) then ((fst s)\<lparr>c_leader := True\<rparr>, snd s) else campaign net now s)"

section \<open>A fleet of candidates for one scope\<close>

text \<open>
  \<open>won_at\<close> is the instant of an instance's last won campaign, kept for the statement only. A crash
  keeps the record of the lease and clears the flag.
\<close>

record fleet =
  cand :: "nat \<Rightarrow> candidate"
  lease_db :: leases
  won_at :: "nat \<Rightarrow> ms"
  clock :: ms

datatype fleet_event = Campaign nat | Resign nat | Crash nat | Tick nat

definition fleet_step :: "dir_error net \<Rightarrow> fleet_event \<Rightarrow> fleet \<Rightarrow> fleet" where
  "fleet_step net e f =
     (case e of
        Campaign i \<Rightarrow>
          (case campaign net (clock f) (cand f i, lease_db f) of (c, d) \<Rightarrow>
             f\<lparr>cand := (cand f)(i := c), lease_db := d,
               won_at := (if c_leader c then (won_at f)(i := clock f) else won_at f)\<rparr>)
      | Resign i \<Rightarrow>
          (case resign net (clock f) (cand f i, lease_db f) of (c, d) \<Rightarrow>
             f\<lparr>cand := (cand f)(i := c), lease_db := d\<rparr>)
      | Crash i \<Rightarrow> f\<lparr>cand := (cand f)(i := (cand f i)\<lparr>c_leader := False\<rparr>)\<rparr>
      | Tick n \<Rightarrow> f\<lparr>clock := clock f + n\<rparr>)"

definition fleet_run :: "(dir_error net \<times> fleet_event) list \<Rightarrow> fleet \<Rightarrow> fleet" where
  "fleet_run es f = foldl (\<lambda>f (net, e). fleet_step net e f) f es"

text \<open>Instance \<open>i\<close> campaigns under the name \<open>name i\<close> for the lease of \<open>regionID\<close>.\<close>

definition standby :: "string \<Rightarrow> (nat \<Rightarrow> string) \<Rightarrow> nat \<Rightarrow> nat \<Rightarrow> candidate" where
  "standby regionID name ttl i =
     WithElection regionID (name i)
       (WithLeaseTTL ttl \<lparr>c_claimer = False, c_instance = '''', c_leaseID = '''', c_leaseTTL = 0, c_leader = False\<rparr>)"

definition fleet_start :: "string \<Rightarrow> (nat \<Rightarrow> string) \<Rightarrow> nat \<Rightarrow> leases \<Rightarrow> ms \<Rightarrow> fleet" where
  "fleet_start regionID name ttl d now =
     \<lparr>cand = standby regionID name ttl, lease_db = d, won_at = (\<lambda>_. 0), clock = now\<rparr>"

definition lease_ttl :: "nat \<Rightarrow> nat" where
  "lease_ttl ttl = (if ttl > 0 then ttl else DefaultLeaseTTL)"

text \<open>The invariant: an instance whose flag is up and whose last win is younger than the lifetime holds the lease.\<close>

definition fleet_inv :: "string \<Rightarrow> (nat \<Rightarrow> string) \<Rightarrow> nat \<Rightarrow> fleet \<Rightarrow> bool" where
  "fleet_inv regionID name ttl f \<longleftrightarrow>
     (\<forall>i. c_instance (cand f i) = name i \<and> c_leaseID (cand f i) = ''director:'' @ scopeLabel regionID \<and>
          c_leaseTTL (cand f i) = lease_ttl ttl \<and>
          (c_leader (cand f i) \<longrightarrow> won_at f i \<le> clock f) \<and>
          (\<forall>t. c_leader (cand f i) \<and> clock f \<le> t \<and> t < won_at f i + lease_ttl ttl \<longrightarrow>
             lease_holder t (lease_db f (''director:'' @ scopeLabel regionID)) = Some (name i)))"

lemma fleet_inv_start: "fleet_inv regionID name ttl (fleet_start regionID name ttl d now)"
  by (simp add: fleet_inv_def fleet_start_def standby_def WithElection_def WithLeaseTTL_def lease_ttl_def DefaultLeaseTTL_def)

lemma releaseLease_other:
  "lease_holder t h = Some w \<Longrightarrow> w \<noteq> me \<Longrightarrow> now \<le> t \<Longrightarrow> lease_holder t (snd (releaseLease me now h)) = Some w"
  by (auto simp: lease_holder_def releaseLease_def lease_seen_def no_lease_def Let_def
      split: option.splits if_splits dest: live_expiry_earlier)

lemma ClaimLease_cases:
  obtains "ClaimLease net now l me ttl d = (Inr (fst (claimLease me ttl now (d l)) = 1), d(l := snd (claimLease me ttl now (d l))))"
  | e where "ClaimLease net now l me ttl d = (Inl e, d)"
  | e where "ClaimLease net now l me ttl d = (Inl e, d(l := snd (claimLease me ttl now (d l))))"
  by (cases net) (auto simp: ClaimLease_def on_key_def)

lemma lease_fst: "fst (claimLease me ttl now h) = 0 \<or> fst (claimLease me ttl now h) = 1"
  by (simp add: lease.claim_reply)

lemma fleet_inv_campaign:
  assumes inv: "fleet_inv regionID name ttl f" and inj: "inj name"
  shows "fleet_inv regionID name ttl (fleet_step net (Campaign i) f)"
proof -
  let ?L = "''director:'' @ scopeLabel regionID" and ?T = "lease_ttl ttl" and ?now = "clock f"
  let ?h = "lease_db f ?L" and ?h' = "snd (claimLease (name i) ?T ?now (lease_db f ?L))"
  let ?f = "fleet_step net (Campaign i) f"
  have c: "c_instance (cand f i) = name i" "c_leaseID (cand f i) = ?L" "c_leaseTTL (cand f i) = ?T"
    using inv by (auto simp: fleet_inv_def)
  have rival: "lease_holder t h'' = Some (name j)"
    if "j \<noteq> i" "c_leader (cand f j)" "?now \<le> t" "t < won_at f j + ?T" "h'' = ?h \<or> h'' = ?h'" for j t h''
  proof -
    have h: "lease_holder t ?h = Some (name j)" using inv that by (auto simp: fleet_inv_def)
    have "name j \<noteq> name i" using inj that(1) by (auto dest: injD)
    then show ?thesis using lease.rival_refused(2) [OF h] that(3,5) h by auto
  qed
  have mine: "lease_holder t ?h' = Some (name i)"
    if "fst (claimLease (name i) ?T ?now ?h) = 1" "?now \<le> t" "t < ?now + ?T" for t
    using lease.claim_granted [OF that(1,2)] that(3) by simp
  have others: "cand ?f j = cand f j" "won_at ?f j = won_at f j" if "j \<noteq> i" for j
    using that by (auto simp: fleet_step_def split: prod.splits)
  have clk: "clock ?f = ?now" by (auto simp: fleet_step_def split: prod.splits)
  have self: "c_instance (cand ?f i) = name i" "c_leaseID (cand ?f i) = ?L" "c_leaseTTL (cand ?f i) = ?T"
    using c by (auto simp: fleet_step_def campaign_def split: prod.splits sum.splits)
  have db: "lease_db ?f ?L = ?h \<or> lease_db ?f ?L = ?h'"
    by (cases rule: ClaimLease_cases [of net ?now ?L "name i" ?T "lease_db f"])
      (auto simp: fleet_step_def campaign_def c split: prod.splits)
  have win: "c_leader (cand ?f i) \<Longrightarrow> won_at ?f i = ?now \<and> fst (claimLease (name i) ?T ?now ?h) = 1 \<and> lease_db ?f ?L = ?h'"
    by (cases rule: ClaimLease_cases [of net ?now ?L "name i" ?T "lease_db f"])
      (auto simp: fleet_step_def campaign_def c split: prod.splits)
  show ?thesis unfolding fleet_inv_def
  proof (intro allI conjI impI)
    fix j
    show "c_instance (cand ?f j) = name j" "c_leaseID (cand ?f j) = ?L" "c_leaseTTL (cand ?f j) = ?T"
      using self others [of j] inv by (cases "j = i"; auto simp: fleet_inv_def)+
    show "won_at ?f j \<le> clock ?f" if "c_leader (cand ?f j)"
      using that win others [of j] inv clk by (cases "j = i") (auto simp: fleet_inv_def)
    fix t assume h: "c_leader (cand ?f j) \<and> clock ?f \<le> t \<and> t < won_at ?f j + ?T"
    show "lease_holder t (lease_db ?f ?L) = Some (name j)"
    proof (cases "j = i")
      case True
      then show ?thesis using h win mine [of t] clk by simp
    next
      case False
      then show ?thesis using h rival [of j t, OF _ _ _ _ db] others [of j] clk by simp
    qed
  qed
qed

lemma ReleaseLease_db:
  "snd (ReleaseLease net now l me d) = d \<or> snd (ReleaseLease net now l me d) = d(l := snd (releaseLease me now (d l)))"
  by (cases net) (auto simp: ReleaseLease_def on_key_def)

lemma fleet_inv_resign:
  assumes inv: "fleet_inv regionID name ttl f" and inj: "inj name"
  shows "fleet_inv regionID name ttl (fleet_step net (Resign i) f)"
proof -
  let ?L = "''director:'' @ scopeLabel regionID"
  let ?h = "lease_db f ?L" and ?f = "fleet_step net (Resign i) f"
  have c: "c_instance (cand f i) = name i" "c_leaseID (cand f i) = ?L" using inv by (auto simp: fleet_inv_def)
  have db: "lease_db ?f ?L = ?h \<or> lease_db ?f ?L = snd (releaseLease (name i) (clock f) ?h)"
    using ReleaseLease_db [of net "clock f" ?L "name i" "lease_db f"]
    by (auto simp: fleet_step_def resign_def c)
  have keep: "lease_holder t (lease_db ?f ?L) = Some (name j)"
    if "j \<noteq> i" "c_leader (cand f j)" "clock f \<le> t" "t < won_at f j + lease_ttl ttl" for j t
  proof -
    have h: "lease_holder t ?h = Some (name j)" using inv that by (auto simp: fleet_inv_def)
    have "name j \<noteq> name i" using inj that(1) by (auto dest: injD)
    from db releaseLease_other [OF h this that(3)] h show ?thesis by presburger
  qed
  show ?thesis using inv keep by (auto simp: fleet_inv_def fleet_step_def resign_def)
qed

lemma fleet_inv_step: "fleet_inv regionID name ttl f \<Longrightarrow> inj name \<Longrightarrow> fleet_inv regionID name ttl (fleet_step net e f)"
proof (cases e)
  case (Crash i)
  then show "fleet_inv regionID name ttl f \<Longrightarrow> fleet_inv regionID name ttl (fleet_step net e f)"
    by (auto simp: fleet_inv_def fleet_step_def)
next
  case (Tick n)
  then show "fleet_inv regionID name ttl f \<Longrightarrow> fleet_inv regionID name ttl (fleet_step net e f)"
    by (auto simp: fleet_inv_def fleet_step_def intro: trans_le_add1)
qed (auto intro: fleet_inv_campaign fleet_inv_resign)

lemma fleet_inv_run: "fleet_inv regionID name ttl f \<Longrightarrow> inj name \<Longrightarrow> fleet_inv regionID name ttl (fleet_run es f)"
  unfolding fleet_run_def by (induction es arbitrary: f) (auto intro: fleet_inv_step)


text \<open>
  Instance 0 wins, its renewal is lost to the network, it steps down; after the lease runs out
  instance 1 takes over.
\<close>

definition failover :: "(dir_error net \<times> fleet_event) list" where
  "failover = [(Served, Campaign 0), (Served, Campaign 1), (Served, Tick 3000),
     (Lost_Request (RedisErr ''timeout''), Campaign 0), (Served, Campaign 1), (Served, Tick 6000), (Served, Campaign 1)]"

definition demo_name :: "nat \<Rightarrow> string" where
  "demo_name i = replicate i CHR ''x''"


end
