(* ===== verification/Director_Scope.thy ===== *)
theory Director_Scope
  imports Prelude
begin

text \<open>
  A director's scope state and what writes it: the cached, version-checked read and write of
  \<open>internal/director/state.go\<close> over the rows of \<open>internal/store/scopestate.go\<close>, the application of a
  signal (\<open>signals.go\<close>) and the scheduled spawns (\<open>schedule.go\<close>, \<open>schedule_run.go\<close>).

  Postgres is the service behind the store: one statement is atomic, so a load and a save are
  functions on the table of the scope, and the fate of each call is given by \<open>nets\<close>, indexed by the
  number of calls made before it. A value is JSON text, or the marshalled form of a
  \<open>ScheduleState\<close>; decoding other text into a \<open>ScheduleState\<close> is the argument \<open>parse\<close>.
\<close>

named_theorems scope_defs \<open>definitions of the director's operations\<close>

section \<open>Schedules\<close>

record schedule =
  sc_ref :: string
  sc_proto :: string
  sc_zone :: string
  sc_room :: string
  sc_interval :: nat
  sc_onMissed :: string
  sc_announce :: string

record spawn_dto =
  dto_ref :: string
  dto_proto :: string
  dto_zone :: string
  dto_room :: string
  dto_intervalSec :: nat
  dto_onMissed :: string
  dto_announce :: string

definition BuildSchedule :: "spawn_dto \<Rightarrow> schedule" where
  "BuildSchedule d = \<lparr>sc_ref = dto_ref d, sc_proto = dto_proto d, sc_zone = dto_zone d, sc_room = dto_room d,
     sc_interval = dto_intervalSec d * 1000, sc_onMissed = dto_onMissed d, sc_announce = dto_announce d\<rparr>"

text \<open>Instants are milliseconds since Go's zero time, which is 0.\<close>

record schedule_state =
  nextSpawnAt :: ms
  active :: bool

definition zero_state :: schedule_state where "zero_state = \<lparr>nextSpawnAt = 0, active = False\<rparr>"

definition IsDue :: "schedule_state \<Rightarrow> ms \<Rightarrow> bool" where
  "IsDue st now = (\<not> active st \<and> \<not> now < nextSpawnAt st)"

definition AfterSpawn :: "schedule_state \<Rightarrow> schedule_state" where
  "AfterSpawn st = st\<lparr>active := True\<rparr>"

definition AfterDeath :: "schedule \<Rightarrow> ms \<Rightarrow> schedule_state" where
  "AfterDeath s deathTime = \<lparr>nextSpawnAt = deathTime + sc_interval s, active = False\<rparr>"

definition ApplyMissed :: "schedule \<Rightarrow> schedule_state \<Rightarrow> ms \<Rightarrow> schedule_state" where
  "ApplyMissed s st now =
     (if active st \<or> \<not> nextSpawnAt st < now then st
      else if sc_onMissed s = ''skip_to_next'' then st\<lparr>nextSpawnAt := now + sc_interval s\<rparr>
      else st)"

section \<open>The rows and the director\<close>

datatype jval = Text string | Sched schedule_state

type_synonym rows = "string \<rightharpoonup> jval \<times> nat"

definition loadRow :: "string \<Rightarrow> rows \<Rightarrow> (jval \<times> nat) option \<times> rows" where
  "loadRow key t = (t key, t)"

definition saveRow :: "string \<Rightarrow> jval \<Rightarrow> nat \<Rightarrow> rows \<Rightarrow> nat option \<times> rows" where
  "saveRow key v expected t =
     (case t key of
        None \<Rightarrow> (Some 1, t(key \<mapsto> (v, 1)))
      | Some (_, ver) \<Rightarrow> if ver = expected then (Some (ver + 1), t(key \<mapsto> (v, ver + 1))) else (None, t))"

datatype cast = StateSet string jval nat | SpawnBoss schedule | Remote string string

record director =
  d_state :: "string \<rightharpoonup> jval"
  d_versions :: "string \<rightharpoonup> nat"
  d_leader :: bool
  d_applied :: "string \<Rightarrow> nat"
  d_writeFailed :: bool
  d_scheduleInit :: bool

definition newDirector :: director where
  "newDirector = \<lparr>d_state = Map.empty, d_versions = Map.empty, d_leader = False, d_applied = (\<lambda>_. 0),
     d_writeFailed = False, d_scheduleInit = False\<rparr>"

text \<open>The director, the table of its scope, the number of store calls made, and what it broadcast.\<close>

record dsys =
  me :: director
  table :: rows
  calls :: nat
  casts :: "cast list"

type_synonym fates = "nat \<Rightarrow> string net"

datatype set_error = CAS_Lost | Not_Leader | Store_Error string

definition load :: "fates \<Rightarrow> string \<Rightarrow> dsys \<Rightarrow> (string + (jval \<times> nat) option) \<times> dsys" where
  "load nets key s =
     (case round_trip (nets (calls s)) (loadRow key) (table s) of
        (r, t) \<Rightarrow> (r, s\<lparr>table := t, calls := calls s + 1\<rparr>))"

definition save :: "fates \<Rightarrow> string \<Rightarrow> jval \<Rightarrow> nat \<Rightarrow> dsys \<Rightarrow> (string + nat option) \<times> dsys" where
  "save nets key v expected s =
     (case round_trip (nets (calls s)) (saveRow key v expected) (table s) of
        (r, t) \<Rightarrow> (r, s\<lparr>table := t, calls := calls s + 1\<rparr>))"

definition cache :: "string \<Rightarrow> jval \<Rightarrow> nat \<Rightarrow> dsys \<Rightarrow> dsys" where
  "cache key v ver s =
     s\<lparr>me := (me s)\<lparr>d_state := (d_state (me s))(key \<mapsto> v), d_versions := (d_versions (me s))(key \<mapsto> ver)\<rparr>\<rparr>"

definition cache_found :: "string \<Rightarrow> (jval \<times> nat) option \<Rightarrow> dsys \<Rightarrow> dsys" where
  "cache_found key r s = (case r of Some (v, ver) \<Rightarrow> cache key v ver s | None \<Rightarrow> s)"

definition get :: "fates \<Rightarrow> string \<Rightarrow> dsys \<Rightarrow> (string + jval option) \<times> dsys" where
  "get nets key s =
     (case d_state (me s) key of
        Some v \<Rightarrow> (Inr (Some v), s)
      | None \<Rightarrow>
          (case load nets key s of
             (Inl e, s') \<Rightarrow> (Inl e, s')
           | (Inr r, s') \<Rightarrow> (Inr (map_option fst r), cache_found key r s')))"

definition normalise :: "jval \<Rightarrow> jval" where
  "normalise v = (if v = Text '''' then Text ''null'' else v)"

text \<open>The body of \<open>set\<close>, whose deferred check then records a failure.\<close>

definition set_body :: "fates \<Rightarrow> string \<Rightarrow> jval \<Rightarrow> dsys \<Rightarrow> (set_error + nat) \<times> dsys" where
  "set_body nets key v s =
     (if \<not> d_leader (me s) then (Inl Not_Leader, s)
      else
        case (case d_versions (me s) key of
                Some _ \<Rightarrow> (Inr (), s)
              | None \<Rightarrow> (case load nets key s of
                          (Inl e, s1) \<Rightarrow> (Inl e, s1)
                        | (Inr r, s1) \<Rightarrow> (Inr (), cache_found key r s1))) of
          (Inl e, s1) \<Rightarrow> (Inl (Store_Error e), s1)
        | (Inr _, s1) \<Rightarrow>
            (case save nets key v (case d_versions (me s1) key of Some n \<Rightarrow> n | None \<Rightarrow> 0) s1 of
               (Inl e, s2) \<Rightarrow> (Inl (Store_Error e), s2)
             | (Inr None, s2) \<Rightarrow>
                 (case load nets key s2 of
                    (Inl e, s3) \<Rightarrow> (Inl (Store_Error e), s3)
                  | (Inr r, s3) \<Rightarrow> (Inl CAS_Lost, cache_found key r s3))
             | (Inr (Some ver), s2) \<Rightarrow> (Inr ver, cache key v ver s2)))"

definition set_key :: "fates \<Rightarrow> string \<Rightarrow> jval \<Rightarrow> dsys \<Rightarrow> (set_error + nat) \<times> dsys" where
  "set_key nets key v s =
     (case set_body nets key (normalise v) s of
        (Inl e, s') \<Rightarrow> (Inl e, s'\<lparr>me := (me s')\<lparr>d_writeFailed := True\<rparr>\<rparr>)
      | (Inr ver, s') \<Rightarrow> (Inr ver, s'))"

definition broadcast :: "cast \<Rightarrow> dsys \<Rightarrow> dsys" where
  "broadcast c s = s\<lparr>casts := casts s @ [c]\<rparr>"

text \<open>\<open>API.Set\<close>: write, then broadcast the value under the version the store assigned.\<close>

definition api_Set :: "fates \<Rightarrow> string \<Rightarrow> jval \<Rightarrow> dsys \<Rightarrow> (set_error + unit) \<times> dsys" where
  "api_Set nets key v s =
     (case set_key nets key v s of
        (Inl e, s') \<Rightarrow> (Inl e, s')
      | (Inr ver, s') \<Rightarrow> (Inr (), broadcast (StateSet key v ver) s'))"

section \<open>The scheduled-spawn loop\<close>

definition scheduleKey :: "string \<Rightarrow> string" where "scheduleKey ref = ''schedule:'' @ ref"

definition unmarshal :: "(string \<Rightarrow> schedule_state option) \<Rightarrow> jval \<Rightarrow> schedule_state option" where
  "unmarshal parse v = (case v of Sched st \<Rightarrow> Some st | Text t \<Rightarrow> parse t)"

definition loadScheduleState ::
  "(string \<Rightarrow> schedule_state option) \<Rightarrow> fates \<Rightarrow> string \<Rightarrow> dsys \<Rightarrow> schedule_state \<times> dsys" where
  "loadScheduleState parse nets ref s =
     (case get nets (scheduleKey ref) s of
        (Inr (Some v), s') \<Rightarrow>
          (if v = Text '''' then zero_state
           else (case unmarshal parse v of Some st \<Rightarrow> st | None \<Rightarrow> zero_state), s')
      | (_, s') \<Rightarrow> (zero_state, s'))"

definition saveScheduleState :: "fates \<Rightarrow> string \<Rightarrow> schedule_state \<Rightarrow> dsys \<Rightarrow> bool \<times> dsys" where
  "saveScheduleState nets ref st s =
     (case set_key nets (scheduleKey ref) (Sched st) s of
        (Inl _, s') \<Rightarrow> (False, s')
      | (Inr _, s') \<Rightarrow> (True, s'))"

definition startup1 ::
  "(string \<Rightarrow> schedule_state option) \<Rightarrow> fates \<Rightarrow> ms \<Rightarrow> dsys \<Rightarrow> schedule \<Rightarrow> dsys" where
  "startup1 parse nets now s sc =
     (case loadScheduleState parse nets (sc_ref sc) s of
        (st, s1) \<Rightarrow>
          (let adjusted = ApplyMissed sc st now
           in if adjusted \<noteq> st then snd (saveScheduleState nets (sc_ref sc) adjusted s1) else s1))"

definition spawn1 ::
  "(string \<Rightarrow> schedule_state option) \<Rightarrow> fates \<Rightarrow> ms \<Rightarrow> dsys \<Rightarrow> schedule \<Rightarrow> dsys" where
  "spawn1 parse nets now s sc =
     (case loadScheduleState parse nets (sc_ref sc) s of
        (st, s1) \<Rightarrow>
          if \<not> IsDue st now then s1
          else snd (saveScheduleState nets (sc_ref sc) (AfterSpawn st) (broadcast (SpawnBoss sc) s1)))"

definition runSchedules ::
  "(string \<Rightarrow> schedule_state option) \<Rightarrow> fates \<Rightarrow> ms \<Rightarrow> schedule list \<Rightarrow> dsys \<Rightarrow> dsys" where
  "runSchedules parse nets now scs s =
     (let s1 = (if d_scheduleInit (me s) then s
                else let s0 = foldl (startup1 parse nets now) s scs
                     in s0\<lparr>me := (me s0)\<lparr>d_scheduleInit := True\<rparr>\<rparr>)
      in foldl (spawn1 parse nets now) s1 scs)"

definition onTick ::
  "(string \<Rightarrow> schedule_state option) \<Rightarrow> fates \<Rightarrow> ms \<Rightarrow> schedule list \<Rightarrow> dsys \<Rightarrow> dsys" where
  "onTick parse nets now scs s =
     (if \<not> d_leader (me s) then s
      else if scs \<noteq> [] then runSchedules parse nets now scs s
      else s)"

text \<open>\<open>onBossDied\<close> with the decoded reference of the payload, \<open>None\<close> where it does not decode.\<close>

definition onBossDied :: "fates \<Rightarrow> ms \<Rightarrow> schedule list \<Rightarrow> string option \<Rightarrow> dsys \<Rightarrow> dsys" where
  "onBossDied nets now scs ref s =
     (case ref of
        None \<Rightarrow> s
      | Some r \<Rightarrow>
          if r = '''' then s
          else (case find (\<lambda>sc. sc_ref sc = r) scs of
                  None \<Rightarrow> s
                | Some sc \<Rightarrow> snd (saveScheduleState nets r (AfterDeath sc now) s)))"

section \<open>Applying a signal\<close>

text \<open>
  \<open>handleSignal\<close> with the handler as an argument; the reply is the ack. Of \<open>handlePullRequest\<close> the ack
  is kept (\<open>puller\<close> says whether one is wired); the import it starts runs on a worker, off the actor.
  The reload audit only logs.
\<close>

record signal =
  sg_event :: string
  sg_payload :: string
  sg_seq :: "nat option"
  sg_source :: string

type_synonym handler = "string \<Rightarrow> string \<Rightarrow> dsys \<Rightarrow> dsys"

definition PullRequestEvent :: string where "PullRequestEvent = ''content.pull.request''"

definition handlePullRequest :: "bool \<Rightarrow> director \<Rightarrow> bool" where
  "handlePullRequest puller d = (if \<not> puller then True else if \<not> d_leader d then False else True)"

definition handleSignal :: "handler option \<Rightarrow> bool \<Rightarrow> signal \<Rightarrow> dsys \<Rightarrow> bool \<times> dsys" where
  "handleSignal h puller m s =
     (if \<exists>q. sg_seq m = Some q \<and> q \<le> d_applied (me s) (sg_source m) then (True, s)
      else if \<not> d_leader (me s) then (False, s)
      else if sg_event m = PullRequestEvent \<and> \<not> handlePullRequest puller (me s) then (False, s)
      else
        let s0 = s\<lparr>me := (me s)\<lparr>d_writeFailed := False\<rparr>\<rparr>;
            s1 = (case h of Some f \<Rightarrow> f (sg_event m) (sg_payload m) s0 | None \<Rightarrow> s0)
        in if d_writeFailed (me s1) then (False, s1)
           else (True,
                 case sg_seq m of
                   Some q \<Rightarrow>
                     if q > d_applied (me s1) (sg_source m)
                     then s1\<lparr>me := (me s1)\<lparr>d_applied := (d_applied (me s1))(sg_source m := q)\<rparr>\<rparr> else s1
                 | None \<Rightarrow> s1))"

definition BossDiedEvent :: string where "BossDiedEvent = ''boss.died''"

definition WithSchedules ::
  "fates \<Rightarrow> ms \<Rightarrow> schedule list \<Rightarrow> (string \<Rightarrow> string option) \<Rightarrow> handler option \<Rightarrow> handler" where
  "WithSchedules nets now scs decode prev event payload s =
     (if event = BossDiedEvent then onBossDied nets now scs (decode payload) s
      else case prev of Some f \<Rightarrow> f event payload s | None \<Rightarrow> s)"

declare load_def [scope_defs] save_def [scope_defs] cache_def [scope_defs] cache_found_def [scope_defs]
  get_def [scope_defs] set_body_def [scope_defs] set_key_def [scope_defs] loadRow_def [scope_defs]
  saveRow_def [scope_defs] broadcast_def [scope_defs] normalise_def [scope_defs]

section \<open>Lemmas on the versioned write\<close>

definition ver_of :: "rows \<Rightarrow> string \<Rightarrow> nat" where
  "ver_of t key = (case t key of None \<Rightarrow> 0 | Some (_, n) \<Rightarrow> n)"

definition val_of :: "rows \<Rightarrow> string \<Rightarrow> jval option" where
  "val_of t key = map_option fst (t key)"

lemma load_table: "table (snd (load nets key s)) = table s" "me (snd (load nets key s)) = me s"
  by (auto simp: load_def loadRow_def round_trip_def split: net.splits)

lemma load_value: "fst (load nets key s) = Inr r \<Longrightarrow> r = table s key"
  by (auto simp: load_def loadRow_def round_trip_def split: net.splits)

lemma cache_found_frame [simp]:
  "table (cache_found key r s) = table s" "casts (cache_found key r s) = casts s" "calls (cache_found key r s) = calls s"
  "d_leader (me (cache_found key r s)) = d_leader (me s)" "d_applied (me (cache_found key r s)) = d_applied (me s)"
  "d_writeFailed (me (cache_found key r s)) = d_writeFailed (me s)"
  by (auto simp: cache_found_def cache_def split: option.splits)

lemma cache_frame [simp]:
  "table (cache key v n s) = table s" "casts (cache key v n s) = casts s" "d_leader (me (cache key v n s)) = d_leader (me s)"
  "d_applied (me (cache key v n s)) = d_applied (me s)"
  by (auto simp: cache_def)

text \<open>What a save does to the table, whatever its fate: nothing, or the row at the expected version moves on by one.\<close>

lemma save_table:
  assumes "save nets key v expected s = (r, s')"
  shows "me s' = me s \<and> casts s' = casts s \<and>
         (table s' = table s \<or> table s' = (table s)(key \<mapsto> (v, ver_of (table s) key + 1))) \<and>
         (\<forall>n. r = Inr (Some n) \<longrightarrow> n = ver_of (table s) key + 1 \<and> table s' = (table s)(key \<mapsto> (v, n))) \<and>
         (r = Inr None \<longrightarrow> table s' = table s)"
  using assms
  by (auto simp: save_def saveRow_def ver_of_def round_trip_def split: net.splits option.splits prod.splits if_splits)

lemma load_casts: "casts (snd (load nets key s)) = casts s"
  by (auto simp: load_def split: prod.splits)

lemma seed_frame:
  assumes "(case d_versions (me s) key of
                Some _ \<Rightarrow> (Inr (), s)
              | None \<Rightarrow> (case load nets key s of
                          (Inl e, s1) \<Rightarrow> (Inl e, s1)
                        | (Inr r, s1) \<Rightarrow> (Inr (), cache_found key r s1))) = (x, s1)"
  shows "table s1 = table s \<and> casts s1 = casts s \<and> d_leader (me s1) = d_leader (me s) \<and> d_applied (me s1) = d_applied (me s)"
  using assms load_table [of nets key s] load_casts [of nets key s]
  by (auto split: option.splits prod.splits sum.splits)

lemma set_body_table:
  assumes "set_body nets key v s = (r, s')"
  shows "casts s' = casts s \<and> d_leader (me s') = d_leader (me s) \<and> d_applied (me s') = d_applied (me s) \<and>
         (table s' = table s \<or> table s' = (table s)(key \<mapsto> (v, ver_of (table s) key + 1))) \<and>
         (\<forall>n. r = Inr n \<longrightarrow> n = ver_of (table s) key + 1 \<and> table s' = (table s)(key \<mapsto> (v, n)))"
proof (cases "d_leader (me s)")
  case True
  obtain x s1 where x: "(case d_versions (me s) key of
                Some _ \<Rightarrow> (Inr (), s)
              | None \<Rightarrow> (case load nets key s of
                          (Inl e, s1) \<Rightarrow> (Inl e, s1)
                        | (Inr r, s1) \<Rightarrow> (Inr (), cache_found key r s1))) = (x, s1)" by fastforce
  note f = seed_frame [OF x]
  obtain y s2 where y: "save nets key v (case d_versions (me s1) key of Some n \<Rightarrow> n | None \<Rightarrow> 0) s1 = (y, s2)" by fastforce
  note g = save_table [OF y]
  obtain z s3 where z: "load nets key s2 = (z, s3)" by fastforce
  have h: "table s3 = table s2" "me s3 = me s2" "casts s3 = casts s2"
    using load_table [of nets key s2] load_casts [of nets key s2] z by simp_all
  have "(r, s') = (case x of Inl e \<Rightarrow> (Inl (Store_Error e), s1)
      | Inr _ \<Rightarrow> (case y of Inl e \<Rightarrow> (Inl (Store_Error e), s2)
          | Inr None \<Rightarrow> (case z of Inl e \<Rightarrow> (Inl (Store_Error e), s3) | Inr w \<Rightarrow> (Inl CAS_Lost, cache_found key w s3))
          | Inr (Some n) \<Rightarrow> (Inr n, cache key v n s2)))"
    using assms True x y z by (simp add: set_body_def split: sum.splits option.splits)
  then show ?thesis using f g h by (auto split: sum.splits option.splits)
qed (use assms in \<open>auto simp: set_body_def\<close>)

lemma set_key_table:
  assumes "set_key nets key v s = (r, s')"
  shows "casts s' = casts s \<and> d_leader (me s') = d_leader (me s) \<and> d_applied (me s') = d_applied (me s) \<and>
         (table s' = table s \<or> table s' = (table s)(key \<mapsto> (normalise v, ver_of (table s) key + 1))) \<and>
         (\<forall>n. r = Inr n \<longrightarrow> n = ver_of (table s) key + 1 \<and> table s' = (table s)(key \<mapsto> (normalise v, n)))"
proof -
  obtain x s1 where x: "set_body nets key (normalise v) s = (x, s1)" by fastforce
  show ?thesis using assms set_body_table [OF x] by (auto simp: set_key_def x split: sum.splits)
qed

text \<open>Every unsuccessful write is recorded.\<close>

lemma set_key_records: "set_key nets key v s = (Inl e, s') \<Longrightarrow> d_writeFailed (me s')"
  by (auto simp: set_key_def split: prod.splits sum.splits)

lemma set_key_not_leader:
  "\<not> d_leader (me s) \<Longrightarrow> set_key nets key v s = (Inl Not_Leader, s\<lparr>me := (me s)\<lparr>d_writeFailed := True\<rparr>\<rparr>)"
  by (simp add: set_key_def set_body_def)

section \<open>Several directors over one table\<close>

text \<open>A write by director \<open>i\<close>; the directors share the table and nothing else.\<close>

record shared =
  dirs :: "nat \<Rightarrow> director"
  tbl :: rows

definition shared_set :: "fates \<Rightarrow> nat \<Rightarrow> string \<Rightarrow> jval \<Rightarrow> shared \<Rightarrow> (set_error + nat) \<times> shared" where
  "shared_set nets i key v w =
     (case set_key nets key v \<lparr>me = dirs w i, table = tbl w, calls = 0, casts = []\<rparr> of
        (r, s) \<Rightarrow> (r, w\<lparr>dirs := (dirs w)(i := me s), tbl := table s\<rparr>))"

text \<open>A history of writes, with what each returned. Between two writes anything may happen to the flags and caches.\<close>

fun shared_run ::
  "(fates \<times> nat \<times> string \<times> jval \<times> (nat \<Rightarrow> director)) list \<Rightarrow> shared \<Rightarrow> (string \<times> jval \<times> (set_error + nat)) list \<times> shared" where
  "shared_run [] w = ([], w)"
| "shared_run ((nets, i, key, v, ds) # ops) w =
     (case shared_set nets i key v (w\<lparr>dirs := ds\<rparr>) of
        (r, w1) \<Rightarrow> (case shared_run ops w1 of (rs, w2) \<Rightarrow> ((key, v, r) # rs, w2)))"

definition versions_for :: "string \<Rightarrow> (string \<times> jval \<times> (set_error + nat)) list \<Rightarrow> nat list" where
  "versions_for key rs = concat (map (\<lambda>(k, _, r). case r of Inr n \<Rightarrow> if k = key then [n] else [] | Inl _ \<Rightarrow> []) rs)"

lemma shared_set_ver:
  assumes "shared_set nets i key v w = (r, w')"
  shows "ver_of (tbl w) k \<le> ver_of (tbl w') k \<and>
         (\<forall>n. r = Inr n \<and> k = key \<longrightarrow> n = ver_of (tbl w) key + 1 \<and> tbl w' key = Some (normalise v, n))"
proof -
  obtain s where "set_key nets key v \<lparr>me = dirs w i, table = tbl w, calls = 0, casts = []\<rparr> = (r, s)" "tbl w' = table s"
    using assms by (auto simp: shared_set_def split: prod.splits)
  then show ?thesis using set_key_table [of nets key v "\<lparr>me = dirs w i, table = tbl w, calls = 0, casts = []\<rparr>" r s]
    by (auto simp: ver_of_def)
qed

lemma shared_run_versions:
  "shared_run ops w = (rs, w') \<Longrightarrow>
     sorted_wrt (<) (versions_for key rs) \<and> (\<forall>n \<in> set (versions_for key rs). ver_of (tbl w) key < n) \<and>
     ver_of (tbl w) key \<le> ver_of (tbl w') key"
proof (induction ops arbitrary: w rs)
  case (Cons op ops)
  obtain nets i k v ds where op: "op = (nets, i, k, v, ds)" by (cases op) auto
  obtain r w1 where r: "shared_set nets i k v (w\<lparr>dirs := ds\<rparr>) = (r, w1)" by fastforce
  obtain rs1 where rs1: "shared_run ops w1 = (rs1, w')" "rs = (k, v, r) # rs1"
    using Cons.prems by (auto simp: op r split: prod.splits)
  have v: "ver_of (tbl w) key \<le> ver_of (tbl w1) key"
    "\<And>n. r = Inr n \<Longrightarrow> k = key \<Longrightarrow> ver_of (tbl w) key < n \<and> n \<le> ver_of (tbl w1) key"
    using shared_set_ver [OF r, of key] by (auto simp: ver_of_def)
  show ?case using Cons.IH [OF rs1(1)] v unfolding rs1(2)
    by (auto simp: versions_for_def split: sum.splits)
qed (simp add: versions_for_def)

section \<open>Coherent caches\<close>

definition coherent :: "dsys \<Rightarrow> bool" where
  "coherent s \<longleftrightarrow>
     (\<forall>k v. d_state (me s) k = Some v \<longrightarrow> table s k = Some (v, the (d_versions (me s) k)) \<and> d_versions (me s) k \<noteq> None) \<and>
     (\<forall>k n. d_versions (me s) k = Some n \<longrightarrow> (\<exists>v. table s k = Some (v, n)))"

definition all_served :: "fates \<Rightarrow> bool" where "all_served nets \<longleftrightarrow> (\<forall>i. nets i = Served)"

lemma get_served:
  assumes "all_served nets" "coherent s"
  shows "\<exists>s'. get nets key s = (Inr (val_of (table s) key), s') \<and> coherent s' \<and> table s' = table s \<and>
           casts s' = casts s \<and> d_leader (me s') = d_leader (me s) \<and> d_scheduleInit (me s') = d_scheduleInit (me s)"
proof (cases "d_state (me s) key")
  case None
  then show ?thesis using assms
    by (auto simp: get_def load_def loadRow_def all_served_def cache_found_def cache_def coherent_def val_of_def
        split: option.splits prod.splits)
qed (use assms in \<open>auto simp: get_def coherent_def val_of_def\<close>)

lemma set_served:
  assumes "all_served nets" "coherent s" "d_leader (me s)" "normalise v = v"
  shows "\<exists>s'. set_key nets key v s = (Inr (ver_of (table s) key + 1), s') \<and> coherent s' \<and>
           table s' = (table s)(key \<mapsto> (v, ver_of (table s) key + 1)) \<and> casts s' = casts s \<and> d_leader (me s') \<and>
           d_scheduleInit (me s') = d_scheduleInit (me s)"
proof (cases "d_versions (me s) key")
  case None
  then show ?thesis using assms
    by (cases "table s key")
      (auto simp: set_key_def set_body_def load_def loadRow_def save_def saveRow_def all_served_def cache_found_def cache_def
        coherent_def ver_of_def split: option.splits prod.splits)
next
  case (Some n)
  then obtain w where w: "table s key = Some (w, n)" using assms(2) unfolding coherent_def by blast
  have "set_key nets key v s = (Inr (n + 1), cache key v (n + 1) (s\<lparr>table := (table s)(key \<mapsto> (v, n + 1)), calls := calls s + 1\<rparr>))"
    using assms Some w by (simp add: set_key_def set_body_def save_def saveRow_def all_served_def)
  then show ?thesis using assms(2,3) w by (auto simp: cache_def coherent_def ver_of_def)
qed

definition sched_of :: "(string \<Rightarrow> schedule_state option) \<Rightarrow> rows \<Rightarrow> string \<Rightarrow> schedule_state" where
  "sched_of parse t ref =
     (case val_of t (scheduleKey ref) of
        None \<Rightarrow> zero_state
      | Some v \<Rightarrow> if v = Text '''' then zero_state
                  else (case unmarshal parse v of Some st \<Rightarrow> st | None \<Rightarrow> zero_state))"

lemma loadSchedule_served:
  assumes "all_served nets" "coherent s"
  shows "\<exists>s'. loadScheduleState parse nets ref s = (sched_of parse (table s) ref, s') \<and> coherent s' \<and> table s' = table s \<and>
           casts s' = casts s \<and> d_leader (me s') = d_leader (me s) \<and> d_scheduleInit (me s') = d_scheduleInit (me s)"
  using get_served [OF assms, of "scheduleKey ref"]
  by (auto simp: loadScheduleState_def sched_of_def split: option.splits)

lemma saveSchedule_served:
  assumes "all_served nets" "coherent s" "d_leader (me s)"
  shows "\<exists>s'. saveScheduleState nets ref st s = (True, s') \<and> coherent s' \<and>
           table s' = (table s)(scheduleKey ref \<mapsto> (Sched st, ver_of (table s) (scheduleKey ref) + 1)) \<and>
           casts s' = casts s \<and> d_leader (me s') \<and> d_scheduleInit (me s') = d_scheduleInit (me s)"
  using set_served [OF assms, of "Sched st" "scheduleKey ref"]
  by (auto simp: saveScheduleState_def normalise_def)

lemma sched_of_update:
  "sched_of parse (t(scheduleKey r \<mapsto> (Sched st, n))) ref = (if ref = r then st else sched_of parse t ref)"
  by (simp add: sched_of_def val_of_def scheduleKey_def unmarshal_def)

text \<open>What one schedule's turn does to every schedule, as a function on the persisted states.\<close>

definition turn_ok :: "(string \<Rightarrow> schedule_state option) \<Rightarrow> dsys \<Rightarrow> dsys \<Rightarrow> bool" where
  "turn_ok parse s s' \<longleftrightarrow> coherent s' \<and> d_leader (me s') = d_leader (me s) \<and>
     (\<forall>ref. active (sched_of parse (table s) ref) \<longrightarrow> sched_of parse (table s') ref = sched_of parse (table s) ref)"

lemma startup1_served:
  assumes "all_served nets" "coherent s" "d_leader (me s)"
  shows "turn_ok parse s (startup1 parse nets now s sc) \<and> casts (startup1 parse nets now s sc) = casts s \<and>
         (\<forall>ref. active (sched_of parse (table (startup1 parse nets now s sc)) ref) = active (sched_of parse (table s) ref))"
proof -
  obtain s1 where s1: "loadScheduleState parse nets (sc_ref sc) s = (sched_of parse (table s) (sc_ref sc), s1)"
    "coherent s1" "table s1 = table s" "casts s1 = casts s" "d_leader (me s1)"
    using loadSchedule_served [OF assms(1,2)] assms(3) by metis
  let ?st = "sched_of parse (table s) (sc_ref sc)"
  have am: "ApplyMissed sc ?st now = ?st \<or> \<not> active ?st \<and> \<not> active (ApplyMissed sc ?st now)" by (auto simp: ApplyMissed_def)
  obtain s2 where "saveScheduleState nets (sc_ref sc) (ApplyMissed sc ?st now) s1 = (True, s2)" "coherent s2"
    "table s2 = (table s)(scheduleKey (sc_ref sc) \<mapsto> (Sched (ApplyMissed sc ?st now), ver_of (table s) (scheduleKey (sc_ref sc)) + 1))"
    "casts s2 = casts s" "d_leader (me s2)"
    using saveSchedule_served [OF assms(1) s1(2,5)] s1(3,4) by metis
  then show ?thesis using s1 am assms(3) by (auto simp: startup1_def turn_ok_def Let_def sched_of_update)
qed

lemma spawn1_served:
  fixes parse sc
  assumes "all_served nets" "coherent s" "d_leader (me s)"
  defines "st \<equiv> sched_of parse (table s) (sc_ref sc)"
  shows "turn_ok parse s (spawn1 parse nets now s sc) \<and>
         (\<not> IsDue st now \<longrightarrow> casts (spawn1 parse nets now s sc) = casts s) \<and>
         (IsDue st now \<longrightarrow> casts (spawn1 parse nets now s sc) = casts s @ [SpawnBoss sc] \<and> \<not> active st \<and>
            active (sched_of parse (table (spawn1 parse nets now s sc)) (sc_ref sc)))"
proof -
  obtain s1 where s1: "loadScheduleState parse nets (sc_ref sc) s = (st, s1)"
    "coherent s1" "table s1 = table s" "casts s1 = casts s" "d_leader (me s1)"
    using loadSchedule_served [OF assms(1,2)] assms(3) unfolding st_def by metis
  let ?b = "broadcast (SpawnBoss sc) s1"
  have b: "coherent ?b" "d_leader (me ?b)" "table ?b = table s" "casts ?b = casts s @ [SpawnBoss sc]"
    using s1 by (auto simp: broadcast_def coherent_def)
  obtain s2 where "saveScheduleState nets (sc_ref sc) (AfterSpawn st) ?b = (True, s2)" "coherent s2"
    "table s2 = (table s)(scheduleKey (sc_ref sc) \<mapsto> (Sched (AfterSpawn st), ver_of (table s) (scheduleKey (sc_ref sc)) + 1))"
    "casts s2 = casts s @ [SpawnBoss sc]" "d_leader (me s2)"
    using saveSchedule_served [OF assms(1) b(1,2)] b(3,4) by metis
  then show ?thesis using s1 assms(3)
    by (auto simp: spawn1_def turn_ok_def sched_of_update IsDue_def AfterSpawn_def st_def)
qed

text \<open>Spawns broadcast so far, plus one while no boss is alive: never more after a turn than before.\<close>

definition spawn_budget :: "(string \<Rightarrow> schedule_state option) \<Rightarrow> schedule \<Rightarrow> dsys \<Rightarrow> nat" where
  "spawn_budget parse sc s =
     count_list (casts s) (SpawnBoss sc) + (if active (sched_of parse (table s) (sc_ref sc)) then 0 else 1)"

definition leading :: "dsys \<Rightarrow> bool" where "leading s \<longleftrightarrow> coherent s \<and> d_leader (me s)"

lemma startup1_budget:
  assumes "all_served nets" "leading s"
  shows "leading (startup1 parse nets now s sc) \<and> spawn_budget parse sc' (startup1 parse nets now s sc) \<le> spawn_budget parse sc' s"
  using startup1_served [of nets s parse now sc] assms by (auto simp: leading_def turn_ok_def spawn_budget_def)

lemma spawn1_budget:
  assumes "all_served nets" "leading s"
  shows "leading (spawn1 parse nets now s sc) \<and> spawn_budget parse sc' (spawn1 parse nets now s sc) \<le> spawn_budget parse sc' s"
proof -
  note h = spawn1_served [where nets = nets and s = s and parse = parse and sc = sc and now = now]
  show ?thesis
  proof (cases "IsDue (sched_of parse (table s) (sc_ref sc)) now")
    case True
    then show ?thesis using h assms by (auto simp: leading_def turn_ok_def spawn_budget_def)
  next
    case False
    then show ?thesis using h assms by (auto simp: leading_def turn_ok_def spawn_budget_def)
  qed
qed

lemma fold_budget:
  assumes "\<And>s sc. leading s \<Longrightarrow> leading (f s sc) \<and> spawn_budget parse sc' (f s sc) \<le> spawn_budget parse sc' s" "leading s"
  shows "leading (foldl f s scs) \<and> spawn_budget parse sc' (foldl f s scs) \<le> spawn_budget parse sc' s"
  using assms(2)
proof (induction scs arbitrary: s)
  case (Cons a scs)
  then show ?case using assms(1) [of s a] by (auto intro: order_trans)
qed simp

lemma onTick_budget:
  assumes "all_served nets" "leading s"
  shows "leading (onTick parse nets now scs s) \<and> spawn_budget parse sc (onTick parse nets now scs s) \<le> spawn_budget parse sc s"
proof -
  let ?s0 = "foldl (startup1 parse nets now) s scs"
  let ?s1 = "if d_scheduleInit (me s) then s else ?s0\<lparr>me := (me ?s0)\<lparr>d_scheduleInit := True\<rparr>\<rparr>"
  have "leading ?s0 \<and> spawn_budget parse sc ?s0 \<le> spawn_budget parse sc s"
    using assms by (intro fold_budget startup1_budget)
  then have "leading ?s1 \<and> spawn_budget parse sc ?s1 \<le> spawn_budget parse sc s"
    using assms(2) by (auto simp: leading_def coherent_def spawn_budget_def)
  moreover have "leading (foldl (spawn1 parse nets now) ?s1 scs) \<and>
      spawn_budget parse sc (foldl (spawn1 parse nets now) ?s1 scs) \<le> spawn_budget parse sc ?s1"
    using assms(1) calculation by (intro fold_budget spawn1_budget) auto
  ultimately show ?thesis using assms(2) by (auto simp: onTick_def runSchedules_def Let_def)
qed

datatype sched_event = Tick_At ms | Restart

definition sched_step ::
  "(string \<Rightarrow> schedule_state option) \<Rightarrow> fates \<Rightarrow> schedule list \<Rightarrow> dsys \<Rightarrow> sched_event \<Rightarrow> dsys" where
  "sched_step parse nets scs s e =
     (case e of
        Tick_At now \<Rightarrow> onTick parse nets now scs s
      | Restart \<Rightarrow> s\<lparr>me := newDirector\<lparr>d_leader := True\<rparr>\<rparr>)"

lemma sched_run_budget:
  assumes "all_served nets" "leading s"
  shows "leading (foldl (sched_step parse nets scs) s es) \<and>
         spawn_budget parse sc (foldl (sched_step parse nets scs) s es) \<le> spawn_budget parse sc s"
  using assms(2)
proof (induction es arbitrary: s)
  case (Cons e es)
  have "leading (sched_step parse nets scs s e) \<and> spawn_budget parse sc (sched_step parse nets scs s e) \<le> spawn_budget parse sc s"
    using Cons.prems onTick_budget [OF assms(1)]
    by (cases e) (auto simp: sched_step_def leading_def coherent_def spawn_budget_def newDirector_def)
  then show ?case using Cons.IH by (auto intro: order_trans)
qed simp

section \<open>Properties\<close>


definition demo_leader :: director where "demo_leader = newDirector\<lparr>d_leader := True\<rparr>"


text \<open>
  A stale leader's write is refused and repaired: a cached version behind the row loses the CAS,
  leaves the row alone and reloads it, so that retrying at once succeeds. A director that has just
  restarted, with nothing cached, writes an existing key at the first attempt. A director that is
  not the leader writes nothing.
\<close>

lemma stale_write_refused_and_repaired:
  assumes "all_served nets" "table s key = Some (w, n)" "d_leader (me s)" "v \<noteq> Text ''''"
  shows "(d_versions (me s) key = Some c \<and> c \<noteq> n \<longrightarrow>
            (\<exists>s'. set_key nets key v s = (Inl CAS_Lost, s') \<and> table s' = table s \<and> d_writeFailed (me s') \<and>
               (\<exists>s''. set_key nets key v s' = (Inr (n + 1), s'') \<and> table s'' key = Some (v, n + 1)))) \<and>
         (d_versions (me s) key = None \<longrightarrow>
            (\<exists>s'. set_key nets key v s = (Inr (n + 1), s') \<and> table s' key = Some (v, n + 1))) \<and>
         set_key nets key v (s\<lparr>me := (me s)\<lparr>d_leader := False\<rparr>\<rparr>) =
           (Inl Not_Leader, s\<lparr>me := (me s)\<lparr>d_leader := False, d_writeFailed := True\<rparr>\<rparr>)"
  using assms by (auto simp: scope_defs all_served_def)

text \<open>
  Signals: an acked signal either was a redelivery, which changes nothing, or was applied by the
  leader with none of its writes failing; after the ack every redelivery is suppressed. A signal
  whose write failed, or that reached a non-leader, is not acked and stays due for redelivery.
\<close>

lemma signal_applied_once:
  assumes "\<And>e p s. d_applied (me (f e p s)) = d_applied (me s)" "sg_seq m = Some q"
  shows "(\<forall>s'. handleSignal (Some f) puller m s = (True, s') \<longrightarrow>
            (s' = s \<and> q \<le> d_applied (me s) (sg_source m) \<or>
             d_leader (me s) \<and> casts s' = casts (f (sg_event m) (sg_payload m) (s\<lparr>me := (me s)\<lparr>d_writeFailed := False\<rparr>\<rparr>)) \<and>
             \<not> d_writeFailed (me s')) \<and>
            handleSignal (Some f) puller m s' = (True, s')) \<and>
         (\<forall>s'. handleSignal (Some f) puller m s = (False, s') \<longrightarrow>
            d_applied (me s') (sg_source m) < q \<and> (\<not> d_leader (me s) \<longrightarrow> s' = s))"
  using assms by (auto simp: handleSignal_def handlePullRequest_def Let_def not_le split: if_splits)

lemma set_key_applied: "d_applied (me (snd (set_key nets key v s))) = d_applied (me s)"
  using set_key_table [of nets key v s] by (metis prod.collapse)

lemma onBossDied_applied: "d_applied (me (onBossDied nets now scs r s)) = d_applied (me s)"
  using set_key_applied [of nets]
  by (auto simp: onBossDied_def saveScheduleState_def split: option.splits prod.splits sum.splits) (metis snd_conv)+

lemma WithSchedules_applied: "d_applied (me (WithSchedules nets now scs decode None e p s)) = d_applied (me s)"
  by (simp add: WithSchedules_def onBossDied_applied)

text \<open>
  C32. One spawn per life: over any sequence of ticks and restarts during which the store answers, a
  scheduled boss is broadcast at most once until its death is reported, and not at all if one was
  alive at the start.
\<close>

theorem one_spawn_per_life:
  assumes "all_served nets" "leading s"
  shows "count_list (casts (foldl (sched_step parse nets scs) s es)) (SpawnBoss sc) \<le>
         count_list (casts s) (SpawnBoss sc) + (if active (sched_of parse (table s) (sc_ref sc)) then 0 else 1)"
  using sched_run_budget [OF assms, of parse scs es sc] by (simp add: spawn_budget_def split: if_splits)

definition demo_boss :: schedule where
  "demo_boss = \<lparr>sc_ref = ''dragon'', sc_proto = ''p'', sc_zone = ''z'', sc_room = ''r'', sc_interval = 50,
     sc_onMissed = ''skip_to_next'', sc_announce = ''''\<rparr>"

theorem one_spawn_per_life_witness:
  "let s = \<lparr>me = demo_leader, table = Map.empty, calls = 0, casts = []\<rparr>
   in leading s \<and> count_list (casts (foldl (sched_step (\<lambda>_. None) (\<lambda>_. Served) [demo_boss]) s
        [Tick_At 10, Tick_At 100, Restart, Tick_At 200, Tick_At 300])) (SpawnBoss demo_boss) \<le> 1"
proof -
  let ?s = "\<lparr>me = demo_leader, table = Map.empty, calls = 0, casts = []\<rparr>"
  have l: "leading ?s" "all_served (\<lambda>_. Served)" by (simp_all add: leading_def coherent_def demo_leader_def newDirector_def all_served_def)
  show ?thesis using one_spawn_per_life [OF l(2,1), of "\<lambda>_. None" "[demo_boss]" "[Tick_At 10, Tick_At 100, Restart, Tick_At 200, Tick_At 300]" demo_boss] l
    by (simp add: sched_of_def val_of_def zero_state_def)
qed

text \<open>
  Where the store does not answer, the guarantee breaks: \<open>loadScheduleState\<close> reports a failed read
  as never spawned. If the first read after a restart fails and the schedule skips missed windows,
  the startup pass writes that state over the row of a live boss, and the boss is broadcast again
  one interval later.
\<close>

lemma failed_read_respawns_live_boss:
  "let nets = (\<lambda>i. if i = 0 then Lost_Request ''timeout'' else Served);
       s = \<lparr>me = demo_leader, table = [scheduleKey ''dragon'' \<mapsto> (Sched \<lparr>nextSpawnAt = 5, active = True\<rparr>, 3)], calls = 0, casts = []\<rparr>;
       s1 = onTick (\<lambda>_. None) nets 100 [demo_boss] s;
       s2 = onTick (\<lambda>_. None) nets 150 [demo_boss] s1
   in table s1 (scheduleKey ''dragon'') = Some (Sched \<lparr>nextSpawnAt = 150, active = False\<rparr>, 4) \<and>
      casts s2 = [SpawnBoss demo_boss]"
  by code_simp

end
