(* ===== verification/Utf8.thy ===== *)
theory Utf8
  imports Prelude
begin

text \<open>
  Byte strings as the code handles them, and what it uses of Go's \<open>unicode/utf8\<close> and \<open>unicode\<close>: decoding
  one rune, encoding one rune, the walk over the runes of a string, \<open>ValidString\<close> and \<open>IsControl\<close>. A byte
  is a \<open>char\<close>; a rune is its code point.
\<close>

abbreviation byte :: "char \<Rightarrow> nat" where "byte c \<equiv> of_char c"

definition RuneError :: nat where "RuneError = 0xFFFD"

definition cont :: "char \<Rightarrow> bool" where "cont c = (0x80 \<le> byte c \<and> byte c \<le> 0xBF)"

text \<open>The range of the second byte, which excludes overlong forms, surrogates and values above 10FFFF.\<close>

definition second_ok :: "nat \<Rightarrow> char \<Rightarrow> bool" where
  "second_ok b0 c =
     ((if b0 = 0xE0 then 0xA0 else if b0 = 0xF0 then 0x90 else 0x80) \<le> byte c \<and>
      byte c \<le> (if b0 = 0xED then 0x9F else if b0 = 0xF4 then 0x8F else 0xBF))"

definition tail6 :: "char \<Rightarrow> nat" where "tail6 c = byte c - 0x80"

fun DecodeRune :: "string \<Rightarrow> nat \<times> nat" where
  "DecodeRune [] = (RuneError, 0)"
| "DecodeRune (c # cs) =
     (let b = byte c in
      if b < 0x80 then (b, 1)
      else if 0xC2 \<le> b \<and> b \<le> 0xDF then
        (case cs of
           c1 # _ \<Rightarrow> if cont c1 then ((b - 0xC0) * 64 + tail6 c1, 2) else (RuneError, 1)
         | _ \<Rightarrow> (RuneError, 1))
      else if 0xE0 \<le> b \<and> b \<le> 0xEF then
        (case cs of
           c1 # c2 # _ \<Rightarrow>
             if second_ok b c1 \<and> cont c2 then ((b - 0xE0) * 4096 + tail6 c1 * 64 + tail6 c2, 3) else (RuneError, 1)
         | _ \<Rightarrow> (RuneError, 1))
      else if 0xF0 \<le> b \<and> b \<le> 0xF4 then
        (case cs of
           c1 # c2 # c3 # _ \<Rightarrow>
             if second_ok b c1 \<and> cont c2 \<and> cont c3
             then ((b - 0xF0) * 262144 + tail6 c1 * 4096 + tail6 c2 * 64 + tail6 c3, 4) else (RuneError, 1)
         | _ \<Rightarrow> (RuneError, 1))
      else (RuneError, 1))"

definition byte_of :: "nat \<Rightarrow> char" where "byte_of n = char_of n"

definition EncodeRune :: "nat \<Rightarrow> string" where
  "EncodeRune r0 =
     (let r = (if 0xD800 \<le> r0 \<and> r0 \<le> 0xDFFF \<or> 0x10FFFF < r0 then RuneError else r0) in
      if r < 0x80 then [byte_of r]
      else if r < 0x800 then [byte_of (0xC0 + r div 64), byte_of (0x80 + r mod 64)]
      else if r < 0x10000 then
        [byte_of (0xE0 + r div 4096), byte_of (0x80 + r div 64 mod 64), byte_of (0x80 + r mod 64)]
      else [byte_of (0xF0 + r div 262144), byte_of (0x80 + r div 4096 mod 64),
            byte_of (0x80 + r div 64 mod 64), byte_of (0x80 + r mod 64)])"

definition IsControl :: "nat \<Rightarrow> bool" where
  "IsControl r = (r \<le> 0x1F \<or> (0x7F \<le> r \<and> r \<le> 0x9F))"

lemma DecodeRune_size: "s \<noteq> [] \<Longrightarrow> 1 \<le> snd (DecodeRune s) \<and> snd (DecodeRune s) \<le> length s"
  by (cases s) (auto simp: Let_def split: list.splits)

text \<open>The walk of \<open>for range\<close> over a string: rune and bytes, piece by piece.\<close>

function pieces :: "string \<Rightarrow> (nat \<times> string) list" where
  "pieces s = (if s = [] then [] else (fst (DecodeRune s), take (snd (DecodeRune s)) s) # pieces (drop (snd (DecodeRune s)) s))"
  by pat_completeness auto
termination
proof (relation "measure length", simp)
  fix s :: string assume "s \<noteq> []"
  then show "(drop (snd (DecodeRune s)) s, s) \<in> measure length"
    using DecodeRune_size [of s] by auto
qed

declare pieces.simps [simp del]

lemma pieces_Nil [simp]: "pieces [] = []"
  by (subst pieces.simps) simp

definition invalid_piece :: "nat \<times> string \<Rightarrow> bool" where
  "invalid_piece p = (fst p = RuneError \<and> length (snd p) = 1)"

definition ValidString :: "string \<Rightarrow> bool" where
  "ValidString s = list_all (\<lambda>p. \<not> invalid_piece p) (pieces s)"

section \<open>Pieces are self-delimiting\<close>

definition delimited :: "nat \<times> string \<Rightarrow> bool" where
  "delimited p \<longleftrightarrow> snd p \<noteq> [] \<and> (\<forall>rest. DecodeRune (snd p @ rest) = (fst p, length (snd p)))"

lemma pieces_step: "delimited p \<Longrightarrow> pieces (snd p @ rest) = p # pieces rest"
  by (subst pieces.simps) (auto simp: delimited_def)

lemma pieces_concat: "list_all delimited ps \<Longrightarrow> pieces (concat (map snd ps)) = ps"
  by (induction ps) (auto simp: pieces_step)

text \<open>A piece that is not an invalid byte decodes to the same rune whatever follows it.\<close>

lemma DecodeRune_take:
  assumes "DecodeRune s = (r, n)" "s \<noteq> []" "\<not> (r = RuneError \<and> n = 1)"
  shows "DecodeRune (take n s @ rest) = (r, n)"
proof (cases s)
  case (Cons c cs)
  then show ?thesis using assms
    by (auto simp: Let_def split: if_splits list.splits)
qed (use assms in simp)

lemma piece_delimited:
  assumes "p \<in> set (pieces s)" "\<not> invalid_piece p"
  shows "delimited p"
  using assms
proof (induction s rule: pieces.induct)
  case (1 s)
  show ?case
  proof (cases "s = []")
    case False
    obtain r n where d: "DecodeRune s = (r, n)" by fastforce
    have n: "1 \<le> n" "n \<le> length s" using DecodeRune_size [OF False] d by auto
    have "p = (r, take n s) \<or> p \<in> set (pieces (drop n s))"
      using "1.prems"(1) False d by (subst (asm) pieces.simps) auto
    then show ?thesis
    proof
      assume p: "p = (r, take n s)"
      then have "\<not> (r = RuneError \<and> n = 1)" using "1.prems"(2) n by (auto simp: invalid_piece_def)
      then show ?thesis using p n False DecodeRune_take [OF d False] by (auto simp: delimited_def)
    next
      assume "p \<in> set (pieces (drop n s))"
      then show ?thesis using "1.IH" [OF False] "1.prems"(2) d by simp
    qed
  qed (use "1.prems" in simp)
qed

lemma concat_pieces: "concat (map snd (pieces s)) = s"
proof (induction s rule: pieces.induct)
  case (1 s)
  then show ?case by (cases "s = []") (simp, subst pieces.simps, simp)
qed

lemma high_byte_delimited: "0xF5 \<le> byte c \<Longrightarrow> delimited (RuneError, [c])"
  by (auto simp: delimited_def Let_def)

lemma ascii_delimited: "byte c < 0x80 \<Longrightarrow> delimited (byte c, [c])"
  by (auto simp: delimited_def Let_def)

section \<open>Encoding and decoding\<close>

definition valid_rune :: "nat \<Rightarrow> bool" where
  "valid_rune r \<longleftrightarrow> r \<le> 0x10FFFF \<and> \<not> (0xD800 \<le> r \<and> r \<le> 0xDFFF)"

lemma byte_byte_of [simp]: "n < 256 \<Longrightarrow> byte (byte_of n) = n"
  by (simp add: byte_of_def)

lemma tail_byte: "n < 64 \<Longrightarrow> cont (byte_of (0x80 + n)) \<and> tail6 (byte_of (0x80 + n)) = n"
  by (simp add: cont_def tail6_def)

lemma decode2:
  assumes "2 \<le> a" "a < 32" "b < 64"
  shows "DecodeRune (byte_of (0xC0 + a) # byte_of (0x80 + b) # rest) = (a * 64 + b, 2)"
  using assms tail_byte [of b] by (simp add: Let_def)

lemma decode3:
  assumes "a < 16" "b < 64" "c < 64" "a = 0 \<longrightarrow> 32 \<le> b" "a = 13 \<longrightarrow> b < 32"
  shows "DecodeRune (byte_of (0xE0 + a) # byte_of (0x80 + b) # byte_of (0x80 + c) # rest) = (a * 4096 + b * 64 + c, 3)"
  using assms tail_byte [of b] tail_byte [of c] by (auto simp: Let_def second_ok_def cont_def)

lemma decode4:
  assumes "a < 5" "b < 64" "c < 64" "d < 64" "a = 0 \<longrightarrow> 16 \<le> b" "a = 4 \<longrightarrow> b < 16"
  shows "DecodeRune (byte_of (0xF0 + a) # byte_of (0x80 + b) # byte_of (0x80 + c) # byte_of (0x80 + d) # rest) =
    (a * 262144 + b * 4096 + c * 64 + d, 4)"
  using assms tail_byte [of b] tail_byte [of c] tail_byte [of d] by (auto simp: Let_def second_ok_def cont_def)

lemma join3: "A = B * 64 + x \<Longrightarrow> A * 64 + m = r \<Longrightarrow> B * 4096 + x * 64 + m = (r :: nat)"
  by simp

lemma join4: "A = B * 64 + x \<Longrightarrow> B = C * 64 + y \<Longrightarrow> A * 64 + m = r \<Longrightarrow> C * 262144 + y * 4096 + x * 64 + m = (r :: nat)"
  by simp

lemma decode_encode:
  assumes "valid_rune r"
  shows "DecodeRune (EncodeRune r @ rest) = (r, length (EncodeRune r)) \<and> EncodeRune r \<noteq> []"
proof -
  have v: "\<not> (0xD800 \<le> r \<and> r \<le> 0xDFFF \<or> 0x10FFFF < r)" "r \<le> 0x10FFFF" using assms by (auto simp: valid_rune_def)
  note E = EncodeRune_def [of r, unfolded if_not_P [OF v(1)] Let_def]
  consider "r < 0x80" | "0x80 \<le> r" "r < 0x800" | "0x800 \<le> r" "r < 0x10000" | "0x10000 \<le> r" by linarith
  then show ?thesis
  proof cases
    case 1
    then show ?thesis by (simp add: E Let_def)
  next
    case 2
    then have "DecodeRune (byte_of (0xC0 + r div 64) # byte_of (0x80 + r mod 64) # rest) = (r div 64 * 64 + r mod 64, 2)"
      by (intro decode2) auto
    then show ?thesis using 2 by (simp add: E del: DecodeRune.simps)
  next
    case 3
    have e: "r div 64 = r div 4096 * 64 + r div 64 mod 64" using div_mult_mod_eq [of "r div 64" 64] by (simp add: div_mult2_eq [symmetric])
    have "r div 4096 = 0 \<longrightarrow> 32 \<le> r div 64 mod 64" "r div 4096 = 13 \<longrightarrow> r div 64 mod 64 < 32"
      using 3 v(1) e by auto
    then have "DecodeRune (byte_of (0xE0 + r div 4096) # byte_of (0x80 + r div 64 mod 64) # byte_of (0x80 + r mod 64) # rest) =
        (r div 4096 * 4096 + r div 64 mod 64 * 64 + r mod 64, 3)"
      using 3 by (intro decode3) auto
    moreover have "r div 4096 * 4096 + r div 64 mod 64 * 64 + r mod 64 = r" by (rule join3 [OF e]) simp
    ultimately show ?thesis using 3 by (simp add: E del: DecodeRune.simps)
  next
    case 4
    have e: "r div 64 = r div 4096 * 64 + r div 64 mod 64" using div_mult_mod_eq [of "r div 64" 64] by (simp add: div_mult2_eq [symmetric])
    have f: "r div 4096 = r div 262144 * 64 + r div 4096 mod 64" using div_mult_mod_eq [of "r div 4096" 64] by (simp add: div_mult2_eq [symmetric])
    have "r div 262144 = 0 \<longrightarrow> 16 \<le> r div 4096 mod 64" "r div 262144 = 4 \<longrightarrow> r div 4096 mod 64 < 16"
      using 4 v(2) f by auto
    then have "DecodeRune (byte_of (0xF0 + r div 262144) # byte_of (0x80 + r div 4096 mod 64) # byte_of (0x80 + r div 64 mod 64) # byte_of (0x80 + r mod 64) # rest) =
        (r div 262144 * 262144 + r div 4096 mod 64 * 4096 + r div 64 mod 64 * 64 + r mod 64, 4)"
      using 4 v(2) by (intro decode4) auto
    moreover have "r div 262144 * 262144 + r div 4096 mod 64 * 4096 + r div 64 mod 64 * 64 + r mod 64 = r"
      by (rule join4 [OF e f]) simp
    ultimately show ?thesis using 4 by (simp add: E del: DecodeRune.simps)
  qed
qed

lemma encoded_delimited: "valid_rune r \<Longrightarrow> delimited (r, EncodeRune r)"
  using decode_encode by (simp add: delimited_def)

text \<open>What decoding returns is always a rune that can be encoded.\<close>

lemma valid2: "b \<le> 0xDF \<Longrightarrow> x < 64 \<Longrightarrow> valid_rune ((b - 0xC0) * 64 + x)"
  by (auto simp: valid_rune_def)

lemma valid3:
  assumes "0xE0 \<le> b" "b \<le> 0xEF" "x < 64" "y < 64" "b = 0xED \<longrightarrow> x < 32"
  shows "valid_rune ((b - 0xE0) * 4096 + x * 64 + y)"
proof -
  consider "b < 0xED" | "b = 0xED" | "0xED < b" by linarith
  then show ?thesis using assms by cases (auto simp: valid_rune_def)
qed

lemma valid4:
  assumes "0xF0 \<le> b" "b \<le> 0xF4" "x < 64" "y < 64" "z < 64" "b = 0xF4 \<longrightarrow> x < 16" "b = 0xF0 \<longrightarrow> 16 \<le> x"
  shows "valid_rune ((b - 0xF0) * 262144 + x * 4096 + y * 64 + z)"
proof -
  consider "b = 0xF0" | "0xF0 < b" "b < 0xF4" | "b = 0xF4" using assms by linarith
  then show ?thesis using assms by cases (auto simp: valid_rune_def)
qed

lemma tail6_less: "cont c \<Longrightarrow> tail6 c < 64" "second_ok b c \<Longrightarrow> tail6 c < 64"
  by (auto simp: cont_def tail6_def second_ok_def split: if_splits)

lemma second_tail:
  "second_ok 0xED c \<Longrightarrow> tail6 c < 32" "second_ok 0xF4 c \<Longrightarrow> tail6 c < 16" "second_ok 0xF0 c \<Longrightarrow> 16 \<le> tail6 c"
  by (auto simp: tail6_def second_ok_def)

lemma decoded_valid: "valid_rune (fst (DecodeRune s))"
proof (cases s)
  case (Cons c cs)
  have "valid_rune RuneError" "\<And>r. r < 0x80 \<Longrightarrow> valid_rune r" by (simp_all add: valid_rune_def RuneError_def)
  then show ?thesis unfolding Cons
    by (auto simp: Let_def tail6_less second_tail intro!: valid2 valid3 valid4 split: list.splits)
qed (simp add: valid_rune_def RuneError_def)

lemma pieces_valid: "p \<in> set (pieces s) \<Longrightarrow> valid_rune (fst p)"
proof (induction s rule: pieces.induct)
  case (1 s)
  then show ?case by (cases "s = []") (auto simp: pieces.simps [of s] decoded_valid)
qed

end
