(* ===== verification/Color_Markup.thy ===== *)
theory Color_Markup
  imports Prelude
begin

text \<open>
  The colour markup of \<open>internal/colormarkup/colormarkup.go\<close>: the vocabulary, the token scanner and
  \<open>Render\<close>. The code normalises a token name with \<open>strings.ToUpper(strings.TrimSpace(name))\<close>; that
  function is the argument \<open>norm\<close> (its full Unicode tables do not matter here: the theorems hold for
  every \<open>norm\<close>), and \<open>ascii_norm\<close> is what it does to ASCII.
\<close>

definition ESC :: char where "ESC = CHR 0x1B"

definition sgrTokens :: "(string \<times> string) list" where
  "sgrTokens =
     [(''RESET'', ''0''),
      (''BOLD'', ''1''), (''DIM'', ''2''), (''ITALIC'', ''3''), (''UNDERLINE'', ''4''), (''BLINK'', ''5''),
      (''REVERSE'', ''7''), (''STRIKE'', ''9''),
      (''FG_BLACK'', ''30''), (''FG_RED'', ''31''), (''FG_GREEN'', ''32''), (''FG_YELLOW'', ''33''),
      (''FG_BLUE'', ''34''), (''FG_MAGENTA'', ''35''), (''FG_CYAN'', ''36''), (''FG_WHITE'', ''37''),
      (''FG_BRIGHT_BLACK'', ''90''), (''FG_BRIGHT_RED'', ''91''), (''FG_BRIGHT_GREEN'', ''92''),
      (''FG_BRIGHT_YELLOW'', ''93''), (''FG_BRIGHT_BLUE'', ''94''), (''FG_BRIGHT_MAGENTA'', ''95''),
      (''FG_BRIGHT_CYAN'', ''96''), (''FG_BRIGHT_WHITE'', ''97''),
      (''BG_BLACK'', ''40''), (''BG_RED'', ''41''), (''BG_GREEN'', ''42''), (''BG_YELLOW'', ''43''),
      (''BG_BLUE'', ''44''), (''BG_MAGENTA'', ''45''), (''BG_CYAN'', ''46''), (''BG_WHITE'', ''47''),
      (''BG_BRIGHT_BLACK'', ''100''), (''BG_BRIGHT_RED'', ''101''), (''BG_BRIGHT_GREEN'', ''102''),
      (''BG_BRIGHT_YELLOW'', ''103''), (''BG_BRIGHT_BLUE'', ''104''), (''BG_BRIGHT_MAGENTA'', ''105''),
      (''BG_BRIGHT_CYAN'', ''106''), (''BG_BRIGHT_WHITE'', ''107'')]"

definition sgrParam :: "(string \<Rightarrow> string) \<Rightarrow> string \<Rightarrow> string option" where
  "sgrParam norm name = map_of sgrTokens (norm name)"

definition is_space :: "char \<Rightarrow> bool" where
  "is_space c = (c \<in> {CHR 0x09, CHR 0x0A, CHR 0x0B, CHR 0x0C, CHR 0x0D, CHR '' ''})"

definition ascii_upper :: "char \<Rightarrow> char" where
  "ascii_upper c = (if CHR ''a'' \<le> c \<and> c \<le> CHR ''z'' then char_of (of_char c - 32 :: nat) else c)"

definition ascii_norm :: "string \<Rightarrow> string" where
  "ascii_norm s = map ascii_upper (rev (dropWhile is_space (rev (dropWhile is_space s))))"

definition sgrReset :: string where "sgrReset = [ESC, CHR ''['', CHR ''0'', CHR ''m'']"

definition tokenScanWindow :: nat where "tokenScanWindow = 32"

fun opens :: "string \<Rightarrow> bool" where
  "opens (a # b # _) = (a = CHR ''{'' \<and> b = CHR ''{'')"
| "opens _ = False"

text \<open>\<open>strings.Index(s, "}}")\<close>, and \<open>strings.Contains(s, "{{")\<close>.\<close>

fun index_close :: "string \<Rightarrow> nat option" where
  "index_close (a # b # cs) =
     (if a = CHR ''}'' \<and> b = CHR ''}'' then Some 0 else map_option Suc (index_close (b # cs)))"
| "index_close _ = None"

fun contains_open :: "string \<Rightarrow> bool" where
  "contains_open [] = False"
| "contains_open (a # cs) = (opens (a # cs) \<or> contains_open cs)"

text \<open>\<open>ScanTokenRun\<close> on the rest of the string: the parameters of the run and what follows it.\<close>

function ScanTokenRun :: "(string \<Rightarrow> string) \<Rightarrow> string \<Rightarrow> string list \<times> string" where
  "ScanTokenRun norm s =
     (if \<not> opens s then ([], s)
      else case index_close (take (2 + tokenScanWindow + 2) s) of
             None \<Rightarrow> ([], s)
           | Some e \<Rightarrow>
               (case sgrParam norm (take (e - 2) (drop 2 s)) of
                  None \<Rightarrow> ([], s)
                | Some p \<Rightarrow> (case ScanTokenRun norm (drop (e + 2) s) of (ps, rest) \<Rightarrow> (p # ps, rest))))"
  by pat_completeness auto
termination
proof (relation "measure (\<lambda>(_, s). length s)", simp)
  fix norm :: "string \<Rightarrow> string" and s e p
  assume "\<not> \<not> opens s"
  then have "length s > 0" by (cases s rule: opens.cases) auto
  then show "((norm, drop (e + 2) s), (norm, s)) \<in> measure (\<lambda>(_, s). length s)" by simp
qed

declare ScanTokenRun.simps [simp del]

fun join_params :: "string list \<Rightarrow> string" where
  "join_params [] = ''''"
| "join_params [p] = p"
| "join_params (p # ps) = p @ CHR '';'' # join_params ps"

definition sgr :: "string list \<Rightarrow> string" where
  "sgr ps = [ESC, CHR ''[''] @ join_params ps @ ''m''"

lemma opens_length: "opens s \<Longrightarrow> 2 \<le> length s"
  by (cases s rule: opens.cases) auto

lemma scan_cases:
  obtains (none) "ScanTokenRun norm s = ([], s)"
  | (token) e p where "opens s" "p \<in> snd ` set sgrTokens"
      "ScanTokenRun norm s = (p # fst (ScanTokenRun norm (drop (e + 2) s)), snd (ScanTokenRun norm (drop (e + 2) s)))"
proof (cases "opens s \<and> (\<exists>e p. index_close (take (2 + tokenScanWindow + 2) s) = Some e \<and> sgrParam norm (take (e - 2) (drop 2 s)) = Some p)")
  case True
  then obtain e p where e: "index_close (take (2 + tokenScanWindow + 2) s) = Some e"
    "sgrParam norm (take (e - 2) (drop 2 s)) = Some p" "opens s" by blast
  have "p \<in> snd ` set sgrTokens" using e(2) by (auto simp: sgrParam_def dest!: map_of_SomeD intro: rev_image_eqI)
  then show thesis using e by (intro token [of p e]) (simp_all add: ScanTokenRun.simps [of norm s] split: prod.splits)
next
  case False
  then show thesis by (intro none) (auto simp: ScanTokenRun.simps [of norm s] split: option.splits)
qed

lemma scan_length: "length (snd (ScanTokenRun norm s)) \<le> length s"
proof (induction "length s" arbitrary: s rule: less_induct)
  case less
  show ?case
  proof (cases rule: scan_cases [of norm s])
    case (token e p)
    then have "length (drop (e + 2) s) < length s" using opens_length [of s] by simp
    from less [OF this] show ?thesis using token(3) by simp
  qed simp
qed

lemma ScanTokenRun_shorter: "fst (ScanTokenRun norm s) \<noteq> [] \<Longrightarrow> length (snd (ScanTokenRun norm s)) < length s"
proof (cases rule: scan_cases [of norm s])
  case (token e p)
  then show ?thesis using scan_length [of norm "drop (e + 2) s"] opens_length [of s] by simp
qed simp

text \<open>The loop of \<open>Render\<close>: the output and whether a colour was emitted.\<close>

function render_from :: "(string \<Rightarrow> string) \<Rightarrow> bool \<Rightarrow> string \<Rightarrow> string \<times> bool" where
  "render_from norm enabled s =
     (if s = [] then ([], False)
      else if opens s then
        (if fst (ScanTokenRun norm s) \<noteq> [] then
           (case render_from norm enabled (snd (ScanTokenRun norm s)) of (out, em) \<Rightarrow>
              if enabled then (sgr (fst (ScanTokenRun norm s)) @ out, True) else (out, em))
         else (case render_from norm enabled (drop 2 s) of (out, em) \<Rightarrow> (''{{'' @ out, em)))
      else (case render_from norm enabled (tl s) of (out, em) \<Rightarrow> (hd s # out, em)))"
  by pat_completeness auto
termination
  by (relation "measure (\<lambda>(_, _, s). length s)") (auto intro: ScanTokenRun_shorter)

declare render_from.simps [simp del]

definition Render :: "(string \<Rightarrow> string) \<Rightarrow> string \<Rightarrow> bool \<Rightarrow> string" where
  "Render norm s enabled =
     (if \<not> contains_open s then s
      else case render_from norm enabled s of
             (out, emitted) \<Rightarrow>
               if emitted \<and> drop (length out - length sgrReset) out \<noteq> sgrReset then out @ sgrReset else out)"

definition Strip :: "(string \<Rightarrow> string) \<Rightarrow> string \<Rightarrow> string" where
  "Strip norm s = Render norm s False"

section \<open>What reaches a terminal\<close>

text \<open>
  A recogniser for text whose only escape sequences are \<open>ESC [ params m\<close> with digits and semicolons,
  and the visible text once those sequences are taken out.
\<close>

datatype ansi = In_Text | After_Esc | In_Params

definition param_char :: "char \<Rightarrow> bool" where
  "param_char c = (c \<in> set ''0123456789;'')"

fun ansi_run :: "ansi \<Rightarrow> string \<Rightarrow> ansi option" where
  "ansi_run st [] = Some st"
| "ansi_run In_Text (c # cs) = ansi_run (if c = ESC then After_Esc else In_Text) cs"
| "ansi_run After_Esc (c # cs) = (if c = CHR ''['' then ansi_run In_Params cs else None)"
| "ansi_run In_Params (c # cs) =
     (if c = CHR ''m'' then ansi_run In_Text cs else if param_char c then ansi_run In_Params cs else None)"

definition only_sgr :: "string \<Rightarrow> bool" where "only_sgr s \<longleftrightarrow> ansi_run In_Text s = Some In_Text"

fun visible_text :: "ansi \<Rightarrow> string \<Rightarrow> string" where
  "visible_text st [] = []"
| "visible_text In_Text (c # cs) = (if c = ESC then visible_text After_Esc cs else c # visible_text In_Text cs)"
| "visible_text After_Esc (c # cs) = visible_text In_Params cs"
| "visible_text In_Params (c # cs) = visible_text (if c = CHR ''m'' then In_Text else In_Params) cs"

lemma run_params: "list_all param_char ps \<Longrightarrow> ansi_run In_Params (ps @ CHR ''m'' # rest) = ansi_run In_Text rest"
  by (induction ps) (auto simp: param_char_def)

lemma visible_params: "list_all param_char ps \<Longrightarrow> visible_text In_Params (ps @ CHR ''m'' # rest) = visible_text In_Text rest"
  by (induction ps) (auto simp: param_char_def)

lemma token_params: "p \<in> snd ` set sgrTokens \<Longrightarrow> list_all param_char p"
  by (auto simp: sgrTokens_def param_char_def)

lemma join_params_chars: "list_all (list_all param_char) ps \<Longrightarrow> list_all param_char (join_params ps)"
  by (induction ps rule: join_params.induct) (auto simp: param_char_def)

lemma scan_params: "list_all (list_all param_char) (fst (ScanTokenRun norm s))"
proof (induction "length s" arbitrary: s rule: less_induct)
  case less
  show ?case
  proof (cases rule: scan_cases [of norm s])
    case (token e p)
    then show ?thesis using less [of "drop (e + 2) s"] opens_length [of s] token_params by simp
  qed simp
qed

lemma scan_rest: "set (snd (ScanTokenRun norm s)) \<subseteq> set s"
proof (induction "length s" arbitrary: s rule: less_induct)
  case less
  show ?case
  proof (cases rule: scan_cases [of norm s])
    case (token e p)
    then have "set (snd (ScanTokenRun norm s)) \<subseteq> set (drop (e + 2) s)"
      using less [of "drop (e + 2) s"] opens_length [of s] by simp
    then show ?thesis using set_drop_subset by fast
  qed simp
qed

lemma sgr_run:
  assumes "list_all (list_all param_char) ps"
  shows "ansi_run In_Text (sgr ps @ rest) = ansi_run In_Text rest" "visible_text In_Text (sgr ps @ rest) = visible_text In_Text rest"
  using run_params [OF join_params_chars [OF assms]] visible_params [OF join_params_chars [OF assms]]
  by (simp_all add: sgr_def ESC_def)

lemma plain_text: "ESC \<notin> set s \<Longrightarrow> ansi_run In_Text (s @ r) = ansi_run In_Text r \<and> visible_text In_Text (s @ r) = s @ visible_text In_Text r"
  by (induction s) auto

lemma brace_not_ESC: "CHR ''{'' \<noteq> ESC"
  by (simp add: ESC_def)

lemma render_from_ok:
  assumes "ESC \<notin> set s"
  shows "ansi_run In_Text (fst (render_from norm enabled s)) = Some In_Text \<and>
         visible_text In_Text (fst (render_from norm enabled s)) = fst (render_from norm False s) \<and>
         ESC \<notin> set (fst (render_from norm False s)) \<and> \<not> snd (render_from norm False s)"
  using assms
proof (induction norm enabled s rule: render_from.induct)
  case (1 norm enabled s)
  show ?case
  proof (cases "s = [] \<or> opens s")
    case False
    then obtain c cs where s: "s = c # cs" "\<not> opens s" by (cases s) auto
    then show ?thesis using 1 by (subst (1 2 3 4 5) render_from.simps) (auto split: prod.splits)
  next
    case True
    show ?thesis
    proof (cases "s = []")
      case False
      then have o: "opens s" using True by simp
      show ?thesis
      proof (cases "fst (ScanTokenRun norm s) = []")
        case True
        then have r: "render_from norm b s = (''{{'' @ fst (render_from norm b (drop 2 s)), snd (render_from norm b (drop 2 s)))" for b
          using o False by (subst render_from.simps) (simp split: prod.splits)
        have "ESC \<notin> set (drop 2 s)" using "1.prems" by (meson in_set_dropD)
        then show ?thesis using "1.IH"(2) [OF False o _] True unfolding r [of enabled] r [of False] by (auto simp: ESC_def)
      next
        case ne: False
        have "ESC \<notin> set (snd (ScanTokenRun norm s))" using scan_rest "1.prems" by fast
        note IH = "1.IH"(1) [OF False o ne this]
        have r: "fst (render_from norm b s) = (if b then sgr (fst (ScanTokenRun norm s)) else []) @ fst (render_from norm b (snd (ScanTokenRun norm s)))"
          "snd (render_from norm False s) = snd (render_from norm False (snd (ScanTokenRun norm s)))" for b
          using o False ne by (subst render_from.simps, simp split: prod.splits)+
        show ?thesis using IH sgr_run [OF scan_params, of norm s] unfolding r by (cases enabled) auto
      qed
    qed (simp add: render_from.simps)
  qed
qed

lemma render_not_emitted: "\<not> snd (render_from norm True s) \<Longrightarrow> fst (render_from norm True s) = fst (render_from norm False s)"
proof (induction "length s" arbitrary: s rule: less_induct)
  case less
  consider "s = []" | "s \<noteq> []" "\<not> opens s" | "opens s" "fst (ScanTokenRun norm s) = []" | "opens s" "fst (ScanTokenRun norm s) \<noteq> []"
    by (cases s) auto
  then show ?case
  proof cases
    case 1
    then show ?thesis by (simp add: render_from.simps)
  next
    case 2
    then show ?thesis using less.hyps [of "tl s"] less.prems
      by (simp add: render_from.simps [of norm _ s] case_prod_beta)
  next
    case 3
    then have "length (drop 2 s) < length s" "s \<noteq> []" using opens_length [of s] by auto
    then show ?thesis using less.hyps [of "drop 2 s"] less.prems 3
      by (simp add: render_from.simps [of norm _ s] case_prod_beta)
  next
    case 4
    then have "s \<noteq> []" by auto
    then show ?thesis using less.prems 4 by (simp add: render_from.simps [of norm _ s] case_prod_beta)
  qed
qed

lemma reset_tail: "ansi_run In_Text sgrReset = Some In_Text" "visible_text In_Text sgrReset = []"
  by (simp_all add: sgrReset_def ESC_def param_char_def)

lemma ansi_run_append: "ansi_run st s = Some st' \<Longrightarrow> ansi_run st (s @ r) = ansi_run st' r"
  by (induction st s rule: ansi_run.induct) (auto split: if_splits)

lemma visible_append: "ansi_run st s = Some st' \<Longrightarrow> visible_text st (s @ r) = visible_text st s @ visible_text st' r"
  by (induction st s rule: ansi_run.induct) (auto split: if_splits)

section \<open>Properties\<close>

lemma render_only_color:
  assumes "ESC \<notin> set s"
  shows "only_sgr (Render norm s enabled) \<and> ESC \<notin> set (Strip norm s) \<and>
         visible_text In_Text (Render norm s True) = Strip norm s \<and>
         (ESC \<in> set (Render norm s True) \<longrightarrow> (\<exists>pre. Render norm s True = pre @ sgrReset))"
proof (cases "contains_open s")
  case False
  then show ?thesis using plain_text [of s "[]"] assms by (simp add: Render_def Strip_def only_sgr_def)
next
  case True
  define out em where "out = fst (render_from norm True s)" "em = snd (render_from norm True s)"
  note t = render_from_ok [OF assms, of norm True, folded out_em_def(1)] and f = render_from_ok [OF assms, of norm False]
  have F: "Render norm s False = fst (render_from norm False s)"
    using True f by (simp add: Render_def case_prod_beta)
  have T: "Render norm s True = (if em \<and> drop (length out - length sgrReset) out \<noteq> sgrReset then out @ sgrReset else out)"
    using True by (simp add: Render_def out_em_def case_prod_beta)
  have ok: "ansi_run In_Text (Render norm s True) = Some In_Text \<and> visible_text In_Text (Render norm s True) = Render norm s False"
    using t reset_tail ansi_run_append [of In_Text out] visible_append [of In_Text out] by (auto simp: T F)
  have "\<exists>pre. Render norm s True = pre @ sgrReset" if "ESC \<in> set (Render norm s True)"
  proof (cases em)
    case True
    then show ?thesis unfolding T by (metis append_take_drop_id)
  next
    case False
    then have "out = fst (render_from norm False s)" using render_not_emitted by (simp add: out_em_def)
    then show ?thesis using that f False by (simp add: T)
  qed
  then show ?thesis using ok f F by (cases enabled) (auto simp: only_sgr_def Strip_def)
qed

text \<open>
  A colour token can produce colour and nothing else: for text without escape characters, whatever
  tokens it holds, the only escape sequences of the rendered text are SGR sequences; if there is
  one the text ends with a reset; and a client without colour sees exactly what is visible of the
  coloured text.
\<close>

lemma color_is_only_color:
  assumes "ESC \<notin> set s"
  shows "only_sgr (Render norm s enabled) \<and> ESC \<notin> set (Strip norm s) \<and>
         visible_text In_Text (Render norm s True) = Strip norm s \<and>
         (ESC \<in> set (Render norm s True) \<longrightarrow> (\<exists>pre. Render norm s True = pre @ sgrReset))"
  using render_only_color [OF assms] .

end
