(* ===== verification/Telnet.thy ===== *)
theory Telnet
  imports Utf8 Color_Markup
begin

text \<open>
  The telnet codec of \<open>internal/telnet\<close> (\<open>telnet.go\<close>, \<open>gmcp.go\<close>, \<open>color.go\<close>): the line reader with its option
  negotiation, the GMCP subnegotiation in both directions, and the sanitising writer.

  A connection's input is the list of bytes still to come and the error the read after them returns;
  what the codec writes is the list of frames given to \<open>writeRaw\<close> (each is one atomic write; deadlines and
  write errors are the socket's and not modelled). The GMCP sink is the list of delivered messages.
\<close>

section \<open>Constants and the connection\<close>

definition IAC :: char where "IAC = CHR 0xFF"
definition DONT :: char where "DONT = CHR 0xFE"
definition DO :: char where "DO = CHR 0xFD"
definition WONT :: char where "WONT = CHR 0xFC"
definition WILL :: char where "WILL = CHR 0xFB"
definition SB :: char where "SB = CHR 0xFA"
definition SE :: char where "SE = CHR 0xF0"
definition optGMCP :: char where "optGMCP = CHR 0xC9"
definition LF :: char where "LF = CHR 0x0A"
definition CR :: char where "CR = CHR 0x0D"
definition NUL :: char where "NUL = CHR 0x00"

definition MaxLineBytes :: nat where "MaxLineBytes = 4096"
definition maxGMCPInBytes :: nat where "maxGMCPInBytes = 8192"
definition maxGMCPPayload :: nat where "maxGMCPPayload = 1048576"

lemmas telnet_bytes = IAC_def DONT_def DO_def WONT_def WILL_def SB_def SE_def optGMCP_def LF_def CR_def NUL_def

datatype read_error = EOF | Read_Failed

record conn =
  inp :: string
  inp_end :: read_error
  out :: "string list"
  gmcpOn :: bool
  onGmcp :: bool
  delivered :: "(string \<times> string) list"
  colorEnabled :: bool

definition New :: "string \<Rightarrow> read_error \<Rightarrow> conn" where
  "New bytes e = \<lparr>inp = bytes, inp_end = e, out = [], gmcpOn = False, onGmcp = False, delivered = [], colorEnabled = True\<rparr>"

definition SetColor :: "bool \<Rightarrow> conn \<Rightarrow> conn" where "SetColor on c = c\<lparr>colorEnabled := on\<rparr>"

definition SetGMCPHandler :: "conn \<Rightarrow> conn" where "SetGMCPHandler c = c\<lparr>onGmcp := True\<rparr>"

definition writeRaw :: "string \<Rightarrow> conn \<Rightarrow> conn" where "writeRaw b c = c\<lparr>out := out c @ [b]\<rparr>"

section \<open>Output\<close>

definition isStrongBidiOverride :: "nat \<Rightarrow> bool" where
  "isStrongBidiOverride r = (0x202A \<le> r \<and> r \<le> 0x202E)"

definition out_bad :: "nat \<Rightarrow> bool" where
  "out_bad r = ((r \<noteq> 0x0D \<and> r \<noteq> 0x0A \<and> IsControl r) \<or> isStrongBidiOverride r)"

definition sanitizeOutput :: "string \<Rightarrow> string" where
  "sanitizeOutput s =
     (if ValidString s \<and> list_all (\<lambda>p. \<not> out_bad (fst p)) (pieces s) then s
      else concat (map (\<lambda>p.
             if invalid_piece p then (if snd p = [IAC] then snd p else [])
             else if out_bad (fst p) then [] else snd p) (pieces s)))"

text \<open>\<open>ReplaceAll\<close> of a literal 0xFF by two.\<close>

fun escapeIAC :: "string \<Rightarrow> string" where
  "escapeIAC [] = []"
| "escapeIAC (b # bs) = (if b = IAC then IAC # IAC # escapeIAC bs else b # escapeIAC bs)"

definition Write :: "(string \<Rightarrow> string) \<Rightarrow> string \<Rightarrow> conn \<Rightarrow> conn" where
  "Write norm s c = writeRaw (escapeIAC (Render norm (sanitizeOutput s) (colorEnabled c))) c"

definition WriteScreen :: "string \<Rightarrow> conn \<Rightarrow> conn" where
  "WriteScreen b c = writeRaw (escapeIAC b) c"

definition OfferGMCP :: "conn \<Rightarrow> conn" where
  "OfferGMCP c = writeRaw [IAC, WILL, optGMCP] c"

definition gmcp_frame :: "string \<Rightarrow> string \<Rightarrow> string" where
  "gmcp_frame pkg json =
     [IAC, SB, optGMCP] @ escapeIAC (pkg @ (if json \<noteq> [] then CHR '' '' # json else [])) @ [IAC, SE]"

definition WriteGMCP :: "string \<Rightarrow> string \<Rightarrow> conn \<Rightarrow> conn" where
  "WriteGMCP pkg json c =
     (if \<not> gmcpOn c then c
      else if length pkg > maxGMCPPayload \<or> int (length json) > int maxGMCPPayload - 1 - int (length pkg) then c
      else writeRaw (gmcp_frame pkg json) c)"

section \<open>Input\<close>

definition refuse :: "char \<Rightarrow> char \<Rightarrow> conn \<Rightarrow> conn" where
  "refuse cmd opt c =
     (if cmd = DO then writeRaw [IAC, WONT, opt] c
      else if cmd = WILL then writeRaw [IAC, DONT, opt] c
      else c)"

text \<open>A subnegotiation body up to its \<open>IAC SE\<close>: what follows it, \<open>None\<close> when the input ends first.\<close>

fun skip_body :: "string \<Rightarrow> string option" where
  "skip_body [] = None"
| "skip_body [b] = None"
| "skip_body (b # b2 # bs) =
     (if b = IAC then (if b2 = SE then Some bs else skip_body bs) else skip_body (b2 # bs))"

definition skipSubneg :: "conn \<Rightarrow> read_error option \<times> conn" where
  "skipSubneg c =
     (case skip_body (inp c) of
        None \<Rightarrow> (Some (inp_end c), c\<lparr>inp := []\<rparr>)
      | Some rest \<Rightarrow> (None, c\<lparr>inp := rest\<rparr>))"

fun gmcp_body :: "string \<Rightarrow> bool \<Rightarrow> string \<Rightarrow> (string \<times> bool \<times> string) option" where
  "gmcp_body buf over [] = None"
| "gmcp_body buf over [b] = None"
| "gmcp_body buf over (b # b2 # bs) =
     (if b = IAC then
        (if b2 = SE then Some (buf, over, bs)
         else if b2 = IAC then gmcp_body (if over then buf else buf @ [IAC]) over bs
         else gmcp_body buf over bs)
      else if length buf \<ge> maxGMCPInBytes then gmcp_body buf True (b2 # bs)
      else gmcp_body (buf @ [b]) over (b2 # bs))"

definition dispatchGMCP :: "string \<Rightarrow> bool \<Rightarrow> conn \<Rightarrow> conn" where
  "dispatchGMCP buf over c =
     (if over \<or> \<not> onGmcp c \<or> buf = [] then c
      else let pkg = takeWhile (\<lambda>b. b \<noteq> CHR '' '') buf;
               json = drop (length pkg + 1) buf
           in if pkg = [] then c else c\<lparr>delivered := delivered c @ [(pkg, json)]\<rparr>)"

definition readGMCPSubneg :: "conn \<Rightarrow> read_error option \<times> conn" where
  "readGMCPSubneg c =
     (case gmcp_body [] False (inp c) of
        None \<Rightarrow> (Some (inp_end c), c\<lparr>inp := []\<rparr>)
      | Some (buf, over, rest) \<Rightarrow> (None, dispatchGMCP buf over (c\<lparr>inp := rest\<rparr>)))"

text \<open>\<open>handleIAC\<close> after the leading IAC byte: an error if the input ends, the line, the connection.\<close>

definition handleIAC :: "string \<Rightarrow> conn \<Rightarrow> read_error option \<times> string \<times> conn" where
  "handleIAC line c =
     (case inp c of
        [] \<Rightarrow> (Some (inp_end c), line, c)
      | cmd # rest \<Rightarrow>
          if cmd = IAC then (None, line @ [IAC], c\<lparr>inp := rest\<rparr>)
          else if cmd \<in> {DO, DONT, WILL, WONT} then
            (case rest of
               [] \<Rightarrow> (Some (inp_end c), line, c\<lparr>inp := []\<rparr>)
             | opt # rest2 \<Rightarrow>
                 if opt = optGMCP \<and> (cmd = DO \<or> cmd = DONT)
                 then (None, line, c\<lparr>inp := rest2, gmcpOn := (cmd = DO)\<rparr>)
                 else (None, line, refuse cmd opt (c\<lparr>inp := rest2\<rparr>)))
          else if cmd = SB then
            (case rest of
               [] \<Rightarrow> (Some (inp_end c), line, c\<lparr>inp := []\<rparr>)
             | opt # rest2 \<Rightarrow>
                 (case (if opt = optGMCP then readGMCPSubneg (c\<lparr>inp := rest2\<rparr>) else skipSubneg (c\<lparr>inp := rest2\<rparr>)) of
                    (e, c') \<Rightarrow> (e, line, c')))
          else (None, line, c\<lparr>inp := rest\<rparr>))"

definition hasControl :: "string \<Rightarrow> bool" where
  "hasControl line = list_ex (\<lambda>p. fst p \<noteq> RuneError \<and> IsControl (fst p)) (pieces line)"

definition sanitizeLine :: "string \<Rightarrow> string" where
  "sanitizeLine line =
     (if \<not> hasControl line then line
      else concat (map (\<lambda>p. if IsControl (fst p) then [] else EncodeRune (fst p)) (pieces line)))"

definition too_long_notice :: string where
  "too_long_notice = [CR, LF] @ ''[Your input was too long and has been truncated.]'' @ [CR, LF]"

lemma skip_body_shorter: "skip_body s = Some rest \<Longrightarrow> length rest < length s"
  by (induction s rule: skip_body.induct) (auto split: if_splits)

lemma gmcp_body_shorter: "gmcp_body buf over s = Some (b, ov, rest) \<Longrightarrow> length rest < length s"
  by (induction buf over s rule: gmcp_body.induct) (auto split: if_splits)

lemma handleIAC_input: "length (inp (snd (snd (handleIAC line c)))) \<le> length (inp c)"
  by (auto simp: handleIAC_def readGMCPSubneg_def skipSubneg_def dispatchGMCP_def refuse_def writeRaw_def Let_def
      split: list.splits option.splits dest!: skip_body_shorter gmcp_body_shorter)

text \<open>The loop of \<open>ReadLine\<close>.\<close>

function read_from :: "(string \<Rightarrow> string) \<Rightarrow> string \<Rightarrow> bool \<Rightarrow> conn \<Rightarrow> (read_error + string) \<times> conn" where
  "read_from norm line truncated c =
     (case inp c of
        [] \<Rightarrow> (if line \<noteq> [] \<and> inp_end c = EOF then Inr (sanitizeLine line) else Inl (inp_end c), c)
      | b # rest \<Rightarrow>
          if b = IAC then
            (case handleIAC line (c\<lparr>inp := rest\<rparr>) of
               (Some e, _, c') \<Rightarrow> (Inl e, c')
             | (None, line', c') \<Rightarrow>
                 read_from norm (if truncated \<and> length line' > length line then take (length line) line' else line') truncated c')
          else if b = CR \<or> b = NUL then read_from norm line truncated (c\<lparr>inp := rest\<rparr>)
          else if b = LF then (Inr (sanitizeLine line), c\<lparr>inp := rest\<rparr>)
          else if length line \<ge> MaxLineBytes then
            read_from norm line True
              (if truncated then c\<lparr>inp := rest\<rparr> else Write norm too_long_notice (c\<lparr>inp := rest\<rparr>))
          else read_from norm (line @ [b]) truncated (c\<lparr>inp := rest\<rparr>))"
  by pat_completeness auto
termination
proof (relation "measure (\<lambda>(_, _, _, c). length (inp c))", goal_cases)
  case (2 norm line truncated c b rest x xa line' c')
  have "snd (snd (handleIAC line (c\<lparr>inp := rest\<rparr>))) = c'" using 2(3-5) by (metis snd_conv)
  then have "length (inp c') \<le> length rest" using handleIAC_input [of line "c\<lparr>inp := rest\<rparr>"] by simp
  then show ?case using 2(1) by simp
qed (auto simp: Write_def writeRaw_def)

declare read_from.simps [simp del]

definition ReadLine :: "(string \<Rightarrow> string) \<Rightarrow> conn \<Rightarrow> (read_error + string) \<times> conn" where
  "ReadLine norm c = read_from norm [] False c"

section \<open>Lemmas on sanitising\<close>

definition safe_piece :: "nat \<times> string \<Rightarrow> bool" where
  "safe_piece p \<longleftrightarrow> (if invalid_piece p then snd p = [IAC] else \<not> out_bad (fst p))"

lemma IAC_delimited: "delimited (RuneError, [IAC])"
  by (rule high_byte_delimited) (simp add: IAC_def)

lemma safe_delimited: "p \<in> set (pieces s) \<Longrightarrow> safe_piece p \<Longrightarrow> delimited p"
  using piece_delimited [of p s] IAC_delimited
  by (cases p) (auto simp: safe_piece_def invalid_piece_def split: if_splits)

lemma sanitizeOutput_pieces: "pieces (sanitizeOutput s) = filter safe_piece (pieces s)"
proof (cases "ValidString s \<and> list_all (\<lambda>p. \<not> out_bad (fst p)) (pieces s)")
  case True
  then have "filter safe_piece (pieces s) = pieces s"
    by (intro filter_True) (auto simp: ValidString_def list_all_iff safe_piece_def)
  then show ?thesis using True by (simp add: sanitizeOutput_def)
next
  case False
  have "concat (map (\<lambda>p. if invalid_piece p then (if snd p = [IAC] then snd p else [])
             else if out_bad (fst p) then [] else snd p) ps) = concat (map snd (filter safe_piece ps))" for ps
    by (induction ps) (auto simp: safe_piece_def)
  then have "sanitizeOutput s = concat (map snd (filter safe_piece (pieces s)))" unfolding sanitizeOutput_def if_not_P [OF False] .
  then show ?thesis using safe_delimited by (auto intro!: pieces_concat simp: list_all_iff)
qed

lemma DecodeRune_ascii:
  assumes "DecodeRune s = (r, n)" "c \<in> set (take n s)" "byte c < 0x80"
  shows "take n s = [c] \<and> r = byte c"
proof (cases s)
  case (Cons a cs)
  then show ?thesis using assms
    by (auto simp: Let_def cont_def second_ok_def split: if_splits list.splits)
qed (use assms in simp)

lemma ascii_piece: "c \<in> set s \<Longrightarrow> byte c < 0x80 \<Longrightarrow> (byte c, [c]) \<in> set (pieces s)"
proof (induction s rule: pieces.induct)
  case (1 s)
  then have ne: "s \<noteq> []" by auto
  obtain r n where d: "DecodeRune s = (r, n)" by fastforce
  have p: "pieces s = (r, take n s) # pieces (drop n s)" using ne d by (subst pieces.simps) simp
  have "c \<in> set (take n s) \<or> c \<in> set (drop n s)" using "1.prems"(1) by (metis UnE append_take_drop_id set_append)
  then show ?case using DecodeRune_ascii [OF d _ "1.prems"(2)] "1.IH" [OF ne] "1.prems"(2) d by (auto simp: p)
qed

lemma no_ESC: "ESC \<notin> set (sanitizeOutput s)"
proof
  assume "ESC \<in> set (sanitizeOutput s)"
  then have "(byte ESC, [ESC]) \<in> set (pieces (sanitizeOutput s))" by (rule ascii_piece) (simp add: ESC_def)
  then have "safe_piece (byte ESC, [ESC])" by (simp add: sanitizeOutput_pieces)
  then show False by (simp add: safe_piece_def invalid_piece_def out_bad_def IsControl_def ESC_def RuneError_def)
qed

lemma sanitizeOutput_idem: "sanitizeOutput (sanitizeOutput s) = sanitizeOutput s"
proof -
  let ?t = "sanitizeOutput s"
  have "pieces (sanitizeOutput ?t) = pieces ?t" by (simp add: sanitizeOutput_pieces)
  then show ?thesis by (metis concat_pieces)
qed

text \<open>Reading escaped bytes back; a lone IAC is a telnet command and not text.\<close>

fun unescapeIAC :: "string \<Rightarrow> string option" where
  "unescapeIAC [] = Some []"
| "unescapeIAC (b # bs) =
     (if b \<noteq> IAC then map_option ((#) b) (unescapeIAC bs)
      else case bs of [] \<Rightarrow> None | b2 # bs2 \<Rightarrow> if b2 = IAC then map_option ((#) IAC) (unescapeIAC bs2) else None)"

lemma unescape_escape: "unescapeIAC (escapeIAC s) = Some s"
  by (induction s) auto

lemma sanitizeLine_pieces:
  "hasControl line \<Longrightarrow> pieces (sanitizeLine line) =
     map (\<lambda>p. (fst p, EncodeRune (fst p))) (filter (\<lambda>p. \<not> IsControl (fst p)) (pieces line))"
proof -
  assume h: "hasControl line"
  have "concat (map (\<lambda>p. if IsControl (fst p) then [] else EncodeRune (fst p)) ps) =
      concat (map snd (map (\<lambda>p. (fst p, EncodeRune (fst p))) (filter (\<lambda>p. \<not> IsControl (fst p)) ps)))" for ps :: "(nat \<times> string) list"
    by (induction ps) auto
  then have "sanitizeLine line = concat (map snd (map (\<lambda>p. (fst p, EncodeRune (fst p))) (filter (\<lambda>p. \<not> IsControl (fst p)) (pieces line))))"
    using h by (simp only: sanitizeLine_def not_True_eq_False if_False)
  moreover have "list_all delimited (map (\<lambda>p. (fst p, EncodeRune (fst p))) (filter (\<lambda>p. \<not> IsControl (fst p)) (pieces line)))"
    using encoded_delimited pieces_valid by (auto simp: list_all_iff)
  ultimately show ?thesis by (metis pieces_concat)
qed

section \<open>Lemmas on the reader\<close>

lemma read_escaped:
  assumes "CR \<notin> set s" "NUL \<notin> set s" "LF \<notin> set s" "length line + length s \<le> MaxLineBytes"
  shows "read_from norm line False (c\<lparr>inp := escapeIAC s @ rest\<rparr>) = read_from norm (line @ s) False (c\<lparr>inp := rest\<rparr>)"
  using assms
proof (induction s arbitrary: line)
  case (Cons b s)
  have "read_from norm line False (c\<lparr>inp := escapeIAC (b # s) @ rest\<rparr>) =
        read_from norm (line @ [b]) False (c\<lparr>inp := escapeIAC s @ rest\<rparr>)"
    using Cons.prems by (subst read_from.simps) (auto simp: handleIAC_def)
  then show ?case using Cons by simp
qed simp

lemma read_CRLF: "read_from norm line tr (c\<lparr>inp := CR # LF # rest\<rparr>) = (Inr (sanitizeLine line), c\<lparr>inp := rest\<rparr>)"
  by (subst read_from.simps, subst read_from.simps) (simp add: telnet_bytes)

lemma handleIAC_line:
  assumes "handleIAC line c = (None, line', c')"
  shows "line' = line \<and> count_list (inp c') IAC \<le> count_list (inp c) IAC \<or>
         line' = line @ [IAC] \<and> inp c = IAC # inp c'"
proof -
  have s: "skip_body s = Some rest \<Longrightarrow> count_list rest x \<le> count_list s x" for s rest x
    by (induction s rule: skip_body.induct) (auto split: if_splits)
  have g: "gmcp_body buf over s = Some (b, ov, rest) \<Longrightarrow> count_list rest x \<le> count_list s x" for buf over s b ov rest x
    by (induction buf over s rule: gmcp_body.induct) (auto split: if_splits)
  show ?thesis using assms
    by (auto simp: handleIAC_def readGMCPSubneg_def skipSubneg_def dispatchGMCP_def refuse_def writeRaw_def Let_def
        split: list.splits option.splits if_splits dest!: s [of _ _ IAC] g [of _ _ _ _ _ _ IAC])
qed

lemma read_from_raw:
  assumes "read_from norm line tr c = (Inr l, c')"
  shows "\<exists>raw. l = sanitizeLine raw \<and> length raw \<le> max (length line) MaxLineBytes + count_list (inp c) IAC div 2"
  using assms
proof (induction norm line tr c rule: read_from.induct)
  case (1 norm line tr c)
  show ?case
  proof (cases "inp c")
    case Nil
    then show ?thesis using "1.prems" by (subst (asm) read_from.simps) (auto split: if_splits)
  next
    case (Cons b rest)
    show ?thesis
    proof (cases "b = IAC")
      case True
      obtain e line' c1 where h: "handleIAC line (c\<lparr>inp := rest\<rparr>) = (e, line', c1)" by (cases "handleIAC line (c\<lparr>inp := rest\<rparr>)") auto
      have e: "e = None" using "1.prems" Cons True h by (subst (asm) read_from.simps) (auto split: option.splits)
      let ?l = "if tr \<and> length line' > length line then take (length line) line' else line'"
      have r: "read_from norm ?l tr c1 = (Inr l, c')"
        using "1.prems" Cons True h e by (subst (asm) read_from.simps) simp
      obtain raw where raw: "l = sanitizeLine raw" "length raw \<le> max (length ?l) MaxLineBytes + count_list (inp c1) IAC div 2"
        using "1.IH"(1) [OF Cons True h [symmetric, unfolded e] refl refl r] by (auto split: if_splits) 
      have "max (length ?l) MaxLineBytes + count_list (inp c1) IAC div 2 \<le> max (length line) MaxLineBytes + count_list (inp c) IAC div 2"
        using handleIAC_line [OF h [unfolded e]]
      proof
        assume "line' = line \<and> count_list (inp c1) IAC \<le> count_list (inp (c\<lparr>inp := rest\<rparr>)) IAC"
        then have "?l = line" "count_list (inp c1) IAC \<le> count_list (inp c) IAC" using True Cons by simp_all
        then show ?thesis using div_le_mono by simp
      next
        assume "line' = line @ [IAC] \<and> inp (c\<lparr>inp := rest\<rparr>) = IAC # inp c1"
        then have "length ?l \<le> length line + 1" "count_list (inp c) IAC = 2 + count_list (inp c1) IAC" using True Cons by simp_all
        then show ?thesis by linarith
      qed
      then show ?thesis using raw by (intro exI [of _ raw]) auto
    next
      case False
      have c: "count_list rest IAC = count_list (inp c) IAC" using Cons False by simp
      note eq = "1.prems" [unfolded read_from.simps [of norm line tr c] Cons, simplified False, simplified]
      consider "b = CR \<or> b = NUL" | "b = LF" "b \<noteq> CR" "b \<noteq> NUL"
        | "b \<noteq> CR" "b \<noteq> NUL" "b \<noteq> LF" "MaxLineBytes \<le> length line"
        | "b \<noteq> CR" "b \<noteq> NUL" "b \<noteq> LF" "\<not> MaxLineBytes \<le> length line" by blast
      then show ?thesis
      proof cases
        case a: 1
        have "read_from norm line tr (c\<lparr>inp := rest\<rparr>) = (Inr l, c')" using eq a False by presburger
        from "1.IH"(2) [OF Cons False a this] show ?thesis by (simp add: c)
      next
        case 2
        then have "l = sanitizeLine line" using eq False by simp
        then show ?thesis by auto
      next
        case a: 3
        let ?c = "if tr then c\<lparr>inp := rest\<rparr> else Write norm too_long_notice (c\<lparr>inp := rest\<rparr>)"
        have i: "inp ?c = rest" by (simp add: Write_def writeRaw_def)
        have "read_from norm line True ?c = (Inr l, c')" using eq a False by presburger
        from "1.IH"(3) [OF Cons False _ a(3,4) this] show ?thesis using a(1,2) unfolding i c by blast
      next
        case a: 4
        have "read_from norm (line @ [b]) tr (c\<lparr>inp := rest\<rparr>) = (Inr l, c')" using eq a False by presburger
        from "1.IH"(4) [OF Cons False _ a(3,4) this] obtain raw
          where "l = sanitizeLine raw" "length raw \<le> max (length (line @ [b])) MaxLineBytes + count_list (inp (c\<lparr>inp := rest\<rparr>)) IAC div 2"
          using a(1,2) by blast
        then show ?thesis using a(4) by (intro exI [of _ raw]) (simp add: c)
      qed
    qed
  qed
qed

lemma sanitizeLine_clean: "\<not> hasControl (sanitizeLine line)"
proof (cases "hasControl line")
  case True
  then show ?thesis by (auto simp: hasControl_def [of "sanitizeLine line"] sanitizeLine_pieces list_ex_iff)
qed (simp add: sanitizeLine_def)

lemma read_from_clean: "read_from norm line tr c = (Inr l, c') \<Longrightarrow> \<not> hasControl l"
  using read_from_raw sanitizeLine_clean by metis

lemma pieces_IACs: "pieces (replicate n IAC) = replicate n (RuneError, [IAC])"
proof -
  have "concat (map snd (replicate n (RuneError, [IAC]))) = replicate n IAC" by (induction n) auto
  then show ?thesis using pieces_concat [of "replicate n (RuneError, [IAC])"] IAC_delimited by (simp add: list_all_iff)
qed

lemma gmcp_body_escaped:
  "length buf + length s \<le> maxGMCPInBytes \<Longrightarrow> gmcp_body buf False (escapeIAC s @ IAC # SE # rest) = Some (buf @ s, False, rest)"
proof (induction s arbitrary: buf)
  case Nil
  then show ?case by simp
next
  case (Cons b s)
  obtain b2 bs where t: "escapeIAC s @ IAC # SE # rest = b2 # bs" by (cases "escapeIAC s @ IAC # SE # rest") auto
  show ?case using Cons t by (auto simp: telnet_bytes)
qed

lemma gmcp_body_IACs: "gmcp_body buf False (escapeIAC (replicate n IAC) @ IAC # SE # rest) = Some (buf @ replicate n IAC, False, rest)"
  by (induction n arbitrary: buf) (auto simp: telnet_bytes)

lemma escape_append: "escapeIAC (s @ t) = escapeIAC s @ escapeIAC t"
  by (induction s) auto

lemma read_gmcp:
  assumes "gmcp_body [] False (body @ IAC # SE # rest) = Some (buf, False, rest)"
  shows "read_from norm line tr (c\<lparr>inp := IAC # SB # optGMCP # body @ IAC # SE # rest\<rparr>) =
         read_from norm line tr (dispatchGMCP buf False (c\<lparr>inp := rest\<rparr>))"
  using assms by (subst read_from.simps) (simp add: handleIAC_def readGMCPSubneg_def telnet_bytes)

lemma dispatch_payload:
  assumes "pkg \<noteq> []" "CHR '' '' \<notin> set pkg" "onGmcp c"
  shows "dispatchGMCP (pkg @ (if json \<noteq> [] then CHR '' '' # json else [])) False c = c\<lparr>delivered := delivered c @ [(pkg, json)]\<rparr>"
proof -
  have "takeWhile (\<lambda>b. b \<noteq> CHR '' '') (pkg @ (if json \<noteq> [] then CHR '' '' # json else [])) = pkg"
    using assms(2) by (auto simp: takeWhile_append)
  then show ?thesis using assms by (simp add: dispatchGMCP_def)
qed

section \<open>Properties\<close>

text \<open>C33. Whatever text the engine hands to \<open>Write\<close>, the bytes put on the wire are the escaping of a body that reads
  back unchanged (a byte 0xFF is never taken for a command), whose only escapes are whole colour sequences, and
  whose visible part is the sanitised text without its colour tokens; the sanitised text holds no control rune but
  CR and LF, no strong bidi override and no invalid byte but 0xFF, and sanitising it again changes nothing.\<close>

theorem write_is_safe:
  "\<exists>body. Write norm s c = writeRaw (escapeIAC body) c \<and> unescapeIAC (escapeIAC body) = Some body \<and>
     only_sgr body \<and> visible_text In_Text body = Strip norm (sanitizeOutput s) \<and>
     (if colorEnabled c then body = Render norm (sanitizeOutput s) True else body = Strip norm (sanitizeOutput s)) \<and>
     list_all safe_piece (pieces (sanitizeOutput s)) \<and> sanitizeOutput (sanitizeOutput s) = sanitizeOutput s"
proof (intro exI conjI)
  let ?b = "Render norm (sanitizeOutput s) (colorEnabled c)"
  note r = render_only_color [OF no_ESC [of s], of norm]
  show "Write norm s c = writeRaw (escapeIAC ?b) c" by (simp add: Write_def)
  show "unescapeIAC (escapeIAC ?b) = Some ?b" by (rule unescape_escape)
  show "only_sgr ?b" using r by simp
  show "visible_text In_Text ?b = Strip norm (sanitizeOutput s)"
    using r plain_text [of "Strip norm (sanitizeOutput s)" "[]"] by (cases "colorEnabled c") (simp_all add: Strip_def)
  show "if colorEnabled c then ?b = Render norm (sanitizeOutput s) True else ?b = Strip norm (sanitizeOutput s)"
    by (simp add: Strip_def)
  show "list_all safe_piece (pieces (sanitizeOutput s))" by (simp add: sanitizeOutput_pieces list_all_iff)
  show "sanitizeOutput (sanitizeOutput s) = sanitizeOutput s" by (rule sanitizeOutput_idem)
qed

text \<open>Every line \<open>ReadLine\<close> returns is free of control runes, and is the sanitised form of raw bytes of which
  at most \<open>MaxLineBytes\<close> are plain: only escaped 0xFF pairs of the input can add to that.\<close>

lemma line_is_clean_and_bounded:
  assumes "ReadLine norm c = (Inr l, c')"
  shows "\<not> hasControl l \<and>
    (\<exists>raw. l = sanitizeLine raw \<and> length raw \<le> MaxLineBytes + count_list (inp c) IAC div 2)"
  using read_from_clean read_from_raw [of norm "[]" False c l c'] assms by (auto simp: ReadLine_def)

text \<open>C34. A line without controls that fits the cap survives the wire: written with its 0xFF bytes doubled and ended
  by CR LF, it is what \<open>ReadLine\<close> returns, and the input that follows is untouched.\<close>

theorem line_round_trip:
  assumes "\<not> hasControl s" "length s \<le> MaxLineBytes"
  shows "ReadLine norm (c\<lparr>inp := escapeIAC s @ CR # LF # rest\<rparr>) = (Inr s, c\<lparr>inp := rest\<rparr>)"
proof -
  have no: "b \<notin> set s" if "byte b < 0x20" for b
  proof
    assume "b \<in> set s"
    then have "(byte b, [b]) \<in> set (pieces s)" using that by (intro ascii_piece) simp_all
    then show False using assms(1) that by (auto simp: hasControl_def list_ex_iff RuneError_def IsControl_def)
  qed
  have "read_from norm [] False (c\<lparr>inp := escapeIAC s @ CR # LF # rest\<rparr>) = read_from norm s False (c\<lparr>inp := CR # LF # rest\<rparr>)"
    using read_escaped [where s = s and line = "[]" and norm = norm and c = c and rest = "CR # LF # rest"] assms(2) no [of CR] no [of LF] no [of NUL]
    by (simp add: telnet_bytes)
  then show ?thesis using assms(1) by (simp add: ReadLine_def read_CRLF sanitizeLine_def)
qed

theorem line_round_trip_witness:
  "ReadLine ascii_norm ((New [] EOF)\<lparr>inp := [IAC, IAC, IAC, IAC, CR, LF, IAC]\<rparr>) = (Inr [IAC, IAC], (New [] EOF)\<lparr>inp := [IAC]\<rparr>)"
proof -
  have "\<not> hasControl (replicate 2 IAC)" unfolding hasControl_def pieces_IACs by (simp add: list_ex_iff)
  then show ?thesis
    using line_round_trip [where s = "replicate 2 IAC" and norm = ascii_norm and c = "New [] EOF" and rest = "[IAC]"] by (simp add: MaxLineBytes_def numeral_2_eq_2)
qed

text \<open>C35. A GMCP message within the inbound cap survives the wire: the frame \<open>WriteGMCP\<close> builds, read anywhere in a
  line, hands exactly its package and payload to the sink and leaves the line being read as it was.\<close>

theorem gmcp_round_trip:
  assumes "pkg \<noteq> []" "CHR '' '' \<notin> set pkg" "length pkg + 1 + length json \<le> maxGMCPInBytes" "onGmcp c"
  shows "read_from norm line tr (c\<lparr>inp := gmcp_frame pkg json @ rest\<rparr>) =
         read_from norm line tr (c\<lparr>inp := rest, delivered := delivered c @ [(pkg, json)]\<rparr>)"
proof -
  let ?p = "pkg @ (if json \<noteq> [] then CHR '' '' # json else [])"
  have "gmcp_body [] False (escapeIAC ?p @ IAC # SE # rest) = Some (?p, False, rest)"
    using gmcp_body_escaped [of "[]" ?p rest] assms(3) by (auto split: if_splits)
  from read_gmcp [OF this, of norm line tr c] show ?thesis
    using dispatch_payload [OF assms(1,2), of "c\<lparr>inp := rest\<rparr>" json] assms(4) by (simp add: gmcp_frame_def)
qed

theorem gmcp_round_trip_witness:
  "read_from ascii_norm ''lo'' False ((SetGMCPHandler (New [] EOF))\<lparr>inp := gmcp_frame ''Core.Ping'' [IAC] @ [LF]\<rparr>) =
   read_from ascii_norm ''lo'' False ((SetGMCPHandler (New [] EOF))\<lparr>inp := [LF], delivered := [(''Core.Ping'', [IAC])]\<rparr>)"
  using gmcp_round_trip [where pkg = "''Core.Ping''" and json = "[IAC]" and c = "SetGMCPHandler (New [] EOF)" and norm = ascii_norm
    and line = "''lo''" and tr = False and rest = "[LF]"]
  by (simp add: maxGMCPInBytes_def SetGMCPHandler_def New_def)

text \<open>The two inbound caps do not bound escaped bytes: for every \<open>n\<close>, a line of \<open>n\<close> escaped 0xFF bytes is
  returned whole, and a GMCP message with \<open>n\<close> of them is delivered whole, however far \<open>n\<close> is over the cap.\<close>

lemma escaped_bytes_pass_the_caps:
  "ReadLine norm (c\<lparr>inp := escapeIAC (replicate n IAC) @ LF # rest\<rparr>) = (Inr (replicate n IAC), c\<lparr>inp := rest\<rparr>) \<and>
   read_from norm line tr ((SetGMCPHandler c)\<lparr>inp := gmcp_frame ''x'' (replicate (Suc n) IAC) @ rest\<rparr>) =
   read_from norm line tr ((SetGMCPHandler c)\<lparr>inp := rest, delivered := delivered c @ [(''x'', replicate (Suc n) IAC)]\<rparr>)"
proof
  have r: "read_from norm l False (c\<lparr>inp := escapeIAC (replicate n IAC) @ LF # rest\<rparr>) =
      read_from norm (l @ replicate n IAC) False (c\<lparr>inp := LF # rest\<rparr>)" for l
  proof (induction n arbitrary: l)
    case (Suc n)
    have "read_from norm l False (c\<lparr>inp := escapeIAC (replicate (Suc n) IAC) @ LF # rest\<rparr>) =
          read_from norm (l @ [IAC]) False (c\<lparr>inp := escapeIAC (replicate n IAC) @ LF # rest\<rparr>)"
      by (subst read_from.simps) (simp add: handleIAC_def)
    then show ?case using Suc.IH [of "l @ [IAC]"] by simp
  qed simp
  have "\<not> hasControl (replicate n IAC)" unfolding hasControl_def pieces_IACs by (simp add: list_ex_iff)
  moreover have "read_from norm l False (c\<lparr>inp := LF # rest\<rparr>) = (Inr (sanitizeLine l), c\<lparr>inp := rest\<rparr>)" for l
    by (subst read_from.simps) (simp add: telnet_bytes)
  ultimately show "ReadLine norm (c\<lparr>inp := escapeIAC (replicate n IAC) @ LF # rest\<rparr>) = (Inr (replicate n IAC), c\<lparr>inp := rest\<rparr>)"
    by (simp add: ReadLine_def r [of "[]"] sanitizeLine_def)
next
  let ?c = "SetGMCPHandler c"
  have "gmcp_body [] False (escapeIAC (''x '' @ replicate (Suc n) IAC) @ IAC # SE # rest) = Some (''x '' @ replicate (Suc n) IAC, False, rest)"
    using gmcp_body_IACs [of "''x ''" "Suc n" rest] by (simp add: telnet_bytes maxGMCPInBytes_def)
  from read_gmcp [OF this, of norm line tr ?c]
  show "read_from norm line tr (?c\<lparr>inp := gmcp_frame ''x'' (replicate (Suc n) IAC) @ rest\<rparr>) =
        read_from norm line tr (?c\<lparr>inp := rest, delivered := delivered c @ [(''x'', replicate (Suc n) IAC)]\<rparr>)"
    using dispatch_payload [of "''x''" "?c\<lparr>inp := rest\<rparr>" "replicate (Suc n) IAC"] by (simp add: gmcp_frame_def SetGMCPHandler_def)
qed

end
