(* ===== verification/Char_Store.thy ===== *)
theory Char_Store
  imports Prelude "HOL-Library.AList"
begin

text \<open>
  The durable tiers of a character: the character rows with their ownership epoch and state version
  (\<open>internal/store/character.go\<close> over Postgres, \<open>internal/world/memstore.go\<close> in memory) and the
  checkpoint mirror (\<open>internal/checkpoint/redis.go\<close>, \<open>internal/world/memstore.go\<close>).

  A statement is atomic (Postgres runs the CTE under the row lock, the memory store under its mutex, Redis
  runs a script), so each is one function on the table. The content of a character, \<open>StateJSON\<close>, is an
  opaque text; its JSON coding is the identity. The type \<open>'u\<close> is that of UUIDs: \<open>parse\<close> stands for
  \<open>uuid.Parse\<close>, \<open>str\<close> for \<open>UUID.String\<close>, and \<open>ci\<close> for the case folding of a CITEXT column.
  \<open>uint64\<close> and BIGINT columns are natural numbers; the narrowing of a parameter and the overflow of a
  BIGINT are written out.
\<close>

section \<open>Snapshots and results\<close>

record CharSnapshot =
  cs_pid :: string
  cs_name :: string
  cs_zone :: string
  cs_room :: string
  cs_version :: nat
  cs_state :: string
  cs_epoch :: nat
  cs_chargen :: "string option"

datatype SaveOutcome = SaveOutcomeUnset | SaveApplied | SaveStaleVersion | SaveNotOwner | SaveNoRow

record SaveResult =
  Outcome :: SaveOutcome
  NewVersion :: nat
  CurVersion :: nat
  CurOwnerEpoch :: nat

definition no_result :: "SaveOutcome \<Rightarrow> SaveResult" where
  "no_result o' = \<lparr>Outcome = o', NewVersion = 0, CurVersion = 0, CurOwnerEpoch = 0\<rparr>"

datatype store_error = ErrNoCharacterRow | Store_Failed string

section \<open>The memory store\<close>

text \<open>The two maps of \<open>MemStore\<close>, in some iteration order.\<close>

record MemStore =
  rows :: "(string \<times> CharSnapshot) list"
  ckpt :: "(string \<times> CharSnapshot) list"
  nextID :: nat

definition NewMemStore :: MemStore where
  "NewMemStore = \<lparr>rows = [], ckpt = [], nextID = 0\<rparr>"

definition lower_byte :: "char \<Rightarrow> char" where
  "lower_byte c = (if CHR ''A'' \<le> c \<and> c \<le> CHR ''Z'' then char_of (of_char c + 32 :: nat) else c)"

definition memKey :: "string \<Rightarrow> string" where "memKey name = map lower_byte name"

fun itoa :: "nat \<Rightarrow> string" where
  "itoa n = (if n < 10 then [char_of (48 + n)] else itoa (n div 10) @ [char_of (48 + n mod 10)])"

declare itoa.simps [simp del]

definition LoadCharacter :: "string \<Rightarrow> MemStore \<Rightarrow> CharSnapshot option" where
  "LoadCharacter name m = map_of (rows m) (memKey name)"

definition CreateCharacter :: "string \<Rightarrow> string \<Rightarrow> string \<Rightarrow> MemStore \<Rightarrow> string \<times> MemStore" where
  "CreateCharacter name zoneRef roomRef m =
     (let k = memKey name in
      case map_of (rows m) k of
        Some existing \<Rightarrow> (cs_pid existing, m)
      | None \<Rightarrow>
          let n = nextID m + 1; pid = ''mem-uuid-'' @ itoa n
          in (pid, m\<lparr>nextID := n,
                rows := AList.update k \<lparr>cs_pid = pid, cs_name = name, cs_zone = zoneRef, cs_room = roomRef, cs_version = 0,
                                       cs_state = '''', cs_epoch = 0, cs_chargen = None\<rparr> (rows m)\<rparr>))"

definition ClaimCharacter :: "string \<Rightarrow> nat \<Rightarrow> MemStore \<Rightarrow> (store_error + nat) \<times> MemStore" where
  "ClaimCharacter pid floor m =
     (case find (\<lambda>(k, row). cs_pid row = pid) (rows m) of
        None \<Rightarrow> (Inl ErrNoCharacterRow, m)
      | Some (k, row) \<Rightarrow>
          let next = (if floor > cs_epoch row then floor else cs_epoch row) + 1
          in (Inr next, m\<lparr>rows := AList.update k (row\<lparr>cs_epoch := next\<rparr>) (rows m)\<rparr>))"

definition SaveCharacter :: "CharSnapshot \<Rightarrow> MemStore \<Rightarrow> SaveResult \<times> MemStore" where
  "SaveCharacter snap m =
     (let k = memKey (cs_name snap) in
      case map_of (rows m) k of
        None \<Rightarrow> (no_result SaveNoRow, m)
      | Some cur \<Rightarrow>
          let res = (no_result SaveOutcomeUnset)\<lparr>CurVersion := cs_version cur, CurOwnerEpoch := cs_epoch cur\<rparr>
          in if cs_epoch cur > cs_epoch snap then (res\<lparr>Outcome := SaveNotOwner\<rparr>, m)
             else if cs_version cur \<noteq> cs_version snap then (res\<lparr>Outcome := SaveStaleVersion\<rparr>, m)
             else let snap' = snap\<lparr>cs_pid := cs_pid cur, cs_version := cs_version cur + 1,
                                   cs_zone := (if cs_zone snap = '''' then cs_zone cur else cs_zone snap)\<rparr>
                  in (res\<lparr>Outcome := SaveApplied, NewVersion := cs_version snap'\<rparr>,
                      m\<lparr>rows := AList.update k snap' (rows m)\<rparr>))"

datatype ckpt_reply = Ckpt_Written | ErrCheckpointNotOwner | Ckpt_Failed string

definition Checkpoint :: "CharSnapshot \<Rightarrow> MemStore \<Rightarrow> ckpt_reply \<times> MemStore" where
  "Checkpoint snap m =
     (let k = memKey (cs_name snap); prev = map_of (ckpt m) k in
      if (case prev of Some p \<Rightarrow> cs_epoch p > cs_epoch snap | None \<Rightarrow> False) then (ErrCheckpointNotOwner, m)
      else let snap' = (case prev of
                          Some p \<Rightarrow> if cs_zone snap = '''' then snap\<lparr>cs_zone := cs_zone p\<rparr> else snap
                        | None \<Rightarrow> snap)
           in (Ckpt_Written, m\<lparr>ckpt := AList.update k snap' (ckpt m)\<rparr>))"

definition LoadCheckpoint :: "string \<Rightarrow> MemStore \<Rightarrow> CharSnapshot option" where
  "LoadCheckpoint name m = map_of (ckpt m) (memKey name)"

section \<open>The Postgres store\<close>

record 'u char_row =
  pg_id :: 'u
  pg_name :: string
  pg_zone :: "string option"
  pg_room :: "string option"
  pg_version :: nat
  pg_epoch :: nat
  pg_state :: string
  pg_chargen :: "string option"
  pg_deleted :: bool

type_synonym 'u characters = "'u char_row list"

definition maxInt64 :: nat where "maxInt64 = 2 ^ 63 - 1"

definition stateVersionParam :: "nat \<Rightarrow> nat" where
  "stateVersionParam v = (if v > maxInt64 then maxInt64 else v)"

definition maxOwnerEpoch :: nat where "maxOwnerEpoch = 2 ^ 48"

definition nullStr :: "string \<Rightarrow> string option" where "nullStr s = (if s = '''' then None else Some s)"

definition derefStr :: "string option \<Rightarrow> string" where "derefStr s = (case s of None \<Rightarrow> '''' | Some t \<Rightarrow> t)"

definition pg_LoadCharacter ::
  "('u \<Rightarrow> string) \<Rightarrow> (string \<Rightarrow> string) \<Rightarrow> string \<Rightarrow> 'u characters \<Rightarrow> CharSnapshot option" where
  "pg_LoadCharacter str ci name t =
     map_option (\<lambda>r. \<lparr>cs_pid = str (pg_id r), cs_name = name, cs_zone = derefStr (pg_zone r), cs_room = derefStr (pg_room r),
                      cs_version = pg_version r, cs_state = pg_state r, cs_epoch = pg_epoch r, cs_chargen = pg_chargen r\<rparr>)
       (find (\<lambda>r. ci (pg_name r) = ci name \<and> \<not> pg_deleted r) t)"

text \<open>An \<open>UPDATE\<close> of the live row with an identifier.\<close>

definition update_live :: "'u \<Rightarrow> ('u char_row \<Rightarrow> 'u char_row) \<Rightarrow> 'u characters \<Rightarrow> 'u characters" where
  "update_live u f t = map (\<lambda>r. if pg_id r = u \<and> \<not> pg_deleted r then f r else r) t"

definition live_row :: "'u \<Rightarrow> 'u characters \<Rightarrow> 'u char_row option" where
  "live_row u t = find (\<lambda>r. pg_id r = u \<and> \<not> pg_deleted r) t"

definition pg_ClaimCharacter ::
  "(string \<Rightarrow> 'u option) \<Rightarrow> string \<Rightarrow> nat \<Rightarrow> 'u characters \<Rightarrow> (store_error + nat) \<times> 'u characters" where
  "pg_ClaimCharacter parse pid floor t =
     (case parse pid of
        None \<Rightarrow> (Inl (Store_Failed ''bad persist id''), t)
      | Some u \<Rightarrow>
          if floor > maxOwnerEpoch then (Inl (Store_Failed ''floor exceeds the sane ceiling''), t)
          else case live_row u t of
                 None \<Rightarrow> (Inl ErrNoCharacterRow, t)
               | Some r \<Rightarrow>
                   let e = max (pg_epoch r) (stateVersionParam floor) + 1
                   in if e > maxInt64 then (Inl (Store_Failed ''bigint out of range''), t)
                      else (Inr e, update_live u (\<lambda>r. r\<lparr>pg_epoch := e\<rparr>) t))"

definition pg_SaveCharacter ::
  "(string \<Rightarrow> 'u option) \<Rightarrow> CharSnapshot \<Rightarrow> 'u characters \<Rightarrow> (store_error + SaveResult) \<times> 'u characters" where
  "pg_SaveCharacter parse snap t =
     (if cs_pid snap = '''' then (Inl (Store_Failed ''missing persist id''), t)
      else case parse (cs_pid snap) of
        None \<Rightarrow> (Inl (Store_Failed ''bad persist id''), t)
      | Some u \<Rightarrow>
          (case live_row u t of
             None \<Rightarrow> (Inr (no_result SaveNoRow), t)
           | Some pre \<Rightarrow>
               let hit = (pg_version pre = stateVersionParam (cs_version snap) \<and> pg_epoch pre \<le> stateVersionParam (cs_epoch snap));
                   res = (no_result SaveOutcomeUnset)\<lparr>CurVersion := pg_version pre, CurOwnerEpoch := pg_epoch pre\<rparr>
               in if hit \<and> pg_version pre + 1 > maxInt64 then (Inl (Store_Failed ''bigint out of range''), t)
                  else if hit
                  then (Inr (res\<lparr>Outcome := SaveApplied, NewVersion := pg_version pre + 1\<rparr>),
                        update_live u (\<lambda>c. c\<lparr>pg_state := cs_state snap,
                                            pg_zone := (case nullStr (cs_zone snap) of None \<Rightarrow> pg_zone c | Some z \<Rightarrow> Some z),
                                            pg_room := nullStr (cs_room snap),
                                            pg_version := pg_version c + 1,
                                            pg_epoch := max (pg_epoch c) (stateVersionParam (cs_epoch snap)),
                                            pg_chargen := None\<rparr>) t)
                  else if pg_epoch pre > cs_epoch snap then (Inr (res\<lparr>Outcome := SaveNotOwner\<rparr>), t)
                  else (Inr (res\<lparr>Outcome := SaveStaleVersion\<rparr>), t)))"

section \<open>The Redis checkpoint\<close>

record ckpt_hash =
  ch_data :: CharSnapshot
  ch_epoch :: nat

definition DefaultTTL :: nat where "DefaultTTL = 3600000"

definition ckptKey :: "string \<Rightarrow> string \<Rightarrow> string" where
  "ckptKey ns name = ns @ '':ckpt:char:v2:'' @ name"

definition checkpointGuard :: "CharSnapshot \<Rightarrow> nat \<Rightarrow> nat \<Rightarrow> ms \<Rightarrow> ckpt_hash timed option \<Rightarrow> nat \<times> ckpt_hash timed option" where
  "checkpointGuard data mine ttl now k =
     (if (case visible now k of Some h \<Rightarrow> ch_epoch h > mine | None \<Rightarrow> False) then (0, k)
      else (1, Some (\<lparr>ch_data = data, ch_epoch = mine\<rparr>, Some (now + ttl))))"

definition redis_LoadCheckpoint :: "string net \<Rightarrow> ms \<Rightarrow> ckpt_hash timed option \<Rightarrow> string + CharSnapshot option" where
  "redis_LoadCheckpoint net now k = fst (round_trip net (\<lambda>k. (map_option ch_data (visible now k), k)) k)"

text \<open>The chargen marker is not part of the serialized value. The read only serves an empty zone.\<close>

definition redis_Checkpoint ::
  "string net \<Rightarrow> string net \<Rightarrow> ms \<Rightarrow> CharSnapshot \<Rightarrow> ckpt_hash timed option \<Rightarrow> ckpt_reply \<times> ckpt_hash timed option" where
  "redis_Checkpoint rnet wnet now snap k =
     (let v = snap\<lparr>cs_chargen := None,
                   cs_zone := (if cs_zone snap = ''''
                               then (case redis_LoadCheckpoint rnet now k of Inr (Some prev) \<Rightarrow> cs_zone prev | _ \<Rightarrow> '''')
                               else cs_zone snap)\<rparr>
      in case round_trip wnet (checkpointGuard v (cs_epoch snap) DefaultTTL now) k of
           (Inl e, k') \<Rightarrow> (Ckpt_Failed e, k')
         | (Inr applied, k') \<Rightarrow> (if applied \<noteq> 1 then ErrCheckpointNotOwner else Ckpt_Written, k'))"

section \<open>The login read\<close>

definition fresherThan :: "CharSnapshot \<Rightarrow> CharSnapshot \<Rightarrow> bool" where
  "fresherThan candidate best =
     (if cs_epoch candidate \<noteq> cs_epoch best then cs_epoch candidate > cs_epoch best
      else cs_version candidate \<ge> cs_version best)"

text \<open>
  \<open>loadCharacterSnapshot\<close> given what the two tiers answered, \<open>None\<close> for a tier that is not configured:
  the snapshot, and whether the durable tier could not be read.
\<close>

definition loadCharacterSnapshot ::
  "(string + CharSnapshot option) option \<Rightarrow> (string + CharSnapshot option) option \<Rightarrow> CharSnapshot option \<times> bool" where
  "loadCharacterSnapshot store ck =
     (let unreadable = (case store of Some (Inl e) \<Rightarrow> True | _ \<Rightarrow> False);
          row = (case store of Some (Inr r) \<Rightarrow> r | _ \<Rightarrow> None);
          best = (case ck of
                    Some (Inr (Some c)) \<Rightarrow>
                      (case row of
                         None \<Rightarrow> Some c
                       | Some b \<Rightarrow> if fresherThan c b
                                   then Some (if cs_pid c = '''' then c\<lparr>cs_pid := cs_pid b\<rparr> else c) else Some b)
                  | _ \<Rightarrow> row)
      in (best, unreadable \<and> best = None))"

end
