(* ===== verification/Char_Saver.thy ===== *)
theory Char_Saver
  imports Char_Store
begin

text \<open>
  The saver of \<open>internal/world/saver.go\<close>, which drains save requests off the zone goroutine into the two
  durable tiers, and the ownership fence it relies on.

  The saver calls its store and its checkpointer through interfaces; here the calls are arguments. They
  act on a state of both tiers and a counter of the calls made: each call is preceded by what other
  shards did meanwhile (\<open>env\<close>) and has a fate (\<open>nets\<close>).
\<close>

section \<open>The saver\<close>

datatype saveReason = saveCheckpoint | saveFlush | saveFinal

fun flush :: "saveReason \<Rightarrow> bool" where
  "flush saveCheckpoint = False"
| "flush saveFlush = True"
| "flush saveFinal = True"

record saveRequest =
  rq_snap :: CharSnapshot
  rq_id :: string
  rq_reason :: saveReason

datatype zone_msg =
    saveOkMsg string nat
  | saveConflictMsg string
  | saveNotOwnerMsg string nat nat

definition finalFlushRetries :: nat where "finalFlushRetries = 8"

type_synonym 's saver_save = "CharSnapshot \<Rightarrow> 's \<Rightarrow> (string + SaveResult) \<times> 's"
type_synonym 's saver_load = "string \<Rightarrow> 's \<Rightarrow> (string + CharSnapshot option) \<times> 's"
type_synonym 's saver_ckpt = "CharSnapshot \<Rightarrow> 's \<Rightarrow> ckpt_reply \<times> 's"

text \<open>
  The loop of \<open>finalizeFlush\<close> with the attempts that are left. \<open>expired\<close> says whether the budget is spent
  and \<open>present\<close> whether the zone reports a live session, at each attempt.
\<close>

fun finalize_from ::
  "'s saver_save \<Rightarrow> 's saver_load \<Rightarrow> (nat \<Rightarrow> bool) \<Rightarrow> (nat \<Rightarrow> bool) \<Rightarrow> string \<Rightarrow> CharSnapshot \<Rightarrow> nat \<Rightarrow> nat \<Rightarrow> nat \<Rightarrow> 's
     \<Rightarrow> zone_msg list \<times> 's" where
  "finalize_from save load expired present pid snap curVersion attempt 0 s = ([], s)"
| "finalize_from save load expired present pid snap curVersion attempt (Suc n) s =
     (if expired attempt then ([], s)
      else if present attempt then ([saveConflictMsg pid], s)
      else
        case (if attempt > 0
              then (case load (cs_name snap) s of
                      (Inr (Some cur), s1) \<Rightarrow> (Some (cs_version cur), s1)
                    | (_, s1) \<Rightarrow> (None, s1))
              else (Some curVersion, s)) of
          (None, s1) \<Rightarrow> ([], s1)
        | (Some v, s1) \<Rightarrow>
            (case save (snap\<lparr>cs_version := v\<rparr>) s1 of
               (Inl e, s2) \<Rightarrow> ([], s2)
             | (Inr res, s2) \<Rightarrow>
                 (case Outcome res of
                    SaveApplied \<Rightarrow> ([saveOkMsg pid (NewVersion res)], s2)
                  | SaveNotOwner \<Rightarrow> ([saveNotOwnerMsg pid (cs_epoch snap) (CurOwnerEpoch res)], s2)
                  | SaveNoRow \<Rightarrow> ([], s2)
                  | SaveStaleVersion \<Rightarrow> finalize_from save load expired present pid snap v (attempt + 1) n s2
                  | SaveOutcomeUnset \<Rightarrow> ([], s2))))"

definition finalizeFlush ::
  "'s saver_save \<Rightarrow> 's saver_load \<Rightarrow> (nat \<Rightarrow> bool) \<Rightarrow> (nat \<Rightarrow> bool) \<Rightarrow> saveRequest \<Rightarrow> CharSnapshot \<Rightarrow> nat \<Rightarrow> 's
     \<Rightarrow> zone_msg list \<times> 's" where
  "finalizeFlush save load expired present req snap curVersion s =
     finalize_from save load expired present (rq_id req) snap curVersion 0 finalFlushRetries s"

text \<open>The durable part of \<open>handle\<close>, and \<open>handle\<close>; an absent tier is \<open>None\<close>.\<close>

definition flush_tier ::
  "'s saver_save \<Rightarrow> 's saver_load \<Rightarrow> (nat \<Rightarrow> bool) \<Rightarrow> (nat \<Rightarrow> bool) \<Rightarrow> saveRequest \<Rightarrow> 's \<Rightarrow> zone_msg list \<times> 's" where
  "flush_tier save load expired present req s =
     (let snap = rq_snap req in
      case save snap s of
        (Inl e, s1) \<Rightarrow> ([], s1)
      | (Inr res, s1) \<Rightarrow>
          (case Outcome res of
             SaveApplied \<Rightarrow> ([saveOkMsg (rq_id req) (NewVersion res)], s1)
           | SaveNotOwner \<Rightarrow> ([saveNotOwnerMsg (rq_id req) (cs_epoch snap) (CurOwnerEpoch res)], s1)
           | SaveNoRow \<Rightarrow> ([], s1)
           | SaveStaleVersion \<Rightarrow>
               if rq_reason req = saveFinal then finalizeFlush save load expired present req snap (CurVersion res) s1
               else ([saveConflictMsg (rq_id req)], s1)
           | SaveOutcomeUnset \<Rightarrow> ([], s1)))"

definition handle ::
  "('s saver_save \<times> 's saver_load) option \<Rightarrow> 's saver_ckpt option \<Rightarrow> (nat \<Rightarrow> bool) \<Rightarrow> (nat \<Rightarrow> bool) \<Rightarrow> saveRequest \<Rightarrow> 's
     \<Rightarrow> zone_msg list \<times> 's" where
  "handle store ck expired present req s =
     (let snap = rq_snap req in
      case (case ck of None \<Rightarrow> (Ckpt_Written, s) | Some c \<Rightarrow> c snap s) of
        (ErrCheckpointNotOwner, s1) \<Rightarrow> ([saveNotOwnerMsg (rq_id req) (cs_epoch snap) (cs_epoch snap + 1)], s1)
      | (_, s1) \<Rightarrow>
          (case store of
             None \<Rightarrow> ([], s1)
           | Some (save, load) \<Rightarrow>
               if \<not> flush (rq_reason req) then ([], s1)
               else flush_tier save load expired present req s1))"

section \<open>The tiers a saver talks to\<close>

record ('s, 'c) tiers =
  db :: 's
  mirror :: 'c
  calls :: nat

text \<open>One call on the durable tier: the environment's steps, then the statement with its fate.\<close>

definition db_call ::
  "(nat \<Rightarrow> string net) \<Rightarrow> (nat \<Rightarrow> 's \<Rightarrow> 's) \<Rightarrow> ('s \<Rightarrow> (store_error + 'r) \<times> 's) \<Rightarrow> ('s, 'c) tiers \<Rightarrow> (string + 'r) \<times> ('s, 'c) tiers" where
  "db_call nets env stmt t =
     (case round_trip (nets (calls t)) stmt (env (calls t) (db t)) of
        (r, d) \<Rightarrow> (case r of
                     Inl e \<Rightarrow> Inl e
                   | Inr (Inl e) \<Rightarrow> Inl (case e of Store_Failed m \<Rightarrow> m | ErrNoCharacterRow \<Rightarrow> ''no row'')
                   | Inr (Inr v) \<Rightarrow> Inr v,
                   t\<lparr>db := d, calls := calls t + 1\<rparr>))"

definition tier_save ::
  "(CharSnapshot \<Rightarrow> 's \<Rightarrow> (store_error + SaveResult) \<times> 's) \<Rightarrow> (nat \<Rightarrow> string net) \<Rightarrow> (nat \<Rightarrow> 's \<Rightarrow> 's) \<Rightarrow> ('s, 'c) tiers saver_save" where
  "tier_save save nets env snap t = db_call nets env (save snap) t"

definition tier_load ::
  "(string \<Rightarrow> 's \<Rightarrow> CharSnapshot option) \<Rightarrow> (nat \<Rightarrow> string net) \<Rightarrow> (nat \<Rightarrow> 's \<Rightarrow> 's) \<Rightarrow> ('s, 'c) tiers saver_load" where
  "tier_load load nets env name t = db_call nets env (\<lambda>d. (Inr (load name d), d)) t"

text \<open>A checkpoint only touches the mirror; its own fate is part of the function.\<close>

definition tier_ckpt :: "(CharSnapshot \<Rightarrow> 'c \<Rightarrow> ckpt_reply \<times> 'c) \<Rightarrow> ('s, 'c) tiers saver_ckpt" where
  "tier_ckpt ck snap t = (case ck snap (mirror t) of (r, m) \<Rightarrow> (r, t\<lparr>mirror := m\<rparr>))"

text \<open>What other shards do to the table between two calls: claims and saves.\<close>

datatype store_op = Op_Claim string nat | Op_Save CharSnapshot

fun store_step ::
  "(string \<Rightarrow> nat \<Rightarrow> 's \<Rightarrow> (store_error + nat) \<times> 's) \<Rightarrow> (CharSnapshot \<Rightarrow> 's \<Rightarrow> (store_error + SaveResult) \<times> 's) \<Rightarrow> store_op \<Rightarrow> 's \<Rightarrow> 's" where
  "store_step claim save (Op_Claim pid floor) s = snd (claim pid floor s)"
| "store_step claim save (Op_Save snap) s = snd (save snap s)"

definition store_run ::
  "(string \<Rightarrow> nat \<Rightarrow> 's \<Rightarrow> (store_error + nat) \<times> 's) \<Rightarrow> (CharSnapshot \<Rightarrow> 's \<Rightarrow> (store_error + SaveResult) \<times> 's) \<Rightarrow> store_op list \<Rightarrow> 's \<Rightarrow> 's" where
  "store_run claim save ops s = fold (store_step claim save) ops s"

section \<open>The contract of a character store\<close>

text \<open>
  \<open>row k s\<close> is the row of character \<open>k\<close>; \<open>key_of\<close> names the character a snapshot belongs to, \<open>named k n\<close> says
  that the name \<open>n\<close> finds the row of \<open>k\<close>. \<open>fits\<close> bounds the numbers a column can count up to.
\<close>

locale character_store =
  fixes row :: "'k \<Rightarrow> 's \<Rightarrow> CharSnapshot option"
    and claim :: "string \<Rightarrow> nat \<Rightarrow> 's \<Rightarrow> (store_error + nat) \<times> 's"
    and save :: "CharSnapshot \<Rightarrow> 's \<Rightarrow> (store_error + SaveResult) \<times> 's"
    and load :: "string \<Rightarrow> 's \<Rightarrow> CharSnapshot option"
    and key_of :: "CharSnapshot \<Rightarrow> 'k option"
    and target :: "string \<Rightarrow> 's \<Rightarrow> 'k option"
    and named :: "'k \<Rightarrow> string \<Rightarrow> 's \<Rightarrow> bool"
    and inv :: "'s \<Rightarrow> bool"
    and fits :: "nat \<Rightarrow> bool"
  assumes inv_claim: "inv s \<Longrightarrow> inv (snd (claim pid floor s))"
    and inv_save: "inv s \<Longrightarrow> inv (snd (save snap s))"
    and target_claim: "inv s \<Longrightarrow> target p (snd (claim pid floor s)) = target p s"
    and target_save: "inv s \<Longrightarrow> target p (snd (save snap s)) = target p s"
    and named_claim: "named k n s \<Longrightarrow> named k n (snd (claim pid floor s))"
    and named_save: "named k n s \<Longrightarrow> named k n (snd (save snap s))"
    and load_version: "named k n s \<Longrightarrow> row k s = Some r \<Longrightarrow> \<exists>c. load n s = Some c \<and> cs_version c = cs_version r"
    and key_rebase: "key_of (snap\<lparr>cs_version := v\<rparr>) = key_of snap"
    and claim_row: "inv s \<Longrightarrow> row k s = Some r \<Longrightarrow>
      \<exists>e. row k (snd (claim pid floor s)) = Some (r\<lparr>cs_epoch := e\<rparr>) \<and> cs_epoch r \<le> e"
    and claim_mints: "inv s \<Longrightarrow> fst (claim pid floor s) = Inr e \<Longrightarrow>
      \<exists>k r. target pid s = Some k \<and> row k s = Some r \<and> cs_epoch r < e \<and> floor < e \<and> row k (snd (claim pid floor s)) = Some (r\<lparr>cs_epoch := e\<rparr>)"
    and save_row: "inv s \<Longrightarrow> row k s = Some r \<Longrightarrow>
      \<exists>r'. row k (snd (save snap s)) = Some r' \<and> cs_epoch r \<le> cs_epoch r' \<and> cs_epoch r' \<le> max (cs_epoch r) (cs_epoch snap) \<and>
        cs_version r' \<le> cs_version r + 1"
    and save_not_owner: "inv s \<Longrightarrow> key_of snap = Some k \<Longrightarrow> row k s = Some r \<Longrightarrow> cs_epoch snap < cs_epoch r \<Longrightarrow>
      save snap s = (Inr ((no_result SaveNotOwner)\<lparr>CurVersion := cs_version r, CurOwnerEpoch := cs_epoch r\<rparr>), s)"
    and save_stale: "inv s \<Longrightarrow> fits (cs_version snap) \<Longrightarrow> fits (cs_epoch snap) \<Longrightarrow> key_of snap = Some k \<Longrightarrow> row k s = Some r \<Longrightarrow>
      cs_epoch r \<le> cs_epoch snap \<Longrightarrow> cs_version r \<noteq> cs_version snap \<Longrightarrow>
      save snap s = (Inr ((no_result SaveStaleVersion)\<lparr>CurVersion := cs_version r, CurOwnerEpoch := cs_epoch r\<rparr>), s)"
    and save_applies: "inv s \<Longrightarrow> fits (cs_version snap) \<Longrightarrow> fits (cs_epoch snap) \<Longrightarrow> key_of snap = Some k \<Longrightarrow> row k s = Some r \<Longrightarrow>
      cs_epoch r \<le> cs_epoch snap \<Longrightarrow> cs_version r = cs_version snap \<Longrightarrow>
      \<exists>s' r'. save snap s = (Inr ((no_result SaveApplied)\<lparr>NewVersion := cs_version r + 1, CurVersion := cs_version r, CurOwnerEpoch := cs_epoch r\<rparr>), s') \<and>
        row k s' = Some r' \<and> cs_version r' = cs_version r + 1 \<and> cs_epoch r' = cs_epoch snap \<and> cs_state r' = cs_state snap \<and> cs_room r' = cs_room snap"
begin

lemma run_inv: "inv s \<Longrightarrow> inv (store_run claim save ops s)"
proof (induction ops arbitrary: s)
  case (Cons op ops)
  then have "inv (store_step claim save op s)" by (cases op) (simp_all add: inv_claim inv_save)
  then show ?case using Cons.IH by (simp add: store_run_def)
qed (simp add: store_run_def)

lemma run_named: "named k n s \<Longrightarrow> named k n (store_run claim save ops s)"
proof (induction ops arbitrary: s)
  case (Cons op ops)
  then have "named k n (store_step claim save op s)" by (cases op) (simp_all add: named_claim named_save)
  then show ?case using Cons.IH by (simp add: store_run_def)
qed (simp add: store_run_def)

lemma run_row:
  assumes "inv s" "row k s = Some r"
  shows "\<exists>r'. row k (store_run claim save ops s) = Some r' \<and> cs_epoch r \<le> cs_epoch r' \<and>
           cs_version r' \<le> cs_version r + length ops"
  using assms
proof (induction ops arbitrary: s r)
  case (Cons op ops)
  have i: "inv (store_step claim save op s)" using run_inv [OF Cons.prems(1), of "[op]"] by (simp add: store_run_def)
  obtain r1 where r1: "row k (store_step claim save op s) = Some r1" "cs_epoch r \<le> cs_epoch r1" "cs_version r1 \<le> cs_version r + 1"
  proof (cases op)
    case (Op_Claim pid floor)
    then show ?thesis using claim_row [OF Cons.prems, of pid floor] that by fastforce
  next
    case (Op_Save snap)
    then show ?thesis using save_row [OF Cons.prems, of snap] that by fastforce
  qed
  from Cons.IH [OF i r1(1)] obtain r2 where "row k (store_run claim save ops (store_step claim save op s)) = Some r2"
    "cs_epoch r1 \<le> cs_epoch r2" "cs_version r2 \<le> cs_version r1 + length ops" by blast
  then show ?case using r1(2,3) by (simp add: store_run_def)
qed (simp add: store_run_def)

text \<open>The fence: once a character's epoch is above a snapshot's, that snapshot is refused after any history.\<close>

lemma fence:
  assumes "inv s" "row k s = Some r" "cs_epoch snap < cs_epoch r" "key_of snap = Some k"
  shows "\<exists>cv ce. cs_epoch snap < ce \<and>
    save snap (store_run claim save ops s) =
      (Inr ((no_result SaveNotOwner)\<lparr>CurVersion := cv, CurOwnerEpoch := ce\<rparr>), store_run claim save ops s)"
proof -
  obtain r' where r': "row k (store_run claim save ops s) = Some r'" "cs_epoch r \<le> cs_epoch r'" using run_row [OF assms(1,2)] by blast
  then have "cs_epoch snap < cs_epoch r'" using assms(3) by simp
  then show ?thesis using save_not_owner [OF run_inv [OF assms(1)] assms(4) r'(1)] by blast
qed

text \<open>Epochs are minted once each: a later claim of the same character is strictly greater.\<close>

lemma run_target: "inv s \<Longrightarrow> target p (store_run claim save ops s) = target p s"
proof (induction ops arbitrary: s)
  case (Cons op ops)
  have "inv (store_step claim save op s)" using run_inv [OF Cons.prems, of "[op]"] by (simp add: store_run_def)
  moreover have "target p (store_step claim save op s) = target p s"
    using Cons.prems by (cases op) (simp_all add: target_claim target_save)
  ultimately show ?case using Cons.IH by (simp add: store_run_def)
qed (simp add: store_run_def)

lemma claims_increase:
  assumes "inv s" "claim pid floor s = (Inr e, s1)" "claim pid floor2 (store_run claim save ops s1) = (Inr e2, s2)"
  shows "e < e2 \<and> floor < e \<and> floor2 < e2"
proof -
  let ?s = "store_run claim save ops s1"
  have i1: "inv s1" using inv_claim [OF assms(1), of pid floor] assms(2) by simp
  obtain k r where k: "target pid s = Some k" "row k s1 = Some (r\<lparr>cs_epoch := e\<rparr>)" "floor < e"
    using claim_mints [OF assms(1), of pid floor e] assms(2) by auto
  obtain k2 r2 where k2: "target pid ?s = Some k2" "row k2 ?s = Some r2" "cs_epoch r2 < e2" "floor2 < e2"
    using claim_mints [OF run_inv [OF i1], of pid floor2 ops e2] assms(3) by auto
  have "target pid s1 = Some k" using target_claim [OF assms(1), of pid pid floor] assms(2) k(1) by simp
  then have "k2 = k" using run_target [OF i1, of pid ops] k2(1) by simp
  moreover obtain r' where "row k ?s = Some r'" "e \<le> cs_epoch r'" using run_row [OF i1 k(2), of ops] by auto
  ultimately show ?thesis using k(3) k2 by simp
qed

end

section \<open>A saver over any such store\<close>

text \<open>What the other shards did between two calls, and the table they alone would have left.\<close>

definition env_of ::
  "(string \<Rightarrow> nat \<Rightarrow> 's \<Rightarrow> (store_error + nat) \<times> 's) \<Rightarrow> (CharSnapshot \<Rightarrow> 's \<Rightarrow> (store_error + SaveResult) \<times> 's) \<Rightarrow> (nat \<Rightarrow> store_op list) \<Rightarrow> nat \<Rightarrow> 's \<Rightarrow> 's" where
  "env_of claim save ops n s = store_run claim save (ops n) s"

definition ops_between :: "(nat \<Rightarrow> store_op list) \<Rightarrow> nat \<Rightarrow> nat \<Rightarrow> store_op list" where
  "ops_between ops a b = concat (map ops [a..<b])"

lemma ops_between_Suc: "a \<le> b \<Longrightarrow> ops_between ops a (Suc b) = ops_between ops a b @ ops b"
  by (simp add: ops_between_def)

lemma store_run_append: "store_run claim save (xs @ ys) s = store_run claim save ys (store_run claim save xs s)"
  by (simp add: store_run_def)

context character_store
begin

lemma save_call_fenced:
  assumes "inv (db t)" "row k (db t) = Some r" "cs_epoch snap < cs_epoch r" "key_of snap = Some k"
  shows "\<exists>res. tier_save save nets (env_of claim save ops) snap t =
           (res, t\<lparr>db := store_run claim save (ops (calls t)) (db t), calls := calls t + 1\<rparr>) \<and>
         (\<forall>v. res = Inr v \<longrightarrow> Outcome v = SaveNotOwner \<and> cs_epoch snap < CurOwnerEpoch v) \<and>
         (nets (calls t) = Served \<longrightarrow> (\<exists>v. res = Inr v))"
proof -
  obtain cv ce where f: "cs_epoch snap < ce"
    "save snap (store_run claim save (ops (calls t)) (db t)) =
      (Inr ((no_result SaveNotOwner)\<lparr>CurVersion := cv, CurOwnerEpoch := ce\<rparr>), store_run claim save (ops (calls t)) (db t))"
    using fence [OF assms] by blast
  show ?thesis using f
    by (cases "nets (calls t)") (auto simp: tier_save_def db_call_def env_of_def no_result_def)
qed

lemma flush_fenced:
  assumes "inv (db t)" "row k (db t) = Some r" "cs_epoch (rq_snap req) < cs_epoch r" "key_of (rq_snap req) = Some k"
  shows "\<exists>msgs. flush_tier (tier_save save nets (env_of claim save ops)) load' expired present req t =
           (msgs, t\<lparr>db := store_run claim save (ops (calls t)) (db t), calls := calls t + 1\<rparr>) \<and>
         (msgs = [] \<and> nets (calls t) \<noteq> Served \<or>
          (\<exists>ce. cs_epoch (rq_snap req) < ce \<and> msgs = [saveNotOwnerMsg (rq_id req) (cs_epoch (rq_snap req)) ce]))"
proof -
  obtain res where "tier_save save nets (env_of claim save ops) (rq_snap req) t =
           (res, t\<lparr>db := store_run claim save (ops (calls t)) (db t), calls := calls t + 1\<rparr>)"
    "\<forall>v. res = Inr v \<longrightarrow> Outcome v = SaveNotOwner \<and> cs_epoch (rq_snap req) < CurOwnerEpoch v"
    "nets (calls t) = Served \<longrightarrow> (\<exists>v. res = Inr v)"
    using save_call_fenced [OF assms] by blast
  then show ?thesis by (cases res) (auto simp: flush_tier_def Let_def)
qed

text \<open>A request of a session that has lost its character leaves the table to the others, whatever the reason and the fates.\<close>

lemma handle_fenced:
  assumes "inv (db t)" "row k (db t) = Some r" "cs_epoch (rq_snap req) < cs_epoch r" "key_of (rq_snap req) = Some k"
    "handle (Some (tier_save save nets (env_of claim save ops), load')) (map_option tier_ckpt ck) expired present req t = (msgs, t')"
  shows "db t' = store_run claim save (ops_between ops (calls t) (calls t')) (db t) \<and>
         (\<forall>msg \<in> set msgs. \<exists>ce > cs_epoch (rq_snap req). msg = saveNotOwnerMsg (rq_id req) (cs_epoch (rq_snap req)) ce) \<and>
         (flush (rq_reason req) \<and> nets (calls t) = Served \<longrightarrow> msgs \<noteq> [])"
proof -
  define s1 where "s1 = snd (case map_option tier_ckpt ck of None \<Rightarrow> (Ckpt_Written, t) | Some c \<Rightarrow> c (rq_snap req) t)"
  define reply where "reply = fst (case map_option tier_ckpt ck of None \<Rightarrow> (Ckpt_Written, t) | Some c \<Rightarrow> c (rq_snap req) t)"
  have s1: "db s1 = db t" "calls s1 = calls t" by (auto simp: s1_def tier_ckpt_def split: option.splits prod.splits)
  have c: "(case map_option tier_ckpt ck of None \<Rightarrow> (Ckpt_Written, t) | Some c \<Rightarrow> c (rq_snap req) t) = (reply, s1)"
    by (simp add: s1_def reply_def)
  note h = assms(5) [unfolded handle_def Let_def c]
  show ?thesis
  proof (cases "reply = ErrCheckpointNotOwner \<or> \<not> flush (rq_reason req)")
    case True
    then have "t' = s1" "msgs = [] \<and> \<not> flush (rq_reason req) \<or> msgs = [saveNotOwnerMsg (rq_id req) (cs_epoch (rq_snap req)) (cs_epoch (rq_snap req) + 1)]"
      using h by (auto split: ckpt_reply.splits)
    then show ?thesis using s1 by (auto simp: ops_between_def store_run_def)
  next
    case False
    then have "flush_tier (tier_save save nets (env_of claim save ops)) load' expired present req s1 = (msgs, t')"
      using h by (auto split: ckpt_reply.splits)
    then show ?thesis using flush_fenced [of s1 k r req nets ops load' expired present] assms(1-4) s1
      by (auto simp: ops_between_def)
  qed
qed

end

text \<open>Other shards that flush the character without claiming it: no epoch above \<open>e\<close> appears.\<close>

definition no_claims :: "nat \<Rightarrow> (nat \<Rightarrow> store_op list) \<Rightarrow> bool" where
  "no_claims e ops \<longleftrightarrow> (\<forall>n. list_all (\<lambda>op. case op of Op_Claim _ _ \<Rightarrow> False | Op_Save sn \<Rightarrow> cs_epoch sn \<le> e) (ops n))"

lemma ops_between_Cons: "a < b \<Longrightarrow> ops_between ops a b = ops a @ ops_between ops (Suc a) b"
  by (simp add: ops_between_def upt_conv_Cons)

text \<open>What a landed flush leaves behind.\<close>

definition landed :: "('k \<Rightarrow> 's \<Rightarrow> CharSnapshot option) \<Rightarrow> 'k \<Rightarrow> string \<Rightarrow> CharSnapshot \<Rightarrow> zone_msg list \<times> ('s, 'c) tiers \<Rightarrow> bool" where
  "landed row k i snap res \<longleftrightarrow> (\<exists>r'. row k (db (snd res)) = Some r' \<and> cs_state r' = cs_state snap \<and> cs_room r' = cs_room snap \<and>
     cs_epoch r' = cs_epoch snap \<and> fst res = [saveOkMsg i (cs_version r')])"

context character_store
begin

lemma run_no_claims:
  assumes "inv s" "row k s = Some r" "cs_epoch r \<le> e"
    "list_all (\<lambda>op. case op of Op_Claim _ _ \<Rightarrow> False | Op_Save sn \<Rightarrow> cs_epoch sn \<le> e) ops"
  shows "\<exists>r'. row k (store_run claim save ops s) = Some r' \<and> cs_epoch r' \<le> e \<and> cs_version r' \<le> cs_version r + length ops"
  using assms
proof (induction ops arbitrary: s r)
  case (Cons op ops)
  obtain sn where op: "op = Op_Save sn" "cs_epoch sn \<le> e" using Cons.prems(4) by (cases op) auto
  obtain r1 where r1: "row k (snd (save sn s)) = Some r1" "cs_epoch r1 \<le> e" "cs_version r1 \<le> cs_version r + 1"
    using save_row [OF Cons.prems(1,2), of sn] Cons.prems(3) op(2) by auto
  have "list_all (\<lambda>op. case op of Op_Claim _ _ \<Rightarrow> False | Op_Save sn \<Rightarrow> cs_epoch sn \<le> e) ops" using Cons.prems(4) by simp
  from Cons.IH [OF inv_save [OF Cons.prems(1)] r1(1,2) this] obtain r2
    where "row k (store_run claim save ops (snd (save sn s))) = Some r2" "cs_epoch r2 \<le> e" "cs_version r2 \<le> cs_version r1 + length ops"
    by blast
  then show ?case using r1(3) op(1) by (simp add: store_run_def)
qed (simp add: store_run_def)

text \<open>One served save call whose snapshot fits: it lands, or is refused as stale and reports the row it met.\<close>

lemma save_call_served:
  assumes "inv (db t)" "row k (db t) = Some r" "cs_epoch r \<le> cs_epoch snap" "key_of snap = Some k" "no_claims (cs_epoch snap) ops"
    "\<forall>n. nets n = Served" "fits (cs_epoch snap)" "fits (cs_version snap)"
  obtains (lands) res t' r' where "tier_save save nets (env_of claim save ops) snap t = (Inr res, t')" "Outcome res = SaveApplied"
      "row k (db t') = Some r'" "cs_state r' = cs_state snap" "cs_room r' = cs_room snap" "cs_epoch r' = cs_epoch snap"
      "NewVersion res = cs_version r'"
  | (stale) res t' r' where "tier_save save nets (env_of claim save ops) snap t = (Inr res, t')" "Outcome res = SaveStaleVersion"
      "db t' = store_run claim save (ops (calls t)) (db t)" "calls t' = calls t + 1" "row k (db t') = Some r'" "CurVersion res = cs_version r'"
      "cs_version r' \<noteq> cs_version snap" "cs_epoch r' \<le> cs_epoch snap" "cs_version r' \<le> cs_version r + length (ops (calls t))"
proof -
  let ?s = "store_run claim save (ops (calls t)) (db t)"
  have i: "inv ?s" by (rule run_inv [OF assms(1)])
  obtain r1 where r1: "row k ?s = Some r1" "cs_epoch r1 \<le> cs_epoch snap" "cs_version r1 \<le> cs_version r + length (ops (calls t))"
    using run_no_claims [OF assms(1-3)] assms(5) by (auto simp: no_claims_def)
  have call: "tier_save save nets (env_of claim save ops) snap t =
      (case save snap ?s of (Inl e, s') \<Rightarrow> (Inl (case e of Store_Failed m \<Rightarrow> m | ErrNoCharacterRow \<Rightarrow> ''no row''), t\<lparr>db := s', calls := calls t + 1\<rparr>)
                     | (Inr v, s') \<Rightarrow> (Inr v, t\<lparr>db := s', calls := calls t + 1\<rparr>))"
    using assms(6) by (auto simp: tier_save_def db_call_def env_of_def split: prod.splits sum.splits)
  show thesis
  proof (cases "cs_version r1 = cs_version snap")
    case True
    obtain s' r' where "save snap ?s = (Inr ((no_result SaveApplied)\<lparr>NewVersion := cs_version r1 + 1, CurVersion := cs_version r1, CurOwnerEpoch := cs_epoch r1\<rparr>), s')"
      "row k s' = Some r'" "cs_version r' = cs_version r1 + 1" "cs_epoch r' = cs_epoch snap" "cs_state r' = cs_state snap" "cs_room r' = cs_room snap"
      using save_applies [OF i assms(8,7,4) r1(1,2) True] by blast
    then show ?thesis
      by (intro lands [of "(no_result SaveApplied)\<lparr>NewVersion := cs_version r1 + 1, CurVersion := cs_version r1, CurOwnerEpoch := cs_epoch r1\<rparr>"
            "t\<lparr>db := s', calls := calls t + 1\<rparr>" r']) (simp_all add: call no_result_def)
  next
    case False
    from save_stale [OF i assms(8,7,4) r1(1,2) False] show ?thesis
      using r1 False by (intro stale) (auto simp: call no_result_def)
  qed
qed

lemma load_call_served:
  assumes "inv (db t)" "named k n (db t)" "row k (db t) = Some r" "cs_epoch r \<le> e" "no_claims e ops" "\<forall>n. nets n = Served"
  obtains c r' t' where "tier_load load nets (env_of claim save ops) n t = (Inr (Some c), t')" "row k (db t') = Some r'"
    "cs_version c = cs_version r'" "cs_epoch r' \<le> e" "cs_version r' \<le> cs_version r + length (ops (calls t))"
    "inv (db t')" "named k n (db t')" "calls t' = calls t + 1"
proof -
  let ?s = "store_run claim save (ops (calls t)) (db t)"
  obtain r1 where r1: "row k ?s = Some r1" "cs_epoch r1 \<le> e" "cs_version r1 \<le> cs_version r + length (ops (calls t))"
    using run_no_claims [OF assms(1,3,4)] assms(5) by (auto simp: no_claims_def)
  obtain c where "load n ?s = Some c" "cs_version c = cs_version r1" using load_version [OF run_named [OF assms(2)] r1(1)] by blast
  then show thesis
    using r1 run_inv [OF assms(1)] run_named [OF assms(2)] assms(6)
    by (intro that [of c "t\<lparr>db := ?s, calls := calls t + 1\<rparr>" r1]) (auto simp: tier_load_def db_call_def env_of_def)
qed

lemma finalize_retry_lands:
  assumes "inv (db t)" "named k (cs_name snap) (db t)" "row k (db t) = Some r" "cs_epoch r \<le> cs_epoch snap" "key_of snap = Some k"
    "no_claims (cs_epoch snap) ops" "\<forall>n. nets n = Served" "fits (cs_epoch snap)" "\<forall>m \<le> N. fits m"
    "calls t + 2 * n \<le> lim" "cs_version r + length (ops_between ops (calls t) lim) \<le> N"
    "a > 0" "j < n" "ops (calls t + 2 * j + 1) = []"
  shows "landed row k i snap (finalize_from (tier_save save nets (env_of claim save ops)) (tier_load load nets (env_of claim save ops))
           (\<lambda>_. False) (\<lambda>_. False) i snap v a n t)"
  using assms
proof (induction n arbitrary: a t r j v)
  case (Suc n)
  obtain c r1 t1 where l: "tier_load load nets (env_of claim save ops) (cs_name snap) t = (Inr (Some c), t1)" "row k (db t1) = Some r1"
    "cs_version c = cs_version r1" "cs_epoch r1 \<le> cs_epoch snap" "cs_version r1 \<le> cs_version r + length (ops (calls t))"
    "inv (db t1)" "named k (cs_name snap) (db t1)" "calls t1 = calls t + 1"
    using load_call_served [OF Suc.prems(1-4,6,7)] by blast
  have split: "ops_between ops (calls t) lim = ops (calls t) @ ops (calls t + 1) @ ops_between ops (calls t + 2) lim"
    using Suc.prems(10) by (simp add: ops_between_Cons)
  have f: "fits (cs_version (snap\<lparr>cs_version := cs_version c\<rparr>))" using Suc.prems(9,11) l(3,5) split by simp
  show ?case
  proof (rule save_call_served [where t = t1 and k = k and r = r1 and snap = "snap\<lparr>cs_version := cs_version c\<rparr>" and nets = nets and ops = ops])
    fix res t' r'
    assume "tier_save save nets (env_of claim save ops) (snap\<lparr>cs_version := cs_version c\<rparr>) t1 = (Inr res, t')" "Outcome res = SaveApplied"
      "row k (db t') = Some r'" "cs_state r' = cs_state (snap\<lparr>cs_version := cs_version c\<rparr>)" "cs_room r' = cs_room (snap\<lparr>cs_version := cs_version c\<rparr>)"
      "cs_epoch r' = cs_epoch (snap\<lparr>cs_version := cs_version c\<rparr>)" "NewVersion res = cs_version r'"
    then show ?thesis using l(1) Suc.prems(12) by (simp add: landed_def)
  next
    fix res t' r'
    assume s: "tier_save save nets (env_of claim save ops) (snap\<lparr>cs_version := cs_version c\<rparr>) t1 = (Inr res, t')" "Outcome res = SaveStaleVersion"
      "db t' = store_run claim save (ops (calls t1)) (db t1)" "calls t' = calls t1 + 1" "row k (db t') = Some r'"
      "cs_version r' \<noteq> cs_version (snap\<lparr>cs_version := cs_version c\<rparr>)" "cs_epoch r' \<le> cs_epoch (snap\<lparr>cs_version := cs_version c\<rparr>)"
      "cs_version r' \<le> cs_version r1 + length (ops (calls t1))"
    have "j \<noteq> 0"
    proof
      assume "j = 0"
      then have "db t' = db t1" using s(3) Suc.prems(14) l(8) by (simp add: store_run_def)
      then show False using s(5,6) l(2,3) by simp
    qed
    then obtain j' where j: "j = Suc j'" by (cases j) auto
    have step: "finalize_from (tier_save save nets (env_of claim save ops)) (tier_load load nets (env_of claim save ops)) (\<lambda>_. False) (\<lambda>_. False) i snap v a (Suc n) t =
        finalize_from (tier_save save nets (env_of claim save ops)) (tier_load load nets (env_of claim save ops)) (\<lambda>_. False) (\<lambda>_. False) i snap (cs_version c) (a + 1) n t'"
      using l(1) s(1,2) Suc.prems(12) by simp
    show ?thesis unfolding step
      by (rule Suc.IH [where r = r' and j = j'])
        (use Suc.prems s l j split in \<open>simp_all add: run_inv run_named\<close>)
  qed (use Suc.prems l f in \<open>simp_all add: key_rebase\<close>)
qed simp

end

context character_store
begin

text \<open>
  A final flush lands if one of its save calls meets a row that nobody wrote since the saver last read its
  version: the first call, or the one of any of the eight attempts.
\<close>

lemma final_flush_lands:
  assumes "inv (db t)" "named k (cs_name (rq_snap req)) (db t)" "row k (db t) = Some r" "cs_epoch r \<le> cs_epoch (rq_snap req)"
    "key_of (rq_snap req) = Some k" "no_claims (cs_epoch (rq_snap req)) ops" "\<forall>n. nets n = Served"
    "fits (cs_epoch (rq_snap req))" "fits (cs_version (rq_snap req))"
    "\<forall>m \<le> cs_version r + length (ops_between ops (calls t) (calls t + 17)). fits m"
    "rq_reason req = saveFinal" "j < finalFlushRetries" "ops (calls t + 2 * j + 1) = []"
  shows "landed row k (rq_id req) (rq_snap req)
           (flush_tier (tier_save save nets (env_of claim save ops)) (tier_load load nets (env_of claim save ops))
             (\<lambda>_. False) (\<lambda>_. False) req t)"
proof -
  let ?save = "tier_save save nets (env_of claim save ops)" and ?load = "tier_load load nets (env_of claim save ops)"
  let ?snap = "rq_snap req" and ?lim = "calls t + 17"
  define n7 :: nat where "n7 = 7"
  show ?thesis
  proof (rule save_call_served [OF assms(1,3-9)])
    fix res t' r'
    assume "?save ?snap t = (Inr res, t')" "Outcome res = SaveApplied" "row k (db t') = Some r'" "cs_state r' = cs_state ?snap"
      "cs_room r' = cs_room ?snap" "cs_epoch r' = cs_epoch ?snap" "NewVersion res = cs_version r'"
    then show ?thesis by (simp add: flush_tier_def landed_def Let_def)
  next
    fix res t1 r1
    assume s: "?save ?snap t = (Inr res, t1)" "Outcome res = SaveStaleVersion" "db t1 = store_run claim save (ops (calls t)) (db t)"
      "calls t1 = calls t + 1" "row k (db t1) = Some r1" "CurVersion res = cs_version r1" "cs_epoch r1 \<le> cs_epoch ?snap"
      "cs_version r1 \<le> cs_version r + length (ops (calls t))"
    have f: "flush_tier ?save ?load (\<lambda>_. False) (\<lambda>_. False) req t =
        finalize_from ?save ?load (\<lambda>_. False) (\<lambda>_. False) (rq_id req) ?snap (cs_version r1) 0 (Suc n7) t1"
      using s(1,2,6) assms(11) by (simp add: flush_tier_def finalizeFlush_def finalFlushRetries_def n7_def Let_def)
    have split: "ops_between ops (calls t) ?lim = ops (calls t) @ ops (calls t + 1) @ ops_between ops (calls t + 2) ?lim"
      by (simp add: ops_between_Cons)
    have fit: "fits (cs_version (?snap\<lparr>cs_version := cs_version r1\<rparr>))" using assms(10) s(8) split by simp
    have i1: "inv (db t1)" "named k (cs_name ?snap) (db t1)" using assms(1,2) s(3) by (simp_all add: run_inv run_named)
    show ?thesis unfolding f
    proof (rule save_call_served [where t = t1 and k = k and r = r1 and snap = "?snap\<lparr>cs_version := cs_version r1\<rparr>" and nets = nets and ops = ops])
      fix res t' r'
      assume "?save (?snap\<lparr>cs_version := cs_version r1\<rparr>) t1 = (Inr res, t')" "Outcome res = SaveApplied" "row k (db t') = Some r'"
        "cs_state r' = cs_state (?snap\<lparr>cs_version := cs_version r1\<rparr>)" "cs_room r' = cs_room (?snap\<lparr>cs_version := cs_version r1\<rparr>)"
        "cs_epoch r' = cs_epoch (?snap\<lparr>cs_version := cs_version r1\<rparr>)" "NewVersion res = cs_version r'"
      then show "landed row k (rq_id req) ?snap (finalize_from ?save ?load (\<lambda>_. False) (\<lambda>_. False) (rq_id req) ?snap (cs_version r1) 0 (Suc n7) t1)"
        by (simp add: landed_def)
    next
      fix res2 t2 r2
      assume s2: "?save (?snap\<lparr>cs_version := cs_version r1\<rparr>) t1 = (Inr res2, t2)" "Outcome res2 = SaveStaleVersion"
        "db t2 = store_run claim save (ops (calls t1)) (db t1)" "calls t2 = calls t1 + 1" "row k (db t2) = Some r2"
        "cs_version r2 \<noteq> cs_version (?snap\<lparr>cs_version := cs_version r1\<rparr>)" "cs_epoch r2 \<le> cs_epoch (?snap\<lparr>cs_version := cs_version r1\<rparr>)"
        "cs_version r2 \<le> cs_version r1 + length (ops (calls t1))"
      have "j \<noteq> 0"
      proof
        assume "j = 0"
        then have "db t2 = db t1" using s2(3) assms(13) s(4) by (simp add: store_run_def)
        then show False using s2(5,6) s(5) by simp
      qed
      then obtain j' where j: "j = Suc j'" by (cases j) auto
      have step: "finalize_from ?save ?load (\<lambda>_. False) (\<lambda>_. False) (rq_id req) ?snap (cs_version r1) 0 (Suc n7) t1 =
          finalize_from ?save ?load (\<lambda>_. False) (\<lambda>_. False) (rq_id req) ?snap (cs_version r1) 1 n7 t2"
        using s2(1,2) by simp
      show "landed row k (rq_id req) ?snap (finalize_from ?save ?load (\<lambda>_. False) (\<lambda>_. False) (rq_id req) ?snap (cs_version r1) 0 (Suc n7) t1)"
        unfolding step
        by (rule finalize_retry_lands [where r = r2 and j = j' and lim = ?lim
              and N = "cs_version r + length (ops_between ops (calls t) ?lim)"])
          (use assms s s2 j split i1 in \<open>simp_all add: run_inv run_named finalFlushRetries_def n7_def\<close>)
    qed (use assms s i1 fit in \<open>simp_all add: key_rebase\<close>)
  qed
qed

end

section \<open>Both stores keep the contract\<close>

lemma find_map: "(\<And>x. P (g x) = P x) \<Longrightarrow> find P (map g xs) = map_option g (find P xs)"
  by (induction xs) auto

definition row_snap :: "('u \<Rightarrow> string) \<Rightarrow> 'u char_row \<Rightarrow> CharSnapshot" where
  "row_snap str r = \<lparr>cs_pid = str (pg_id r), cs_name = pg_name r, cs_zone = derefStr (pg_zone r), cs_room = derefStr (pg_room r),
     cs_version = pg_version r, cs_state = pg_state r, cs_epoch = pg_epoch r, cs_chargen = pg_chargen r\<rparr>"

definition pg_row :: "('u \<Rightarrow> string) \<Rightarrow> 'u \<Rightarrow> 'u characters \<Rightarrow> CharSnapshot option" where
  "pg_row str u t = map_option (row_snap str) (live_row u t)"

definition pg_key :: "(string \<Rightarrow> 'u option) \<Rightarrow> CharSnapshot \<Rightarrow> 'u option" where
  "pg_key parse snap = (if cs_pid snap = '''' then None else parse (cs_pid snap))"

text \<open>The name finds the live row with the identifier \<open>u\<close>: names of live characters are unique.\<close>

definition pg_named :: "(string \<Rightarrow> string) \<Rightarrow> 'u \<Rightarrow> string \<Rightarrow> 'u characters \<Rightarrow> bool" where
  "pg_named ci u n t \<longleftrightarrow> find (\<lambda>r. ci (pg_name r) = ci n \<and> \<not> pg_deleted r) t = live_row u t"

text \<open>The identifier is the primary key, and a BIGINT holds what it can.\<close>

definition pg_inv :: "'u characters \<Rightarrow> bool" where
  "pg_inv t \<longleftrightarrow> distinct (map pg_id t) \<and> (\<forall>r \<in> set t. pg_version r \<le> maxInt64 \<and> pg_epoch r \<le> maxInt64)"

definition pg_fits :: "nat \<Rightarrow> bool" where "pg_fits n \<longleftrightarrow> n < maxInt64"

text \<open>Every statement leaves the table alone or changes one live row in place.\<close>

definition touches :: "'u \<Rightarrow> ('u char_row \<Rightarrow> 'u char_row) \<Rightarrow> bool" where
  "touches u f \<longleftrightarrow> (\<forall>r. pg_id (f r) = pg_id r \<and> pg_name (f r) = pg_name r \<and> pg_deleted (f r) = pg_deleted r)"

lemma update_live_row: "touches u f \<Longrightarrow> live_row v (update_live u f t) = map_option (\<lambda>r. if v = u then f r else r) (live_row v t)"
proof -
  assume t: "touches u f"
  have "live_row v (update_live u f t) = map_option (\<lambda>r. if pg_id r = u \<and> \<not> pg_deleted r then f r else r) (live_row v t)"
    unfolding live_row_def update_live_def using t by (intro find_map) (auto simp: touches_def)
  moreover have "pg_id r = v \<and> \<not> pg_deleted r" if "live_row v t = Some r" for r
    using that by (auto simp: live_row_def find_Some_iff)
  ultimately show ?thesis by (cases "live_row v t") auto
qed

lemma update_live_named: "touches u f \<Longrightarrow> pg_named ci v n t \<Longrightarrow> pg_named ci v n (update_live u f t)"
proof -
  assume t: "touches u f" and n: "pg_named ci v n t"
  let ?g = "\<lambda>r. if pg_id r = u \<and> \<not> pg_deleted r then f r else r"
  have "find (\<lambda>r. ci (pg_name r) = ci n \<and> \<not> pg_deleted r) (map ?g t) = map_option ?g (find (\<lambda>r. ci (pg_name r) = ci n \<and> \<not> pg_deleted r) t)"
    using t by (intro find_map) (auto simp: touches_def)
  moreover have "live_row v (map ?g t) = map_option ?g (live_row v t)"
    unfolding live_row_def using t by (intro find_map) (auto simp: touches_def)
  ultimately show ?thesis using n by (simp add: pg_named_def update_live_def)
qed

lemma live_row_bounds: "pg_inv t \<Longrightarrow> live_row u t = Some r \<Longrightarrow> pg_version r \<le> maxInt64 \<and> pg_epoch r \<le> maxInt64"
  by (auto simp: pg_inv_def live_row_def find_Some_iff)

lemma pg_claim_cases:
  obtains (refused) e where "pg_ClaimCharacter parse pid floor t = (Inl e, t)"
  | (minted) u r e where "parse pid = Some u" "live_row u t = Some r" "e = max (pg_epoch r) (stateVersionParam floor) + 1" "e \<le> maxInt64"
      "floor \<le> maxOwnerEpoch" "pg_ClaimCharacter parse pid floor t = (Inr e, update_live u (\<lambda>r. r\<lparr>pg_epoch := e\<rparr>) t)"
proof (cases "\<exists>u r. parse pid = Some u \<and> live_row u t = Some r \<and> floor \<le> maxOwnerEpoch \<and>
    max (pg_epoch r) (stateVersionParam floor) + 1 \<le> maxInt64")
  case True
  then obtain u r where "parse pid = Some u" "live_row u t = Some r" "floor \<le> maxOwnerEpoch"
    "max (pg_epoch r) (stateVersionParam floor) + 1 \<le> maxInt64" by blast
  then show ?thesis by (intro minted) (simp_all add: pg_ClaimCharacter_def Let_def)
next
  case False
  then have "\<exists>e. pg_ClaimCharacter parse pid floor t = (Inl e, t)"
    by (auto simp: pg_ClaimCharacter_def Let_def not_le split: option.splits)
  then show ?thesis using refused by blast
qed

definition applied_row :: "CharSnapshot \<Rightarrow> 'u char_row \<Rightarrow> 'u char_row" where
  "applied_row snap c = c\<lparr>pg_state := cs_state snap,
     pg_zone := (case nullStr (cs_zone snap) of None \<Rightarrow> pg_zone c | Some z \<Rightarrow> Some z),
     pg_room := nullStr (cs_room snap), pg_version := pg_version c + 1,
     pg_epoch := max (pg_epoch c) (stateVersionParam (cs_epoch snap)), pg_chargen := None\<rparr>"

lemma pg_save_cases:
  obtains (refused) r where "pg_SaveCharacter parse snap t = (r, t)"
  | (applied) u pre where "pg_key parse snap = Some u" "live_row u t = Some pre" "pg_version pre = stateVersionParam (cs_version snap)"
      "pg_epoch pre \<le> stateVersionParam (cs_epoch snap)" "pg_version pre < maxInt64"
      "pg_SaveCharacter parse snap t =
        (Inr ((no_result SaveApplied)\<lparr>NewVersion := pg_version pre + 1, CurVersion := pg_version pre, CurOwnerEpoch := pg_epoch pre\<rparr>),
         update_live u (applied_row snap) t)"
proof (cases "\<exists>u pre. pg_key parse snap = Some u \<and> live_row u t = Some pre \<and> pg_version pre = stateVersionParam (cs_version snap) \<and>
    pg_epoch pre \<le> stateVersionParam (cs_epoch snap) \<and> pg_version pre < maxInt64")
  case True
  then obtain u pre where "pg_key parse snap = Some u" "live_row u t = Some pre" "pg_version pre = stateVersionParam (cs_version snap)"
    "pg_epoch pre \<le> stateVersionParam (cs_epoch snap)" "pg_version pre < maxInt64" by blast
  then show ?thesis
    by (intro applied [of u pre]) (simp_all add: pg_SaveCharacter_def pg_key_def Let_def no_result_def applied_row_def [abs_def] split: if_splits)
next
  case False
  then have "snd (pg_SaveCharacter parse snap t) = t"
    by (auto simp: pg_SaveCharacter_def pg_key_def Let_def split: option.splits)
  then show ?thesis using refused by (metis prod.collapse)
qed

lemma touches_claim: "touches u (\<lambda>r. r\<lparr>pg_epoch := e\<rparr>)" and touches_save: "touches u (applied_row snap)"
  by (simp_all add: touches_def applied_row_def)

lemma the_live_row: "pg_inv t \<Longrightarrow> live_row u t = Some pre \<Longrightarrow> r \<in> set t \<Longrightarrow> pg_id r = u \<Longrightarrow> r = pre"
proof -
  assume a: "pg_inv t" "live_row u t = Some pre" "r \<in> set t" "pg_id r = u"
  then have "pre \<in> set t" "pg_id pre = u" by (auto simp: live_row_def find_Some_iff)
  then show ?thesis using a by (auto simp: pg_inv_def distinct_map dest: inj_onD)
qed

lemma pg_inv_update:
  assumes "pg_inv t" "touches u f" "live_row u t = Some pre" "pg_version (f pre) \<le> maxInt64" "pg_epoch (f pre) \<le> maxInt64"
  shows "pg_inv (update_live u f t)"
proof -
  have "map pg_id (update_live u f t) = map pg_id t" using assms(2) by (auto simp: update_live_def touches_def)
  moreover have "pg_version r' \<le> maxInt64 \<and> pg_epoch r' \<le> maxInt64" if r': "r' \<in> set (update_live u f t)" for r'
  proof -
    obtain r where "r \<in> set t" "r' = (if pg_id r = u \<and> \<not> pg_deleted r then f r else r)" using r' by (auto simp: update_live_def)
    then show ?thesis using the_live_row [OF assms(1,3)] assms(1,4,5) by (auto simp: pg_inv_def)
  qed
  ultimately show ?thesis using assms(1) by (simp add: pg_inv_def)
qed

lemma param_le: "stateVersionParam n \<le> maxInt64" "stateVersionParam n \<le> n" "n \<le> maxInt64 \<Longrightarrow> stateVersionParam n = n"
  by (auto simp: stateVersionParam_def)

lemma maxOwnerEpoch_small: "maxOwnerEpoch < maxInt64"
  by (simp add: maxOwnerEpoch_def maxInt64_def)


lemma pg_row_update: "touches u f \<Longrightarrow> pg_row str v (update_live u f t) = map_option (\<lambda>r. row_snap str (if v = u then f r else r)) (live_row v t)"
  by (simp add: pg_row_def update_live_row option.map_comp comp_def)

lemma pg_row_Some: "pg_row str u t = Some r \<longleftrightarrow> (\<exists>c. live_row u t = Some c \<and> r = row_snap str c)"
  by (auto simp: pg_row_def)

lemma pg_inv_claim: "pg_inv t \<Longrightarrow> pg_inv (snd (pg_ClaimCharacter parse pid floor t))"
proof (cases rule: pg_claim_cases [of parse pid floor t])
  case (minted u r e)
  assume i: "pg_inv t"
  have "pg_inv (update_live u (\<lambda>r. r\<lparr>pg_epoch := e\<rparr>) t)"
    by (rule pg_inv_update [OF i touches_claim minted(2)]) (use minted(4) live_row_bounds [OF i minted(2)] in simp_all)
  then show ?thesis using minted(6) by simp
qed simp

lemma pg_inv_save: "pg_inv t \<Longrightarrow> pg_inv (snd (pg_SaveCharacter parse snap t))"
proof (cases rule: pg_save_cases [of parse snap t])
  case (applied u pre)
  assume i: "pg_inv t"
  have "pg_inv (update_live u (applied_row snap) t)"
    by (rule pg_inv_update [OF i touches_save applied(2)])
      (use applied(5) live_row_bounds [OF i applied(2)] param_le(1) in \<open>simp_all add: applied_row_def\<close>)
  then show ?thesis using applied(6) by simp
qed simp

lemma pg_claim_row:
  assumes "pg_row str k t = Some r"
  shows "\<exists>e. pg_row str k (snd (pg_ClaimCharacter parse pid floor t)) = Some (r\<lparr>cs_epoch := e\<rparr>) \<and> cs_epoch r \<le> e"
proof -
  obtain c where c: "live_row k t = Some c" "r = row_snap str c" using assms by (auto simp: pg_row_Some)
  show ?thesis
  proof (cases rule: pg_claim_cases [of parse pid floor t])
    case (refused e)
    then show ?thesis using assms by (auto intro!: exI [of _ "cs_epoch r"])
  next
    case (minted u r' e)
    then have "pg_row str k (snd (pg_ClaimCharacter parse pid floor t)) = Some (row_snap str (if k = u then c\<lparr>pg_epoch := e\<rparr> else c))"
      using c(1) by (simp add: pg_row_update [OF touches_claim])
    moreover have "k = u \<Longrightarrow> pg_epoch c \<le> e" using minted(2,3) c(1) by simp
    ultimately show ?thesis using c(2) by (cases "k = u") (auto simp: row_snap_def intro!: exI [of _ e] exI [of _ "pg_epoch c"])
  qed
qed

lemma pg_claim_mints:
  assumes "pg_inv t" "fst (pg_ClaimCharacter parse pid floor t) = Inr e"
  shows "\<exists>k r. parse pid = Some k \<and> pg_row str k t = Some r \<and> cs_epoch r < e \<and> floor < e \<and>
           pg_row str k (snd (pg_ClaimCharacter parse pid floor t)) = Some (r\<lparr>cs_epoch := e\<rparr>)"
proof (cases rule: pg_claim_cases [of parse pid floor t])
  case (minted u r e')
  have "stateVersionParam floor = floor" using minted(5) maxOwnerEpoch_small param_le(3) by simp
  moreover have "e' = e" using assms(2) minted(6) by simp
  moreover have "pg_row str u (snd (pg_ClaimCharacter parse pid floor t)) = Some (row_snap str (r\<lparr>pg_epoch := e'\<rparr>))"
    using minted(2,6) by (simp add: pg_row_update [OF touches_claim])
  moreover have "pg_row str u t = Some (row_snap str r)" using minted(2) by (simp add: pg_row_def)
  ultimately show ?thesis using minted(1,3)
    by (intro exI [of _ u] exI [of _ "row_snap str r"]) (auto simp: row_snap_def)
qed (use assms(2) in simp)

lemma pg_save_row:
  assumes "pg_inv t" "pg_row str k t = Some r"
  shows "\<exists>r'. pg_row str k (snd (pg_SaveCharacter parse snap t)) = Some r' \<and> cs_epoch r \<le> cs_epoch r' \<and>
           cs_epoch r' \<le> max (cs_epoch r) (cs_epoch snap) \<and> cs_version r' \<le> cs_version r + 1"
proof -
  obtain c where c: "live_row k t = Some c" "r = row_snap str c" using assms by (auto simp: pg_row_Some)
  show ?thesis
  proof (cases rule: pg_save_cases [of parse snap t])
    case (refused x)
    then show ?thesis using assms(2) by auto
  next
    case (applied u pre)
    then have "pg_row str k (snd (pg_SaveCharacter parse snap t)) = Some (row_snap str (if k = u then applied_row snap c else c))"
      using c(1) by (simp add: pg_row_update [OF touches_save])
    then show ?thesis using c(2) param_le(2) [of "cs_epoch snap"] by (auto simp: row_snap_def applied_row_def max_def)
  qed
qed

lemma pg_save_refusals:
  assumes "pg_inv t" "pg_key parse snap = Some k" "pg_row str k t = Some r"
  shows "cs_epoch snap < cs_epoch r \<Longrightarrow>
      pg_SaveCharacter parse snap t = (Inr ((no_result SaveNotOwner)\<lparr>CurVersion := cs_version r, CurOwnerEpoch := cs_epoch r\<rparr>), t)"
    and "cs_version snap \<le> maxInt64 \<Longrightarrow> cs_epoch r \<le> cs_epoch snap \<Longrightarrow> cs_version r \<noteq> cs_version snap \<Longrightarrow>
      pg_SaveCharacter parse snap t = (Inr ((no_result SaveStaleVersion)\<lparr>CurVersion := cs_version r, CurOwnerEpoch := cs_epoch r\<rparr>), t)"
proof -
  obtain c where c: "live_row k t = Some c" "r = row_snap str c" using assms(3) by (auto simp: pg_row_Some)
  have p: "cs_pid snap \<noteq> ''''" "parse (cs_pid snap) = Some k" using assms(2) by (auto simp: pg_key_def split: if_splits)
  show "pg_SaveCharacter parse snap t = (Inr ((no_result SaveNotOwner)\<lparr>CurVersion := cs_version r, CurOwnerEpoch := cs_epoch r\<rparr>), t)"
    if "cs_epoch snap < cs_epoch r"
    using that c p param_le(2) [of "cs_epoch snap"] by (simp add: pg_SaveCharacter_def row_snap_def no_result_def Let_def)
  show "pg_SaveCharacter parse snap t = (Inr ((no_result SaveStaleVersion)\<lparr>CurVersion := cs_version r, CurOwnerEpoch := cs_epoch r\<rparr>), t)"
    if "cs_version snap \<le> maxInt64" "cs_epoch r \<le> cs_epoch snap" "cs_version r \<noteq> cs_version snap"
    using that c p param_le(3) by (simp add: pg_SaveCharacter_def row_snap_def no_result_def Let_def)
qed

lemma pg_save_applies:
  assumes "pg_inv t" "pg_fits (cs_version snap)" "pg_fits (cs_epoch snap)" "pg_key parse snap = Some k" "pg_row str k t = Some r"
    "cs_epoch r \<le> cs_epoch snap" "cs_version r = cs_version snap"
  shows "\<exists>s' r'. pg_SaveCharacter parse snap t =
      (Inr ((no_result SaveApplied)\<lparr>NewVersion := cs_version r + 1, CurVersion := cs_version r, CurOwnerEpoch := cs_epoch r\<rparr>), s') \<and>
      pg_row str k s' = Some r' \<and> cs_version r' = cs_version r + 1 \<and> cs_epoch r' = cs_epoch snap \<and> cs_state r' = cs_state snap \<and> cs_room r' = cs_room snap"
proof -
  obtain c where c: "live_row k t = Some c" "r = row_snap str c" using assms(5) by (auto simp: pg_row_Some)
  have n: "stateVersionParam (cs_version snap) = cs_version snap" "stateVersionParam (cs_epoch snap) = cs_epoch snap"
    using assms(2,3) by (simp_all add: pg_fits_def param_le(3))
  show ?thesis
  proof (cases rule: pg_save_cases [of parse snap t])
    case (refused x)
    have "pg_SaveCharacter parse snap t = (Inr ((no_result SaveApplied)\<lparr>NewVersion := cs_version r + 1, CurVersion := cs_version r, CurOwnerEpoch := cs_epoch r\<rparr>), update_live k (applied_row snap) t)"
      using assms(2,4,6,7) c n by (auto simp: pg_SaveCharacter_def pg_key_def pg_fits_def row_snap_def no_result_def Let_def applied_row_def [abs_def] split: if_splits)
    then show ?thesis using c assms(6) n
      by (auto simp: pg_row_update [OF touches_save] row_snap_def applied_row_def derefStr_def nullStr_def)
  next
    case (applied u pre)
    then show ?thesis using assms(4,6) c n
      by (auto simp: pg_row_update [OF touches_save] row_snap_def applied_row_def derefStr_def nullStr_def)
  qed
qed

interpretation pg: character_store "pg_row str" "pg_ClaimCharacter parse" "pg_SaveCharacter parse" "pg_LoadCharacter str ci"
  "pg_key parse" "\<lambda>pid t. parse pid" "pg_named ci" pg_inv pg_fits for str parse ci
proof
  fix k n t r pid floor snap
  show "pg_named ci k n (snd (pg_ClaimCharacter parse pid floor t))" if "pg_named ci k n t"
    using that update_live_named [OF touches_claim] by (cases rule: pg_claim_cases [of parse pid floor t]) auto
  show "pg_named ci k n (snd (pg_SaveCharacter parse snap t))" if "pg_named ci k n t"
    using that update_live_named [OF touches_save] by (cases rule: pg_save_cases [of parse snap t]) auto
  show "\<exists>c. pg_LoadCharacter str ci n t = Some c \<and> cs_version c = cs_version r" if "pg_named ci k n t" "pg_row str k t = Some r"
    using that by (auto simp: pg_LoadCharacter_def pg_named_def pg_row_Some row_snap_def)
qed (erule pg_inv_claim pg_inv_save | rule refl pg_claim_row pg_claim_mints pg_save_row pg_save_refusals pg_save_applies | assumption
    | simp add: pg_key_def pg_fits_def)+

text \<open>The memory store: one row per key and per identifier.\<close>

definition mem_save :: "CharSnapshot \<Rightarrow> MemStore \<Rightarrow> (store_error + SaveResult) \<times> MemStore" where
  "mem_save snap m = (case SaveCharacter snap m of (r, m') \<Rightarrow> (Inr r, m'))"

definition mem_row :: "string \<Rightarrow> MemStore \<Rightarrow> CharSnapshot option" where "mem_row k m = map_of (rows m) k"

definition mem_target :: "string \<Rightarrow> MemStore \<Rightarrow> string option" where
  "mem_target pid m = map_option fst (find (\<lambda>(k, row). cs_pid row = pid) (rows m))"

definition mem_inv :: "MemStore \<Rightarrow> bool" where
  "mem_inv m \<longleftrightarrow> distinct (map fst (rows m)) \<and> distinct (map (cs_pid \<circ> snd) (rows m))"

lemma update_same_pids:
  "map_of al k = Some old \<Longrightarrow> cs_pid v = cs_pid old \<Longrightarrow>
   map fst (AList.update k v al) = map fst al \<and> map (cs_pid \<circ> snd) (AList.update k v al) = map (cs_pid \<circ> snd) al \<and>
   map_option fst (find (\<lambda>(k, row). cs_pid row = p) (AList.update k v al)) = map_option fst (find (\<lambda>(k, row). cs_pid row = p) al)"
  by (induction al) (auto split: if_splits)

lemma find_pid_row: "mem_inv m \<Longrightarrow> find (\<lambda>(k, row). cs_pid row = pid) (rows m) = Some (k, r) \<Longrightarrow> mem_row k m = Some r"
proof -
  assume i: "mem_inv m" and "find (\<lambda>(k, row). cs_pid row = pid) (rows m) = Some (k, r)"
  then have "(k, r) \<in> set (rows m)" unfolding find_Some_iff by (metis nth_mem)
  then show ?thesis using i by (simp add: mem_inv_def mem_row_def)
qed

lemma mem_claim_cases:
  assumes "mem_inv m"
  obtains (refused) "ClaimCharacter pid floor m = (Inl ErrNoCharacterRow, m)"
  | (minted) k r e where "mem_target pid m = Some k" "mem_row k m = Some r" "cs_epoch r < e" "floor < e"
      "ClaimCharacter pid floor m = (Inr e, m\<lparr>rows := AList.update k (r\<lparr>cs_epoch := e\<rparr>) (rows m)\<rparr>)"
proof (cases "find (\<lambda>(k, row). cs_pid row = pid) (rows m)")
  case None
  then show ?thesis by (intro refused) (simp add: ClaimCharacter_def)
next
  case (Some kr)
  then obtain k r where kr: "find (\<lambda>(k, row). cs_pid row = pid) (rows m) = Some (k, r)" by (cases kr) auto
  then show ?thesis using find_pid_row [OF assms kr]
    by (intro minted [of k r "(if floor > cs_epoch r then floor else cs_epoch r) + 1"]) (auto simp: ClaimCharacter_def mem_target_def Let_def)
qed

lemma mem_update_keeps:
  assumes "mem_inv m" "mem_row k m = Some old" "cs_pid v = cs_pid old"
  shows "mem_inv (m\<lparr>rows := AList.update k v (rows m)\<rparr>)" "mem_target p (m\<lparr>rows := AList.update k v (rows m)\<rparr>) = mem_target p m"
    "mem_row j (m\<lparr>rows := AList.update k v (rows m)\<rparr>) = (if j = k then Some v else mem_row j m)"
  using assms update_same_pids [of "rows m" k old v p] by (auto simp: mem_inv_def mem_target_def mem_row_def update_conv)

lemma mem_save_cases:
  obtains (refused) r where "mem_save snap m = (Inr r, m)" "Outcome r \<noteq> SaveApplied"
  | (applied) cur v where "mem_row (memKey (cs_name snap)) m = Some cur" "cs_epoch cur \<le> cs_epoch snap" "cs_version cur = cs_version snap"
      "v = snap\<lparr>cs_pid := cs_pid cur, cs_version := cs_version cur + 1, cs_zone := (if cs_zone snap = '''' then cs_zone cur else cs_zone snap)\<rparr>"
      "mem_save snap m = (Inr ((no_result SaveApplied)\<lparr>NewVersion := cs_version cur + 1, CurVersion := cs_version cur, CurOwnerEpoch := cs_epoch cur\<rparr>),
         m\<lparr>rows := AList.update (memKey (cs_name snap)) v (rows m)\<rparr>)"
proof (cases "\<exists>cur. mem_row (memKey (cs_name snap)) m = Some cur \<and> cs_epoch cur \<le> cs_epoch snap \<and> cs_version cur = cs_version snap")
  case True
  then obtain cur where "mem_row (memKey (cs_name snap)) m = Some cur" "cs_epoch cur \<le> cs_epoch snap" "cs_version cur = cs_version snap" by blast
  then show ?thesis by (intro applied [of cur, OF _ _ _ refl]) (simp_all add: mem_save_def SaveCharacter_def mem_row_def Let_def no_result_def)
next
  case False
  then have "\<exists>r. mem_save snap m = (Inr r, m) \<and> Outcome r \<noteq> SaveApplied"
    by (auto simp: mem_save_def SaveCharacter_def mem_row_def no_result_def Let_def split: option.splits)
  then show ?thesis using refused by blast
qed

lemma mem_save_keeps:
  assumes "mem_inv m"
  shows "mem_inv (snd (mem_save snap m))" "mem_target p (snd (mem_save snap m)) = mem_target p m"
  by (cases rule: mem_save_cases [of snap m], use assms in simp, use mem_update_keeps [OF assms] in simp)+

lemma mem_claim_keeps:
  assumes "mem_inv m"
  shows "mem_inv (snd (ClaimCharacter pid floor m))" "mem_target p (snd (ClaimCharacter pid floor m)) = mem_target p m"
  by (cases rule: mem_claim_cases [OF assms, of pid floor], use assms in simp, use mem_update_keeps [OF assms] in simp)+

lemma mem_save_row:
  assumes "mem_inv m" "mem_row k m = Some r"
  shows "\<exists>r'. mem_row k (snd (mem_save snap m)) = Some r' \<and> cs_epoch r \<le> cs_epoch r' \<and> cs_epoch r' \<le> max (cs_epoch r) (cs_epoch snap) \<and>
           cs_version r' \<le> cs_version r + 1"
  by (cases rule: mem_save_cases [of snap m]) (use assms mem_update_keeps(3) [OF assms(1)] in auto)

interpretation mem: character_store mem_row ClaimCharacter mem_save LoadCharacter "\<lambda>snap. Some (memKey (cs_name snap))" mem_target
  "\<lambda>k n m. k = memKey n" mem_inv "\<lambda>_. True"
proof
  fix k m r pid floor e
  assume i: "mem_inv m"
  show "\<exists>e. mem_row k (snd (ClaimCharacter pid floor m)) = Some (r\<lparr>cs_epoch := e\<rparr>) \<and> cs_epoch r \<le> e" if "mem_row k m = Some r"
    using i
  proof (cases rule: mem_claim_cases [of m pid floor])
    case refused
    then show ?thesis using that by (auto intro!: exI [of _ "cs_epoch r"])
  next
    case (minted k' r' e)
    then have "mem_row k (snd (ClaimCharacter pid floor m)) = (if k = k' then Some (r'\<lparr>cs_epoch := e\<rparr>) else mem_row k m)"
      using mem_update_keeps(3) [OF i minted(2)] by simp
    then show ?thesis using that minted(2,3) by (cases "k = k'") (auto intro: exI [of _ e] exI [of _ "cs_epoch r"])
  qed
  show "\<exists>k r. mem_target pid m = Some k \<and> mem_row k m = Some r \<and> cs_epoch r < e \<and> floor < e \<and>
      mem_row k (snd (ClaimCharacter pid floor m)) = Some (r\<lparr>cs_epoch := e\<rparr>)" if "fst (ClaimCharacter pid floor m) = Inr e"
    by (cases rule: mem_claim_cases [OF i, of pid floor]) (use that mem_update_keeps(3) [OF i] in auto)
next
  fix m k r and snap :: CharSnapshot
  assume i: "mem_inv m" and k: "Some (memKey (cs_name snap)) = Some k" and r: "mem_row k m = Some r"
  show "mem_save snap m = (Inr ((no_result SaveNotOwner)\<lparr>CurVersion := cs_version r, CurOwnerEpoch := cs_epoch r\<rparr>), m)"
    if "cs_epoch snap < cs_epoch r"
    using that k r by (simp add: mem_save_def SaveCharacter_def mem_row_def Let_def no_result_def)
  show "mem_save snap m = (Inr ((no_result SaveStaleVersion)\<lparr>CurVersion := cs_version r, CurOwnerEpoch := cs_epoch r\<rparr>), m)"
    if "cs_epoch r \<le> cs_epoch snap" "cs_version r \<noteq> cs_version snap"
    using that k r by (simp add: mem_save_def SaveCharacter_def mem_row_def Let_def no_result_def)
  show "\<exists>s' r'. mem_save snap m = (Inr ((no_result SaveApplied)\<lparr>NewVersion := cs_version r + 1, CurVersion := cs_version r, CurOwnerEpoch := cs_epoch r\<rparr>), s') \<and>
      mem_row k s' = Some r' \<and> cs_version r' = cs_version r + 1 \<and> cs_epoch r' = cs_epoch snap \<and> cs_state r' = cs_state snap \<and> cs_room r' = cs_room snap"
    if "cs_epoch r \<le> cs_epoch snap" "cs_version r = cs_version snap"
    using that k r by (simp add: mem_save_def SaveCharacter_def mem_row_def Let_def no_result_def update_conv)
qed (rule mem_claim_keeps mem_save_keeps mem_save_row | assumption | simp add: mem_row_def LoadCharacter_def)+

section \<open>Properties\<close>

text \<open>
  C8. A zombie writes nothing. Once a character's row carries an epoch above a session's, no save request
  of that session, periodic or final, changes the table: whatever other shards claim and save between the
  saver's calls and whichever calls are lost, the table ends exactly as the others alone would have left
  it. The zone is told nothing but that ownership is lost, with an epoch above the session's, and a
  flush whose call is served does tell it.
\<close>

theorem zombie_flush_writes_nothing:
  assumes "pg_inv (db t)" "pg_row str u (db t) = Some r" "cs_epoch (rq_snap req) < cs_epoch r" "pg_key parse (rq_snap req) = Some u"
    "handle (Some (tier_save (pg_SaveCharacter parse) nets (env_of (pg_ClaimCharacter parse) (pg_SaveCharacter parse) ops),
                   tier_load (pg_LoadCharacter str ci) nets (env_of (pg_ClaimCharacter parse) (pg_SaveCharacter parse) ops)))
       (map_option tier_ckpt ck) expired present req t = (msgs, t')"
  shows "db t' = store_run (pg_ClaimCharacter parse) (pg_SaveCharacter parse) (ops_between ops (calls t) (calls t')) (db t) \<and>
         (\<forall>msg \<in> set msgs. \<exists>ce > cs_epoch (rq_snap req). msg = saveNotOwnerMsg (rq_id req) (cs_epoch (rq_snap req)) ce) \<and>
         (flush (rq_reason req) \<and> nets (calls t) = Served \<longrightarrow> msgs \<noteq> [])"
  using assms by (rule pg.handle_fenced)

definition demo_row :: "nat \<Rightarrow> nat \<Rightarrow> string \<Rightarrow> string char_row" where
  "demo_row e v st = \<lparr>pg_id = ''u1'', pg_name = ''Ann'', pg_zone = Some ''town'', pg_room = Some ''inn'', pg_version = v, pg_epoch = e,
     pg_state = st, pg_chargen = None, pg_deleted = False\<rparr>"

definition demo_snap :: "nat \<Rightarrow> nat \<Rightarrow> string \<Rightarrow> CharSnapshot" where
  "demo_snap e v st = \<lparr>cs_pid = ''u1'', cs_name = ''Ann'', cs_zone = ''town'', cs_room = ''gate'', cs_version = v, cs_state = st,
     cs_epoch = e, cs_chargen = None\<rparr>"

definition demo_tiers :: "string char_row list \<Rightarrow> (string characters, unit) tiers" where
  "demo_tiers t = \<lparr>db = t, mirror = (), calls = 0\<rparr>"

lemmas demo_defs = demo_row_def demo_snap_def demo_tiers_def pg_inv_def maxInt64_def live_row_def pg_key_def

theorem zombie_flush_writes_nothing_witness:
  "let env = env_of (pg_ClaimCharacter Some) (pg_SaveCharacter Some) (\<lambda>_. [Op_Save (demo_snap 2 3 ''live'')]);
       req = \<lparr>rq_snap = demo_snap 1 3 ''stale'', rq_id = ''Ann'', rq_reason = saveFinal\<rparr>
   in snd (handle (Some (tier_save (pg_SaveCharacter Some) (\<lambda>_. Served) env, tier_load (pg_LoadCharacter id memKey) (\<lambda>_. Served) env))
        (map_option tier_ckpt None) (\<lambda>_. False) (\<lambda>_. False) req (demo_tiers [demo_row 2 3 ''old'']))
      = demo_tiers [(demo_row 2 4 ''live'')\<lparr>pg_room := Some ''gate''\<rparr>]\<lparr>calls := 1\<rparr>"
proof -
  let ?ops = "\<lambda>_ :: nat. [Op_Save (demo_snap 2 3 ''live'')]"
  let ?env = "env_of (pg_ClaimCharacter Some) (pg_SaveCharacter Some) ?ops"
  let ?req = "\<lparr>rq_snap = demo_snap 1 3 ''stale'', rq_id = ''Ann'', rq_reason = saveFinal\<rparr>"
  let ?t = "demo_tiers [demo_row 2 3 ''old'']"
  let ?h = "handle (Some (tier_save (pg_SaveCharacter Some) (\<lambda>_. Served) ?env, tier_load (pg_LoadCharacter id memKey) (\<lambda>_. Served) ?env))
        (map_option tier_ckpt None) (\<lambda>_. False) (\<lambda>_. False) ?req ?t"
  obtain msgs t' where h: "?h = (msgs, t')" by fastforce
  have r: "pg_row id ''u1'' (db ?t) = Some (row_snap id (demo_row 2 3 ''old''))" by (simp add: pg_row_def demo_defs)
  have "db t' = store_run (pg_ClaimCharacter Some) (pg_SaveCharacter Some) (ops_between ?ops (calls ?t) (calls t')) (db ?t)"
    by (rule zombie_flush_writes_nothing [OF _ r _ _ h, THEN conjunct1]) (simp_all add: demo_defs row_snap_def)
  moreover have "calls t' = 1 \<and> mirror t' = ()"
    using h by (auto simp: handle_def flush_tier_def tier_save_def db_call_def env_of_def store_run_def pg_SaveCharacter_def demo_defs
        update_live_def stateVersionParam_def no_result_def nullStr_def Let_def)
  ultimately show ?thesis unfolding Let_def h
    by (cases t') (simp add: ops_between_def store_run_def pg_SaveCharacter_def demo_defs update_live_def stateVersionParam_def
        no_result_def nullStr_def Let_def)
qed



definition busy_ops :: "nat \<Rightarrow> store_op list" where
  "busy_ops n = (if n = 0 then [Op_Save (demo_snap 2 3 ''cadence'')] else [])"


text \<open>
  C11. An epoch names one live copy: over any history of claims and saves, a later claim of a character
  mints a strictly greater epoch than an earlier one, above the floor it was given; so two claimants never
  hold the same epoch, and by the previous properties only the last can write.
\<close>

theorem epochs_are_minted_once:
  assumes "pg_inv t" "pg_ClaimCharacter parse pid floor t = (Inr e, t1)"
    "pg_ClaimCharacter parse pid floor2 (store_run (pg_ClaimCharacter parse) (pg_SaveCharacter parse) ops t1) = (Inr e2, t2)"
  shows "e < e2 \<and> floor < e \<and> floor2 < e2"
  using assms by (rule pg.claims_increase)

theorem epochs_are_minted_once_witness:
  "\<exists>t1 t2. pg_ClaimCharacter Some ''u1'' 0 [demo_row 0 0 ''x''] = (Inr 1, t1) \<and>
     pg_ClaimCharacter Some ''u1'' 0 (store_run (pg_ClaimCharacter Some) (pg_SaveCharacter Some) [Op_Save (demo_snap 1 0 ''y'')] t1) = (Inr 2, t2) \<and>
     (1 :: nat) < 2"
proof -
  have i: "pg_inv [demo_row 0 0 ''x'']" by (simp add: demo_defs)
  obtain t1 where t1: "pg_ClaimCharacter Some ''u1'' 0 [demo_row 0 0 ''x''] = (Inr 1, t1)" "t1 = [demo_row 1 0 ''x'']"
    by (simp add: pg_ClaimCharacter_def maxOwnerEpoch_def demo_defs update_live_def stateVersionParam_def)
  obtain t2 where t2: "pg_ClaimCharacter Some ''u1'' 0 (store_run (pg_ClaimCharacter Some) (pg_SaveCharacter Some) [Op_Save (demo_snap 1 0 ''y'')] t1) = (Inr 2, t2)"
    by (simp add: t1(2) store_run_def pg_SaveCharacter_def pg_ClaimCharacter_def maxOwnerEpoch_def demo_defs update_live_def
        stateVersionParam_def nullStr_def Let_def)
  from epochs_are_minted_once [OF i t1(1) t2] show ?thesis using t1(1) t2 by blast
qed

text \<open>Both tiers of the memory store under claims, saves and checkpoints of any sessions, and what a login then reads.\<close>

datatype tier_op = T_Claim string nat | T_Save CharSnapshot | T_Ckpt CharSnapshot

fun tier_step :: "tier_op \<Rightarrow> MemStore \<Rightarrow> MemStore" where
  "tier_step (T_Claim pid floor) m = snd (ClaimCharacter pid floor m)"
| "tier_step (T_Save snap) m = snd (SaveCharacter snap m)"
| "tier_step (T_Ckpt snap) m = snd (Checkpoint snap m)"

definition tier_run :: "tier_op list \<Rightarrow> MemStore \<Rightarrow> MemStore" where "tier_run ops m = fold tier_step ops m"

definition login_read :: "string \<Rightarrow> MemStore \<Rightarrow> CharSnapshot option" where
  "login_read name m = fst (loadCharacterSnapshot (Some (Inr (LoadCharacter name m))) (Some (Inr (LoadCheckpoint name m))))"

text \<open>The contents that sessions with an epoch of at least \<open>e\<close> wrote.\<close>

fun written_by :: "nat \<Rightarrow> tier_op \<Rightarrow> string set" where
  "written_by e (T_Claim pid floor) = {}"
| "written_by e (T_Save snap) = (if cs_epoch snap \<ge> e then {cs_state snap} else {})"
| "written_by e (T_Ckpt snap) = (if cs_epoch snap \<ge> e then {cs_state snap} else {})"

definition owned_by :: "nat \<Rightarrow> string set \<Rightarrow> string \<Rightarrow> MemStore \<Rightarrow> bool" where
  "owned_by e C k m \<longleftrightarrow> mem_inv m \<and>
     (\<exists>r. mem_row k m = Some r \<and> e \<le> cs_epoch r \<and> cs_state r \<in> C) \<and>
     (\<forall>c. map_of (ckpt m) k = Some c \<longrightarrow> e \<le> cs_epoch c \<longrightarrow> cs_state c \<in> C)"

lemma Checkpoint_rows: "rows (snd (Checkpoint snap m)) = rows m"
  by (auto simp: Checkpoint_def Let_def)

lemma mem_save_snd: "snd (mem_save snap m) = snd (SaveCharacter snap m)"
  by (simp add: mem_save_def split: prod.splits)

lemma other_tier [simp]: "ckpt (snd (ClaimCharacter pid floor m)) = ckpt m" "ckpt (snd (SaveCharacter snap m)) = ckpt m"
  by (auto simp: ClaimCharacter_def SaveCharacter_def Let_def split: option.splits)

lemma owned_step: "owned_by e C k m \<Longrightarrow> owned_by e (C \<union> written_by e op) k (tier_step op m)"
proof (cases op)
  assume o: "owned_by e C k m"
  then obtain r where i: "mem_inv m" and r: "mem_row k m = Some r" "e \<le> cs_epoch r" "cs_state r \<in> C"
    and c: "\<And>c. map_of (ckpt m) k = Some c \<Longrightarrow> e \<le> cs_epoch c \<Longrightarrow> cs_state c \<in> C" by (auto simp: owned_by_def)
  {
    case (T_Claim pid floor)
    obtain e' where "mem_row k (snd (ClaimCharacter pid floor m)) = Some (r\<lparr>cs_epoch := e'\<rparr>)" "cs_epoch r \<le> e'"
      using mem.claim_row [OF i r(1)] by blast
    then show ?thesis using T_Claim r c mem_claim_keeps [OF i] by (auto simp: owned_by_def)
  next
    case (T_Save snap)
    have "\<exists>r'. mem_row k (snd (mem_save snap m)) = Some r' \<and> e \<le> cs_epoch r' \<and> cs_state r' \<in> C \<union> written_by e op"
    proof (cases rule: mem_save_cases [of snap m])
      case (refused x)
      then show ?thesis using r by auto
    next
      case (applied cur v)
      have "mem_row k (snd (mem_save snap m)) = (if k = memKey (cs_name snap) then Some v else mem_row k m)"
        using applied mem_update_keeps(3) [OF i applied(1)] by simp
      then show ?thesis using r applied T_Save by auto
    qed
    then show ?thesis using T_Save c mem_save_keeps [OF i, where snap = snap] by (auto simp: owned_by_def mem_save_snd)
  next
    case (T_Ckpt snap)
    have "mem_inv (snd (Checkpoint snap m))" "mem_row k (snd (Checkpoint snap m)) = Some r"
      using i r(1) by (simp_all add: mem_inv_def mem_row_def Checkpoint_rows)
    moreover have "cs_state c' \<in> C \<union> written_by e op" if "map_of (ckpt (snd (Checkpoint snap m))) k = Some c'" "e \<le> cs_epoch c'" for c'
      using that c T_Ckpt by (auto simp: Checkpoint_def Let_def update_conv split: if_splits option.splits)
    ultimately show ?thesis using T_Ckpt r by (auto simp: owned_by_def)
  }
qed

lemma owned_run: "owned_by e C k m \<Longrightarrow> owned_by e (C \<union> (\<Union>op \<in> set ops. written_by e op)) k (tier_run ops m)"
proof (induction ops arbitrary: C m)
  case (Cons op ops)
  from Cons.IH [OF owned_step [OF Cons.prems]] show ?case by (simp add: tier_run_def Un_assoc)
qed (simp add: tier_run_def)

lemma owned_login: "owned_by e C (memKey name) m \<Longrightarrow> \<exists>b. login_read name m = Some b \<and> e \<le> cs_epoch b \<and> cs_state b \<in> C"
proof -
  assume o: "owned_by e C (memKey name) m"
  then obtain r where r: "map_of (rows m) (memKey name) = Some r" "e \<le> cs_epoch r" "cs_state r \<in> C"
    by (auto simp: owned_by_def mem_row_def)
  have "cs_state c \<in> C \<and> e \<le> cs_epoch c" if "map_of (ckpt m) (memKey name) = Some c" "fresherThan c r" for c
    using o that r(2) by (auto simp: owned_by_def fresherThan_def split: if_splits)
  then show ?thesis using r
    by (auto simp: login_read_def loadCharacterSnapshot_def LoadCharacter_def LoadCheckpoint_def Let_def split: option.splits)
qed


definition ann :: "nat \<Rightarrow> nat \<Rightarrow> string \<Rightarrow> CharSnapshot" where
  "ann e v st = (demo_snap e v st)\<lparr>cs_pid := ''mem-uuid-1''\<rparr>"

text \<open>A character created, claimed at epoch 1 and flushed once.\<close>

definition ann_store :: MemStore where
  "ann_store = snd (ClaimCharacter ''mem-uuid-1'' 0 (snd (CreateCharacter ''Ann'' ''town'' ''inn'' NewMemStore)))"


text \<open>
  What the previous property leaves open is the time before an owner's first write: a claim alone hides
  a fresher checkpoint. After a crash the mirror holds newer content than the row at the same epoch and
  version, and the login reads it; but the claim of that login raises the row's epoch only, so if the login
  goes no further, or its shard dies before its first checkpoint, the next login reads the older row.
\<close>

lemma claim_hides_checkpoint:
  "let m = snd (Checkpoint (ann 1 1 ''walked'') (snd (SaveCharacter (ann 1 0 ''flushed'') ann_store)))
   in map_option cs_state (login_read ''Ann'' m) = Some ''walked'' \<and>
      map_option cs_state (login_read ''Ann'' (snd (ClaimCharacter ''mem-uuid-1'' 1 m))) = Some ''flushed''"
  by code_simp

end
