(* ===== verification/Formula.thy ===== *)
theory Formula
  imports Prelude Float64
begin

text \<open>
  The prefix formula language of \<open>internal/world/formula.go\<close>: the parsed tree, its evaluator, the
  references the cycle lint reads, and the parser from decoded JSON or YAML.

  A nil \<open>formulaNode\<close> is a value of the interface type, so it is a constructor, \<open>nilNode\<close>; calling
  a method on it panics, which is the error \<open>NilDeref\<close>. The resolver of an attribute reference is an
  argument of the evaluator. It returns the value together with the mark that the value was screened
  (\<open>degraded\<close>), which the caller in \<open>attributes.go\<close> accumulates in a captured variable: an
  evaluation returns the disjunction of the marks it has met.
\<close>


section \<open>Trees and errors\<close>

datatype formulaNode =
    litNode flt
  | attrNode string
  | opNode string "formulaNode list"
  | nilNode

datatype ferr =
    IfArity nat
  | Arity string nat
  | DivisionByZero
  | ModByZero
  | UnknownOp string
  | AttrCycle string
  | NonFinite
  | Degraded string
  | NilDeref

section \<open>Evaluation\<close>

text \<open>The strict operators, on the values of their arguments.\<close>

primrec divs :: "flt \<Rightarrow> flt list \<Rightarrow> ferr + flt" where
  "divs s [] = Inr s"
| "divs s (v # vs) = (if feq v (Fin 0) then Inl DivisionByZero else divs (fdiv s v) vs)"

definition op_minus :: "flt list \<Rightarrow> flt" where
  "op_minus vals = (case vals of [] \<Rightarrow> Fin 0 | [v] \<Rightarrow> fneg v | v # vs \<Rightarrow> foldl fsub v vs)"

definition pick_min :: "flt \<Rightarrow> flt \<Rightarrow> flt" where
  "pick_min m v = (if fless v m then v else m)"

definition pick_max :: "flt \<Rightarrow> flt \<Rightarrow> flt" where
  "pick_max m v = (if fless m v then v else m)"

definition clamp :: "flt \<Rightarrow> flt \<Rightarrow> flt \<Rightarrow> flt" where
  "clamp x lo hi = (if fless x lo then lo else if fless hi x then hi else x)"

definition apply_op :: "string \<Rightarrow> flt list \<Rightarrow> ferr + flt" where
  "apply_op op vals =
     (if op = ''+'' then Inr (foldl fadd (Fin 0) vals)
      else if op = ''-'' then Inr (op_minus vals)
      else if op = ''*'' then Inr (foldl fmul (Fin 1) vals)
      else if op = ''/'' then
        (if length vals < 2 then Inl (Arity op (length vals)) else divs (hd vals) (tl vals))
      else if op = ''min'' then
        (if vals = [] then Inl (Arity op 0) else Inr (foldl pick_min (hd vals) (tl vals)))
      else if op = ''max'' then
        (if vals = [] then Inl (Arity op 0) else Inr (foldl pick_max (hd vals) (tl vals)))
      else if op = ''clamp'' then
        (case vals of [x, lo, hi] \<Rightarrow> Inr (clamp x lo hi) | _ \<Rightarrow> Inl (Arity op (length vals)))
      else if op = ''floor'' then
        (case vals of [x] \<Rightarrow> Inr (ffloor x) | _ \<Rightarrow> Inl (Arity op (length vals)))
      else if op = ''ceil'' then
        (case vals of [x] \<Rightarrow> Inr (fceil x) | _ \<Rightarrow> Inl (Arity op (length vals)))
      else if op = ''round'' then
        (case vals of [x] \<Rightarrow> Inr (fround_away x) | _ \<Rightarrow> Inl (Arity op (length vals)))
      else if op = ''mod'' then
        (case vals of
           [a, b] \<Rightarrow> if feq b (Fin 0) then Inl ModByZero else Inr (fmod a b)
         | _ \<Rightarrow> Inl (Arity op (length vals)))
      else Inl (UnknownOp op))"

text \<open>The evaluator: \<open>if\<close> evaluates its condition and then only the branch it takes.\<close>

type_synonym resolver = "string \<Rightarrow> ferr + flt \<times> bool"

fun eval_node :: "resolver \<Rightarrow> formulaNode \<Rightarrow> ferr + flt \<times> bool"
and eval_args :: "resolver \<Rightarrow> formulaNode list \<Rightarrow> ferr + flt list \<times> bool" where
  "eval_node r nilNode = Inl NilDeref"
| "eval_node r (litNode v) = Inr (v, False)"
| "eval_node r (attrNode ref) = r ref"
| "eval_node r (opNode op args) =
     (if op = ''if'' then
        (case args of
           [c, t, e] \<Rightarrow>
             (case eval_node r c of
                Inl err \<Rightarrow> Inl err
              | Inr (cond, d) \<Rightarrow>
                  (case eval_node r (if feq cond (Fin 0) then e else t) of
                     Inl err \<Rightarrow> Inl err
                   | Inr (v, d') \<Rightarrow> Inr (v, d \<or> d')))
         | _ \<Rightarrow> Inl (IfArity (length args)))
      else
        (case eval_args r args of
           Inl err \<Rightarrow> Inl err
         | Inr (vals, d) \<Rightarrow>
             (case apply_op op vals of Inl err \<Rightarrow> Inl err | Inr v \<Rightarrow> Inr (v, d))))"
| "eval_args r [] = Inr ([], False)"
| "eval_args r (a # as) =
     (case eval_node r a of
        Inl err \<Rightarrow> Inl err
      | Inr (v, d) \<Rightarrow>
          (case eval_args r as of
             Inl err \<Rightarrow> Inl err
           | Inr (vs, d') \<Rightarrow> Inr (v # vs, d \<or> d')))"

text \<open>\<open>evalFinite\<close>: a result that is not finite is an error.\<close>

definition evalFinite :: "resolver \<Rightarrow> formulaNode \<Rightarrow> ferr + flt \<times> bool" where
  "evalFinite r n =
     (case eval_node r n of
        Inl err \<Rightarrow> Inl err
      | Inr (v, d) \<Rightarrow> if isNaN v \<or> isInf v then Inl NonFinite else Inr (v, d))"

section \<open>References\<close>

text \<open>The attributes a tree refers to, in either branch of an \<open>if\<close>; \<open>None\<close> is a panic.\<close>

fun refs :: "formulaNode \<Rightarrow> string list option"
and refs_args :: "formulaNode list \<Rightarrow> string list option" where
  "refs nilNode = None"
| "refs (litNode v) = Some []"
| "refs (attrNode ref) = Some [ref]"
| "refs (opNode op args) = refs_args args"
| "refs_args [] = Some []"
| "refs_args (a # as) =
     (case refs a of
        None \<Rightarrow> None
      | Some xs \<Rightarrow> (case refs_args as of None \<Rightarrow> None | Some ys \<Rightarrow> Some (xs @ ys)))"

section \<open>Parsing\<close>

text \<open>A decoded value; \<open>VOther\<close> is any other dynamic type (a map, a boolean).\<close>

datatype val =
    VNil
  | VFloat flt
  | VInt int
  | VInt64 int
  | VString string
  | VList "val list"
  | VOther

datatype perr =
    UnexpectedNode
  | EmptyNode
  | HeadNotString
  | LitArity
  | NotANumber
  | AttrNameArity
  | AttrNameNotString
  | UnknownHead string

fun toFloat :: "val \<Rightarrow> perr + flt" where
  "toFloat (VFloat t) = Inr t"
| "toFloat (VInt t) = Inr (of_int_flt t)"
| "toFloat (VInt64 t) = Inr (of_int_flt t)"
| "toFloat _ = Inl NotANumber"

definition op_heads :: "string list" where
  "op_heads = [''+'', ''-'', ''*'', ''/'', ''min'', ''max'', ''clamp'', ''floor'', ''ceil'',
               ''round'', ''mod'', ''if'']"

fun parseFormula :: "val \<Rightarrow> perr + formulaNode"
and parseArrayNode :: "val list \<Rightarrow> perr + formulaNode"
and parse_args :: "val list \<Rightarrow> perr + formulaNode list" where
  "parseFormula VNil = Inr nilNode"
| "parseFormula (VFloat t) = Inr (litNode t)"
| "parseFormula (VInt t) = Inr (litNode (of_int_flt t))"
| "parseFormula (VInt64 t) = Inr (litNode (of_int_flt t))"
| "parseFormula (VList arr) = parseArrayNode arr"
| "parseFormula (VString _) = Inl UnexpectedNode"
| "parseFormula VOther = Inl UnexpectedNode"
| "parseArrayNode [] = Inl EmptyNode"
| "parseArrayNode (h # rest) =
     (case h of
        VString head \<Rightarrow>
          (if head = ''lit'' then
             (case rest of
                [v] \<Rightarrow> (case toFloat v of Inl e \<Rightarrow> Inl e | Inr f \<Rightarrow> Inr (litNode f))
              | _ \<Rightarrow> Inl LitArity)
           else if head = ''attr'' then
             (case rest of
                [v] \<Rightarrow> (case v of VString name \<Rightarrow> Inr (attrNode name) | _ \<Rightarrow> Inl AttrNameNotString)
              | _ \<Rightarrow> Inl AttrNameArity)
           else if head \<in> set op_heads then
             (case parse_args rest of Inl e \<Rightarrow> Inl e | Inr args \<Rightarrow> Inr (opNode head args))
           else Inl (UnknownHead head))
      | _ \<Rightarrow> Inl HeadNotString)"
| "parse_args [] = Inr []"
| "parse_args (a # as) =
     (case parseFormula a of
        Inl e \<Rightarrow> Inl e
      | Inr child \<Rightarrow>
          (case parse_args as of Inl e \<Rightarrow> Inl e | Inr children \<Rightarrow> Inr (child # children)))"

text \<open>The trees without a nil node, which is what \<open>refs\<close> and \<open>eval\<close> rely on.\<close>

fun nil_free :: "formulaNode \<Rightarrow> bool" where
  "nil_free nilNode = False"
| "nil_free (litNode v) = True"
| "nil_free (attrNode ref) = True"
| "nil_free (opNode op args) = (\<forall>a \<in> set args. nil_free a)"

text \<open>The decoded values in which a null stands nowhere, and the lists without a direct null.\<close>

fun null_free :: "val \<Rightarrow> bool" where
  "null_free VNil = False"
| "null_free (VList arr) = (\<forall>a \<in> set arr. null_free a)"
| "null_free _ = True"


section \<open>Facts\<close>

fun known_ops :: "formulaNode \<Rightarrow> bool" where
  "known_ops (opNode op args) = (op \<in> set op_heads \<and> (\<forall>a \<in> set args. known_ops a))"
| "known_ops _ = True"

lemma refs_defined:
  "refs n = None \<longleftrightarrow> \<not> nil_free n"
  "refs_args ns = None \<longleftrightarrow> \<not> (\<forall>n \<in> set ns. nil_free n)"
  by (induction n and ns rule: refs_refs_args.induct) (auto split: option.splits)

lemma refs_args_set:
  "refs_args ns = Some xs \<Longrightarrow> set xs = (\<Union>n \<in> set ns. set (the (refs n)))"
proof (induction ns arbitrary: xs)
  case (Cons a as)
  then show ?case by (auto split: option.splits)
qed simp

lemma parse_well_formed:
  "parseFormula v = Inr n \<Longrightarrow> null_free v \<Longrightarrow> nil_free n \<and> known_ops n"
  "parseArrayNode vs = Inr n \<Longrightarrow> \<forall>v \<in> set vs. null_free v \<Longrightarrow> nil_free n \<and> known_ops n"
  "parse_args vs = Inr ns \<Longrightarrow> \<forall>v \<in> set vs. null_free v \<Longrightarrow> \<forall>n \<in> set ns. nil_free n \<and> known_ops n"
proof (induction v and vs and vs arbitrary: n and n and ns
       rule: parseFormula_parseArrayNode_parse_args.induct)
  case (9 h rest)
  then show ?case
    by (auto split: val.splits if_splits list.splits sum.splits)
qed (auto split: sum.splits)

text \<open>The errors an operator can raise by itself.\<close>

fun op_error :: "ferr \<Rightarrow> bool" where
  "op_error (IfArity n) = True"
| "op_error (Arity op n) = True"
| "op_error DivisionByZero = True"
| "op_error ModByZero = True"
| "op_error e = False"

lemma divs_error: "divs s vs = Inl e \<Longrightarrow> e = DivisionByZero"
  by (induction vs arbitrary: s) (auto split: if_splits)

lemma apply_op_error:
  assumes "apply_op op vals = Inl e" and "op \<in> set op_heads" and "op \<noteq> ''if''"
  shows "op_error e"
  using assms
  by (auto simp: apply_op_def op_heads_def split: if_splits list.splits dest: divs_error)

lemma eval_args_error:
  "eval_args r ns = Inl e \<Longrightarrow> \<exists>n \<in> set ns. eval_node r n = Inl e"
  by (induction ns) (auto split: sum.splits)

lemma eval_args_marks:
  "eval_args r ns = Inr (vs, d) \<Longrightarrow> d \<longleftrightarrow> (\<exists>n \<in> set ns. \<exists>v. eval_node r n = Inr (v, True))"
  by (induction ns arbitrary: vs d) (fastforce split: sum.splits prod.splits)+

lemma eval_op_cases [consumes 1, case_names child arity op]:
  assumes "eval_node r (opNode op args) = Inl e"
  obtains a where "a \<in> set args" "eval_node r a = Inl e"
  | "op = ''if''" "e = IfArity (length args)"
  | vals where "op \<noteq> ''if''" "apply_op op vals = Inl e"
proof (cases "op = ''if''")
  case True
  show ?thesis
  proof (cases "\<exists>c t f. args = [c, t, f]")
    case True
    then obtain c t f where args: "args = [c, t, f]"
      by blast
    show ?thesis
      using assms that(1) [of c] that(1) [of t] that(1) [of f] unfolding \<open>op = ''if''\<close> args
      by (auto split: sum.splits prod.splits if_splits)
  next
    case False
    then show ?thesis
      using assms that(2) True by (auto split: list.splits)
  qed
next
  case False
  then show ?thesis
    using assms that(1,3) eval_args_error [of r args e]
    by (auto split: sum.splits prod.splits)
qed

lemma eval_error:
  "eval_node r n = Inl e \<Longrightarrow> nil_free n \<Longrightarrow> known_ops n \<Longrightarrow>
     op_error e \<or> (\<exists>ref \<in> set (the (refs n)). r ref = Inl e)"
proof (induction n)
  case (opNode op args)
  obtain xs where xs: "refs_args args = Some xs"
    using opNode(3) refs_defined(2) [of args] by auto
  from opNode(2) show ?case
  proof (cases rule: eval_op_cases)
    case (child a)
    then have "op_error e \<or> (\<exists>ref \<in> set (the (refs a)). r ref = Inl e)"
      using opNode(1,3,4) by simp
    then show ?thesis
      using child(1) xs refs_args_set [OF xs] by auto
  next
    case (op vals)
    then show ?thesis
      using apply_op_error opNode(4) by simp
  qed simp
qed auto

lemma evalFinite_finite:
  "evalFinite r n = Inr (v, d) \<Longrightarrow> \<exists>q. v = Fin q"
  by (cases v) (auto simp: evalFinite_def split: sum.splits if_splits)

text \<open>
  A formula parsed from content without nulls never panics and never meets an unknown operator:
  whatever the attributes resolve to, an evaluation that fails does so by one of the arithmetic
  errors the language documents, or with the error of an attribute it refers to.
\<close>
lemma parsed_formula_fails_safely:
  assumes "parseFormula v = Inr n" and "null_free v" and "eval_node r n = Inl e"
  shows "op_error e \<or> (\<exists>xs. refs n = Some xs \<and> (\<exists>ref \<in> set xs. r ref = Inl e))"
proof -
  have wf: "nil_free n" "known_ops n"
    using parse_well_formed(1) assms by auto
  then obtain xs where "refs n = Some xs"
    using refs_defined(1) [of n] by auto
  then show ?thesis
    using eval_error [OF assms(3) wf] by auto
qed

text \<open>
  A null inside an operator node is accepted by the parser, which turns it into a nil child: the
  load-time lint and every evaluation that reaches it dereference nil.
\<close>
lemma nested_null_is_accepted:
  "parseFormula (VList [VString ''+'', VNil]) = Inr (opNode ''+'' [nilNode])"
  "refs (opNode ''+'' [nilNode]) = None"
  "eval_node r (opNode ''+'' [nilNode]) = Inl NilDeref"
  by (simp_all add: op_heads_def)

end
