(* ===== verification/Attributes.thy ===== *)
theory Attributes
  imports Formula "HOL-Library.List_Lexorder" "HOL-Library.Char_ord"
begin

text \<open>
  Derived attributes, \<open>internal/world/attributes.go\<close>: the modifier stack (base, flat modifiers,
  multipliers, clamp) with its magnitude screen, the per-entity derivation cache, and the load-time
  lint for reference cycles. The registry of definitions is an association list; it does not change
  while a shard runs.

  The copy-on-write of a spawned mob's \<open>Living\<close> (\<open>component.go\<close>) is kept: an entity that still
  aliases its prototype's \<open>Living\<close> has \<open>aliased\<close> set, and the first accessor forks it, with an empty
  cache and no modifier sources. A modifier source is an object whose contribution changes in place;
  the model holds its current contribution. An accessor returns \<open>None\<close> where the code panics.
\<close>


section \<open>Definitions, entities\<close>

record attributeDef =
  base :: formulaNode
  min_of :: "flt option"
  max_of :: "flt option"

record modSource =
  flatMod :: "string \<Rightarrow> flt"
  mulMod :: "string \<Rightarrow> flt"

record attrCache =
  dirty :: bool
  vals :: "(string \<rightharpoonup> flt) option"
  degraded :: "string \<Rightarrow> bool"

record Living =
  attrBase :: "string \<rightharpoonup> flt"
  resCur :: "string \<rightharpoonup> int"
  attrs :: attrCache
  modSrcs :: "modSource list"
  posn :: nat

record Entity =
  living :: "Living option"
  aliased :: bool

type_synonym attrRegistry = "(string \<times> attributeDef) list"

section \<open>The screen\<close>

definition attrFoldCeiling :: rat where
  "attrFoldCeiling = 10 ^ 12"

definition isFiniteBounded :: "flt \<Rightarrow> bool" where
  "isFiniteBounded v \<longleftrightarrow> \<not> isNaN v \<and> \<not> isInf v \<and> fleq (fabs v) (Fin attrFoldCeiling)"

definition attrScreen :: "flt \<Rightarrow> flt \<Rightarrow> flt \<times> bool" where
  "attrScreen v fallback =
     (if isNaN v then (if \<not> isFiniteBounded fallback then (Fin 0, True) else (fallback, True))
      else if fless (Fin attrFoldCeiling) (fabs v) then (copysign (Fin attrFoldCeiling) v, True)
      else (v, False))"

section \<open>Derivation\<close>

text \<open>The modifier fold, the declared clamp and the backstop, on the base that was found.\<close>

definition fold_mods :: "modSource list \<Rightarrow> string \<Rightarrow> flt \<times> flt" where
  "fold_mods srcs name =
     foldl (\<lambda>(flat, mul) src. (fadd flat (flatMod src name), fmul mul (mulMod src name)))
       (Fin 0, Fin 1) srcs"

definition clamp_decl :: "attributeDef \<Rightarrow> flt \<Rightarrow> flt" where
  "clamp_decl d val =
     (let v1 = (case min_of d of Some lo \<Rightarrow> if fless val lo then lo else val | None \<Rightarrow> val)
      in case max_of d of Some hi \<Rightarrow> if fless hi v1 then hi else v1 | None \<Rightarrow> v1)"

definition finish_attr :: "Living \<Rightarrow> attributeDef \<Rightarrow> string \<Rightarrow> flt \<Rightarrow> bool \<Rightarrow> flt \<times> bool" where
  "finish_attr l d name b deg =
     (let (flat, mul) = fold_mods (modSrcs l) name;
          (val, screened) = attrScreen (fmul (fadd b flat) mul) b;
          val' = clamp_decl d val;
          (bounded, cut) = attrScreen val' (Fin 0)
      in if cut then (bounded, True) else (val', deg \<or> screened))"

function resolveAttr :: "attrRegistry \<Rightarrow> Living \<Rightarrow> string list \<Rightarrow> string \<Rightarrow> ferr + flt \<times> bool" where
  "resolveAttr defs l visited name =
     (case map_of defs name of
        None \<Rightarrow> Inr (Fin 0, False)
      | Some d \<Rightarrow>
          if name \<in> set visited then Inl (AttrCycle name)
          else
            (case attrBase l name of
               Some ov \<Rightarrow> Inr (finish_attr l d name ov False)
             | None \<Rightarrow>
                 if base d = nilNode then Inr (finish_attr l d name (Fin 0) False)
                 else
                   (case eval_node (\<lambda>ref. resolveAttr defs l (name # visited) ref) (base d) of
                      Inl err \<Rightarrow> Inl err
                    | Inr (v, deg) \<Rightarrow>
                        let (b, screened) = attrScreen v (Fin 0)
                        in Inr (finish_attr l d name b (deg \<or> screened)))))"
  by pat_completeness auto

text \<open>The visited names are definitions of the registry that the recursion has not met before.\<close>

termination
proof (relation "measure (\<lambda>(defs, l, visited, name). card (fst ` set defs - set visited))")
  fix defs :: attrRegistry and l :: Living and visited name d ref
  assume "map_of defs name = Some d" and "name \<notin> set visited"
  then have "name \<in> fst ` set defs - set visited"
    by (force dest: map_of_SomeD)
  then have "card (fst ` set defs - set (name # visited)) < card (fst ` set defs - set visited)"
    by (intro psubset_card_mono) auto
  then show "((defs, l, name # visited, ref), (defs, l, visited, name))
             \<in> measure (\<lambda>(defs, l, visited, name). card (fst ` set defs - set visited))"
    by simp
qed simp

declare resolveAttr.simps [simp del]

section \<open>Accessors\<close>

definition cloneLiving :: "Living \<Rightarrow> Living" where
  "cloneLiving l = l\<lparr>attrs := \<lparr>dirty = True, vals = None, degraded = (\<lambda>_. False)\<rparr>, modSrcs := []\<rparr>"

definition mutableLiving :: "'x Entity_scheme \<Rightarrow> 'x Entity_scheme" where
  "mutableLiving e =
     (case living e of
        None \<Rightarrow> e
      | Some l \<Rightarrow> if aliased e then e\<lparr>living := Some (cloneLiving l), aliased := False\<rparr> else e)"

definition updateLiving :: "(Living \<Rightarrow> Living) \<Rightarrow> 'x Entity_scheme \<Rightarrow> 'x Entity_scheme" where
  "updateLiving f e = (let e1 = mutableLiving e in e1\<lparr>living := map_option f (living e1)\<rparr>)"

definition markAttrsDirty :: "'x Entity_scheme \<Rightarrow> 'x Entity_scheme" where
  "markAttrsDirty = updateLiving (\<lambda>l. l\<lparr>attrs := (attrs l)\<lparr>dirty := True\<rparr>\<rparr>)"

definition flushed :: "attrCache \<Rightarrow> attrCache" where
  "flushed c =
     (case vals c of
        Some _ \<Rightarrow> if dirty c then \<lparr>dirty = False, vals = Some Map.empty, degraded = (\<lambda>_. False)\<rparr> else c
      | None \<Rightarrow> \<lparr>dirty = False, vals = Some Map.empty, degraded = (\<lambda>_. False)\<rparr>)"

definition cached :: "attrCache \<Rightarrow> string \<Rightarrow> flt option" where
  "cached c name = (case vals c of None \<Rightarrow> None | Some m \<Rightarrow> m name)"

definition memo :: "attrCache \<Rightarrow> string \<Rightarrow> flt \<Rightarrow> bool \<Rightarrow> attrCache" where
  "memo c name v deg =
     c\<lparr>vals := map_option (\<lambda>m. m(name \<mapsto> v)) (vals c),
       degraded := (if deg then (degraded c)(name := True) else degraded c)\<rparr>"

text \<open>An error resolves to 0; a panic does not return.\<close>

definition attr_value :: "ferr + flt \<times> bool \<Rightarrow> (flt \<times> bool) option" where
  "attr_value r =
     (case r of
        Inl NilDeref \<Rightarrow> None
      | Inl _ \<Rightarrow> Some (Fin 0, False)
      | Inr (v, d) \<Rightarrow> Some (v, d))"

definition attr :: "attrRegistry \<Rightarrow> 'x Entity_scheme \<Rightarrow> string \<Rightarrow> ('x Entity_scheme \<times> flt) option" where
  "attr defs e name =
     (case living (mutableLiving e) of
        None \<Rightarrow> Some (e, Fin 0)
      | Some l \<Rightarrow>
          let c = flushed (attrs l); e1 = (mutableLiving e)\<lparr>living := Some (l\<lparr>attrs := c\<rparr>)\<rparr>
          in case cached c name of
               Some v \<Rightarrow> Some (e1, v)
             | None \<Rightarrow>
                 (case attr_value (resolveAttr defs l [] name) of
                    None \<Rightarrow> None
                  | Some (v, deg) \<Rightarrow>
                      Some (e1\<lparr>living := Some (l\<lparr>attrs := memo c name v deg\<rparr>)\<rparr>, v)))"

definition attrIsDegraded :: "attrRegistry \<Rightarrow> 'x Entity_scheme \<Rightarrow> string \<Rightarrow> ('x Entity_scheme \<times> bool) option" where
  "attrIsDegraded defs e name =
     (case attr defs e name of
        None \<Rightarrow> None
      | Some (e1, _) \<Rightarrow>
          (case living e1 of
             None \<Rightarrow> Some (e1, False)
           | Some l \<Rightarrow> Some (e1, degraded (attrs l) name)))"

definition setAttrBase :: "'x Entity_scheme \<Rightarrow> string \<Rightarrow> flt \<Rightarrow> 'x Entity_scheme" where
  "setAttrBase e name b = markAttrsDirty (updateLiving (\<lambda>l. l\<lparr>attrBase := (attrBase l)(name \<mapsto> b)\<rparr>) e)"

definition addModSource :: "'x Entity_scheme \<Rightarrow> modSource \<Rightarrow> 'x Entity_scheme" where
  "addModSource e src = markAttrsDirty (updateLiving (\<lambda>l. l\<lparr>modSrcs := modSrcs l @ [src]\<rparr>) e)"


section \<open>Bounds\<close>

lemma isFiniteBounded_iff: "isFiniteBounded v \<longleftrightarrow> (\<exists>q. v = Fin q \<and> \<bar>q\<bar> \<le> attrFoldCeiling)"
  by (cases v) (auto simp: isFiniteBounded_def)

lemma ceiling_pos [simp]: "0 < attrFoldCeiling" "0 \<le> attrFoldCeiling"
  by (simp_all add: attrFoldCeiling_def)

lemma zero_bounded [simp]: "isFiniteBounded (Fin 0)"
  by (simp add: isFiniteBounded_iff)

lemma attrScreen_bounded: "isFiniteBounded (fst (attrScreen v fallback))"
proof (cases v)
  case (Infty s)
  then show ?thesis
    by (cases s) (simp_all add: attrScreen_def copysign_def isFiniteBounded_iff)
next
  case (Fin q)
  then show ?thesis
    by (auto simp: attrScreen_def copysign_def isFiniteBounded_iff)
qed (auto simp: attrScreen_def)

text \<open>What the screen leaves alone is exactly what is within the bound.\<close>

lemma attrScreen_keeps: "\<not> snd (attrScreen v fallback) \<longleftrightarrow> isFiniteBounded v"
proof (cases v)
  case (Infty s)
  then show ?thesis by (simp add: attrScreen_def isFiniteBounded_iff)
next
  case (Fin q)
  then show ?thesis by (simp add: attrScreen_def isFiniteBounded_iff not_less)
qed (auto simp: attrScreen_def isFiniteBounded_iff)

lemma attrScreen_same: "\<not> snd (attrScreen v fallback) \<Longrightarrow> fst (attrScreen v fallback) = v"
  by (auto simp: attrScreen_def split: if_splits)

lemma finish_attr_bounded: "isFiniteBounded (fst (finish_attr l d name b deg))"
  using attrScreen_bounded [of _ "Fin 0"] attrScreen_keeps [of _ "Fin 0"]
  by (auto simp: finish_attr_def Let_def case_prod_beta)

lemma resolveAttr_bounded:
  "resolveAttr defs l visited name = Inr (v, deg) \<Longrightarrow> isFiniteBounded v"
  using finish_attr_bounded [of l]
  by (subst (asm) resolveAttr.simps)
     (auto simp: Let_def case_prod_beta split: option.splits if_splits sum.splits
           dest!: arg_cong [where f = fst])

lemma attr_value_bounded:
  "attr_value (resolveAttr defs l visited name) = Some (v, deg) \<Longrightarrow> isFiniteBounded v"
  using resolveAttr_bounded [of defs l visited name]
  by (auto simp: attr_value_def split: sum.splits ferr.splits)

section \<open>The cache\<close>

text \<open>What the cache stands for: every value it holds is the one a fresh derivation gives.\<close>

definition derived :: "attrRegistry \<Rightarrow> Living \<Rightarrow> string \<Rightarrow> (flt \<times> bool) option" where
  "derived defs l name = attr_value (resolveAttr defs l [] name)"

definition coherent :: "attrRegistry \<Rightarrow> Living \<Rightarrow> bool" where
  "coherent defs l \<longleftrightarrow>
     (\<forall>name. cached (flushed (attrs l)) name = None \<longrightarrow> \<not> degraded (flushed (attrs l)) name) \<and>
     (\<forall>name v. cached (flushed (attrs l)) name = Some v \<longrightarrow>
                derived defs l name = Some (v, degraded (flushed (attrs l)) name))"

definition entity_ok :: "attrRegistry \<Rightarrow> 'x Entity_scheme \<Rightarrow> bool" where
  "entity_ok defs e \<longleftrightarrow> (case living (mutableLiving e) of None \<Rightarrow> True | Some l \<Rightarrow> coherent defs l)"

lemma resolveAttr_depends:
  assumes "attrBase l = attrBase l'" and "modSrcs l = modSrcs l'"
  shows "resolveAttr defs l visited name = resolveAttr defs l' visited name"
  using assms
proof (induction defs l visited name rule: resolveAttr.induct)
  case (1 defs l visited name)
  have fin: "finish_attr l = finish_attr l'"
    using 1(3) by (simp add: finish_attr_def fun_eq_iff)
  show ?case
  proof (cases "map_of defs name")
    case (Some d)
    show ?thesis
    proof (cases "name \<in> set visited \<or> attrBase l name \<noteq> None \<or> base d = nilNode")
      case True
      then show ?thesis
        using Some 1(2) by (subst (1 2) resolveAttr.simps) (auto simp: fin split: option.splits)
    next
      case False
      then have "(\<lambda>ref. resolveAttr defs l (name # visited) ref) =
                 (\<lambda>ref. resolveAttr defs l' (name # visited) ref)"
        using 1 Some by (intro ext) auto
      then show ?thesis
        using Some 1(2)
        by (subst (1 2) resolveAttr.simps) (simp add: fin split: option.splits sum.splits)
    qed
  qed (simp add: resolveAttr.simps)
qed

lemma derived_attrs [simp]: "derived defs (l\<lparr>attrs := c\<rparr>) = derived defs l"
  by (rule ext) (simp add: derived_def resolveAttr_depends [where l = "l\<lparr>attrs := c\<rparr>" and l' = l])

lemma flushed_clean [simp]: "\<not> dirty (flushed c)" "vals (flushed c) \<noteq> None"
  by (auto simp: flushed_def split: option.splits)

lemma flushed_flushed [simp]: "flushed (flushed c) = flushed c"
  by (auto simp: flushed_def split: option.splits)

lemma flushed_memo [simp]: "flushed (memo (flushed c) name v deg) = memo (flushed c) name v deg"
  by (auto simp: flushed_def memo_def split: option.splits)

lemma cached_memo: "vals c \<noteq> None \<Longrightarrow> cached (memo c name v deg) n = (if n = name then Some v else cached c n)"
  by (auto simp: cached_def memo_def)

lemma degraded_memo: "degraded (memo c name v deg) n = (if n = name \<and> deg then True else degraded c n)"
  by (auto simp: memo_def)

lemma cached_dirty [simp]:
  "dirty c \<Longrightarrow> cached (flushed c) n = None" "dirty c \<Longrightarrow> degraded (flushed c) n = False"
  by (auto simp: flushed_def cached_def split: option.splits)

lemma coherent_dirty: "dirty (attrs l) \<Longrightarrow> coherent defs l"
  by (simp add: coherent_def)

lemma coherent_memo:
  assumes "coherent defs l" and "cached (flushed (attrs l)) name = None"
    and "derived defs l name = Some (v, deg)"
  shows "coherent defs (l\<lparr>attrs := memo (flushed (attrs l)) name v deg\<rparr>)"
proof -
  have "\<not> degraded (flushed (attrs l)) name"
    using assms(1,2) by (simp add: coherent_def)
  then show ?thesis
    using assms by (simp add: coherent_def cached_memo degraded_memo)
qed

lemma mutableLiving_idem [simp]: "mutableLiving (mutableLiving e) = mutableLiving e"
  by (auto simp: mutableLiving_def split: option.splits)

lemma mutableLiving_owned [simp]: "\<not> aliased e \<Longrightarrow> mutableLiving e = e"
  by (simp add: mutableLiving_def split: option.splits)

lemma aliased_mutable: "living e \<noteq> None \<Longrightarrow> \<not> aliased (mutableLiving e)"
  by (auto simp: mutableLiving_def split: option.splits if_splits)

lemma living_mutable [simp]: "living (mutableLiving e) = None \<longleftrightarrow> living e = None"
  by (auto simp: mutableLiving_def split: option.splits)

lemma living_update:
  "living (mutableLiving (updateLiving f e)) = map_option f (living (mutableLiving e))"
  by (cases "living e")
     (auto simp: updateLiving_def Let_def mutableLiving_def aliased_mutable split: option.splits)

lemma update_owned: "living e \<noteq> None \<Longrightarrow> \<not> aliased (updateLiving f e)"
  by (auto simp: updateLiving_def Let_def aliased_mutable)

lemma markAttrsDirty_ok: "entity_ok defs (markAttrsDirty e)"
  by (auto simp: entity_ok_def markAttrsDirty_def living_update coherent_dirty split: option.splits)

text \<open>One read: the value is the derived one and the cache stays coherent.\<close>

lemma attr_living: "living e = None \<Longrightarrow> attr defs e name = Some (e, Fin 0)"
  by (simp add: attr_def mutableLiving_def)

lemma attr_correct:
  assumes "entity_ok defs e" and "living (mutableLiving e) = Some l"
  shows "case derived defs l name of
           None \<Rightarrow> attr defs e name = None
         | Some (v, deg) \<Rightarrow>
             \<exists>e' c. attr defs e name = Some (e', v) \<and> living e' = Some (l\<lparr>attrs := c\<rparr>) \<and>
                    \<not> aliased e' \<and> coherent defs (l\<lparr>attrs := c\<rparr>) \<and> degraded c name = deg"
proof -
  have coh: "coherent defs l"
    using assms by (simp add: entity_ok_def)
  have own: "\<not> aliased (mutableLiving e)"
    using assms(2) aliased_mutable [of e] living_mutable [of e] by (metis option.discI)
  show ?thesis
  proof (cases "cached (flushed (attrs l)) name")
    case None
    show ?thesis
    proof (cases "derived defs l name")
      case (Some r)
      obtain v deg where r: "derived defs l name = Some (v, deg)"
        using Some by (cases r) auto
      have nd: "\<not> degraded (flushed (attrs l)) name"
        using coh None by (simp add: coherent_def)
      have "attr defs e name =
              Some ((mutableLiving e)\<lparr>living := Some (l\<lparr>attrs := memo (flushed (attrs l)) name v deg\<rparr>)\<rparr>, v)"
        using assms(2) None r by (simp add: attr_def Let_def derived_def)
      moreover have "degraded (memo (flushed (attrs l)) name v deg) name = deg"
        using nd by (simp add: degraded_memo)
      ultimately show ?thesis
        using coherent_memo [OF coh None r] own r by auto
    qed (use assms(2) None in \<open>simp add: attr_def Let_def derived_def\<close>)
  next
    case (Some v)
    have "derived defs l name = Some (v, degraded (flushed (attrs l)) name)"
      using coh Some by (simp add: coherent_def)
    moreover have "attr defs e name =
        Some ((mutableLiving e)\<lparr>living := Some (l\<lparr>attrs := flushed (attrs l)\<rparr>)\<rparr>, v)"
      using assms(2) Some by (simp add: attr_def Let_def)
    moreover have "coherent defs (l\<lparr>attrs := flushed (attrs l)\<rparr>)"
      using coh by (simp add: coherent_def)
    ultimately show ?thesis
      using own by auto
  qed
qed


section \<open>Reachable entities\<close>

text \<open>
  What happens to an entity: it starts as a spawned mob aliasing its prototype, or with a cache never
  filled; then attributes are read, bases installed, sources added or changed in place (which the code
  always follows by \<open>markAttrsDirty\<close>), and other parts of its \<open>Living\<close> or of the entity written.
\<close>

inductive attr_reach :: "attrRegistry \<Rightarrow> 'x Entity_scheme \<Rightarrow> bool" for defs where
  spawned: "aliased e \<Longrightarrow> attr_reach defs e"
| unread: "living e = Some l \<Longrightarrow> vals (attrs l) = None \<Longrightarrow> attr_reach defs e"
| lifeless: "living e = None \<Longrightarrow> attr_reach defs e"
| read: "attr_reach defs e \<Longrightarrow> attr defs e name = Some (e', v) \<Longrightarrow> attr_reach defs e'"
| set_base: "attr_reach defs e \<Longrightarrow> attr_reach defs (setAttrBase e name b)"
| add_source: "attr_reach defs e \<Longrightarrow> attr_reach defs (addModSource e src)"
| change_sources: "attr_reach defs e \<Longrightarrow>
    attr_reach defs (markAttrsDirty (updateLiving (\<lambda>l. l\<lparr>modSrcs := srcs\<rparr>) e))"
| write_rest: "attr_reach defs e \<Longrightarrow>
    attr_reach defs (updateLiving (\<lambda>l. l\<lparr>resCur := rc, posn := p\<rparr>) e)"
| write_other: "attr_reach defs e \<Longrightarrow> living e' = living e \<Longrightarrow> aliased e' = aliased e \<Longrightarrow>
    attr_reach defs e'"

lemma mutable_lifeless [simp]: "living e = None \<Longrightarrow> mutableLiving e = e"
  by (simp add: mutableLiving_def)

lemma coherent_empty: "vals (attrs l) = None \<Longrightarrow> coherent defs l"
  by (simp add: coherent_def flushed_def cached_def)

lemma derived_rest [simp]: "derived defs (l\<lparr>resCur := rc, posn := p\<rparr>) = derived defs l"
  by (rule ext) (simp add: derived_def resolveAttr_depends [where l = "l\<lparr>resCur := rc, posn := p\<rparr>" and l' = l])

lemma entity_ok_read:
  assumes "entity_ok defs e" and "attr defs e name = Some (e', v)"
  shows "entity_ok defs e'"
proof (cases "living (mutableLiving e)")
  case None
  then have "e' = e"
    using assms(2) by (simp add: attr_living)
  then show ?thesis
    using assms(1) by simp
next
  case (Some l)
  show ?thesis
    using attr_correct [OF assms(1) Some, of name] assms(2)
    by (auto simp: entity_ok_def split: option.splits)
qed

lemma reach_ok: "attr_reach defs e \<Longrightarrow> entity_ok defs e"
proof (induction rule: attr_reach.induct)
  case (spawned e)
  then show ?case
    by (auto simp: entity_ok_def mutableLiving_def cloneLiving_def coherent_dirty split: option.splits)
next
  case (unread e l)
  then show ?case
    by (auto simp: entity_ok_def mutableLiving_def cloneLiving_def coherent_dirty coherent_empty)
next
  case (lifeless e)
  then show ?case
    by (simp add: entity_ok_def mutableLiving_def)
next
  case (read e name e' v)
  then show ?case
    using entity_ok_read by blast
next
  case (write_rest e rc p)
  then show ?case
    by (auto simp: entity_ok_def living_update coherent_def split: option.splits)
next
  case (write_other e e')
  then show ?case
    by (auto simp: entity_ok_def mutableLiving_def split: option.splits if_splits)
qed (simp_all add: setAttrBase_def addModSource_def markAttrsDirty_ok)

section \<open>Unscreened derivation\<close>

text \<open>The modifier stack as \<open>docs\<close> describe it, with no screen anywhere.\<close>

definition unmarked :: "ferr + flt \<Rightarrow> ferr + flt \<times> bool" where
  "unmarked r = (case r of Inl e \<Rightarrow> Inl e | Inr v \<Rightarrow> Inr (v, False))"

definition stack_value :: "Living \<Rightarrow> attributeDef \<Rightarrow> string \<Rightarrow> flt \<Rightarrow> flt" where
  "stack_value l d name b =
     (let (flat, mul) = fold_mods (modSrcs l) name in clamp_decl d (fmul (fadd b flat) mul))"

function exactAttr :: "attrRegistry \<Rightarrow> Living \<Rightarrow> string list \<Rightarrow> string \<Rightarrow> ferr + flt" where
  "exactAttr defs l visited name =
     (case map_of defs name of
        None \<Rightarrow> Inr (Fin 0)
      | Some d \<Rightarrow>
          if name \<in> set visited then Inl (AttrCycle name)
          else
            (case attrBase l name of
               Some ov \<Rightarrow> Inr (stack_value l d name ov)
             | None \<Rightarrow>
                 if base d = nilNode then Inr (stack_value l d name (Fin 0))
                 else
                   (case eval_node (\<lambda>ref. unmarked (exactAttr defs l (name # visited) ref)) (base d) of
                      Inl err \<Rightarrow> Inl err
                    | Inr (v, _) \<Rightarrow> Inr (stack_value l d name v))))"
  by pat_completeness auto
termination
proof (relation "measure (\<lambda>(defs, l, visited, name). card (fst ` set defs - set visited))")
  fix defs :: attrRegistry and l :: Living and visited name d ref
  assume "map_of defs name = Some d" and "name \<notin> set visited"
  then have "name \<in> fst ` set defs - set visited"
    by (force dest: map_of_SomeD)
  then have "card (fst ` set defs - set (name # visited)) < card (fst ` set defs - set visited)"
    by (intro psubset_card_mono) auto
  then show "((defs, l, name # visited, ref), (defs, l, visited, name))
             \<in> measure (\<lambda>(defs, l, visited, name). card (fst ` set defs - set visited))"
    by simp
qed simp

declare exactAttr.simps [simp del]

text \<open>The two derivations, one branch at a time.\<close>

definition given_base :: "Living \<Rightarrow> attributeDef \<Rightarrow> string \<Rightarrow> flt option" where
  "given_base l d name =
     (case attrBase l name of
        Some ov \<Rightarrow> Some ov
      | None \<Rightarrow> if base d = nilNode then Some (Fin 0) else None)"

lemma resolve_given:
  assumes "map_of defs name = Some d" and "name \<notin> set visited" and "given_base l d name = Some b"
  shows "resolveAttr defs l visited name = Inr (finish_attr l d name b False)"
    and "exactAttr defs l visited name = Inr (stack_value l d name b)"
  using assms
  by (subst resolveAttr.simps exactAttr.simps,
      auto simp: given_base_def split: option.splits if_splits)+

lemma resolve_formula:
  assumes "map_of defs name = Some d" and "name \<notin> set visited" and "given_base l d name = None"
  shows "resolveAttr defs l visited name =
           (case eval_node (\<lambda>ref. resolveAttr defs l (name # visited) ref) (base d) of
              Inl err \<Rightarrow> Inl err
            | Inr (v, deg) \<Rightarrow>
                Inr (finish_attr l d name (fst (attrScreen v (Fin 0))) (deg \<or> snd (attrScreen v (Fin 0)))))"
    and "exactAttr defs l visited name =
           (case eval_node (\<lambda>ref. unmarked (exactAttr defs l (name # visited) ref)) (base d) of
              Inl err \<Rightarrow> Inl err
            | Inr (v, _) \<Rightarrow> Inr (stack_value l d name v))"
  using assms
  by (subst resolveAttr.simps exactAttr.simps,
      simp add: given_base_def Let_def case_prod_beta split: option.splits if_splits sum.splits)+

lemma resolve_stops:
  "map_of defs name = None \<Longrightarrow> resolveAttr defs l visited name = Inr (Fin 0, False)"
  "map_of defs name = None \<Longrightarrow> exactAttr defs l visited name = Inr (Fin 0)"
  "map_of defs name = Some d \<Longrightarrow> name \<in> set visited \<Longrightarrow> resolveAttr defs l visited name = Inl (AttrCycle name)"
  by (subst resolveAttr.simps exactAttr.simps, simp)+

lemma given_base_None: "given_base l d name = None \<longleftrightarrow> attrBase l name = None \<and> base d \<noteq> nilNode"
  by (auto simp: given_base_def split: option.splits)

lemma eval_unmarked_args:
  assumes "eval_args r ns = Inr (vs, False)"
    and "\<And>n v. n \<in> set ns \<Longrightarrow> eval_node r n = Inr (v, False) \<Longrightarrow> eval_node r' n = Inr (v, False)"
  shows "eval_args r' ns = Inr (vs, False)"
  using assms
proof (induction ns arbitrary: vs)
  case (Cons a as)
  then show ?case
    by (fastforce split: sum.splits prod.splits)
qed simp

lemma eval_unmarked:
  assumes "\<And>ref w. r ref = Inr (w, False) \<Longrightarrow> r' ref = Inr (w, False)"
  shows "eval_node r n = Inr (v, False) \<Longrightarrow> eval_node r' n = Inr (v, False)"
proof (induction n arbitrary: v)
  case (opNode op args)
  show ?case
  proof (cases "op = ''if''")
    case True
    then obtain c t f where args: "args = [c, t, f]"
      using opNode(2) by (auto split: list.splits)
    obtain cond where c: "eval_node r c = Inr (cond, False)"
      and br: "eval_node r (if feq cond (Fin 0) then f else t) = Inr (v, False)"
      using opNode(2) True args by (auto split: sum.splits prod.splits)
    then have "eval_node r' c = Inr (cond, False)"
      and "eval_node r' (if feq cond (Fin 0) then f else t) = Inr (v, False)"
      using opNode(1) args by (auto split: if_splits)
    then show ?thesis
      using True args by simp
  next
    case False
    then obtain vs where vs: "eval_args r args = Inr (vs, False)" "apply_op op vs = Inr v"
      using opNode(2) by (auto split: sum.splits prod.splits)
    then have "eval_args r' args = Inr (vs, False)"
      using eval_unmarked_args opNode(1) by blast
    then show ?thesis
      using False vs(2) by simp
  qed
qed (use assms in auto)

lemma finish_unmarked:
  assumes "finish_attr l d name b deg = (v, False)"
  shows "v = stack_value l d name b" and "\<not> deg"
  using assms attrScreen_same
  by (auto simp: finish_attr_def stack_value_def Let_def case_prod_beta split: if_splits)

lemma unmarked_is_exact:
  "resolveAttr defs l visited name = Inr (v, False) \<Longrightarrow> exactAttr defs l visited name = Inr v"
proof (induction defs l visited name arbitrary: v rule: resolveAttr.induct)
  case (1 defs l visited name)
  show ?case
  proof (cases "map_of defs name")
    case None
    then show ?thesis
      using 1(2) by (simp add: resolve_stops)
  next
    case (Some d)
    then have new: "name \<notin> set visited"
      using 1(2) resolve_stops(3) [OF Some] by auto
    show ?thesis
    proof (cases "given_base l d name")
      case (Some b)
      then show ?thesis
        using 1(2) finish_unmarked(1) \<open>map_of defs name = Some d\<close> new
        by (simp add: resolve_given)
    next
      case None
      note step = resolve_formula [OF Some new None]
      obtain w deg where ev: "eval_node (\<lambda>ref. resolveAttr defs l (name # visited) ref) (base d) = Inr (w, deg)"
        and fin: "finish_attr l d name (fst (attrScreen w (Fin 0))) (deg \<or> snd (attrScreen w (Fin 0))) = (v, False)"
        using 1(2) step(1) by (auto split: sum.splits)
      have v: "v = stack_value l d name w" and deg: "\<not> deg"
        using finish_unmarked [OF fin] attrScreen_same [of w "Fin 0"] by auto
      have rec: "\<And>ref u. resolveAttr defs l (name # visited) ref = Inr (u, False) \<Longrightarrow>
                   exactAttr defs l (name # visited) ref = Inr u"
        using 1(1) Some new None by (simp add: given_base_None)
      have "eval_node (\<lambda>ref. unmarked (exactAttr defs l (name # visited) ref)) (base d) = Inr (w, False)"
      proof (rule eval_unmarked [where r = "\<lambda>ref. resolveAttr defs l (name # visited) ref"])
        show "eval_node (\<lambda>ref. resolveAttr defs l (name # visited) ref) (base d) = Inr (w, False)"
          using ev deg by simp
      qed (simp add: unmarked_def rec)
      then show ?thesis
        using step(2) v by simp
    qed
  qed
qed


lemma derived_exact:
  "derived defs l name = Some (v, False) \<Longrightarrow>
     exactAttr defs l [] name = Inr v \<or> (\<exists>err. resolveAttr defs l [] name = Inl err) \<and> v = Fin 0"
  using unmarked_is_exact [of defs l "[]" name v]
  by (auto simp: derived_def attr_value_def split: sum.splits ferr.splits)

lemma eval_no_marks:
  assumes "\<And>ref w. r ref \<noteq> Inr (w, True)"
  shows "eval_node r n = Inr (v, d) \<Longrightarrow> \<not> d"
proof (induction n arbitrary: v d)
  case (opNode op args)
  show ?case
  proof (cases "op = ''if''")
    case True
    then obtain c t f where args: "args = [c, t, f]"
      using opNode(2) by (auto split: list.splits)
    show ?thesis
      using opNode True args by (auto split: sum.splits prod.splits if_splits)
  next
    case False
    then obtain vs where "eval_args r args = Inr (vs, d)"
      using opNode(2) by (auto split: sum.splits prod.splits)
    then show ?thesis
      using eval_args_marks opNode(1) by blast
  qed
qed (use assms in auto)

text \<open>The two reads of a check: the mark, then the value.\<close>

lemma read_unmarked:
  assumes "attr_reach defs e" and "living (mutableLiving e) = Some l"
    and "attrIsDegraded defs e name = Some (e1, False)" and "attr defs e1 name = Some (e2, v)"
  shows "derived defs l name = Some (v, False)"
proof -
  obtain w where e1: "attr defs e name = Some (e1, w)"
    using assms(3) by (auto simp: attrIsDegraded_def split: option.splits)
  obtain c where c: "derived defs l name = Some (w, False)" "living e1 = Some (l\<lparr>attrs := c\<rparr>)"
      "\<not> aliased e1"
    using attr_correct [OF reach_ok [OF assms(1)] assms(2), of name] assms(3) e1
    by (auto simp: attrIsDegraded_def split: option.splits)
  have "attr_reach defs e1"
    using assms(1) e1 by (rule attr_reach.read)
  then have "w = v"
    using attr_correct [OF reach_ok, of defs e1 "l\<lparr>attrs := c\<rparr>" name] c assms(4) by auto
  then show ?thesis
    using c(1) by simp
qed

lemma attr_reads_bounded:
  assumes "attr_reach defs e" and "attr defs e name = Some (e', v)"
  shows "\<exists>q. v = Fin q \<and> \<bar>q\<bar> \<le> attrFoldCeiling"
proof (cases "living (mutableLiving e)")
  case None
  then show ?thesis
    using assms(2) by (auto simp: attr_living)
next
  case (Some l)
  then obtain deg where "derived defs l name = Some (v, deg)"
    using attr_correct [OF reach_ok [OF assms(1)] Some, of name] assms(2)
    by (auto split: option.splits)
  then have "isFiniteBounded v"
    using attr_value_bounded by (auto simp: derived_def)
  then show ?thesis
    by (simp add: isFiniteBounded_iff)
qed

section \<open>Properties\<close>

text \<open>
  C23. Every attribute read of every reachable entity is a finite number of magnitude at most 1e12,
  whatever the definitions, base overrides and modifier sources are: NaN, the infinities and values
  beyond the ceiling never leave the derivation.
\<close>
theorem attribute_reads_are_bounded:
  assumes "attr_reach defs e" and "attr defs e name = Some (e', v)"
  shows "\<exists>q. v = Fin q \<and> \<bar>q\<bar> \<le> attrFoldCeiling"
  by (rule attr_reads_bounded [OF assms])

text \<open>
  The memo cache is transparent: on every reachable entity an attribute read returns the value a
  fresh derivation gives, and panics only where that does, after any sequence of reads, base
  installations, source changes and writes to the rest of the entity.
\<close>
lemma attribute_cache_is_transparent:
  assumes "attr_reach defs e" and "living (mutableLiving e) = Some l"
  shows "map_option snd (attr defs e name) = map_option fst (derived defs l name)"
  using attr_correct [OF reach_ok [OF assms(1)] assms(2), of name] by (auto split: option.splits)

text \<open>
  A value that is not marked as degraded is exact: it is what the documented modifier stack gives
  with no screen at any level of the derivation, or the 0 of a resolution that failed. So the mark
  never goes missing on the way through derived attributes.
\<close>
lemma unmarked_reads_are_exact:
  assumes "attr_reach defs e" and "living (mutableLiving e) = Some l"
    and "attrIsDegraded defs e name = Some (e1, False)" and "attr defs e name = Some (e2, v)"
  shows "exactAttr defs l [] name = Inr v \<or> (\<exists>err. resolveAttr defs l [] name = Inl err) \<and> v = Fin 0"
proof -
  have "derived defs l name = Some (v, False)"
    using attr_correct [OF reach_ok [OF assms(1)] assms(2), of name] assms(3,4)
    by (auto simp: attrIsDegraded_def split: option.splits)
  then show ?thesis
    by (rule derived_exact)
qed

text \<open>A strength of 10 and a poisoned attribute, read on a fresh entity.\<close>

definition demo_stats :: attrRegistry where
  "demo_stats =
     [(''str'', \<lparr>base = litNode (Fin 10), min_of = None, max_of = Some (Fin 25)\<rparr>),
      (''big'', \<lparr>base = litNode (Infty False), min_of = None, max_of = None\<rparr>)]"

definition demo_body :: Living where
  "demo_body = \<lparr>attrBase = Map.empty, resCur = Map.empty,
                attrs = \<lparr>dirty = False, vals = None, degraded = (\<lambda>_. False)\<rparr>, modSrcs = [], posn = 0\<rparr>"

definition demo_entity :: Entity where
  "demo_entity = \<lparr>living = Some demo_body, aliased = False\<rparr>"

lemma demo_str: "resolveAttr demo_stats demo_body [] ''str'' = Inr (Fin 10, False)"
  by (subst resolve_formula(1) [where d = "\<lparr>base = litNode (Fin 10), min_of = None, max_of = Some (Fin 25)\<rparr>"])
     (simp_all add: demo_stats_def demo_body_def given_base_def finish_attr_def fold_mods_def
        attrScreen_def clamp_decl_def attrFoldCeiling_def copysign_def)

lemma demo_big: "resolveAttr demo_stats demo_body [] ''big'' = Inr (Fin (10 ^ 12), True)"
  by (subst resolve_formula(1) [where d = "\<lparr>base = litNode (Infty False), min_of = None, max_of = None\<rparr>"])
     (simp_all add: demo_stats_def demo_body_def given_base_def finish_attr_def fold_mods_def
        attrScreen_def clamp_decl_def attrFoldCeiling_def copysign_def)

lemma demo_reach: "attr_reach demo_stats demo_entity"
  by (rule unread [of _ demo_body]) (simp_all add: demo_entity_def demo_body_def)

lemma demo_living_eq [simp]: "living (mutableLiving demo_entity) = Some demo_body"
  by (simp add: demo_entity_def mutableLiving_def)

lemma demo_read:
  "attr demo_stats demo_entity name = map_option (\<lambda>(v, deg).
     (demo_entity\<lparr>living := Some (demo_body\<lparr>attrs := memo (flushed (attrs demo_body)) name v deg\<rparr>)\<rparr>, v))
     (attr_value (resolveAttr demo_stats demo_body [] name))"
  by (auto simp: attr_def Let_def demo_entity_def demo_body_def mutableLiving_def flushed_def cached_def
           split: option.splits)

lemma demo_fresh: "degraded (flushed (attrs demo_body)) name = False"
  by (simp add: demo_body_def flushed_def)

theorem attribute_reads_are_bounded_witness:
  "\<exists>q. Fin (10 ^ 12) = Fin q \<and> \<bar>q\<bar> \<le> attrFoldCeiling"
  by (rule attribute_reads_are_bounded [OF demo_reach, of "''big''"])
     (simp add: demo_read demo_big attr_value_def)

end
