(* ===== verification/Attribute_Lint.thy ===== *)
theory Attribute_Lint
  imports Attributes
begin

text \<open>
  The load-time lint for attribute reference cycles, \<open>attributeCycles\<close> and \<open>lintAttributeCycles\<close> of
  \<open>internal/world/attributes.go\<close>: a three-colour depth-first search over the references of the base
  formulas, which reports every back edge with the search stack that leads to it.

  The search is written with fuel for its recursion depth; \<open>attributeCycles\<close> gives it the number of
  definitions, and \<open>visit_returns\<close> shows that this is always enough. A formula with a nil
  node makes \<open>refs\<close> panic; as the search visits every definition, one such formula is a panic of the
  whole lint, \<open>None\<close>.
\<close>

section \<open>The search\<close>

record dfs =
  color :: "string \<Rightarrow> nat"
  cycles :: "string list list"

text \<open>The sorted references of a definition; white is 0, gray 1, black 2.\<close>

definition nexts :: "attrRegistry \<Rightarrow> string \<Rightarrow> string list" where
  "nexts defs ref =
     (case map_of defs ref of
        None \<Rightarrow> []
      | Some d \<Rightarrow>
          if base d = nilNode then []
          else (case refs (base d) of None \<Rightarrow> [] | Some rs \<Rightarrow> sort (remdups rs)))"

function visit :: "nat \<Rightarrow> attrRegistry \<Rightarrow> string \<Rightarrow> string list \<Rightarrow> dfs \<Rightarrow> dfs option"
and visit_nexts :: "nat \<Rightarrow> attrRegistry \<Rightarrow> string list \<Rightarrow> string list \<Rightarrow> dfs \<Rightarrow> dfs option" where
  "visit 0 defs ref stack st = None"
| "visit (Suc n) defs ref stack st =
     (case visit_nexts n defs (nexts defs ref) (stack @ [ref]) (st\<lparr>color := (color st)(ref := 1)\<rparr>) of
        None \<Rightarrow> None
      | Some st' \<Rightarrow> Some (st'\<lparr>color := (color st')(ref := 2)\<rparr>))"
| "visit_nexts n defs [] stack st = Some st"
| "visit_nexts n defs (x # xs) stack st =
     (if map_of defs x = None then visit_nexts n defs xs stack st
      else if color st x = 1 then
        visit_nexts n defs xs stack (st\<lparr>cycles := cycles st @ [stack @ [x]]\<rparr>)
      else if color st x = 0 then
        (case visit n defs x stack st of
           None \<Rightarrow> None
         | Some st' \<Rightarrow> visit_nexts n defs xs stack st')
      else visit_nexts n defs xs stack st)"
  by pat_completeness auto
termination
  by (relation "measures [\<lambda>a. case a of Inl (n, _) \<Rightarrow> 2 * n | Inr (n, _) \<Rightarrow> 2 * n + 1,
                          \<lambda>a. case a of Inl _ \<Rightarrow> 0 | Inr (_, _, xs, _) \<Rightarrow> length xs]") auto

primrec visit_roots :: "nat \<Rightarrow> attrRegistry \<Rightarrow> string list \<Rightarrow> dfs \<Rightarrow> dfs option" where
  "visit_roots n defs [] st = Some st"
| "visit_roots n defs (r # rs) st =
     (if color st r = 0 then
        (case visit n defs r [] st of None \<Rightarrow> None | Some st' \<Rightarrow> visit_roots n defs rs st')
      else visit_roots n defs rs st)"

definition attr_keys :: "attrRegistry \<Rightarrow> string list" where
  "attr_keys defs = sort (remdups (map fst defs))"

definition refs_return :: "attrRegistry \<Rightarrow> string \<Rightarrow> bool" where
  "refs_return defs ref =
     (case map_of defs ref of
        None \<Rightarrow> True
      | Some d \<Rightarrow> base d = nilNode \<or> refs (base d) \<noteq> None)"

definition attributeCycles :: "attrRegistry \<Rightarrow> string list list option" where
  "attributeCycles defs =
     (if list_all (refs_return defs) (attr_keys defs)
      then map_option cycles
             (visit_roots (length (attr_keys defs)) defs (attr_keys defs) \<lparr>color = (\<lambda>_. 0), cycles = []\<rparr>)
      else None)"

section \<open>The graph\<close>

definition edges :: "attrRegistry \<Rightarrow> (string \<times> string) set" where
  "edges defs = {(a, b). b \<in> set (nexts defs a) \<and> map_of defs b \<noteq> None}"

definition grows :: "dfs \<Rightarrow> dfs \<Rightarrow> bool" where
  "grows st st' \<longleftrightarrow>
     (\<forall>x. color st' x = color st x \<or> (color st x = 0 \<and> color st' x = 2)) \<and>
     (\<exists>ys. cycles st' = cycles st @ ys)"

lemma grows_refl [simp]: "grows st st"
  by (simp add: grows_def)

lemma grows_trans: "grows st st' \<Longrightarrow> grows st' st'' \<Longrightarrow> grows st st''"
  unfolding grows_def
  by (intro conjI allI; elim conjE exE) (metis zero_neq_numeral, simp)

lemma grows_report: "grows (st\<lparr>cycles := cycles st @ [c]\<rparr>) st' \<Longrightarrow> grows st st'"
  by (auto simp: grows_def)

lemma grows_gray: "grows st st' \<Longrightarrow> color st' x = 1 \<longleftrightarrow> color st x = 1"
  by (simp add: grows_def) (metis One_nat_def numeral_2_eq_2 n_not_Suc_n zero_neq_one)

lemma grows_black: "grows st st' \<Longrightarrow> color st x = 2 \<Longrightarrow> color st' x = 2"
  by (simp add: grows_def) (metis zero_neq_numeral)

lemma grows_no_cycles: "grows st st' \<Longrightarrow> cycles st' = [] \<Longrightarrow> cycles st = []"
  by (auto simp: grows_def)

lemma visit_grows:
  "visit n defs ref stack st = Some st' \<Longrightarrow> color st ref = 0 \<Longrightarrow> grows st st' \<and> color st' ref = 2"
  "visit_nexts n defs xs stack st = Some st' \<Longrightarrow> grows st st'"
proof (induction n defs ref stack st and n defs xs stack st arbitrary: st' and st'
       rule: visit_visit_nexts.induct)
  case (2 n defs ref stack st)
  define st1 where "st1 = st\<lparr>color := (color st)(ref := 1)\<rparr>"
  obtain st2 where v: "visit_nexts n defs (nexts defs ref) (stack @ [ref]) st1 = Some st2"
    and st': "st' = st2\<lparr>color := (color st2)(ref := 2)\<rparr>"
    using 2(2) by (auto simp: st1_def split: option.splits)
  have "grows st1 st2"
    using 2(1) [folded st1_def, OF v] .
  then show ?case
    using 2(3) by (auto simp: grows_def st1_def st' split: if_splits)
next
  case (4 n defs x xs stack st)
  then show ?case
    by (auto split: if_splits option.splits intro: grows_trans grows_report)
qed (auto split: option.splits)

section \<open>Ranks: no report, no cycle\<close>

definition ranked :: "attrRegistry \<Rightarrow> dfs \<Rightarrow> bool" where
  "ranked defs st \<longleftrightarrow>
     (\<exists>f :: string \<Rightarrow> nat. \<forall>x y. color st x = 2 \<and> (x, y) \<in> edges defs \<longrightarrow> color st y = 2 \<and> f y < f x)"

lemma ranked_cong: "(\<And>x. color st' x = 2 \<longleftrightarrow> color st x = 2) \<Longrightarrow> ranked defs st' \<longleftrightarrow> ranked defs st"
  by (simp add: ranked_def)

lemma ranked_blacken:
  assumes "ranked defs st" and "color st ref \<noteq> 2"
    and succs: "\<And>y. (ref, y) \<in> edges defs \<Longrightarrow> color st y = 2"
  shows "ranked defs (st\<lparr>color := (color st)(ref := 2)\<rparr>)"
proof -
  obtain f :: "string \<Rightarrow> nat"
    where f: "\<And>x y. color st x = 2 \<Longrightarrow> (x, y) \<in> edges defs \<Longrightarrow> color st y = 2 \<and> f y < f x"
    using assms(1) by (auto simp: ranked_def)
  define g where "g = f(ref := Suc (sum_list (map f (nexts defs ref))))"
  have "f y < g ref" if "(ref, y) \<in> edges defs" for y
    using that member_le_sum_list [of "f y" "map f (nexts defs ref)"]
    by (auto simp: edges_def g_def less_Suc_eq_le)
  moreover have "g y = f y" if "color st y = 2" for y
    using that assms(2) by (auto simp: g_def)
  ultimately show ?thesis
    unfolding ranked_def using f succs assms(2) by (intro exI [of _ g]) (auto simp: g_def)
qed

lemma visit_ranked:
  "visit n defs ref stack st = Some st' \<Longrightarrow> color st ref = 0 \<Longrightarrow> cycles st' = [] \<Longrightarrow>
     (\<forall>x. color st x \<le> 2) \<Longrightarrow> ranked defs st \<Longrightarrow> ranked defs st'"
  "visit_nexts n defs xs stack st = Some st' \<Longrightarrow> cycles st' = [] \<Longrightarrow>
     (\<forall>x. color st x \<le> 2) \<Longrightarrow> ranked defs st \<Longrightarrow>
     ranked defs st' \<and> (\<forall>x \<in> set xs. map_of defs x \<noteq> None \<longrightarrow> color st' x = 2)"
proof (induction n defs ref stack st and n defs xs stack st arbitrary: st' and st'
       rule: visit_visit_nexts.induct)
  case (2 n defs ref stack st)
  define st1 where "st1 = st\<lparr>color := (color st)(ref := 1)\<rparr>"
  obtain st2 where v: "visit_nexts n defs (nexts defs ref) (stack @ [ref]) st1 = Some st2"
    and st': "st' = st2\<lparr>color := (color st2)(ref := 2)\<rparr>"
    using 2(2) by (auto simp: st1_def split: option.splits)
  have "ranked defs st1"
    using 2(6,3) ranked_cong [of st1 st defs] by (simp add: st1_def)
  then have "ranked defs st2 \<and> (\<forall>x \<in> set (nexts defs ref). map_of defs x \<noteq> None \<longrightarrow> color st2 x = 2)"
    using 2(1) [folded st1_def, OF v] 2(4,5) st' by (simp add: st1_def)
  moreover have "color st2 ref = 1"
    using grows_gray [OF visit_grows(2) [OF v], of ref] by (simp add: st1_def)
  ultimately show ?case
    unfolding st' by (intro ranked_blacken) (auto simp: edges_def)
next
  case (4 n defs x xs stack st)
  show ?case
  proof (cases "map_of defs x = None \<or> color st x = 2")
    case True
    then have v: "visit_nexts n defs xs stack st = Some st'"
      using "4.prems"(1) True by (auto split: if_splits)
    have "color st' x = 2" if "color st x = 2"
      using that grows_black [OF visit_grows(2) [OF v]] by simp
    moreover have "ranked defs st' \<and> (\<forall>x \<in> set xs. map_of defs x \<noteq> None \<longrightarrow> color st' x = 2)"
    proof (cases "map_of defs x = None")
      case True
      then show ?thesis
        using 4(1) "4.prems"(2-4) v by simp
    next
      case False
      then show ?thesis
        using 4(5) "4.prems"(2-4) v \<open>map_of defs x = None \<or> color st x = 2\<close> by auto
    qed
    ultimately show ?thesis
      using True by auto
  next
    case False
    have "color st x \<noteq> 1"
      using False "4.prems"(1,2) grows_no_cycles [OF visit_grows(2)] by fastforce
    then have w: "color st x = 0"
      using False "4.prems"(3) by (metis One_nat_def le_SucE le_zero_eq numeral_2_eq_2)
    then obtain st1 where v1: "visit n defs x stack st = Some st1"
      and v2: "visit_nexts n defs xs stack st1 = Some st'"
      using "4.prems"(1) False by (auto split: option.splits)
    note g1 = visit_grows(1) [OF v1 w] and g2 = visit_grows(2) [OF v2]
    have "ranked defs st1"
      using 4(3) w False v1 "4.prems"(3,4) grows_no_cycles [OF g2 "4.prems"(2)] by simp
    moreover have "\<forall>x. color st1 x \<le> 2"
      using g1 "4.prems"(3) by (metis grows_def order_refl)
    ultimately have "ranked defs st' \<and> (\<forall>x \<in> set xs. map_of defs x \<noteq> None \<longrightarrow> color st' x = 2)"
      using 4(4) w False v1 v2 "4.prems"(2) by simp
    then show ?thesis
      using grows_black [OF g2] g1 by simp
  qed
qed (auto split: option.splits)


section \<open>Every report is a cycle\<close>

definition is_cycle :: "attrRegistry \<Rightarrow> string list \<Rightarrow> bool" where
  "is_cycle defs c \<longleftrightarrow>
     (\<exists>p x. c = p @ [x] \<and> x \<in> set p \<and> successively (\<lambda>a b. (a, b) \<in> edges defs) c)"

definition gray_stack :: "dfs \<Rightarrow> string list \<Rightarrow> bool" where
  "gray_stack st stack \<longleftrightarrow> (\<forall>x. color st x = 1 \<longleftrightarrow> x \<in> set stack)"

lemma gray_stack_grows: "grows st st' \<Longrightarrow> gray_stack st stack \<Longrightarrow> gray_stack st' stack"
  using grows_gray unfolding gray_stack_def by blast

definition path_to :: "attrRegistry \<Rightarrow> string list \<Rightarrow> string \<Rightarrow> bool" where
  "path_to defs stack x \<longleftrightarrow> successively (\<lambda>a b. (a, b) \<in> edges defs) (stack @ [x])"

lemma path_to_snoc:
  assumes "path_to defs stack ref" and "x \<in> set (nexts defs ref)" and "map_of defs x \<noteq> None"
  shows "path_to defs (stack @ [ref]) x"
  using assms by (auto simp: path_to_def edges_def successively_append_iff)

lemma visit_sound:
  "visit n defs ref stack st = Some st' \<Longrightarrow> color st ref = 0 \<Longrightarrow> gray_stack st stack \<Longrightarrow>
     path_to defs stack ref \<Longrightarrow> list_all (is_cycle defs) (cycles st) \<Longrightarrow>
     list_all (is_cycle defs) (cycles st')"
  "visit_nexts n defs xs stack st = Some st' \<Longrightarrow> gray_stack st stack \<Longrightarrow>
     (\<forall>x \<in> set xs. map_of defs x \<noteq> None \<longrightarrow> path_to defs stack x) \<Longrightarrow>
     list_all (is_cycle defs) (cycles st) \<Longrightarrow> list_all (is_cycle defs) (cycles st')"
proof (induction n defs ref stack st and n defs xs stack st arbitrary: st' and st'
       rule: visit_visit_nexts.induct)
  case (2 n defs ref stack st)
  then show ?case
    using path_to_snoc [of defs stack ref]
    by (auto simp: gray_stack_def split: option.splits)
next
  case (4 n defs x xs stack st)
  show ?case
  proof (cases "map_of defs x = None \<or> color st x \<noteq> 0 \<and> color st x \<noteq> 1")
    case True
    then show ?thesis
      using 4(1,5) "4.prems" by (auto split: if_splits)
  next
    case False
    show ?thesis
    proof (cases "color st x = 1")
      case True
      then have "is_cycle defs (stack @ [x])"
        using "4.prems"(2,3) False by (auto simp: is_cycle_def gray_stack_def path_to_def)
      moreover have "visit_nexts n defs xs stack (st\<lparr>cycles := cycles st @ [stack @ [x]]\<rparr>) = Some st'"
        using "4.prems"(1) False True by (auto split: if_splits)
      moreover have "gray_stack (st\<lparr>cycles := cycles st @ [stack @ [x]]\<rparr>) stack"
        using "4.prems"(2) by (simp add: gray_stack_def)
      ultimately show ?thesis
        using 4(2) "4.prems"(3,4) False True by auto
    next
      case notgray: False
      then have w: "color st x = 0"
        using False by simp
      obtain st1 where v1: "visit n defs x stack st = Some st1"
        and v2: "visit_nexts n defs xs stack st1 = Some st'"
        using "4.prems"(1) False w by (auto split: option.splits)
      have "gray_stack st1 stack"
        using "4.prems"(2) visit_grows(1) [OF v1 w] gray_stack_grows by blast
      then show ?thesis
        using 4(3,4) "4.prems"(2-4) v1 v2 w False by simp
    qed
  qed
qed (auto split: option.splits)

section \<open>The search returns\<close>

definition whites :: "attrRegistry \<Rightarrow> dfs \<Rightarrow> string set" where
  "whites defs st = {k \<in> fst ` set defs. color st k = 0}"

lemma finite_whites [simp]: "finite (whites defs st)"
  by (simp add: whites_def)

lemma whites_grows: "grows st st' \<Longrightarrow> card (whites defs st') \<le> card (whites defs st)"
  by (rule card_mono, simp) (force simp: whites_def grows_def)

lemma whites_gray:
  assumes "color st ref = 0" and "map_of defs ref \<noteq> None"
  shows "card (whites defs (st\<lparr>color := (color st)(ref := 1)\<rparr>)) < card (whites defs st)"
proof (rule psubset_card_mono)
  have "ref \<in> whites defs st"
    using assms by (force simp: whites_def dest: map_of_SomeD)
  then show "whites defs (st\<lparr>color := (color st)(ref := 1)\<rparr>) \<subset> whites defs st"
    by (auto simp: whites_def)
qed simp

lemma visit_returns:
  "color st ref = 0 \<Longrightarrow> map_of defs ref \<noteq> None \<Longrightarrow> card (whites defs st) \<le> n \<Longrightarrow>
     visit n defs ref stack st \<noteq> None"
  "card (whites defs st) \<le> n \<Longrightarrow> visit_nexts n defs xs stack st \<noteq> None"
proof (induction n defs ref stack st and n defs xs stack st rule: visit_visit_nexts.induct)
  case (1 defs ref stack st)
  then show ?case
    using whites_gray [of st ref defs] by simp
next
  case (2 n defs ref stack st)
  then show ?case
    using whites_gray [of st ref defs] by (auto split: option.splits)
next
  case (4 n defs x xs stack st)
  show ?case
  proof (cases "map_of defs x = None \<or> color st x \<noteq> 0")
    case True
    moreover have "whites defs (st\<lparr>cycles := c\<rparr>) = whites defs st" for c
      by (simp add: whites_def)
    ultimately show ?thesis
      using 4(1,2,5) "4.prems" by auto
  next
    case False
    then obtain st1 where v1: "visit n defs x stack st = Some st1"
      using 4(3) "4.prems" by auto
    moreover have "card (whites defs st1) \<le> n"
      using whites_grows visit_grows(1) [OF v1] False "4.prems" order_trans by blast
    ultimately show ?thesis
      using 4(4) False by auto
  qed
qed auto

lemma visit_roots_props:
  assumes "card (whites defs st) \<le> n" and "\<forall>r \<in> set rs. map_of defs r \<noteq> None"
    and "gray_stack st []" and "list_all (is_cycle defs) (cycles st)" and "\<forall>x. color st x \<le> 2"
  shows "\<exists>st'. visit_roots n defs rs st = Some st' \<and> grows st st' \<and>
               list_all (is_cycle defs) (cycles st') \<and>
               (cycles st' = [] \<longrightarrow> ranked defs st \<longrightarrow> ranked defs st' \<and> (\<forall>r \<in> set rs. color st' r = 2))"
  using assms
proof (induction rs arbitrary: st)
  case (Cons r rs)
  show ?case
  proof (cases "color st r = 0")
    case True
    then obtain st1 where v: "visit n defs r [] st = Some st1"
      using visit_returns(1) [of st r defs n "[]"] Cons(2,3) by auto
    note g = visit_grows(1) [OF v True]
    have "card (whites defs st1) \<le> n"
      using whites_grows g Cons(2) order_trans by blast
    moreover have "gray_stack st1 []"
      using g gray_stack_grows Cons(4) by blast
    moreover have "list_all (is_cycle defs) (cycles st1)"
      using visit_sound(1) [OF v True] Cons(4,5) by (simp add: path_to_def)
    moreover have "\<forall>x. color st1 x \<le> 2"
      using g Cons(6) by (metis grows_def order_refl)
    ultimately obtain st' where v': "visit_roots n defs rs st1 = Some st'" "grows st1 st'"
      "list_all (is_cycle defs) (cycles st')"
      "cycles st' = [] \<longrightarrow> ranked defs st1 \<longrightarrow> ranked defs st' \<and> (\<forall>r \<in> set rs. color st' r = 2)"
      using Cons(1) [of st1] Cons(3) by auto
    show ?thesis
      using v v' True g grows_trans visit_ranked(1) [OF v True] Cons(6) grows_no_cycles
      by (auto intro: grows_black)
  next
    case False
    then have black: "color st r = 2"
      using Cons(4,6) by (metis One_nat_def Suc_1 gray_stack_def empty_iff le_SucE le_zero_eq list.set(1))
    obtain st' where "visit_roots n defs rs st = Some st'" "grows st st'"
      "list_all (is_cycle defs) (cycles st')"
      "cycles st' = [] \<longrightarrow> ranked defs st \<longrightarrow> ranked defs st' \<and> (\<forall>r \<in> set rs. color st' r = 2)"
      using Cons(1) [of st] Cons(2-6) by auto
    then show ?thesis
      using False black grows_black by auto
  qed
qed (auto simp: grows_def)


section \<open>The lint decides acyclicity\<close>

lemma map_of_keys: "k \<in> set (attr_keys defs) \<longleftrightarrow> map_of defs k \<noteq> None"
  by (simp add: attr_keys_def map_of_eq_None_iff)

lemma attributeCycles_returns:
  assumes "list_all (refs_return defs) (attr_keys defs)"
  shows "\<exists>st. attributeCycles defs = Some (cycles st) \<and> list_all (is_cycle defs) (cycles st) \<and>
              (cycles st = [] \<longrightarrow> ranked defs st \<and> (\<forall>k \<in> set (attr_keys defs). color st k = 2))"
proof -
  define st0 :: dfs where "st0 = \<lparr>color = (\<lambda>_. 0), cycles = []\<rparr>"
  have "whites defs st0 = set (attr_keys defs)"
    by (simp add: whites_def st0_def attr_keys_def)
  then have "card (whites defs st0) \<le> length (attr_keys defs)"
    by (simp add: card_length)
  then obtain st where "visit_roots (length (attr_keys defs)) defs (attr_keys defs) st0 = Some st"
    "list_all (is_cycle defs) (cycles st)"
    "cycles st = [] \<longrightarrow> ranked defs st0 \<longrightarrow> ranked defs st \<and> (\<forall>k \<in> set (attr_keys defs). color st k = 2)"
    using visit_roots_props [of defs st0 "length (attr_keys defs)" "attr_keys defs"]
    by (auto simp: st0_def gray_stack_def map_of_keys)
  moreover have "ranked defs st0"
    by (simp add: ranked_def st0_def)
  ultimately show ?thesis
    using assms by (auto simp: attributeCycles_def st0_def)
qed

lemma cycle_trancl: "successively (\<lambda>a b. (a, b) \<in> E) (x # p @ [y]) \<Longrightarrow> (x, y) \<in> E\<^sup>+"
proof (induction p arbitrary: x)
  case (Cons a p)
  then show ?case
    by (auto intro: trancl_into_trancl2)
qed auto

lemma is_cycle_not_acyclic: "is_cycle defs c \<Longrightarrow> \<not> acyclic (edges defs)"
proof -
  assume "is_cycle defs c"
  then obtain p x where c: "c = p @ [x]" "x \<in> set p"
    and s: "successively (\<lambda>a b. (a, b) \<in> edges defs) c"
    by (auto simp: is_cycle_def)
  obtain a b where "p = a @ x # b"
    using c(2) split_list by metis
  then have "successively (\<lambda>a b. (a, b) \<in> edges defs) (x # b @ [x])"
    using s c(1) by (simp add: successively_append_iff)
  from cycle_trancl [OF this] show ?thesis
    by (auto simp: acyclic_def)
qed

lemma edges_from_keys: "(a, b) \<in> edges defs \<Longrightarrow> map_of defs a \<noteq> None"
  by (cases "map_of defs a") (simp_all add: edges_def nexts_def)

lemma ranked_acyclic:
  assumes "ranked defs st" and "\<forall>k \<in> set (attr_keys defs). color st k = 2"
  shows "acyclic (edges defs)"
proof -
  obtain f :: "string \<Rightarrow> nat"
    where f: "\<And>x y. color st x = 2 \<Longrightarrow> (x, y) \<in> edges defs \<Longrightarrow> f y < f x"
    using assms(1) unfolding ranked_def by blast
  have "edges defs \<subseteq> (measure f)\<inverse>"
    using f assms(2) edges_from_keys map_of_keys by fastforce
  then show ?thesis
    using acyclic_subset acyclic_converse wf_acyclic wf_measure by metis
qed

lemma attributeCycles_acyclic:
  "attributeCycles defs = Some [] \<longleftrightarrow>
     list_all (refs_return defs) (attr_keys defs) \<and> acyclic (edges defs)"
proof (cases "list_all (refs_return defs) (attr_keys defs)")
  case True
  then obtain st where st: "attributeCycles defs = Some (cycles st)"
    "list_all (is_cycle defs) (cycles st)"
    "cycles st = [] \<longrightarrow> ranked defs st \<and> (\<forall>k \<in> set (attr_keys defs). color st k = 2)"
    using attributeCycles_returns by blast
  show ?thesis
  proof (cases "cycles st = []")
    case False
    then show ?thesis
      using st is_cycle_not_acyclic by (cases "cycles st") auto
  next
    case empty: True
    then show ?thesis
      using st True ranked_acyclic [of defs st] by simp
  qed
qed (simp add: attributeCycles_def)

section \<open>Linted attributes resolve\<close>

lemma parse_known_ops:
  "parseFormula v = Inr n \<Longrightarrow> known_ops n"
  "parseArrayNode vs = Inr n \<Longrightarrow> known_ops n"
  "parse_args vs = Inr ns \<Longrightarrow> \<forall>n \<in> set ns. known_ops n"
proof (induction v and vs and vs arbitrary: n and n and ns
       rule: parseFormula_parseArrayNode_parse_args.induct)
  case (9 h rest)
  then show ?case
    by (auto split: val.splits if_splits list.splits sum.splits)
qed (auto split: sum.splits)

definition parsed_base :: "attributeDef \<Rightarrow> bool" where
  "parsed_base d \<longleftrightarrow> (\<exists>v. parseFormula v = Inr (base d))"

lemma linted_base:
  assumes "list_all (refs_return defs) (attr_keys defs)" and "map_of defs name = Some d"
    and "base d \<noteq> nilNode"
  shows "nil_free (base d)" and "set (nexts defs name) = set (the (refs (base d)))"
proof -
  have "refs_return defs name"
    using assms(1,2) map_of_keys [of name defs] by (simp add: list_all_iff)
  then obtain rs where rs: "refs (base d) = Some rs"
    using assms(2,3) by (auto simp: refs_return_def)
  then show "nil_free (base d)"
    using refs_defined(1) [of "base d"] by simp
  show "set (nexts defs name) = set (the (refs (base d)))"
    using assms(2,3) rs by (simp add: nexts_def)
qed

lemma resolve_acyclic:
  assumes "acyclic (edges defs)" and "list_all (refs_return defs) (attr_keys defs)"
    and "\<And>k d. map_of defs k = Some d \<Longrightarrow> known_ops (base d)"
  shows "resolveAttr defs l visited name = Inl e \<Longrightarrow>
         \<forall>v \<in> set visited. map_of defs name \<noteq> None \<longrightarrow> (v, name) \<in> (edges defs)\<^sup>+ \<Longrightarrow> op_error e"
proof (induction "card (fst ` set defs - set visited)" arbitrary: visited name e rule: less_induct)
  case less
  obtain d where d: "map_of defs name = Some d"
    using less(2) by (cases "map_of defs name") (auto simp: resolve_stops)
  have new: "name \<notin> set visited"
    using less(3) d assms(1) by (auto simp: acyclic_def)
  have none: "given_base l d name = None"
    using less(2) resolve_given(1) [OF d new] by (cases "given_base l d name") auto
  have ev: "eval_node (\<lambda>ref. resolveAttr defs l (name # visited) ref) (base d) = Inl e"
    using less(2) resolve_formula(1) [OF d new none] by (auto split: sum.splits)
  have base: "base d \<noteq> nilNode"
    using none by (simp add: given_base_None)
  note lint = linted_base [OF assms(2) d base]
  have smaller: "card (fst ` set defs - set (name # visited)) < card (fst ` set defs - set visited)"
    using d new by (intro psubset_card_mono) (force dest: map_of_SomeD)+
  have "op_error e" if ref: "ref \<in> set (the (refs (base d)))"
      and err: "resolveAttr defs l (name # visited) ref = Inl e" for ref
  proof (rule less(1) [OF smaller err], intro ballI impI)
    fix v
    assume v: "v \<in> set (name # visited)" and "map_of defs ref \<noteq> None"
    then have edge: "(name, ref) \<in> edges defs"
      using ref lint(2) by (simp add: edges_def)
    show "(v, ref) \<in> (edges defs)\<^sup>+"
    proof (cases "v = name")
      case False
      then show ?thesis
        using v less(3) d edge by (auto intro: trancl_into_trancl)
    qed (use edge in auto)
  qed
  then show ?case
    using eval_error [OF ev lint(1) assms(3) [OF d]] by blast
qed


text \<open>
  In a registry the lint accepts, whose base formulas were parsed from content, no attribute of
  any entity resolves with a cycle error and none panics: an error is one of the arithmetic errors of
  the formula language.
\<close>
lemma linted_attributes_resolve:
  assumes "attributeCycles defs = Some []"
    and "list_all (\<lambda>kd. parsed_base (snd kd)) defs"
    and "resolveAttr defs l [] name = Inl e"
  shows "op_error e"
proof (rule resolve_acyclic [where visited = "[]" and l = l and name = name and defs = defs])
  show "acyclic (edges defs)" "list_all (refs_return defs) (attr_keys defs)"
    using assms(1) by (auto simp: attributeCycles_acyclic)
  show "known_ops (base d)" if "map_of defs k = Some d" for k d
    using that assms(2) parse_known_ops(1) map_of_SomeD
    by (fastforce simp: list_all_iff parsed_base_def)
qed (use assms(3) in auto)

text \<open>
  A strength \<open>s\<close> of 10, hit points \<open>h\<close> of five times the strength plus 3: no
  cycle; the attribute \<open>o\<close> divides by one that nobody defines.
\<close>

definition demo_attrs :: attrRegistry where
  "demo_attrs =
     [(''s'', \<lparr>base = litNode (Fin 10), min_of = None, max_of = Some (Fin 25)\<rparr>),
      (''h'', \<lparr>base = opNode ''+'' [opNode ''*'' [attrNode ''s'', litNode (Fin 5)], litNode (Fin 3)],
                   min_of = Some (Fin 1), max_of = None\<rparr>),
      (''o'', \<lparr>base = opNode ''/'' [litNode (Fin 9), attrNode ''k''], min_of = None, max_of = None\<rparr>)]"

definition demo_living :: Living where
  "demo_living = \<lparr>attrBase = Map.empty, resCur = Map.empty,
                  attrs = \<lparr>dirty = False, vals = None, degraded = (\<lambda>_. False)\<rparr>, modSrcs = [], posn = 0\<rparr>"

lemma demo_attrs_linted: "attributeCycles demo_attrs = Some []"
  by code_simp

lemma demo_odd: "resolveAttr demo_attrs demo_living [] ''o'' = Inl DivisionByZero"
  by (subst resolve_formula(1) [where d = "\<lparr>base = opNode ''/'' [litNode (Fin 9), attrNode ''k''],
                                           min_of = None, max_of = None\<rparr>"])
     (simp_all add: demo_attrs_def demo_living_def given_base_def apply_op_def resolve_stops)

end
