(* ===== verification/Dice.thy ===== *)
theory Dice
  imports Prelude "HOL-Library.Multiset"
begin

text \<open>
  Dice notation and rolls, \<open>internal/world/dice.go\<close>: the parser of \<open>NdS\<close>, keep-highest and
  keep-lowest, Fudge and success-counting expressions, and the roller.

  Notations are ASCII strings. The generator is the parameter \<open>intn\<close> of the roller, Go's
  \<open>rand.Intn\<close> with its state passed explicitly; the property that uses it assumes what its
  documentation says, a result between 0 and its argument. Face values and counts are \<open>int\<close>s: the
  caps of the parser keep every sum far below the width of Go's \<open>int\<close>.
\<close>


section \<open>Strings\<close>

definition isSpace :: "char \<Rightarrow> bool" where
  "isSpace c \<longleftrightarrow> c \<in> {CHR '' '', CHR 0x09, CHR 0x0A, CHR 0x0B, CHR 0x0C, CHR 0x0D}"

definition trimSpace :: "string \<Rightarrow> string" where
  "trimSpace s = rev (dropWhile isSpace (rev (dropWhile isSpace s)))"

definition lowerChar :: "char \<Rightarrow> char" where
  "lowerChar c = (if 65 \<le> (of_char c :: nat) \<and> (of_char c :: nat) \<le> 90
                  then char_of (of_char c + 32 :: nat) else c)"

definition toLower :: "string \<Rightarrow> string" where
  "toLower = map lowerChar"

primrec isPrefix :: "string \<Rightarrow> string \<Rightarrow> bool" where
  "isPrefix [] s = True"
| "isPrefix (p # ps) s = (case s of [] \<Rightarrow> False | c # cs \<Rightarrow> p = c \<and> isPrefix ps cs)"

text \<open>\<open>strings.Index\<close>: the text before the first occurrence and the text after it.\<close>

fun cutAt :: "string \<Rightarrow> string \<Rightarrow> (string \<times> string) option" where
  "cutAt pat s =
     (if isPrefix pat s then Some ([], drop (length pat) s)
      else (case s of
              [] \<Rightarrow> None
            | c # cs \<Rightarrow> (case cutAt pat cs of None \<Rightarrow> None | Some (l, r) \<Rightarrow> Some (c # l, r))))"

declare cutAt.simps [simp del]

definition trimSuffix :: "string \<Rightarrow> string \<Rightarrow> string" where
  "trimSuffix s suf = (if isPrefix (rev suf) (rev s) then take (length s - length suf) s else s)"

definition trimPrefix :: "string \<Rightarrow> string \<Rightarrow> string" where
  "trimPrefix s pre = (if isPrefix pre s then drop (length pre) s else s)"

text \<open>\<open>strconv.Atoi\<close>: an optional sign and at least one digit, within 64 bits.\<close>

definition digitVal :: "char \<Rightarrow> int option" where
  "digitVal c = (if 48 \<le> (of_char c :: nat) \<and> (of_char c :: nat) \<le> 57
                 then Some (of_char c - 48) else None)"

primrec digits :: "int \<Rightarrow> string \<Rightarrow> int option" where
  "digits acc [] = Some acc"
| "digits acc (c # cs) = (case digitVal c of None \<Rightarrow> None | Some d \<Rightarrow> digits (10 * acc + d) cs)"

definition atoi :: "string \<Rightarrow> int option" where
  "atoi s =
     (let (neg, ds) = (case s of
                         [] \<Rightarrow> (False, [])
                       | c # cs \<Rightarrow> if c = CHR ''-'' then (True, cs)
                                   else if c = CHR ''+'' then (False, cs) else (False, s))
      in if ds = [] then None
         else case digits 0 ds of
                None \<Rightarrow> None
              | Some n \<Rightarrow>
                  let v = (if neg then - n else n)
                  in if - (2 ^ 63) \<le> v \<and> v < 2 ^ 63 then Some v else None)"

section \<open>Parsing\<close>

datatype diceKind = diceSum | diceKeepHigh | diceKeepLow | diceFudge | dicePool

record diceSpec =
  num :: int
  dsize :: int
  kind :: diceKind
  keep :: int
  threshold :: int
  poolGTE :: bool
  raw :: string

datatype diceErr =
    EmptyExpression
  | WantNdS
  | BadSize
  | BadCount
  | BadKeep
  | BadThreshold

definition maxDice :: int where
  "maxDice = 500"

definition capDice :: "int \<Rightarrow> int" where
  "capDice n = (if n > maxDice then maxDice else n)"

definition parseDiceCount :: "string \<Rightarrow> diceErr + int" where
  "parseDiceCount s0 =
     (let s = trimSpace s0
      in if s = [] then Inr 1
         else case atoi s of
                None \<Rightarrow> Inl BadCount
              | Some n \<Rightarrow> if n < 0 then Inl BadCount else Inr n)"

definition parseNdS :: "string \<Rightarrow> diceErr + int \<times> int" where
  "parseNdS s =
     (case cutAt ''d'' (trimSpace s) of
        None \<Rightarrow> Inl WantNdS
      | Some (l, r) \<Rightarrow>
          (case parseDiceCount l of
             Inl e \<Rightarrow> Inl e
           | Inr n \<Rightarrow>
               (case atoi (trimSpace r) of
                  None \<Rightarrow> Inl BadSize
                | Some sz \<Rightarrow> if sz \<le> 0 then Inl BadSize else Inr (capDice n, capDice sz))))"

definition parseKeep :: "string \<Rightarrow> string \<Rightarrow> diceKind \<Rightarrow> string \<Rightarrow> diceErr + diceSpec" where
  "parseKeep left keepStr k rw =
     (case parseNdS left of
        Inl e \<Rightarrow> Inl e
      | Inr (n, sz) \<Rightarrow>
          let spec = (\<lambda>kp. \<lparr>num = n, dsize = sz, kind = k, keep = (if kp > n then n else kp),
                             threshold = 0, poolGTE = False, raw = rw\<rparr>)
          in if trimSpace keepStr = [] then Inr (spec 1)
             else case atoi (trimSpace keepStr) of
                    None \<Rightarrow> Inl BadKeep
                  | Some kp \<Rightarrow> if kp < 1 then Inl BadKeep else Inr (spec kp))"

definition splitPool :: "string \<Rightarrow> string \<Rightarrow> diceErr + (int \<times> int) \<times> bool \<times> int" where
  "splitPool left cmp =
     (case parseNdS left of
        Inl e \<Rightarrow> Inl e
      | Inr base \<Rightarrow>
          let rhs0 = trimPrefix cmp ''>'';
              gte = isPrefix ''='' rhs0;
              rhs = (if gte then trimPrefix rhs0 ''='' else rhs0)
          in case atoi (trimSpace rhs) of
               None \<Rightarrow> Inl BadThreshold
             | Some thr \<Rightarrow> Inr (base, gte, thr))"

definition parseDiceSpec :: "string \<Rightarrow> diceErr + diceSpec" where
  "parseDiceSpec s =
     (let rw = trimSpace s; t = toLower rw
      in if t = [] then Inl EmptyExpression
         else if cutAt ''df'' t \<noteq> None then
           (case parseDiceCount (trimSuffix t ''df'') of
              Inl e \<Rightarrow> Inl e
            | Inr n \<Rightarrow> Inr \<lparr>num = capDice n, dsize = 0, kind = diceFudge, keep = 0, threshold = 0,
                            poolGTE = False, raw = rw\<rparr>)
         else case cutAt ''>'' t of
           Some (l, r) \<Rightarrow>
             (case splitPool l (''>'' @ r) of
                Inl e \<Rightarrow> Inl e
              | Inr ((n, sz), gte, thr) \<Rightarrow>
                  Inr \<lparr>num = n, dsize = sz, kind = dicePool, keep = 0, threshold = thr,
                       poolGTE = gte, raw = rw\<rparr>)
         | None \<Rightarrow>
             (case cutAt ''kh'' t of
                Some (l, r) \<Rightarrow> parseKeep l r diceKeepHigh rw
              | None \<Rightarrow>
                  (case cutAt ''kl'' t of
                     Some (l, r) \<Rightarrow> parseKeep l r diceKeepLow rw
                   | None \<Rightarrow>
                       (case parseNdS t of
                          Inl e \<Rightarrow> Inl e
                        | Inr (n, sz) \<Rightarrow>
                            Inr \<lparr>num = n, dsize = sz, kind = diceSum, keep = 0, threshold = 0,
                                 poolGTE = False, raw = rw\<rparr>))))"

section \<open>Keeping\<close>

text \<open>The two nested loops that sort the copy of the faces.\<close>

function pass_from :: "nat \<Rightarrow> nat \<Rightarrow> int list \<Rightarrow> int list" where
  "pass_from i j cp =
     (if j < length cp
      then pass_from i (Suc j) (if cp ! j < cp ! i then cp[i := cp ! j, j := cp ! i] else cp)
      else cp)"
  by pat_completeness auto
termination by (relation "measure (\<lambda>(i, j, cp). length cp - j)") auto

declare pass_from.simps [simp del]

lemma length_pass [simp]: "length (pass_from i j cp) = length cp"
  by (induction i j cp rule: pass_from.induct) (subst pass_from.simps, simp)

function sort_from :: "nat \<Rightarrow> int list \<Rightarrow> int list" where
  "sort_from i cp = (if i < length cp then sort_from (Suc i) (pass_from i (Suc i) cp) else cp)"
  by pat_completeness auto
termination by (relation "measure (\<lambda>(i, cp). length cp - i)") auto

declare sort_from.simps [simp del]

definition sumKept :: "int list \<Rightarrow> int \<Rightarrow> bool \<Rightarrow> int \<times> int list" where
  "sumKept faces k high =
     (if k \<le> 0 \<or> faces = [] then (0, [])
      else let cp = sort_from 0 faces;
               n = (if k > int (length cp) then length cp else nat k);
               kept = (if high then drop (length cp - n) cp else take n cp)
           in (sum_list kept, kept))"

section \<open>Rolling\<close>

type_synonym 'g intn = "'g \<Rightarrow> int \<Rightarrow> int \<times> 'g"

definition rollFace :: "'g intn \<Rightarrow> int \<Rightarrow> 'g \<Rightarrow> int \<times> 'g" where
  "rollFace intn sz g = (if sz \<le> 0 then (0, g) else (case intn g sz of (r, g') \<Rightarrow> (r + 1, g')))"

primrec rollFaces :: "'g intn \<Rightarrow> int \<Rightarrow> nat \<Rightarrow> 'g \<Rightarrow> int list \<times> 'g" where
  "rollFaces intn sz 0 g = ([], g)"
| "rollFaces intn sz (Suc n) g =
     (case rollFace intn sz g of
        (f, g') \<Rightarrow> (case rollFaces intn sz n g' of (fs, g'') \<Rightarrow> (f # fs, g'')))"

definition succeeds :: "diceSpec \<Rightarrow> int \<Rightarrow> bool" where
  "succeeds d f \<longleftrightarrow> poolGTE d \<and> f \<ge> threshold d \<or> \<not> poolGTE d \<and> f > threshold d"

definition rollDiceSpec :: "'g intn \<Rightarrow> diceSpec \<Rightarrow> 'g \<Rightarrow> (int \<times> int list \<times> int list) \<times> 'g" where
  "rollDiceSpec intn d g =
     (case kind d of
        diceFudge \<Rightarrow>
          (case rollFaces intn 3 (nat (num d)) g of
             (rs, g') \<Rightarrow> let fs = map (\<lambda>r. r - 2) rs in ((sum_list fs, fs, fs), g'))
      | dicePool \<Rightarrow>
          (case rollFaces intn (dsize d) (nat (num d)) g of
             (fs, g') \<Rightarrow> ((int (length (filter (succeeds d) fs)), fs, fs), g'))
      | diceKeepHigh \<Rightarrow>
          (case rollFaces intn (dsize d) (nat (num d)) g of
             (fs, g') \<Rightarrow> (case sumKept fs (keep d) True of (s, kept) \<Rightarrow> ((s, fs, kept), g')))
      | diceKeepLow \<Rightarrow>
          (case rollFaces intn (dsize d) (nat (num d)) g of
             (fs, g') \<Rightarrow> (case sumKept fs (keep d) False of (s, kept) \<Rightarrow> ((s, fs, kept), g')))
      | diceSum \<Rightarrow>
          (case rollFaces intn (dsize d) (nat (num d)) g of
             (fs, g') \<Rightarrow> ((sum_list fs, fs, fs), g')))"

text \<open>The plain \<open>N\<close>d\<open>S\<close> roll of \<open>deal_damage\<close>.\<close>

definition rollDice :: "'g intn \<Rightarrow> int \<Rightarrow> int \<Rightarrow> 'g \<Rightarrow> int \<times> 'g" where
  "rollDice intn n sz g =
     (if n \<le> 0 \<or> sz \<le> 0 then (0, g)
      else case rollFaces intn (capDice sz) (nat (capDice n)) g of (fs, g') \<Rightarrow> (sum_list fs, g'))"


section \<open>The sort\<close>

lemma mset_swap_update:
  assumes "i < length cp" and "j < length cp"
  shows "mset (cp[i := cp ! j, j := cp ! i]) = mset cp"
  using mset_swap [OF assms(2,1)] by simp

lemma pass_from_props:
  assumes "i < j" and "i < length cp" and "\<forall>k. i < k \<and> k < j \<longrightarrow> cp ! i \<le> cp ! k"
  shows "mset (pass_from i j cp) = mset cp \<and> take i (pass_from i j cp) = take i cp \<and>
         (\<forall>k. i < k \<and> k < length cp \<longrightarrow> pass_from i j cp ! i \<le> pass_from i j cp ! k)"
  using assms
proof (induction i j cp rule: pass_from.induct)
  case (1 i j cp)
  show ?case
  proof (cases "j < length cp")
    case True
    define cp' where "cp' = (if cp ! j < cp ! i then cp[i := cp ! j, j := cp ! i] else cp)"
    have "\<forall>k. i < k \<and> k < Suc j \<longrightarrow> cp' ! i \<le> cp' ! k"
      using 1(2-4) True by (auto simp: cp'_def nth_list_update less_Suc_eq)
    then have "mset (pass_from i (Suc j) cp') = mset cp' \<and> take i (pass_from i (Suc j) cp') = take i cp' \<and>
         (\<forall>k. i < k \<and> k < length cp' \<longrightarrow> pass_from i (Suc j) cp' ! i \<le> pass_from i (Suc j) cp' ! k)"
      using 1(1) [OF True] 1(2,3) by (simp add: cp'_def)
    moreover have "mset cp' = mset cp" "length cp' = length cp"
      using mset_swap_update [OF 1(3) True] by (simp_all add: cp'_def)
    moreover have "take i cp' = take i cp"
      using 1(2) by (simp add: cp'_def)
    moreover have "pass_from i j cp = pass_from i (Suc j) cp'"
      using True by (subst pass_from.simps) (simp add: cp'_def)
    ultimately show ?thesis
      by simp
  qed (use 1 in \<open>auto simp: pass_from.simps [of i j cp]\<close>)
qed

definition sorted_upto :: "nat \<Rightarrow> int list \<Rightarrow> bool" where
  "sorted_upto i cp \<longleftrightarrow> (\<forall>a b. a < i \<and> a < b \<and> b < length cp \<longrightarrow> cp ! a \<le> cp ! b)"

lemma sorted_upto_full: "length cp \<le> i \<Longrightarrow> sorted_upto i cp \<Longrightarrow> sorted cp"
  by (auto simp: sorted_upto_def sorted_iff_nth_mono_less)

lemma nth_le_iff_mset: "(\<forall>b. i \<le> b \<and> b < length cp \<longrightarrow> x \<le> cp ! b) \<longleftrightarrow> (\<forall>y \<in> set (drop i cp). x \<le> y)"
  by (auto simp: set_conv_nth) (metis add.commute le_Suc_ex less_diff_conv nth_drop)

lemma pass_keeps_sorted:
  assumes "i < length cp" and "sorted_upto i cp"
  shows "sorted_upto (Suc i) (pass_from i (Suc i) cp)"
proof -
  define cp' where "cp' = pass_from i (Suc i) cp"
  have props: "mset cp' = mset cp" "take i cp' = take i cp"
    "\<And>k. i < k \<Longrightarrow> k < length cp \<Longrightarrow> cp' ! i \<le> cp' ! k"
    using pass_from_props [of i "Suc i" cp] assms(1) by (auto simp: cp'_def)
  have len: "length cp' = length cp"
    by (simp add: cp'_def)
  have "mset (drop i cp') = mset (drop i cp)"
    using props(1,2) by (metis append_take_drop_id add_left_cancel mset_append)
  then have tail: "set (drop i cp') = set (drop i cp)"
    by (rule mset_eq_setD)
  have "cp' ! a \<le> cp' ! b" if ab: "a < Suc i" "a < b" "b < length cp'" for a b
  proof (cases "a = i")
    case True
    then show ?thesis
      using props(3) ab len by simp
  next
    case False
    then have a: "a < i"
      using ab by simp
    have pre: "cp' ! c = cp ! c" if "c < i" for c
      using that props(2) by (metis nth_take)
    show ?thesis
    proof (cases "b < i")
      case True
      then show ?thesis
        using pre a assms ab len by (simp add: sorted_upto_def)
    next
      case False
      have "\<forall>b. i \<le> b \<and> b < length cp \<longrightarrow> cp ! a \<le> cp ! b"
        using assms(2) a by (simp add: sorted_upto_def)
      then have "\<forall>y \<in> set (drop i cp'). cp' ! a \<le> y"
        using tail pre [OF a] nth_le_iff_mset [of i cp "cp ! a"] by simp
      then show ?thesis
        using False ab nth_le_iff_mset [of i cp' "cp' ! a"] by simp
    qed
  qed
  then show ?thesis
    by (simp add: sorted_upto_def cp'_def)
qed

lemma sort_from_props:
  "sorted_upto i cp \<Longrightarrow> mset (sort_from i cp) = mset cp \<and> sorted (sort_from i cp)"
proof (induction i cp rule: sort_from.induct)
  case (1 i cp)
  show ?case
  proof (cases "i < length cp")
    case True
    then have "mset (pass_from i (Suc i) cp) = mset cp"
      using pass_from_props [of i "Suc i" cp] by auto
    then show ?thesis
      using 1 True pass_keeps_sorted by (subst (1 2) sort_from.simps) simp
  next
    case False
    then show ?thesis
      using 1(2) sorted_upto_full [of cp i] by (subst (1 2) sort_from.simps) simp
  qed
qed

lemma sort_from_sort: "sort_from 0 faces = sort faces"
  using sort_from_props [of 0 faces] properties_for_sort [of "sort_from 0 faces" faces]
  by (simp add: sorted_upto_def)


section \<open>Bounds\<close>

text \<open>What the parser promises of a specification.\<close>

definition spec_ok :: "diceSpec \<Rightarrow> bool" where
  "spec_ok d \<longleftrightarrow>
     0 \<le> num d \<and> num d \<le> maxDice \<and> dsize d \<le> maxDice \<and> (kind d \<noteq> diceFudge \<longrightarrow> 1 \<le> dsize d) \<and>
     (kind d = diceKeepHigh \<or> kind d = diceKeepLow \<longrightarrow> keep d \<le> num d \<and> (0 < num d \<longrightarrow> 1 \<le> keep d))"

lemma capDice_bounds: "capDice n \<le> maxDice" "0 \<le> n \<Longrightarrow> 0 \<le> capDice n" "1 \<le> n \<Longrightarrow> 1 \<le> capDice n"
  by (simp_all add: capDice_def maxDice_def)

lemma parseDiceCount_nonneg: "parseDiceCount s = Inr n \<Longrightarrow> 0 \<le> n"
  by (auto simp: parseDiceCount_def Let_def split: if_splits option.splits)

lemma parseNdS_bounds:
  "parseNdS s = Inr (n, sz) \<Longrightarrow> 0 \<le> n \<and> n \<le> maxDice \<and> 1 \<le> sz \<and> sz \<le> maxDice"
  by (auto simp: parseNdS_def split: option.splits sum.splits if_splits prod.splits
           intro: capDice_bounds dest!: parseDiceCount_nonneg)

lemma parseKeep_ok:
  assumes "parseKeep l r k rw = Inr d" and "k = diceKeepHigh \<or> k = diceKeepLow"
  shows "spec_ok d"
  using assms
  by (auto simp: parseKeep_def spec_ok_def Let_def split: sum.splits option.splits if_splits
           dest!: parseNdS_bounds)

lemma parseDiceSpec_ok:
  assumes "parseDiceSpec s = Inr d"
  shows "spec_ok d"
proof -
  have fudge: "spec_ok \<lparr>num = capDice n, dsize = 0, kind = diceFudge, keep = 0, threshold = 0,
                        poolGTE = False, raw = rw\<rparr>" if "parseDiceCount t = Inr n" for t n rw
    using parseDiceCount_nonneg [OF that] capDice_bounds by (simp add: spec_ok_def maxDice_def)
  show ?thesis
    using assms fudge
    by (auto simp: parseDiceSpec_def Let_def splitPool_def split: if_splits option.splits sum.splits
             dest!: parseNdS_bounds intro: parseKeep_ok)
       (simp_all add: spec_ok_def)
qed

text \<open>Documented behaviour of \<open>rand.Intn\<close>.\<close>

definition intn_ok :: "'g intn \<Rightarrow> bool" where
  "intn_ok intn \<longleftrightarrow> (\<forall>g n. 0 < n \<longrightarrow> 0 \<le> fst (intn g n) \<and> fst (intn g n) < n)"

lemma rollFaces_bounds:
  assumes "intn_ok intn" and "1 \<le> sz"
  shows "length (fst (rollFaces intn sz n g)) = n \<and> (\<forall>f \<in> set (fst (rollFaces intn sz n g)). 1 \<le> f \<and> f \<le> sz)"
proof (induction n arbitrary: g)
  case (Suc n)
  have "0 \<le> fst (intn g sz)" "fst (intn g sz) < sz"
    using assms by (simp_all add: intn_ok_def)
  then show ?case
    using Suc assms(2) by (auto simp: rollFace_def case_prod_beta)
qed simp

lemma sum_list_between:
  fixes lo hi :: int
  assumes "\<forall>f \<in> set fs. lo \<le> f \<and> f \<le> hi"
  shows "int (length fs) * lo \<le> sum_list fs \<and> sum_list fs \<le> int (length fs) * hi"
  using assms by (induction fs) (auto simp: algebra_simps)

lemma sumKept_sort:
  "sumKept faces k high =
     (let n = min (nat k) (length faces);
          kept = (if high then drop (length faces - n) (sort faces) else take n (sort faces))
      in (sum_list kept, kept))"
  by (auto simp: sumKept_def sort_from_sort Let_def min_def)

lemma sumKept_kept:
  "snd (sumKept faces k high) = kept \<Longrightarrow>
     mset kept \<subseteq># mset faces \<and> length kept = min (nat k) (length faces) \<and>
     fst (sumKept faces k high) = sum_list kept"
proof -
  assume kept: "snd (sumKept faces k high) = kept"
  have drop: "mset (drop m (sort faces)) \<subseteq># mset faces" for m
    by (metis append_take_drop_id mset_append mset_sort mset_subset_eq_add_right)
  have take: "mset (take m (sort faces)) \<subseteq># mset faces" for m
    by (metis append_take_drop_id mset_append mset_sort mset_subset_eq_add_left)
  show ?thesis
    using kept drop take by (auto simp: sumKept_sort Let_def)
qed


lemma abs_sum_le:
  fixes fs :: "int list"
  assumes "\<forall>f \<in> set fs. \<bar>f\<bar> \<le> m" and "length fs \<le> n" and "0 \<le> m"
  shows "\<bar>sum_list fs\<bar> \<le> int n * m"
proof -
  have "\<bar>sum_list fs\<bar> \<le> int (length fs) * m"
  proof -
    have "\<forall>f \<in> set fs. - m \<le> f \<and> f \<le> m"
      using assms(1) by fastforce
    from sum_list_between [OF this] show ?thesis
      by (simp add: abs_le_iff)
  qed
  also have "\<dots> \<le> int n * m"
    using assms(2,3) by (intro mult_right_mono) auto
  finally show ?thesis .
qed

lemma roll_bounded:
  assumes "spec_ok d" and "intn_ok intn" and "rollDiceSpec intn d g = ((m, faces, kept), g')"
  shows "length faces \<le> nat maxDice \<and> (\<forall>f \<in> set faces. \<bar>f\<bar> \<le> maxDice) \<and> mset kept \<subseteq># mset faces \<and>
         (m = sum_list kept \<or> kind d = dicePool \<and> 0 \<le> m \<and> m \<le> int (length faces))"
proof -
  have n: "nat (num d) \<le> nat maxDice"
    using assms(1) nat_mono unfolding spec_ok_def by blast
  show ?thesis
  proof (cases "kind d = diceFudge")
    case True
    define rs where "rs = fst (rollFaces intn 3 (nat (num d)) g)"
    have rs: "length rs = nat (num d)" "\<forall>r \<in> set rs. 1 \<le> r \<and> r \<le> 3"
      using rollFaces_bounds [OF assms(2), of 3 "nat (num d)" g] by (simp_all add: rs_def)
    have fs: "faces = map (\<lambda>r. r - 2) rs" "kept = faces" "m = sum_list faces"
      using assms(3) True by (auto simp: rollDiceSpec_def rs_def Let_def case_prod_beta)
    have "\<forall>f \<in> set faces. \<bar>f\<bar> \<le> maxDice"
      unfolding fs(1) using rs(2) by (fastforce simp: maxDice_def)
    then show ?thesis
      using fs rs(1) n by simp
  next
    case False
    define fs where "fs = fst (rollFaces intn (dsize d) (nat (num d)) g)"
    have sz: "1 \<le> dsize d" "dsize d \<le> maxDice"
      using assms(1) False by (simp_all add: spec_ok_def)
    have fs: "length fs = nat (num d)" "\<forall>f \<in> set fs. 1 \<le> f \<and> f \<le> dsize d"
      using rollFaces_bounds [OF assms(2) sz(1), of "nat (num d)" g] by (simp_all add: fs_def)
    have faces: "faces = fs"
      using assms(3) False
      by (auto simp: rollDiceSpec_def fs_def Let_def case_prod_beta split: diceKind.splits)
    have "mset kept \<subseteq># mset fs \<and> (m = sum_list kept \<or> kind d = dicePool \<and> 0 \<le> m \<and> m \<le> int (length fs))"
      using assms(3) False sumKept_kept [of fs "keep d" True] sumKept_kept [of fs "keep d" False]
      by (auto simp: rollDiceSpec_def fs_def [symmetric] Let_def case_prod_beta length_filter_le
               split: diceKind.splits)
    moreover have "\<forall>f \<in> set fs. \<bar>f\<bar> \<le> maxDice"
      using fs(2) sz(2) by fastforce
    ultimately show ?thesis
      using faces fs(1) n by simp
  qed
qed

text \<open>
  Keeping dice: the exchange sort and slicing of \<open>sumKept\<close> return exactly the highest, or the
  lowest, of the rolled faces, as many as asked for and at most all of them, and their sum.
\<close>
lemma kept_dice_are_the_extremes:
  "sumKept faces k high =
     (let n = min (nat k) (length faces);
          kept = (if high then drop (length faces - n) (sort faces) else take n (sort faces))
      in (sum_list kept, kept))"
  by (rule sumKept_sort)

text \<open>
  Whatever dice notation content supplies, a roll of what the parser accepts throws at most 500
  dice, keeps only dice that were rolled, and has a magnitude of at most 250,000: a notation can
  neither spin the zone nor overflow a sum.
\<close>
lemma parsed_rolls_are_bounded:
  assumes "parseDiceSpec s = Inr d" and "intn_ok intn"
    and "rollDiceSpec intn d g = ((m, faces, kept), g')"
  shows "length faces \<le> 500 \<and> mset kept \<subseteq># mset faces \<and> \<bar>m\<bar> \<le> 250000"
proof -
  note roll = roll_bounded [OF parseDiceSpec_ok [OF assms(1)] assms(2,3)]
  have "length kept \<le> length faces" "set kept \<subseteq> set faces"
    using roll by (auto dest: size_mset_mono set_mset_mono simp: subset_iff)
  then have "\<bar>sum_list kept\<bar> \<le> int 500 * maxDice"
    using roll by (intro abs_sum_le) (auto simp: maxDice_def)
  then have "\<bar>m\<bar> \<le> 250000"
    using roll by (auto simp: maxDice_def)
  then show ?thesis
    using roll by (simp add: maxDice_def)
qed

end
