(* ===== verification/Check.thy ===== *)
theory Check
  imports Attributes Dice "HOL-Library.Monad_Syntax"
begin

text \<open>
  The check primitive, \<open>internal/world/check.go\<close>: scoped formulas over the entities of an effect
  context, the boon and bane channel that selects the dice, the ordered outcome bands and the
  classification of a roll. What follows the classification (the \<open>OnCheck\<close> event and the line shown
  to the roller) is not part of it.

  Reading an attribute fills the entity's cache; \<open>attribute_cache_is_transparent\<close> shows that no read
  can tell, so the model drops the entity a read returns. A nil formula node inside a formula panics:
  the outcome \<open>None\<close>.
\<close>


section \<open>Contexts and specifications\<close>

record effectCtx =
  actor :: "Entity option"
  target :: "Entity option"
  source :: "Entity option"
  swingIndex :: int
  overflow :: int
  applied :: int
  amount :: int
  affectLevel :: int
  reactACBonus :: flt

text \<open>
  The part of a check specification that a contested defender shares with the attacker, and the whole;
  a nil formula is \<open>nilNode\<close>.
\<close>

record rollSpec =
  dice :: diceSpec
  bonus :: formulaNode
  boon :: formulaNode
  bane :: formulaNode
  boonDice :: "diceSpec option"
  baneDice :: "diceSpec option"

record checkBand =
  bmin :: formulaNode
  bmax :: formulaNode
  marginMin :: formulaNode
  marginMax :: formulaNode
  faceEq :: "flt option"
  faceCount :: int
  when_of :: formulaNode
  label :: string

datatype checkSubject = subjActor | subjTarget

record checkSpec =
  rspec :: rollSpec
  vs_dc :: formulaNode
  contested_by :: "rollSpec option"
  bands :: "checkBand list"
  subject :: checkSubject

section \<open>Scoped formulas\<close>

definition resolveCheckScope :: "effectCtx \<Rightarrow> string \<Rightarrow> Entity option \<Rightarrow> Entity option \<times> string" where
  "resolveCheckScope c ref df =
     (case ref of
        [] \<Rightarrow> (df, ref)
      | ch # rest \<Rightarrow>
          if ch \<noteq> CHR ''$'' then (df, ref)
          else let (scope, name) = (case cutAt ''.'' rest of None \<Rightarrow> (rest, []) | Some (l, r) \<Rightarrow> (l, r))
               in if scope = ''actor'' then (actor c, name)
                  else if scope = ''target'' then (target c, name)
                  else if scope = ''source'' then (source c, name)
                  else (df, name))"

definition resolveSwingRef :: "effectCtx \<Rightarrow> string \<Rightarrow> flt option" where
  "resolveSwingRef c ref =
     (if \<not> isPrefix ''$swing.'' ref then None
      else Some (if drop (length ''$swing.'') ref = ''index'' then of_int_flt (swingIndex c) else Fin 0))"

definition resolveDepletionRef :: "effectCtx \<Rightarrow> string \<Rightarrow> flt option" where
  "resolveDepletionRef c ref =
     (if \<not> isPrefix ''$depletion.'' ref then None
      else let field = drop (length ''$depletion.'') ref
           in Some (if field = ''overflow'' then of_int_flt (overflow c)
                    else if field = ''applied'' then of_int_flt (applied c)
                    else if field = ''amount'' then of_int_flt (amount c) else Fin 0))"

definition resolveAffectRef :: "effectCtx \<Rightarrow> string \<Rightarrow> flt option" where
  "resolveAffectRef c ref =
     (if \<not> isPrefix ''$affect.'' ref then None
      else Some (if drop (length ''$affect.'') ref = ''level'' then of_int_flt (affectLevel c) else Fin 0))"

text \<open>An attribute read in a check: a degraded attribute is an error; no entity reads 0.\<close>

definition readAttr :: "attrRegistry \<Rightarrow> Entity option \<Rightarrow> string \<Rightarrow> ferr + flt \<times> bool" where
  "readAttr defs ent name =
     (case ent of
        None \<Rightarrow> Inr (Fin 0, False)
      | Some e \<Rightarrow>
          (case attrIsDegraded defs e name of
             None \<Rightarrow> Inl NilDeref
           | Some (e1, deg) \<Rightarrow>
               if deg then Inl (Degraded name)
               else (case attr defs e1 name of
                       None \<Rightarrow> Inl NilDeref
                     | Some (_, v) \<Rightarrow> Inr (v, False))))"

definition checkResolver :: "attrRegistry \<Rightarrow> effectCtx \<Rightarrow> Entity option \<Rightarrow> resolver" where
  "checkResolver defs c df ref =
     (case resolveSwingRef c ref of
        Some v \<Rightarrow> Inr (v, False)
      | None \<Rightarrow>
          (case resolveDepletionRef c ref of
             Some v \<Rightarrow> Inr (v, False)
           | None \<Rightarrow>
               (case resolveAffectRef c ref of
                  Some v \<Rightarrow> Inr (v, False)
                | None \<Rightarrow> (case resolveCheckScope c ref df of (ent, bare) \<Rightarrow> readAttr defs ent bare))))"

definition evalCheckFormulaErr ::
    "attrRegistry \<Rightarrow> effectCtx \<Rightarrow> formulaNode \<Rightarrow> Entity option \<Rightarrow> ferr + flt" where
  "evalCheckFormulaErr defs c node df =
     (if node = nilNode then Inr (Fin 0)
      else case evalFinite (checkResolver defs c df) node of
             Inl err \<Rightarrow> Inl err
           | Inr (v, _) \<Rightarrow> Inr v)"

text \<open>An error counts as 0; a panic is \<open>None\<close>.\<close>

definition evalCheckFormula ::
    "attrRegistry \<Rightarrow> effectCtx \<Rightarrow> formulaNode \<Rightarrow> Entity option \<Rightarrow> flt option" where
  "evalCheckFormula defs c node df =
     (case evalCheckFormulaErr defs c node df of
        Inl NilDeref \<Rightarrow> None
      | Inl _ \<Rightarrow> Some (Fin 0)
      | Inr v \<Rightarrow> Some v)"

definition evalCheckCount ::
    "attrRegistry \<Rightarrow> effectCtx \<Rightarrow> formulaNode \<Rightarrow> Entity option \<Rightarrow> (flt \<times> bool) option" where
  "evalCheckCount defs c node df =
     (if node = nilNode then Some (Fin 0, True)
      else case evalCheckFormulaErr defs c node df of
             Inl NilDeref \<Rightarrow> None
           | Inl _ \<Rightarrow> Some (Fin 0, False)
           | Inr v \<Rightarrow> if isNaN v \<or> isInf v then Some (Fin 0, False) else Some (v, True))"

section \<open>The boon and bane channel\<close>

definition effectiveDice :: "attrRegistry \<Rightarrow> effectCtx \<Rightarrow> rollSpec \<Rightarrow> Entity option \<Rightarrow> diceSpec option" where
  "effectiveDice defs c spec df =
     (if boon spec = nilNode \<and> bane spec = nilNode then Some (dice spec)
      else do {
        (boonV, boonOK) \<leftarrow> evalCheckCount defs c (boon spec) df;
        (baneV, baneOK) \<leftarrow> evalCheckCount defs c (bane spec) df;
        (let hasBoon = fless (Fin 0) boonV; hasBane = fless (Fin 0) baneV
         in if \<not> boonOK \<or> \<not> baneOK then Some (dice spec)
            else if hasBoon \<and> hasBane then Some (dice spec)
            else if hasBoon \<and> boonDice spec \<noteq> None then boonDice spec
            else if hasBane \<and> baneDice spec \<noteq> None then baneDice spec
            else Some (dice spec))
      })"

section \<open>Bands\<close>

definition truthyPredicate :: "flt \<Rightarrow> bool" where
  "truthyPredicate v \<longleftrightarrow> fless (Fin 0) v \<and> v \<noteq> Infty False"

text \<open>One bound of a band: absent, or the test that fails it.\<close>

definition bound_ok :: "(formulaNode \<Rightarrow> flt option) \<Rightarrow> formulaNode \<Rightarrow> (flt \<Rightarrow> bool) \<Rightarrow> bool option" where
  "bound_ok ev node fails =
     (if node = nilNode then Some True else map_option (\<lambda>edge. \<not> fails edge) (ev node))"

definition faces_ok :: "checkBand \<Rightarrow> int list \<Rightarrow> bool" where
  "faces_ok b kept =
     (case faceEq b of
        None \<Rightarrow> True
      | Some x \<Rightarrow>
          let n = int (length (filter (\<lambda>f. feq (of_int_flt f) x) kept));
              need = (if faceCount b < 1 then 1 else faceCount b)
          in \<not> n < need)"

definition matches ::
    "checkBand \<Rightarrow> flt \<Rightarrow> flt \<Rightarrow> int list \<Rightarrow> (formulaNode \<Rightarrow> flt option) \<Rightarrow> bool option" where
  "matches b tot mar kept ev = do {
     lo \<leftarrow> bound_ok ev (bmin b) (\<lambda>edge. fless tot edge);
     if \<not> lo then Some False else do {
       hi \<leftarrow> bound_ok ev (bmax b) (\<lambda>edge. fless edge tot);
       if \<not> hi then Some False else do {
         mlo \<leftarrow> bound_ok ev (marginMin b) (\<lambda>edge. fless mar edge);
         if \<not> mlo then Some False else do {
           mhi \<leftarrow> bound_ok ev (marginMax b) (\<lambda>edge. fless edge mar);
           if \<not> mhi then Some False
           else if \<not> faces_ok b kept then Some False
           else bound_ok ev (when_of b) (\<lambda>v. \<not> truthyPredicate v)
         }
       }
     }
   }"

primrec first_band :: "(checkBand \<Rightarrow> bool option) \<Rightarrow> checkBand list \<Rightarrow> checkBand option option" where
  "first_band ok [] = Some None"
| "first_band ok (b # bs) =
     (case ok b of None \<Rightarrow> None | Some True \<Rightarrow> Some (Some b) | Some False \<Rightarrow> first_band ok bs)"

section \<open>Resolving a check\<close>

record checkResult =
  roll :: int
  faces :: "int list"
  kept :: "int list"
  rolled :: diceSpec
  cbonus :: flt
  ctotal :: flt
  dc :: flt
  margin :: flt
  contested :: bool
  band :: "checkBand option"

definition resolveCheck ::
    "attrRegistry \<Rightarrow> 'g intn \<Rightarrow> effectCtx \<Rightarrow> checkSpec \<Rightarrow> 'g \<Rightarrow> (checkResult \<times> 'g) option" where
  "resolveCheck defs intn c spec g = do {
     let roller = (if subject spec = subjTarget then target c else actor c);
     d \<leftarrow> effectiveDice defs c (rspec spec) roller;
     let ((r, fs, ks), g1) = rollDiceSpec intn d g;
     b \<leftarrow> evalCheckFormula defs c (bonus (rspec spec)) roller;
     let tot = fadd (of_int_flt r) b;
     (dc0, g2, con) \<leftarrow>
       (case contested_by spec of
          Some def_spec \<Rightarrow> do {
            dd \<leftarrow> effectiveDice defs c def_spec (target c);
            let ((dr, _, _), g') = rollDiceSpec intn dd g1;
            db \<leftarrow> evalCheckFormula defs c (bonus def_spec) (target c);
            Some (fadd (of_int_flt dr) db, g', True)
          }
        | None \<Rightarrow>
            if vs_dc spec \<noteq> nilNode then
              map_option (\<lambda>v. (v, g1, False)) (evalCheckFormula defs c (vs_dc spec) roller)
            else Some (Fin 0, g1, False));
     let dc1 = fadd dc0 (reactACBonus c);
     let mar = fsub tot dc1;
     bd \<leftarrow> first_band (\<lambda>x. matches x tot mar ks (\<lambda>n. evalCheckFormula defs c n roller)) (bands spec);
     Some (\<lparr>roll = r, faces = fs, kept = ks, rolled = d, cbonus = b, ctotal = tot, dc = dc1,
            margin = mar, contested = con, band = bd\<rparr>, g2)
   }"


section \<open>Checks read exact attributes\<close>

text \<open>The resolver that reads attributes straight from the unscreened derivation.\<close>

definition exactRead :: "attrRegistry \<Rightarrow> Entity option \<Rightarrow> string \<Rightarrow> ferr + flt \<times> bool" where
  "exactRead defs ent name =
     (case ent of
        None \<Rightarrow> Inr (Fin 0, False)
      | Some e \<Rightarrow>
          (case living (mutableLiving e) of
             None \<Rightarrow> Inr (Fin 0, False)
           | Some l \<Rightarrow>
               (case resolveAttr defs l [] name of
                  Inl _ \<Rightarrow> Inr (Fin 0, False)
                | Inr _ \<Rightarrow> unmarked (exactAttr defs l [] name))))"

definition exactResolver :: "attrRegistry \<Rightarrow> effectCtx \<Rightarrow> Entity option \<Rightarrow> resolver" where
  "exactResolver defs c df ref =
     (case resolveSwingRef c ref of
        Some v \<Rightarrow> Inr (v, False)
      | None \<Rightarrow>
          (case resolveDepletionRef c ref of
             Some v \<Rightarrow> Inr (v, False)
           | None \<Rightarrow>
               (case resolveAffectRef c ref of
                  Some v \<Rightarrow> Inr (v, False)
                | None \<Rightarrow> (case resolveCheckScope c ref df of (ent, bare) \<Rightarrow> exactRead defs ent bare))))"

definition ctx_reach :: "attrRegistry \<Rightarrow> effectCtx \<Rightarrow> bool" where
  "ctx_reach defs c \<longleftrightarrow>
     pred_option (attr_reach defs) (actor c) \<and> pred_option (attr_reach defs) (target c) \<and>
     pred_option (attr_reach defs) (source c)"

lemma scope_reach:
  assumes "ctx_reach defs c" and "pred_option (attr_reach defs) df"
    and "resolveCheckScope c ref df = (ent, bare)"
  shows "pred_option (attr_reach defs) ent"
  using assms
  by (auto simp: resolveCheckScope_def ctx_reach_def Let_def case_prod_beta
           split: list.splits if_splits option.splits)

lemma readAttr_exact:
  assumes "pred_option (attr_reach defs) ent" and "readAttr defs ent name = Inr (w, d)"
  shows "\<not> d \<and> exactRead defs ent name = Inr (w, False)"
proof (cases ent)
  case None
  then show ?thesis
    using assms(2) by (simp add: readAttr_def exactRead_def)
next
  case (Some e)
  have reach: "attr_reach defs e"
    using assms(1) Some by simp
  obtain e1 e2 where e: "attrIsDegraded defs e name = Some (e1, False)" "attr defs e1 name = Some (e2, w)" "\<not> d"
    using assms(2) Some by (auto simp: readAttr_def split: option.splits if_splits)
  show ?thesis
  proof (cases "living (mutableLiving e)")
    case None
    then have "e1 = e"
      using e(1) by (auto simp: attrIsDegraded_def attr_living)
    then show ?thesis
      using e None Some by (auto simp: attr_living exactRead_def)
  next
    case l: (Some l)
    have der: "derived defs l name = Some (w, False)"
      by (rule read_unmarked [OF reach l e(1,2)])
    show ?thesis
    proof (cases "resolveAttr defs l [] name")
      case (Inl err)
      then show ?thesis
        using der l Some e(3)
        by (auto simp: exactRead_def derived_def attr_value_def split: ferr.splits)
    next
      case (Inr r)
      then show ?thesis
        using derived_exact [OF der] l Some e(3) by (auto simp: exactRead_def unmarked_def)
    qed
  qed
qed

lemma checkResolver_exact:
  assumes "ctx_reach defs c" and "pred_option (attr_reach defs) df"
    and "checkResolver defs c df ref = Inr (w, d)"
  shows "\<not> d \<and> exactResolver defs c df ref = Inr (w, False)"
proof (cases "resolveSwingRef c ref = None \<and> resolveDepletionRef c ref = None \<and> resolveAffectRef c ref = None")
  case True
  obtain ent bare where sc: "resolveCheckScope c ref df = (ent, bare)"
    by fastforce
  have "readAttr defs ent bare = Inr (w, d)"
    using assms(3) True sc by (simp add: checkResolver_def)
  from readAttr_exact [OF scope_reach [OF assms(1,2) sc] this] show ?thesis
    using True sc by (simp add: exactResolver_def)
next
  case False
  then show ?thesis
    using assms(3) by (auto simp: checkResolver_def exactResolver_def split: option.splits)
qed

lemma checkFormula_exact:
  assumes "ctx_reach defs c" and "pred_option (attr_reach defs) df"
    and "evalCheckFormulaErr defs c node df = Inr v" and "node \<noteq> nilNode"
  shows "eval_node (exactResolver defs c df) node = Inr (v, False) \<and> (\<exists>q. v = Fin q)"
proof -
  obtain d where ev: "evalFinite (checkResolver defs c df) node = Inr (v, d)"
    using assms(3,4) by (auto simp: evalCheckFormulaErr_def split: sum.splits)
  then have en: "eval_node (checkResolver defs c df) node = Inr (v, d)"
    by (auto simp: evalFinite_def split: sum.splits if_splits)
  have no: "\<And>ref w. checkResolver defs c df ref \<noteq> Inr (w, True)"
    using checkResolver_exact [OF assms(1,2)] by fastforce
  have "\<not> d"
    by (rule eval_no_marks [OF no en])
  then have "eval_node (exactResolver defs c df) node = Inr (v, False)"
    using en checkResolver_exact [OF assms(1,2)] eval_unmarked
      [of "checkResolver defs c df" "exactResolver defs c df" node v] by simp
  then show ?thesis
    using evalFinite_finite [OF ev] by simp
qed

section \<open>Properties\<close>


text \<open>
  The dice of a check differ from the neutral ones only when both sides of the boon and bane
  channel evaluate cleanly, exactly one of them is positive, and content supplied the alternative for
  that side. A broken side, or influences on both sides, always leave the neutral roll.
\<close>
lemma boon_and_bane_channel:
  assumes "effectiveDice defs c spec df = Some d" and "d \<noteq> dice spec"
  shows "\<exists>x y. evalCheckCount defs c (boon spec) df = Some (Fin x, True) \<and>
               evalCheckCount defs c (bane spec) df = Some (Fin y, True) \<and>
               (0 < x \<and> y \<le> 0 \<and> boonDice spec = Some d \<or> x \<le> 0 \<and> 0 < y \<and> baneDice spec = Some d)"
proof -
  have fin: "\<exists>q. v = Fin q" if "evalCheckCount defs c node df = Some (v, True)" for v node
    using that by (cases v) (auto simp: evalCheckCount_def split: if_splits sum.splits ferr.splits)
  obtain v w where vw: "evalCheckCount defs c (boon spec) df = Some (v, True)"
    "evalCheckCount defs c (bane spec) df = Some (w, True)"
    "fless (Fin 0) v \<and> \<not> fless (Fin 0) w \<and> boonDice spec = Some d \<or>
     \<not> fless (Fin 0) v \<and> fless (Fin 0) w \<and> baneDice spec = Some d"
    using assms
    by (auto simp: effectiveDice_def Let_def bind_eq_Some_conv split: if_splits)
  then show ?thesis
    using fin [OF vw(1)] fin [OF vw(2)] by (auto simp: not_less)
qed


definition demo_ctx :: effectCtx where
  "demo_ctx = \<lparr>actor = Some demo_entity, target = None, source = None, swingIndex = 0, overflow = 0,
               applied = 0, amount = 0, affectLevel = 0, reactACBonus = Fin 0\<rparr>"

lemma demo_readAttr: "readAttr demo_stats (Some demo_entity) ''str'' = Inr (Fin 10, False)"
  by (simp add: readAttr_def attrIsDegraded_def demo_read demo_str attr_value_def degraded_memo demo_fresh)
     (simp add: attr_def demo_entity_def demo_body_def mutableLiving_def flushed_def cached_def memo_def)

lemma demo_check: "evalCheckFormulaErr demo_stats demo_ctx (attrNode ''str'') (Some demo_entity) = Inr (Fin 10)"
  by (simp add: evalCheckFormulaErr_def evalFinite_def checkResolver_def resolveSwingRef_def
      resolveDepletionRef_def resolveAffectRef_def resolveCheckScope_def demo_readAttr)


definition d20 :: diceSpec where
  "d20 = \<lparr>num = 1, dsize = 20, kind = diceSum, keep = 0, threshold = 0, poolGTE = False, raw = ''1d20''\<rparr>"

definition advantage :: diceSpec where
  "advantage = \<lparr>num = 2, dsize = 20, kind = diceKeepHigh, keep = 1, threshold = 0, poolGTE = False,
                raw = ''2d20kh1''\<rparr>"

definition demo_spec :: rollSpec where
  "demo_spec = \<lparr>dice = d20, bonus = nilNode, boon = litNode (Fin 1), bane = nilNode,
                boonDice = Some advantage, baneDice = None\<rparr>"

end
