(* ===== verification/Resources.thy ===== *)
theory Resources
  imports Attributes
begin

text \<open>
  Resource pools, the reads of \<open>internal/world/resources.go\<close>: the derived maximum, the clamped
  current and the regeneration need. The writes, which arm the entity's tick, are in \<open>Affects\<close>.

  As in \<open>Check\<close> the entity a read returns is dropped, because only its cache differs. Where an
  attribute read would panic on a nil formula node the model reads 0: \<open>linted_attributes_resolve\<close>
  shows that a registry which passed the load-time lint has no such node.
\<close>


record resourceDef =
  maxAttr :: string
  vital :: bool
  regen :: int
  regenInCombat :: bool

type_synonym resRegistry = "(string \<times> resourceDef) list"

definition attrOf :: "attrRegistry \<Rightarrow> 'x Entity_scheme \<Rightarrow> string \<Rightarrow> flt" where
  "attrOf defs e name = (case attr defs e name of None \<Rightarrow> Fin 0 | Some (_, v) \<Rightarrow> v)"

text \<open>Go's conversion to \<open>int\<close>, on the bounded values attributes have.\<close>

definition to_int :: "flt \<Rightarrow> int" where
  "to_int v = (case v of Fin q \<Rightarrow> trunc_rat q | _ \<Rightarrow> 0)"

definition resourceMax :: "attrRegistry \<Rightarrow> resRegistry \<Rightarrow> 'x Entity_scheme \<Rightarrow> string \<Rightarrow> int" where
  "resourceMax defs rdefs e name =
     (if living e = None then 0
      else case map_of rdefs name of
             None \<Rightarrow> 0
           | Some d \<Rightarrow> if maxAttr d = [] then 0 else to_int (attrOf defs e (maxAttr d)))"

definition declaresCap :: "resRegistry \<Rightarrow> string \<Rightarrow> bool" where
  "declaresCap rdefs name = (case map_of rdefs name of None \<Rightarrow> False | Some d \<Rightarrow> maxAttr d \<noteq> [])"

definition resourceCurrent :: "attrRegistry \<Rightarrow> resRegistry \<Rightarrow> 'x Entity_scheme \<Rightarrow> string \<Rightarrow> int" where
  "resourceCurrent defs rdefs e name =
     (case living e of
        None \<Rightarrow> 0
      | Some l \<Rightarrow>
          let maxV = resourceMax defs rdefs e name
          in case resCur l name of
               None \<Rightarrow> maxV
             | Some cur \<Rightarrow>
                 if maxV \<le> 0 \<and> declaresCap rdefs name then 0
                 else if maxV > 0 \<and> cur > maxV then maxV
                 else if cur < 0 then 0
                 else cur)"

definition needsRegen :: "attrRegistry \<Rightarrow> resRegistry \<Rightarrow> 'x Entity_scheme \<Rightarrow> bool" where
  "needsRegen defs rdefs e =
     (living e \<noteq> None \<and>
      list_ex (\<lambda>(ref, d). \<not> regen d \<le> 0 \<and> resourceCurrent defs rdefs e ref < resourceMax defs rdefs e ref) rdefs)"

section \<open>Reads\<close>

lemma trunc_bounds: "\<bar>q\<bar> \<le> of_int n \<Longrightarrow> \<bar>trunc_rat q\<bar> \<le> n"
proof -
  assume q: "\<bar>q\<bar> \<le> of_int n"
  show ?thesis
  proof (cases "0 \<le> q")
    case True
    then have "0 \<le> \<lfloor>q\<rfloor>" "\<lfloor>q\<rfloor> \<le> n"
      using q floor_mono [of q "of_int n"] by simp_all
    then show ?thesis
      using True by (simp add: trunc_rat_def)
  next
    case False
    then have "\<lceil>q\<rceil> \<le> 0"
      by (simp add: ceiling_le_iff)
    moreover have "of_int (- n) \<le> (of_int \<lceil>q\<rceil> :: rat)"
      using q le_of_int_ceiling [of q] by linarith
    then have "- n \<le> \<lceil>q\<rceil>"
      by (simp only: of_int_le_iff)
    ultimately show ?thesis
      using False by (simp add: trunc_rat_def)
  qed
qed

lemma attrOf_bounded:
  assumes "attr_reach defs e"
  shows "\<exists>q. attrOf defs e name = Fin q \<and> \<bar>q\<bar> \<le> attrFoldCeiling"
proof (cases "attr defs e name")
  case (Some r)
  then obtain e' v where r: "attr defs e name = Some (e', v)"
    by (cases r) auto
  then show ?thesis
    using attr_reads_bounded [OF assms r] by (simp add: attrOf_def)
qed (simp add: attrOf_def)

lemma resourceMax_bounded:
  assumes "attr_reach defs e"
  shows "\<bar>resourceMax defs rdefs e name\<bar> \<le> 10 ^ 12"
proof -
  have "\<bar>to_int (attrOf defs e x)\<bar> \<le> 10 ^ 12" for x
    using attrOf_bounded [OF assms, of x] trunc_bounds [of _ "10 ^ 12"]
    by (auto simp: to_int_def attrFoldCeiling_def)
  then show ?thesis
    by (simp add: resourceMax_def split: option.splits)
qed

lemma resourceCurrent_bounds:
  "0 < resourceMax defs rdefs e name \<Longrightarrow>
     0 \<le> resourceCurrent defs rdefs e name \<and>
     resourceCurrent defs rdefs e name \<le> resourceMax defs rdefs e name"
  by (auto simp: resourceCurrent_def Let_def resourceMax_def split: option.splits)

text \<open>A pool never filled explicitly, whose maximum derives below zero, reads below zero.\<close>

lemma absent_pool_reads_its_max:
  "living e = Some l \<Longrightarrow> resCur l name = None \<Longrightarrow>
     resourceCurrent defs rdefs e name = resourceMax defs rdefs e name"
  by (simp add: resourceCurrent_def Let_def)

end
