(* ===== verification/Affects.thy ===== *)
theory Affects
  imports Resources "HOL-Library.AList"
begin

text \<open>
  The affect runtime, \<open>internal/world/affected.go\<close>, \<open>affect_runtime.go\<close> and \<open>concentration.go\<close>:
  attaching, stacking, ticking and expiring affects, the modifiers and tags they sum to, immunity, the
  single concentration slot of a source, and the resource writes and regeneration that ride the tick.

  Instances are pointers in the code: the model has a heap of instances, and the list and the key index
  of an entity's \<open>Affected\<close> hold addresses. Entities are addresses too; \<open>ents\<close> has those of the zone.
  Lua bodies, op-lists and event subscribers are content: what a hook does to the zone is the parameter
  \<open>fire\<close> of the operations that run hooks. Announcing channel access to the chat gateway is not modelled.
\<close>

section \<open>Definitions and state\<close>

datatype affectStacking = stackRefresh | stackCount | stackExtend | stackIgnore | stackHighest

definition parseStacking :: "string \<Rightarrow> affectStacking" where
  "parseStacking s =
     (if s = ''stack'' then stackCount
      else if s = ''extend'' then stackExtend
      else if s = ''ignore'' then stackIgnore
      else if s = ''highest'' then stackHighest
      else stackRefresh)"

record affectModifier =
  mattr :: string
  madd :: bool
  mvalue :: flt

record affectRung =
  rmodifiers :: "affectModifier list"
  rprevents :: "string list"

record affectDef =
  aref :: string
  category :: string
  stacking :: affectStacking
  maxStacks :: int
  scopeTarget :: bool
  duration :: int
  indefinite :: bool
  modifiers :: "affectModifier list"
  rungs :: "affectRung list"
  aprevents :: "string list"
  preventsSource :: "string list"
  tags :: "string list"
  grantsImmunity :: "string list"
  suspendsDeath :: bool
  concentration :: bool
  damageTakenMult_of :: "(string \<times> flt) list"
  tickInterval :: int
  hasTick :: bool

record affectInstance =
  adef :: affectDef
  asource :: "nat option"
  remaining :: int
  magnitude :: flt
  stacks :: int
  rung :: int
  sinceTick :: int
  fromEquip :: bool

type_synonym affectKey = "string \<times> nat option"
type_synonym heap = "nat \<Rightarrow> affectInstance"

record Affected =
  alist :: "nat list"
  byKey :: "affectKey \<rightharpoonup> nat"
  flat :: "string \<rightharpoonup> flt"
  mul :: "string \<rightharpoonup> flt"
  prevents :: "string \<Rightarrow> nat"
  preventsSrc :: "string \<Rightarrow> nat \<Rightarrow> nat"
  damageMult :: "string \<rightharpoonup> flt"
  immunity :: "string \<Rightarrow> nat"
  ticking :: bool
  srcIx :: nat

record AEnt = Entity +
  affected :: "Affected option"

type_synonym slot = "nat \<times> affectKey \<times> nat"

record Zone =
  ents :: "nat \<rightharpoonup> AEnt"
  heap :: heap
  nextInst :: nat
  conc :: "(nat \<times> slot) list"

record Rules =
  adefs :: attrRegistry
  rdefs :: resRegistry
  fdefs :: "(string \<times> affectDef) list"

definition keyFor :: "affectDef \<Rightarrow> nat option \<Rightarrow> affectKey" where
  "keyFor def src = (if scopeTarget def then (aref def, None) else (aref def, src))"

definition instKey :: "affectInstance \<Rightarrow> affectKey" where
  "instKey inst = keyFor (adef inst) (asource inst)"

section \<open>Sums over the active affects\<close>

definition damageTakenMultCeiling :: flt where
  "damageTakenMultCeiling = Fin 1000"

definition normDamageMultFactor :: "flt \<Rightarrow> flt" where
  "normDamageMultFactor m =
     (if isNaN m then Fin 1
      else if fless m (Fin 0) then Fin 0
      else if fless damageTakenMultCeiling m then damageTakenMultCeiling
      else m)"

definition rungIndex :: "affectInstance \<Rightarrow> nat" where
  "rungIndex inst =
     (let r = (if rung inst < 1 then 1 else rung inst);
          r' = (if r > int (length (rungs (adef inst))) then int (length (rungs (adef inst))) else r)
      in nat (r' - 1))"

definition stackFactor :: "affectInstance \<Rightarrow> flt" where
  "stackFactor inst = fmul (magnitude inst) (of_int_flt (max (stacks inst) 1))"

definition instScale :: "affectInstance \<Rightarrow> flt" where
  "instScale inst =
     (if rungs (adef inst) \<noteq> [] then of_int_flt (int (rungIndex inst) + 1) else stackFactor inst)"

text \<open>The strongest instance of each highest-wins affect.\<close>

definition pick_winner :: "heap \<Rightarrow> (string \<rightharpoonup> nat) \<Rightarrow> nat \<Rightarrow> (string \<rightharpoonup> nat)" where
  "pick_winner h w i =
     (if stacking (adef (h i)) = stackHighest \<and>
         (case w (aref (adef (h i))) of
            None \<Rightarrow> True
          | Some j \<Rightarrow> fless (instScale (h j)) (instScale (h i)))
      then w(aref (adef (h i)) \<mapsto> i) else w)"

definition highestWinner :: "heap \<Rightarrow> nat list \<Rightarrow> (string \<rightharpoonup> nat)" where
  "highestWinner h is = foldl (pick_winner h) Map.empty is"

definition contributes :: "heap \<Rightarrow> nat list \<Rightarrow> nat \<Rightarrow> bool" where
  "contributes h is i \<longleftrightarrow>
     \<not> (stacking (adef (h i)) = stackHighest \<and> highestWinner h is (aref (adef (h i))) \<noteq> Some i)"

definition active_set :: "affectInstance \<Rightarrow> affectModifier list \<times> string list \<times> flt" where
  "active_set inst =
     (if rungs (adef inst) \<noteq> []
      then let r = rungs (adef inst) ! rungIndex inst in (rmodifiers r, rprevents r, Fin 1)
      else (modifiers (adef inst), aprevents (adef inst), stackFactor inst))"

definition add_mod :: "flt \<Rightarrow> Affected \<Rightarrow> affectModifier \<Rightarrow> Affected" where
  "add_mod scale a m =
     (if madd m
      then a\<lparr>flat := (flat a)(mattr m \<mapsto>
             fadd (case flat a (mattr m) of None \<Rightarrow> Fin 0 | Some v \<Rightarrow> v) (fmul (mvalue m) scale))\<rparr>
      else a\<lparr>mul := (mul a)(mattr m \<mapsto>
             fmul (case mul a (mattr m) of None \<Rightarrow> Fin 1 | Some v \<Rightarrow> v) (mvalue m))\<rparr>)"

definition count_tag :: "(string \<Rightarrow> nat) \<Rightarrow> string \<Rightarrow> (string \<Rightarrow> nat)" where
  "count_tag f t = f(t := f t + 1)"

definition count_src :: "nat \<Rightarrow> (string \<Rightarrow> nat \<Rightarrow> nat) \<Rightarrow> string \<Rightarrow> (string \<Rightarrow> nat \<Rightarrow> nat)" where
  "count_src s f t = f(t := (f t)(s := f t s + 1))"

definition mult_damage :: "(string \<rightharpoonup> flt) \<Rightarrow> string \<times> flt \<Rightarrow> (string \<rightharpoonup> flt)" where
  "mult_damage dm tm =
     dm(fst tm \<mapsto> fmul (case dm (fst tm) of None \<Rightarrow> Fin 1 | Some v \<Rightarrow> v) (normDamageMultFactor (snd tm)))"

definition contribute :: "Affected \<Rightarrow> affectInstance \<Rightarrow> Affected" where
  "contribute a0 inst =
     (case active_set inst of
        (mods, prev, scale) \<Rightarrow>
          let a1 = foldl (add_mod scale) a0 mods
          in a1\<lparr>prevents := foldl count_tag (prevents a1) prev,
                preventsSrc := (case asource inst of
                                  None \<Rightarrow> preventsSrc a1
                                | Some s \<Rightarrow> foldl (count_src s) (preventsSrc a1) (preventsSource (adef inst))),
                immunity := foldl count_tag (immunity a1) (grantsImmunity (adef inst)),
                damageMult := foldl mult_damage (damageMult a1) (damageTakenMult_of (adef inst))\<rparr>)"

definition cleared :: "Affected \<Rightarrow> Affected" where
  "cleared a = a\<lparr>flat := Map.empty, mul := Map.empty, prevents := (\<lambda>_. 0), preventsSrc := (\<lambda>_ _. 0),
                 damageMult := Map.empty, immunity := (\<lambda>_. 0)\<rparr>"

definition recomputeMods :: "heap \<Rightarrow> Affected \<Rightarrow> Affected" where
  "recomputeMods h a =
     foldl contribute (cleared a) (map h (filter (contributes h (alist a)) (alist a)))"

text \<open>The contribution of the component to the derivation of attributes.\<close>

definition affect_view :: "Affected \<Rightarrow> modSource" where
  "affect_view a = \<lparr>flatMod = (\<lambda>ref. case flat a ref of None \<Rightarrow> Fin 0 | Some v \<Rightarrow> v),
                    mulMod = (\<lambda>ref. case mul a ref of None \<Rightarrow> Fin 1 | Some v \<Rightarrow> v)\<rparr>"

section \<open>Queries\<close>

definition preventsTag :: "AEnt \<Rightarrow> string \<Rightarrow> bool" where
  "preventsTag e tag = (case affected e of None \<Rightarrow> False | Some a \<Rightarrow> prevents a tag > 0)"

definition preventsAny :: "AEnt \<Rightarrow> string list \<Rightarrow> string option" where
  "preventsAny e ts = (case affected e of None \<Rightarrow> None | Some a \<Rightarrow> find (\<lambda>t. prevents a t > 0) ts)"

definition preventsTagFromSource :: "AEnt \<Rightarrow> string \<Rightarrow> nat option \<Rightarrow> bool" where
  "preventsTagFromSource e tag src =
     (case src of
        None \<Rightarrow> False
      | Some s \<Rightarrow> (case affected e of None \<Rightarrow> False | Some a \<Rightarrow> preventsSrc a tag s > 0))"

definition immuneToAffect :: "AEnt \<Rightarrow> affectDef \<Rightarrow> string option" where
  "immuneToAffect e def =
     (case affected e of
        None \<Rightarrow> None
      | Some a \<Rightarrow>
          if immunity a (aref def) > 0 then Some (aref def)
          else if category def \<noteq> [] \<and> immunity a (category def) > 0 then Some (category def)
          else find (\<lambda>t. immunity a t > 0) (tags def))"

definition grantsToken :: "affectDef \<Rightarrow> string \<Rightarrow> bool" where
  "grantsToken def tok \<longleftrightarrow> tok \<in> set (grantsImmunity def)"

definition hasAffect :: "heap \<Rightarrow> AEnt \<Rightarrow> string \<Rightarrow> bool" where
  "hasAffect h e ref =
     (case affected e of None \<Rightarrow> False | Some a \<Rightarrow> list_ex (\<lambda>i. aref (adef (h i)) = ref) (alist a))"

definition damageTakenMult :: "AEnt \<Rightarrow> string \<Rightarrow> flt" where
  "damageTakenMult e typ =
     (if typ = [] then Fin 1
      else case affected e of
             None \<Rightarrow> Fin 1
           | Some a \<Rightarrow>
               (case damageMult a typ of
                  None \<Rightarrow> Fin 1
                | Some m \<Rightarrow>
                    if isNaN m then Fin 1
                    else if fless m (Fin 0) then Fin 0
                    else if fless damageTakenMultCeiling m then damageTakenMultCeiling
                    else m))"

definition deathSuspended :: "heap \<Rightarrow> AEnt \<Rightarrow> bool" where
  "deathSuspended h e =
     (case affected e of None \<Rightarrow> False | Some a \<Rightarrow> list_ex (\<lambda>i. suspendsDeath (adef (h i))) (alist a))"

definition posResting :: nat where "posResting = 1"

definition posSleeping :: nat where "posSleeping = 2"

definition posFighting :: nat where "posFighting = 3"

definition posDead :: nat where "posDead = 4"

definition position :: "AEnt \<Rightarrow> nat" where
  "position e = (case living e of None \<Rightarrow> 0 | Some l \<Rightarrow> posn l)"

definition canAct :: "heap \<Rightarrow> AEnt \<Rightarrow> bool" where
  "canAct h e = (\<not> (position e = posSleeping \<or> position e = posDead) \<and> \<not> deathSuspended h e)"

section \<open>Attaching, expiring\<close>

definition putAffected :: "AEnt \<Rightarrow> Affected \<Rightarrow> AEnt" where
  "putAffected e a =
     e\<lparr>affected := Some a,
       living := map_option (\<lambda>l. l\<lparr>modSrcs := (modSrcs l)[srcIx a := affect_view a]\<rparr>) (living e)\<rparr>"

definition newAffected :: "nat \<Rightarrow> Affected" where
  "newAffected ix = \<lparr>alist = [], byKey = Map.empty, flat = Map.empty, mul = Map.empty, prevents = (\<lambda>_. 0),
                     preventsSrc = (\<lambda>_ _. 0), damageMult = Map.empty, immunity = (\<lambda>_. 0), ticking = False,
                     srcIx = ix\<rparr>"

text \<open>The component of an entity, made and registered as a modifier source on its first use.\<close>

definition affectedComponent :: "AEnt \<Rightarrow> AEnt" where
  "affectedComponent e =
     (case affected e of
        Some _ \<Rightarrow> e
      | None \<Rightarrow>
          let ix = (case living (mutableLiving e) of None \<Rightarrow> 0 | Some l \<Rightarrow> length (modSrcs l))
          in (addModSource e (affect_view (newAffected ix)))\<lparr>affected := Some (newAffected ix)\<rparr>)"

definition refreshMods :: "heap \<Rightarrow> AEnt \<Rightarrow> AEnt" where
  "refreshMods h e =
     (case affected e of None \<Rightarrow> e | Some a \<Rightarrow> markAttrsDirty (putAffected e (recomputeMods h a)))"

definition ensureTick :: "Rules \<Rightarrow> AEnt \<Rightarrow> AEnt" where
  "ensureTick R e =
     (case affected e of
        None \<Rightarrow> e
      | Some a \<Rightarrow>
          if ticking a then e
          else if alist a = [] \<and> \<not> needsRegen (adefs R) (rdefs R) e then e
          else e\<lparr>affected := Some (a\<lparr>ticking := True\<rparr>)\<rparr>)"

datatype hook =
    OnApply nat
  | OnExpire nat
  | OnBlocked affectDef "nat option"
  | OnTick nat

type_synonym hooks = "hook \<Rightarrow> nat \<Rightarrow> Zone \<Rightarrow> Zone"

definition putEnt :: "nat \<Rightarrow> AEnt \<Rightarrow> Zone \<Rightarrow> Zone" where
  "putEnt i e z = z\<lparr>ents := (ents z)(i \<mapsto> e)\<rparr>"

definition clearConcentrationSlot :: "nat \<Rightarrow> nat \<Rightarrow> Zone \<Rightarrow> Zone" where
  "clearConcentrationSlot src p z =
     (case map_of (conc z) src of
        None \<Rightarrow> z
      | Some (_, _, q) \<Rightarrow> if q = p then z\<lparr>conc := AList.delete src (conc z)\<rparr> else z)"

definition expire :: "hooks \<Rightarrow> nat \<Rightarrow> nat \<Rightarrow> Zone \<Rightarrow> Zone" where
  "expire fire i p z =
     (case ents z i of
        None \<Rightarrow> z
      | Some e \<Rightarrow>
          (case affected e of
             None \<Rightarrow> z
           | Some a \<Rightarrow>
               let inst = heap z p;
                   a1 = a\<lparr>alist := remove1 p (alist a), byKey := (byKey a)(instKey inst := None)\<rparr>;
                   z1 = (if concentration (adef inst)
                         then (case asource inst of None \<Rightarrow> z | Some s \<Rightarrow> clearConcentrationSlot s p z)
                         else z)
               in fire (OnExpire p) i (putEnt i (refreshMods (heap z) (e\<lparr>affected := Some a1\<rparr>)) z1)))"

section \<open>Concentration\<close>

definition expireConcentration :: "hooks \<Rightarrow> slot \<Rightarrow> Zone \<Rightarrow> Zone" where
  "expireConcentration fire s z =
     (case s of (holder, key, p) \<Rightarrow>
        (case ents z holder of
           None \<Rightarrow> z
         | Some e \<Rightarrow>
             (case affected e of
                None \<Rightarrow> z
              | Some a \<Rightarrow> if byKey a key = Some p then expire fire holder p z else z)))"

definition concentrationApply :: "hooks \<Rightarrow> nat \<Rightarrow> nat \<Rightarrow> nat \<Rightarrow> Zone \<Rightarrow> Zone" where
  "concentrationApply fire src holder p z =
     (let z1 = (case map_of (conc z) src of
                  None \<Rightarrow> z
                | Some (h, k, q) \<Rightarrow> if q \<noteq> p then expireConcentration fire (h, k, q) z else z)
      in z1\<lparr>conc := AList.update src (holder, instKey (heap z1 p), p) (conc z1)\<rparr>)"

definition breakConcentration :: "hooks \<Rightarrow> nat \<Rightarrow> Zone \<Rightarrow> Zone" where
  "breakConcentration fire src z =
     (case map_of (conc z) src of
        None \<Rightarrow> z
      | Some s \<Rightarrow> expireConcentration fire s (z\<lparr>conc := AList.delete src (conc z)\<rparr>))"

definition breakConcentrationInvolving :: "hooks \<Rightarrow> nat \<Rightarrow> Zone \<Rightarrow> Zone" where
  "breakConcentrationInvolving fire i z =
     (let srcs = map fst (filter (\<lambda>(src, holder, _). holder = i \<and> src \<noteq> i) (conc z))
      in breakConcentration fire i (foldl (\<lambda>z src. breakConcentration fire src z) z srcs))"

definition concentrationBroken :: "heap \<Rightarrow> AEnt \<Rightarrow> bool" where
  "concentrationBroken h e \<longleftrightarrow> \<not> canAct h e \<or> preventsTag e ''act''"

section \<open>Applying an affect\<close>

record attachOpts =
  osource :: "nat option"
  oduration :: int
  omagnitude :: flt
  ostacks :: int
  orung :: int
  reattach :: bool
  ofromEquip :: bool
  suppressApply :: bool

definition clampRung :: "affectDef \<Rightarrow> int \<Rightarrow> int" where
  "clampRung def r =
     (if r < 1 then 1 else if r > int (length (rungs def)) then int (length (rungs def)) else r)"

definition durationIndefinite :: int where "durationIndefinite = -1"

text \<open>A new instance, added to the list and the index of the entity.\<close>

definition install :: "nat \<Rightarrow> affectInstance \<Rightarrow> Zone \<Rightarrow> Zone \<times> nat" where
  "install i inst z =
     (let p = nextInst z;
          z1 = z\<lparr>heap := (heap z)(p := inst), nextInst := p + 1\<rparr>
      in case ents z i of
           None \<Rightarrow> (z1, p)
         | Some e \<Rightarrow>
             (case affected e of
                None \<Rightarrow> (z1, p)
              | Some a \<Rightarrow>
                  (putEnt i (e\<lparr>affected := Some (a\<lparr>alist := alist a @ [p],
                                                 byKey := (byKey a)(instKey inst \<mapsto> p)\<rparr>)\<rparr>) z1, p)))"

definition setInst :: "nat \<Rightarrow> (affectInstance \<Rightarrow> affectInstance) \<Rightarrow> Zone \<Rightarrow> Zone" where
  "setInst p f z = z\<lparr>heap := (heap z)(p := f (heap z p))\<rparr>"

definition restack :: "affectDef \<Rightarrow> int \<Rightarrow> flt \<Rightarrow> affectInstance \<Rightarrow> affectInstance" where
  "restack def dur mag inst =
     (case stacking def of
        stackRefresh \<Rightarrow> inst\<lparr>remaining := dur, magnitude := mag\<rparr>
      | stackCount \<Rightarrow> inst\<lparr>stacks := (if stacks inst < maxStacks def then stacks inst + 1 else stacks inst),
                           remaining := dur, magnitude := mag\<rparr>
      | stackExtend \<Rightarrow> inst\<lparr>remaining := remaining inst + dur, magnitude := mag\<rparr>
      | stackHighest \<Rightarrow> inst\<lparr>remaining := dur, magnitude := mag\<rparr>
      | stackIgnore \<Rightarrow> inst)"

definition settle :: "Rules \<Rightarrow> nat \<Rightarrow> Zone \<Rightarrow> Zone" where
  "settle R i z =
     (case ents z i of
        None \<Rightarrow> z
      | Some e \<Rightarrow> putEnt i (ensureTick R (refreshMods (heap z) e)) z)"

definition blank :: "affectDef \<Rightarrow> nat option \<Rightarrow> affectInstance" where
  "blank def src = \<lparr>adef = def, asource = src, remaining = 0, magnitude = Fin 0, stacks = 0, rung = 0,
                    sinceTick = 0, fromEquip = False\<rparr>"

definition locate :: "nat \<Rightarrow> affectInstance \<Rightarrow> Zone \<Rightarrow> Zone \<times> nat \<times> bool" where
  "locate i inst z =
     (case ents z i of
        None \<Rightarrow> (case install i inst z of (z1, p) \<Rightarrow> (z1, p, True))
      | Some e \<Rightarrow>
          (case affected e of
             None \<Rightarrow> (case install i inst z of (z1, p) \<Rightarrow> (z1, p, True))
           | Some a \<Rightarrow>
               (case byKey a (instKey inst) of
                  Some p \<Rightarrow> (z, p, False)
                | None \<Rightarrow> (case install i inst z of (z1, p) \<Rightarrow> (z1, p, True)))))"

definition reattachAffect :: "Rules \<Rightarrow> nat \<Rightarrow> affectDef \<Rightarrow> attachOpts \<Rightarrow> int \<Rightarrow> flt \<Rightarrow> Zone \<Rightarrow> Zone \<times> nat option" where
  "reattachAffect R i def opts dur mag z =
     (case locate i (blank def (osource opts)) z of
        (z1, p, _) \<Rightarrow>
          let fill = (\<lambda>inst. inst\<lparr>remaining := (if indefinite def \<and> oduration opts \<le> 0 then durationIndefinite else dur),
                                 magnitude := mag,
                                 stacks := (if ostacks opts < 1 then 1 else ostacks opts),
                                 rung := (if rungs def \<noteq> [] then clampRung def (orung opts) else rung inst),
                                 sinceTick := 0\<rparr>)
          in (settle R i (setInst p fill z1), Some p))"

definition liveApply :: "hooks \<Rightarrow> Rules \<Rightarrow> nat \<Rightarrow> affectDef \<Rightarrow> attachOpts \<Rightarrow> int \<Rightarrow> flt \<Rightarrow> Zone \<Rightarrow> Zone \<times> nat option" where
  "liveApply fire R i def opts dur mag z =
     (case locate i \<lparr>adef = def, asource = osource opts, remaining = dur, magnitude = mag, stacks = 1,
                     rung = (if rungs def \<noteq> [] then 1 else 0), sinceTick = 0, fromEquip = ofromEquip opts\<rparr> z of
        (z1, p, fresh) \<Rightarrow>
          let z2 = (if fresh then z1 else setInst p (restack def dur mag) z1);
              z3 = (if indefinite def \<and> oduration opts \<le> 0
                    then setInst p (\<lambda>inst. inst\<lparr>remaining := durationIndefinite\<rparr>) z2 else z2);
              z4 = settle R i z3;
              z5 = (case osource opts of
                      Some s \<Rightarrow> if concentration def then concentrationApply fire s i p z4 else z4
                    | None \<Rightarrow> z4);
              z6 = (case ents z5 i of
                      Some e \<Rightarrow> if map_of (conc z5) i \<noteq> None \<and> concentrationBroken (heap z5) e
                                then breakConcentration fire i z5 else z5
                    | None \<Rightarrow> z5)
          in (if suppressApply opts then z6 else fire (OnApply p) i z6, Some p))"

definition applyAffect :: "hooks \<Rightarrow> Rules \<Rightarrow> nat \<Rightarrow> string \<Rightarrow> attachOpts \<Rightarrow> Zone \<Rightarrow> Zone \<times> nat option" where
  "applyAffect fire R i ref opts z =
     (case ents z i of
        None \<Rightarrow> (z, None)
      | Some e0 \<Rightarrow>
          if living e0 = None then (z, None)
          else
            (case map_of (fdefs R) ref of
               None \<Rightarrow> (z, None)
             | Some def \<Rightarrow>
                 let e = affectedComponent e0;
                     z0 = putEnt i e z;
                     mag = (if fleq (omagnitude opts) (Fin 0) then Fin 1 else omagnitude opts);
                     dur = (if oduration opts \<le> 0 then duration def else oduration opts)
                 in if reattach opts then reattachAffect R i def opts dur mag z0
                    else
                      (case immuneToAffect e def of
                         Some tok \<Rightarrow>
                           if \<not> grantsToken def tok then (fire (OnBlocked def (osource opts)) i z0, None)
                           else liveApply fire R i def opts dur mag z0
                       | None \<Rightarrow> liveApply fire R i def opts dur mag z0)))"

definition stripHostileAffects :: "(affectDef \<Rightarrow> bool) \<Rightarrow> nat \<Rightarrow> Zone \<Rightarrow> Zone" where
  "stripHostileAffects hostile i z =
     (case ents z i of
        None \<Rightarrow> z
      | Some e \<Rightarrow>
          (case affected e of
             None \<Rightarrow> z
           | Some a \<Rightarrow>
               let gone = (\<lambda>p. \<not> fromEquip (heap z p) \<and> hostile (adef (heap z p)))
               in if \<not> list_ex gone (alist a) then z
                  else putEnt i (refreshMods (heap z)
                         (e\<lparr>affected := Some (a\<lparr>alist := filter (\<lambda>p. \<not> gone p) (alist a),
                              byKey := foldl (\<lambda>m p. m(instKey (heap z p) := None)) (byKey a)
                                         (filter gone (alist a))\<rparr>)\<rparr>)) z))"

section \<open>Pools and the tick\<close>

definition setResourceCurrent :: "Rules \<Rightarrow> AEnt \<Rightarrow> string \<Rightarrow> int \<Rightarrow> AEnt" where
  "setResourceCurrent R e name v0 =
     (if living e = None then e
      else let maxV = resourceMax (adefs R) (rdefs R) e name;
               v1 = (if v0 < 0 then 0 else v0);
               v = (if maxV > 0 \<and> v1 > maxV then maxV else v1);
               e1 = updateLiving (\<lambda>l. l\<lparr>resCur := (resCur l)(name \<mapsto> v)\<rparr>) e
           in if needsRegen (adefs R) (rdefs R) e1 then ensureTick R (affectedComponent e1) else e1)"

definition restRegenMultiplier :: int where "restRegenMultiplier = 2"

text \<open>One pool of one tick; \<open>lua\<close> is the amount a ruleset's regen formula returns, if there is one.\<close>

definition regen1 :: "Rules \<Rightarrow> (AEnt \<Rightarrow> int option) \<Rightarrow> bool \<Rightarrow> bool \<Rightarrow> AEnt \<Rightarrow> string \<times> resourceDef \<Rightarrow> AEnt" where
  "regen1 R lua suspended fighting e rd =
     (case rd of (ref, d) \<Rightarrow>
        if regen d \<le> 0 then e
        else if fighting \<and> \<not> regenInCombat d then e
        else
          let maxV = resourceMax (adefs R) (rdefs R) e ref;
              cur = resourceCurrent (adefs R) (rdefs R) e ref
          in if maxV \<le> 0 then e
             else if cur \<ge> maxV then e
             else if suspended \<and> vital d \<and> cur \<le> 0 then e
             else
               let amount0 = (case lua e of Some v \<Rightarrow> v | None \<Rightarrow> regen d);
                   amount = (if position e = posResting then amount0 * restRegenMultiplier else amount0);
                   next = (if cur + amount > maxV then maxV else cur + amount)
               in setResourceCurrent R e ref next)"

definition runRegen :: "Rules \<Rightarrow> (AEnt \<Rightarrow> int option) \<Rightarrow> heap \<Rightarrow> AEnt \<Rightarrow> AEnt" where
  "runRegen R lua h e =
     (if living e = None then e
      else foldl (regen1 R lua (deathSuspended h e) (position e = posFighting)) e (rdefs R))"

definition tick1 :: "hooks \<Rightarrow> nat \<Rightarrow> Zone \<Rightarrow> nat \<Rightarrow> Zone" where
  "tick1 fire i z p =
     (case ents z i of
        None \<Rightarrow> z
      | Some e \<Rightarrow>
          (case affected e of
             None \<Rightarrow> z
           | Some a \<Rightarrow>
               if byKey a (instKey (heap z p)) \<noteq> Some p then z
               else
                 let d = adef (heap z p);
                     z1 = (if hasTick d \<and> tickInterval d > 0
                           then if sinceTick (heap z p) + 1 \<ge> tickInterval d
                                then fire (OnTick p) i (setInst p (\<lambda>x. x\<lparr>sinceTick := 0\<rparr>) z)
                                else setInst p (\<lambda>x. x\<lparr>sinceTick := sinceTick x + 1\<rparr>) z
                           else z)
                 in if indefinite d then z1
                    else
                      let z2 = (if remaining (heap z1 p) > 0
                                then setInst p (\<lambda>x. x\<lparr>remaining := remaining x - 1\<rparr>) z1 else z1)
                      in if remaining (heap z2 p) \<le> 0 then expire fire i p z2 else z2))"

definition regenEnt :: "Rules \<Rightarrow> (AEnt \<Rightarrow> int option) \<Rightarrow> nat \<Rightarrow> Zone \<Rightarrow> Zone" where
  "regenEnt R lua i z =
     (case ents z i of None \<Rightarrow> z | Some e \<Rightarrow> putEnt i (runRegen R lua (heap z) e) z)"

definition tickOnce :: "hooks \<Rightarrow> Rules \<Rightarrow> (AEnt \<Rightarrow> int option) \<Rightarrow> nat \<Rightarrow> Zone \<Rightarrow> Zone" where
  "tickOnce fire R lua i z =
     (case ents z i of
        None \<Rightarrow> z
      | Some e \<Rightarrow>
          (case affected e of
             None \<Rightarrow> z
           | Some a \<Rightarrow> regenEnt R lua i (foldl (tick1 fire i) z (alist a))))"

text \<open>The tick of an entity; \<open>frozen\<close> is the handoff flag of a player's session. It returns whether to go on.\<close>

definition affectTick :: "hooks \<Rightarrow> Rules \<Rightarrow> (AEnt \<Rightarrow> int option) \<Rightarrow> bool \<Rightarrow> nat \<Rightarrow> Zone \<Rightarrow> bool \<times> Zone" where
  "affectTick fire R lua frozen i z =
     (case ents z i of
        None \<Rightarrow> (False, z)
      | Some e \<Rightarrow>
          if frozen then
            (False, putEnt i (e\<lparr>affected := map_option (\<lambda>a. a\<lparr>ticking := False\<rparr>) (affected e)\<rparr>) z)
          else if living e = None then (False, z)
          else
            (case affected e of
               None \<Rightarrow>
                 let z1 = regenEnt R lua i z
                 in (case ents z1 i of
                       None \<Rightarrow> (False, z1)
                     | Some e1 \<Rightarrow> (needsRegen (adefs R) (rdefs R) e1, z1))
             | Some _ \<Rightarrow>
                 let z1 = tickOnce fire R lua i z
                 in (case ents z1 i of
                       None \<Rightarrow> (False, z1)
                     | Some e1 \<Rightarrow>
                         (case affected e1 of
                            None \<Rightarrow> (False, z1)
                          | Some a1 \<Rightarrow>
                              if alist a1 = [] \<and> \<not> needsRegen (adefs R) (rdefs R) e1
                              then (False, putEnt i (e1\<lparr>affected := Some (a1\<lparr>ticking := False\<rparr>)\<rparr>) z1)
                              else (True, z1)))))"

end
