(* ===== verification/Affect_Invariant.thy ===== *)
theory Affect_Invariant
  imports Affects
begin

text \<open>
  Invariants of the affect runtime: the list and the key index of every entity agree, the summed
  modifiers, tags, immunities and damage multipliers are those of the active instances, and the
  attribute derivation of the entity reads them.
\<close>

section \<open>The sums\<close>

definition frame_eq :: "Affected \<Rightarrow> Affected \<Rightarrow> bool" where
  "frame_eq a b \<longleftrightarrow> alist a = alist b \<and> byKey a = byKey b \<and> ticking a = ticking b \<and> srcIx a = srcIx b"

lemma foldl_add_mod_frame:
  "alist (foldl (add_mod s) a ms) = alist a" "byKey (foldl (add_mod s) a ms) = byKey a"
  "ticking (foldl (add_mod s) a ms) = ticking a" "srcIx (foldl (add_mod s) a ms) = srcIx a"
  by (induction ms arbitrary: a) (simp_all add: add_mod_def)

lemma contribute_frame [simp]:
  "alist (contribute a x) = alist a" "byKey (contribute a x) = byKey a"
  "ticking (contribute a x) = ticking a" "srcIx (contribute a x) = srcIx a"
  by (simp_all add: contribute_def Let_def case_prod_beta foldl_add_mod_frame)

lemma foldl_contribute_frame:
  "alist (foldl contribute a xs) = alist a" "byKey (foldl contribute a xs) = byKey a"
  "ticking (foldl contribute a xs) = ticking a" "srcIx (foldl contribute a xs) = srcIx a"
  by (induction xs arbitrary: a) simp_all

lemma recomputeMods_frame [simp]:
  "alist (recomputeMods h a) = alist a" "byKey (recomputeMods h a) = byKey a"
  "ticking (recomputeMods h a) = ticking a" "srcIx (recomputeMods h a) = srcIx a"
  by (simp_all add: recomputeMods_def foldl_contribute_frame cleared_def)

lemma cleared_recompute: "cleared (recomputeMods h a) = cleared a"
  by (rule Affected.equality) (simp_all add: cleared_def)

lemma recomputeMods_idem [simp]: "recomputeMods h (recomputeMods h a) = recomputeMods h a"
  by (subst recomputeMods_def) (simp add: cleared_recompute recomputeMods_def [of h a, symmetric])

text \<open>The sums do not read the tick mark.\<close>

lemma add_mod_ticking: "add_mod s (a\<lparr>ticking := t\<rparr>) m = (add_mod s a m)\<lparr>ticking := t\<rparr>"
  by (cases a) (simp add: add_mod_def)

lemma foldl_add_mod_ticking:
  "foldl (add_mod s) (a\<lparr>ticking := t\<rparr>) ms = (foldl (add_mod s) a ms)\<lparr>ticking := t\<rparr>"
  by (induction ms arbitrary: a) (simp_all add: add_mod_ticking)

lemma contribute_ticking: "contribute (a\<lparr>ticking := t\<rparr>) x = (contribute a x)\<lparr>ticking := t\<rparr>"
  by (rule Affected.equality)
     (simp_all add: contribute_def Let_def case_prod_beta foldl_add_mod_ticking foldl_add_mod_frame split: option.splits)

lemma foldl_contribute_ticking:
  "foldl contribute (a\<lparr>ticking := t\<rparr>) xs = (foldl contribute a xs)\<lparr>ticking := t\<rparr>"
  by (induction xs arbitrary: a) (simp_all add: contribute_ticking)

lemma recomputeMods_ticking: "recomputeMods h (a\<lparr>ticking := t\<rparr>) = (recomputeMods h a)\<lparr>ticking := t\<rparr>"
proof -
  have "cleared (a\<lparr>ticking := t\<rparr>) = (cleared a)\<lparr>ticking := t\<rparr>"
    by (simp add: cleared_def)
  then show ?thesis
    by (simp add: recomputeMods_def foldl_contribute_ticking)
qed

lemma affect_view_ticking [simp]: "affect_view (a\<lparr>ticking := t\<rparr>) = affect_view a"
  by (simp add: affect_view_def)

text \<open>Nor do they read the timers of an instance.\<close>

definition same_dose :: "affectInstance \<Rightarrow> affectInstance \<Rightarrow> bool" where
  "same_dose x y \<longleftrightarrow>
     adef x = adef y \<and> asource x = asource y \<and> magnitude x = magnitude y \<and> stacks x = stacks y \<and>
     rung x = rung y"

lemma same_dose_eqs:
  assumes "same_dose x y"
  shows "instKey x = instKey y" "instScale x = instScale y" "contribute a x = contribute a y"
proof -
  have eqs: "adef x = adef y" "asource x = asource y" "magnitude x = magnitude y" "stacks x = stacks y"
    "rung x = rung y"
    using assms by (simp_all add: same_dose_def)
  show "instKey x = instKey y"
    unfolding instKey_def eqs by (rule refl)
  have ri: "rungIndex x = rungIndex y" and sf: "stackFactor x = stackFactor y"
    unfolding rungIndex_def stackFactor_def eqs by (rule refl)+
  show "instScale x = instScale y"
    unfolding instScale_def eqs ri sf by (rule refl)
  show "contribute a x = contribute a y"
    unfolding contribute_def active_set_def eqs ri sf by (rule refl)
qed

lemma foldl_pick_winner_cong:
  assumes "\<forall>p \<in> set ps. same_dose (h p) (h' p)" and "\<forall>r j. w r = Some j \<longrightarrow> same_dose (h j) (h' j)"
  shows "foldl (pick_winner h) w ps = foldl (pick_winner h') w ps"
  using assms
proof (induction ps arbitrary: w)
  case (Cons p ps)
  have p: "adef (h p) = adef (h' p)" "instScale (h p) = instScale (h' p)"
    using Cons(2) same_dose_eqs(2) [of "h p" "h' p"] by (simp_all add: same_dose_def)
  have eq: "pick_winner h w p = pick_winner h' w p"
  proof (cases "w (aref (adef (h' p)))")
    case None
    then show ?thesis
      by (simp add: pick_winner_def p)
  next
    case (Some j)
    then have "instScale (h j) = instScale (h' j)"
      using Cons(3) same_dose_eqs(2) by blast
    then show ?thesis
      using Some by (simp add: pick_winner_def p)
  qed
  have "\<forall>r j. pick_winner h w p r = Some j \<longrightarrow> same_dose (h j) (h' j)"
    using Cons(2,3) by (auto simp: pick_winner_def)
  then show ?case
    using Cons(1) [of "pick_winner h w p"] Cons(2) eq by simp
qed simp

lemma recomputeMods_cong:
  assumes "\<And>p. p \<in> set (alist a) \<Longrightarrow> same_dose (h p) (h' p)"
  shows "recomputeMods h a = recomputeMods h' a"
proof -
  have win: "highestWinner h (alist a) = highestWinner h' (alist a)"
    using assms by (simp add: highestWinner_def foldl_pick_winner_cong)
  have "contributes h (alist a) p = contributes h' (alist a) p" if "p \<in> set (alist a)" for p
    using assms [OF that] win by (simp add: contributes_def same_dose_def)
  then have fil: "filter (contributes h (alist a)) (alist a) = filter (contributes h' (alist a)) (alist a)"
    by (auto intro: filter_cong)
  have "foldl contribute b (map h ps) = foldl contribute b (map h' ps)"
    if "set ps \<subseteq> set (alist a)" for b ps
    using that
  proof (induction ps arbitrary: b)
    case (Cons p ps)
    then show ?case
      using same_dose_eqs(3) [OF assms [of p]] by simp
  qed simp
  then show ?thesis
    by (simp add: recomputeMods_def fil)
qed

section \<open>The invariant\<close>

text \<open>List and index agree.\<close>

definition idx_ok :: "heap \<Rightarrow> nat \<Rightarrow> Affected \<Rightarrow> bool" where
  "idx_ok h n a \<longleftrightarrow>
     distinct (alist a) \<and>
     (\<forall>p \<in> set (alist a). p < n \<and> byKey a (instKey (h p)) = Some p) \<and>
     (\<forall>k p. byKey a k = Some p \<longrightarrow> p \<in> set (alist a) \<and> instKey (h p) = k)"

definition ent_idx :: "Rules \<Rightarrow> heap \<Rightarrow> nat \<Rightarrow> AEnt \<Rightarrow> bool" where
  "ent_idx R h n e \<longleftrightarrow>
     attr_reach (adefs R) e \<and>
     (\<forall>a. affected e = Some a \<longrightarrow>
        idx_ok h n a \<and> \<not> aliased e \<and> (\<exists>l. living e = Some l \<and> srcIx a < length (modSrcs l)))"

text \<open>The sums are those of the list, and the derivation of attributes reads them.\<close>

definition synced :: "heap \<Rightarrow> AEnt \<Rightarrow> bool" where
  "synced h e \<longleftrightarrow>
     (\<forall>a. affected e = Some a \<longrightarrow>
        recomputeMods h a = a \<and> (\<forall>l. living e = Some l \<longrightarrow> modSrcs l ! srcIx a = affect_view a))"

definition active :: "Zone \<Rightarrow> nat \<Rightarrow> nat set" where
  "active z i = (case ents z i of None \<Rightarrow> {} | Some e \<Rightarrow> (case affected e of None \<Rightarrow> {} | Some a \<Rightarrow> set (alist a)))"

definition zone_idx :: "Rules \<Rightarrow> Zone \<Rightarrow> bool" where
  "zone_idx R z \<longleftrightarrow>
     (\<forall>i e. ents z i = Some e \<longrightarrow> ent_idx R (heap z) (nextInst z) e) \<and>
     (\<forall>i j. i \<noteq> j \<longrightarrow> active z i \<inter> active z j = {})"

definition zone_but :: "Rules \<Rightarrow> nat \<Rightarrow> Zone \<Rightarrow> bool" where
  "zone_but R i z \<longleftrightarrow> zone_idx R z \<and> (\<forall>j e. j \<noteq> i \<longrightarrow> ents z j = Some e \<longrightarrow> synced (heap z) e)"

definition zone_ok :: "Rules \<Rightarrow> Zone \<Rightarrow> bool" where
  "zone_ok R z \<longleftrightarrow> zone_idx R z \<and> (\<forall>i e. ents z i = Some e \<longrightarrow> synced (heap z) e)"

lemma zone_ok_but: "zone_ok R z \<Longrightarrow> zone_but R i z"
  by (simp add: zone_ok_def zone_but_def)

lemma zone_but_ok: "zone_but R i z \<Longrightarrow> (\<And>e. ents z i = Some e \<Longrightarrow> synced (heap z) e) \<Longrightarrow> zone_ok R z"
  unfolding zone_ok_def zone_but_def by metis

lemma zone_conc [simp]:
  "zone_idx R (z\<lparr>conc := c\<rparr>) = zone_idx R z" "zone_but R i (z\<lparr>conc := c\<rparr>) = zone_but R i z"
  "zone_ok R (z\<lparr>conc := c\<rparr>) = zone_ok R z"
  by (simp_all add: zone_idx_def zone_but_def zone_ok_def active_def)

lemma zone_clear [simp]: "zone_ok R (clearConcentrationSlot s p z) = zone_ok R z"
    "zone_but R i (clearConcentrationSlot s p z) = zone_but R i z"
    "ents (clearConcentrationSlot s p z) = ents z" "heap (clearConcentrationSlot s p z) = heap z"
    "nextInst (clearConcentrationSlot s p z) = nextInst z"
  by (simp_all add: clearConcentrationSlot_def split: option.splits)


section \<open>Refreshing one entity\<close>

lemma updateLiving_owned:
  "\<not> aliased e \<Longrightarrow> updateLiving f e = e\<lparr>living := map_option f (living e)\<rparr>"
  by (simp add: updateLiving_def Let_def)

lemma refreshMods_owned:
  assumes "affected e = Some a" and "living e = Some l" and "\<not> aliased e"
  shows "refreshMods h e =
     e\<lparr>affected := Some (recomputeMods h a),
       living := Some (l\<lparr>modSrcs := (modSrcs l)[srcIx a := affect_view (recomputeMods h a)],
                        attrs := (attrs l)\<lparr>dirty := True\<rparr>\<rparr>)\<rparr>"
  using assms by (simp add: refreshMods_def putAffected_def markAttrsDirty_def updateLiving_owned)

lemma attr_reach_refresh:
  assumes "attr_reach defs e" and "affected e = Some a" and "living e = Some l" and "\<not> aliased e"
  shows "attr_reach defs (refreshMods h e)"
proof -
  define srcs where "srcs = (modSrcs l)[srcIx a := affect_view (recomputeMods h a)]"
  have "attr_reach defs (markAttrsDirty (updateLiving (\<lambda>l. l\<lparr>modSrcs := srcs\<rparr>) e))"
    using assms(1) by (rule attr_reach.change_sources)
  then show ?thesis
    by (rule attr_reach.write_other)
       (simp_all add: refreshMods_owned [OF assms(2-4)] markAttrsDirty_def updateLiving_owned assms srcs_def)
qed

lemma refreshMods_none: "affected e = None \<Longrightarrow> refreshMods h e = e"
  by (simp add: refreshMods_def)

lemma refreshMods_ok:
  assumes "ent_idx R h n e"
  shows "ent_idx R h n (refreshMods h e)" and "synced h (refreshMods h e)"
proof -
  have both: "ent_idx R h n (refreshMods h e) \<and> synced h (refreshMods h e)"
  proof (cases "affected e")
    case None
    then show ?thesis
      using assms by (simp add: refreshMods_none synced_def)
  next
    case (Some a)
    obtain l where l: "living e = Some l" "srcIx a < length (modSrcs l)" "\<not> aliased e" "idx_ok h n a"
      using assms Some by (auto simp: ent_idx_def)
    have "idx_ok h n (recomputeMods h a)"
      using l(4) by (simp add: idx_ok_def)
    then show ?thesis
      using attr_reach_refresh [OF _ Some l(1,3)] assms l
      by (auto simp: ent_idx_def synced_def refreshMods_owned [OF Some l(1,3)])
  qed
  then show "ent_idx R h n (refreshMods h e)" and "synced h (refreshMods h e)"
    by auto
qed

lemma refreshMods_active:
  "map_option alist (affected (refreshMods h e)) = map_option alist (affected e)"
  by (auto simp: refreshMods_def putAffected_def markAttrsDirty_def updateLiving_def mutableLiving_def
           Let_def split: option.splits)

lemma ensureTick_ok:
  "ent_idx R h n (ensureTick R' e) = ent_idx R h n e" "synced h (ensureTick R' e) = synced h e"
  "map_option alist (affected (ensureTick R' e)) = map_option alist (affected e)"
proof -
  have reach: "attr_reach d (e\<lparr>affected := x\<rparr>) = attr_reach d e" for d x
    using attr_reach.write_other [of d e "e\<lparr>affected := x\<rparr>"]
      attr_reach.write_other [of d "e\<lparr>affected := x\<rparr>" e] by auto
  have rec: "recomputeMods h (a\<lparr>ticking := True\<rparr>) = a\<lparr>ticking := True\<rparr> \<longleftrightarrow> recomputeMods h a = a"
    if "\<not> ticking a" for a
  proof
    assume "recomputeMods h (a\<lparr>ticking := True\<rparr>) = a\<lparr>ticking := True\<rparr>"
    then have "(recomputeMods h a)\<lparr>ticking := True\<rparr> = a\<lparr>ticking := True\<rparr>"
      by (simp add: recomputeMods_ticking)
    then have "((recomputeMods h a)\<lparr>ticking := True\<rparr>)\<lparr>ticking := ticking a\<rparr> =
               (a\<lparr>ticking := True\<rparr>)\<lparr>ticking := ticking a\<rparr>"
      by simp
    then show "recomputeMods h a = a"
      using recomputeMods_ticking [where h = h and a = a and t = "ticking a"] by simp
  qed (simp add: recomputeMods_ticking)
  show "ent_idx R h n (ensureTick R' e) = ent_idx R h n e"
    by (auto simp: ensureTick_def ent_idx_def idx_ok_def reach split: option.splits)
  show "synced h (ensureTick R' e) = synced h e"
    using rec by (auto simp: ensureTick_def synced_def split: option.splits)
  show "map_option alist (affected (ensureTick R' e)) = map_option alist (affected e)"
    by (simp add: ensureTick_def split: option.splits)
qed

section \<open>Writing one entity of a zone\<close>

lemma active_putEnt:
  "active (putEnt i e z) j =
     (if j = i then (case affected e of None \<Rightarrow> {} | Some a \<Rightarrow> set (alist a)) else active z j)"
  by (simp add: active_def putEnt_def)

lemma putEnt_but:
  assumes "zone_but R i z" and "ent_idx R (heap z) (nextInst z) e"
    and "case affected e of None \<Rightarrow> True | Some a \<Rightarrow> set (alist a) \<subseteq> active z i"
  shows "zone_but R i (putEnt i e z)"
proof -
  have act: "active (putEnt i e z) j \<subseteq> active z j" for j
    using assms(3) by (auto simp: active_putEnt split: option.splits)
  have "active (putEnt i e z) j \<inter> active (putEnt i e z) k = {}" if "j \<noteq> k" for j k
    using act [of j] act [of k] assms(1) that by (fastforce simp: zone_but_def zone_idx_def)
  moreover have "ents (putEnt i e z) = (ents z)(i \<mapsto> e)" "heap (putEnt i e z) = heap z"
    "nextInst (putEnt i e z) = nextInst z"
    by (simp_all add: putEnt_def)
  ultimately show ?thesis
    using assms(1,2) by (auto simp: zone_but_def zone_idx_def)
qed

lemma putEnt_ok:
  assumes "zone_but R i z" and "ent_idx R (heap z) (nextInst z) e" and "synced (heap z) e"
    and "case affected e of None \<Rightarrow> True | Some a \<Rightarrow> set (alist a) \<subseteq> active z i"
  shows "zone_ok R (putEnt i e z)"
  using putEnt_but [OF assms(1,2,4)] assms(3) by (intro zone_but_ok) (auto simp: putEnt_def)

lemma settle_ok:
  assumes "zone_but R i z"
  shows "zone_ok R (settle R' i z)"
proof (cases "ents z i")
  case None
  then show ?thesis
    using assms by (auto simp: settle_def intro: zone_but_ok)
next
  case (Some e)
  have idx: "ent_idx R (heap z) (nextInst z) e"
    using assms Some by (simp add: zone_but_def zone_idx_def)
  have "map_option alist (affected (ensureTick R' (refreshMods (heap z) e))) = map_option alist (affected e)"
    by (simp add: ensureTick_ok refreshMods_active)
  then have "case affected (ensureTick R' (refreshMods (heap z) e)) of
               None \<Rightarrow> True | Some a \<Rightarrow> set (alist a) \<subseteq> active z i"
    using Some by (auto simp: active_def split: option.splits)
  then show ?thesis
    using assms Some refreshMods_ok [OF idx] by (simp add: settle_def putEnt_ok ensureTick_ok)
qed

lemma setInst_but:
  assumes "zone_but R i z" and "p \<in> active z i"
    and "\<And>x. adef (f x) = adef x" and "\<And>x. asource (f x) = asource x"
  shows "zone_but R i (setInst p f z)"
proof -
  have key: "instKey (heap (setInst p f z) q) = instKey (heap z q)" for q
    using assms(3,4) by (simp add: setInst_def instKey_def)
  have fields: "ents (setInst p f z) = ents z" "nextInst (setInst p f z) = nextInst z"
    "active (setInst p f z) = active z"
    by (simp_all add: setInst_def active_def fun_eq_iff)
  have idx: "ent_idx R (heap (setInst p f z)) n e = ent_idx R (heap z) n e" for n e
    by (simp add: ent_idx_def idx_ok_def key)
  have "synced (heap (setInst p f z)) e" if j: "j \<noteq> i" "ents z j = Some e" for j e
  proof -
    have "synced (heap z) e"
      using assms(1) j by (simp add: zone_but_def)
    moreover have "recomputeMods (heap (setInst p f z)) a = recomputeMods (heap z) a" if "affected e = Some a" for a
    proof (rule recomputeMods_cong)
      fix q
      assume "q \<in> set (alist a)"
      then have "q \<in> active z j"
        using j that by (simp add: active_def)
      then have "q \<noteq> p"
        using assms(1,2) j(1) unfolding zone_but_def zone_idx_def by blast
      then show "same_dose (heap (setInst p f z) q) (heap z q)"
        by (simp add: setInst_def same_dose_def)
    qed
    ultimately show ?thesis
      by (simp add: synced_def)
  qed
  then show ?thesis
    using assms(1) by (simp add: zone_but_def zone_idx_def fields idx)
qed


section \<open>Every operation keeps the invariant\<close>

definition hooks_ok :: "Rules \<Rightarrow> hooks \<Rightarrow> bool" where
  "hooks_ok R fire \<longleftrightarrow> (\<forall>hk i z. zone_ok R z \<longrightarrow> zone_ok R (fire hk i z))"

lemma ent_of: "zone_ok R z \<Longrightarrow> ents z i = Some e \<Longrightarrow> ent_idx R (heap z) (nextInst z) e"
  by (simp add: zone_ok_def zone_idx_def)

lemma idx_of: "zone_ok R z \<Longrightarrow> ents z i = Some e \<Longrightarrow> affected e = Some a \<Longrightarrow> idx_ok (heap z) (nextInst z) a"
  using ent_of by (auto simp: ent_idx_def)

lemma attr_reach_affected: "attr_reach d (e\<lparr>affected := x\<rparr>) = attr_reach d e"
  using attr_reach.write_other [of d e "e\<lparr>affected := x\<rparr>"]
    attr_reach.write_other [of d "e\<lparr>affected := x\<rparr>" e] by auto

lemma ent_idx_affected:
  assumes "ent_idx R h n e" and "affected e = Some a" and "idx_ok h n a1" and "srcIx a1 = srcIx a"
  shows "ent_idx R h n (e\<lparr>affected := Some a1\<rparr>)"
  using assms by (auto simp: ent_idx_def attr_reach_affected)

text \<open>Rewriting the list and index of one entity, then refreshing it.\<close>

lemma relist_ok:
  assumes "zone_ok R z" and "ents z i = Some e" and "affected e = Some a"
    and "idx_ok (heap z) (nextInst z) a1" and "srcIx a1 = srcIx a" and "set (alist a1) \<subseteq> set (alist a)"
  shows "zone_ok R (putEnt i (refreshMods (heap z) (e\<lparr>affected := Some a1\<rparr>)) z)"
proof -
  have idx: "ent_idx R (heap z) (nextInst z) (e\<lparr>affected := Some a1\<rparr>)"
    by (rule ent_idx_affected [OF ent_of [OF assms(1,2)] assms(3-5)])
  have "map_option alist (affected (refreshMods (heap z) (e\<lparr>affected := Some a1\<rparr>))) = Some (alist a1)"
    by (simp add: refreshMods_active)
  then show ?thesis
    using zone_ok_but [OF assms(1), of i] refreshMods_ok [OF idx] assms(2,3,6)
    by (intro putEnt_ok) (auto simp: active_def split: option.splits)
qed

lemma idx_ok_unlink:
  assumes "idx_ok h n a" and "byKey a (instKey (h p)) = Some p \<or> byKey a (instKey (h p)) = None"
  shows "idx_ok h n (a\<lparr>alist := remove1 p (alist a), byKey := (byKey a)(instKey (h p) := None)\<rparr>)"
proof -
  have other: "instKey (h q) \<noteq> instKey (h p)" if "q \<in> set (alist a)" "q \<noteq> p" for q
  proof
    assume eq: "instKey (h q) = instKey (h p)"
    have "byKey a (instKey (h q)) = Some q"
      using assms(1) that by (simp add: idx_ok_def)
    then show False
      using assms(2) that(2) eq by simp
  qed
  show ?thesis
    using assms(1) other by (auto simp: idx_ok_def)
qed

lemma expire_ok:
  assumes "zone_ok R z" and "hooks_ok R fire"
    and "\<And>e a. ents z i = Some e \<Longrightarrow> affected e = Some a \<Longrightarrow>
           byKey a (instKey (heap z p)) = Some p \<or> byKey a (instKey (heap z p)) = None"
  shows "zone_ok R (expire fire i p z)"
proof (cases "\<exists>e a. ents z i = Some e \<and> affected e = Some a")
  case True
  then obtain e a where e: "ents z i = Some e" and a: "affected e = Some a"
    by blast
  define a1 where "a1 = a\<lparr>alist := remove1 p (alist a), byKey := (byKey a)(instKey (heap z p) := None)\<rparr>"
  define z1 where "z1 = (if concentration (adef (heap z p))
                         then (case asource (heap z p) of None \<Rightarrow> z | Some s \<Rightarrow> clearConcentrationSlot s p z)
                         else z)"
  have z1: "zone_ok R z1" "ents z1 = ents z" "heap z1 = heap z" "nextInst z1 = nextInst z"
    using assms(1) by (simp_all add: z1_def split: option.splits)
  have "idx_ok (heap z) (nextInst z) a1"
    unfolding a1_def by (rule idx_ok_unlink [OF idx_of [OF assms(1) e a] assms(3) [OF e a]])
  then have "zone_ok R (putEnt i (refreshMods (heap z1) (e\<lparr>affected := Some a1\<rparr>)) z1)"
    using e a z1 by (intro relist_ok) (auto simp: a1_def dest: set_mp [OF set_remove1_subset])
  then show ?thesis
    using assms(2) e a z1(3)
    by (simp add: expire_def Let_def hooks_ok_def a1_def [symmetric] z1_def [symmetric])
next
  case False
  then show ?thesis
    using assms(1) by (auto simp: expire_def split: option.splits)
qed

lemma expireConcentration_ok:
  assumes "zone_ok R z" and "hooks_ok R fire"
  shows "zone_ok R (expireConcentration fire s z)"
proof -
  obtain holder key p where s: "s = (holder, key, p)"
    by (cases s) auto
  show ?thesis
  proof (cases "\<exists>e a. ents z holder = Some e \<and> affected e = Some a \<and> byKey a key = Some p")
    case True
    then obtain e a where e: "ents z holder = Some e" "affected e = Some a" "byKey a key = Some p"
      by blast
    then have "instKey (heap z p) = key"
      using idx_of [OF assms(1) e(1,2)] unfolding idx_ok_def by blast
    then have "zone_ok R (expire fire holder p z)"
      using e by (intro expire_ok [OF assms]) auto
    then show ?thesis
      using e s by (simp add: expireConcentration_def)
  next
    case False
    then show ?thesis
      using assms(1) s by (auto simp: expireConcentration_def split: option.splits)
  qed
qed

lemma concentrationApply_ok:
  assumes "zone_ok R z" and "hooks_ok R fire"
  shows "zone_ok R (concentrationApply fire s i p z)"
  using assms expireConcentration_ok [OF assms]
  by (auto simp: concentrationApply_def Let_def split: option.splits)

lemma breakConcentration_ok:
  assumes "zone_ok R z" and "hooks_ok R fire"
  shows "zone_ok R (breakConcentration fire s z)"
  using expireConcentration_ok [OF _ assms(2)] assms(1)
  by (simp add: breakConcentration_def split: option.splits)

lemma breakConcentrationInvolving_ok:
  assumes "zone_ok R z" and "hooks_ok R fire"
  shows "zone_ok R (breakConcentrationInvolving fire i z)"
proof -
  have "zone_ok R (foldl (\<lambda>z src. breakConcentration fire src z) z' srcs)" if "zone_ok R z'" for z' srcs
    using that by (induction srcs arbitrary: z') (simp_all add: breakConcentration_ok assms(2))
  then show ?thesis
    using assms by (simp add: breakConcentrationInvolving_def Let_def breakConcentration_ok)
qed


lemma addModSource_living:
  assumes "living (mutableLiving e) = Some l"
  shows "living (addModSource e src) =
           Some (l\<lparr>modSrcs := modSrcs l @ [src], attrs := (attrs l)\<lparr>dirty := True\<rparr>\<rparr>)"
    and "\<not> aliased (addModSource e src)"
proof -
  have "living e \<noteq> None"
    using assms living_mutable [of e] by (metis option.discI)
  then have "\<not> aliased (updateLiving f e)" for f
    by (rule update_owned)
  then show "living (addModSource e src) =
           Some (l\<lparr>modSrcs := modSrcs l @ [src], attrs := (attrs l)\<lparr>dirty := True\<rparr>\<rparr>)"
    and "\<not> aliased (addModSource e src)"
    using assms by (simp_all add: addModSource_def markAttrsDirty_def updateLiving_owned)
                   (simp add: updateLiving_def Let_def)
qed

lemma recompute_empty: "alist a = [] \<Longrightarrow> recomputeMods h a = cleared a"
  by (simp add: recomputeMods_def)

lemma affectedComponent_ok:
  assumes "ent_idx R h n e" and "synced h e" and "living e \<noteq> None"
  shows "ent_idx R h n (affectedComponent e)" and "synced h (affectedComponent e)"
    and "\<exists>a. affected (affectedComponent e) = Some a \<and>
             set (alist a) = (case affected e of None \<Rightarrow> {} | Some a \<Rightarrow> set (alist a))"
proof -
  have all: "ent_idx R h n (affectedComponent e) \<and> synced h (affectedComponent e) \<and>
    (\<exists>a. affected (affectedComponent e) = Some a \<and>
             set (alist a) = (case affected e of None \<Rightarrow> {} | Some a \<Rightarrow> set (alist a)))"
  proof (cases "affected e")
    case (Some a)
    then show ?thesis
      using assms by (simp add: affectedComponent_def)
  next
    case None
    obtain l where l: "living (mutableLiving e) = Some l"
      using assms(3) living_mutable [of e] by (cases "living (mutableLiving e)") auto
    define a where "a = newAffected (length (modSrcs l))"
    have comp: "affectedComponent e = (addModSource e (affect_view a))\<lparr>affected := Some a\<rparr>"
      using None l by (simp add: affectedComponent_def a_def Let_def)
    have "attr_reach (adefs R) (addModSource e (affect_view a))"
      using assms(1) by (auto simp: ent_idx_def intro: attr_reach.add_source)
    moreover have "idx_ok h n a" "alist a = []" "recomputeMods h a = a" "srcIx a = length (modSrcs l)"
      by (simp_all add: a_def newAffected_def idx_ok_def recompute_empty cleared_def)
    ultimately show ?thesis
      using addModSource_living [OF l, of "affect_view a"] None
      by (simp add: comp ent_idx_def synced_def attr_reach_affected)
  qed
  then show "ent_idx R h n (affectedComponent e)" and "synced h (affectedComponent e)"
    and "\<exists>a. affected (affectedComponent e) = Some a \<and>
             set (alist a) = (case affected e of None \<Rightarrow> {} | Some a \<Rightarrow> set (alist a))"
    by auto
qed

lemma idx_ok_mono:
  assumes "idx_ok h n b" and "\<And>q. q \<in> set (alist b) \<Longrightarrow> h' q = h q" and "n \<le> n'"
  shows "idx_ok h' n' b"
  unfolding idx_ok_def
proof (intro conjI ballI allI impI)
  show "distinct (alist b)"
    using assms(1) by (simp add: idx_ok_def)
  show "q < n'" "byKey b (instKey (h' q)) = Some q" if "q \<in> set (alist b)" for q
    using assms that by (fastforce simp: idx_ok_def)+
  show "q \<in> set (alist b)" "instKey (h' q) = k" if "byKey b k = Some q" for k q
  proof -
    have "q \<in> set (alist b) \<and> instKey (h q) = k"
      using assms(1) that unfolding idx_ok_def by blast
    then show "q \<in> set (alist b)" "instKey (h' q) = k"
      using assms(2) by simp_all
  qed
qed

lemma install_but:
  assumes "zone_ok R z" and "ents z i = Some e" and "affected e = Some a" and "byKey a (instKey inst) = None"
    and "install i inst z = (z', p)"
  shows "zone_but R i z'" and "p \<in> active z' i"
proof -
  define e' where "e' = e\<lparr>affected := Some (a\<lparr>alist := alist a @ [p], byKey := (byKey a)(instKey inst \<mapsto> p)\<rparr>)\<rparr>"
  have p: "p = nextInst z"
    and z': "z' = putEnt i e' (z\<lparr>heap := (heap z)(p := inst), nextInst := p + 1\<rparr>)"
    using assms(2,3,5) by (auto simp: install_def Let_def e'_def)
  have fresh: "q \<noteq> p" if q: "q \<in> active z j" for q j
  proof -
    obtain x b where "ents z j = Some x" "affected x = Some b" "q \<in> set (alist b)"
      using q by (auto simp: active_def split: option.splits)
    then have "q < nextInst z"
      using idx_of [OF assms(1)] unfolding idx_ok_def by blast
    then show ?thesis
      using p by simp
  qed
  have heap': "heap z' q = heap z q" if "q \<in> active z j" for q j
    using fresh [OF that] z' by (simp add: putEnt_def)
  have flds: "ents z' = (ents z)(i \<mapsto> e')" "nextInst z' = p + 1"
    using z' by (simp_all add: putEnt_def)
  have act: "active z' j = (if j = i then insert p (active z i) else active z j)" for j
    using assms(2,3) by (auto simp: active_def flds e'_def)
  show "p \<in> active z' i"
    by (simp add: act)
  have mono: "ent_idx R (heap z') (nextInst z') x" if x: "ents z j = Some x" for j x
  proof -
    have old: "ent_idx R (heap z) (nextInst z) x"
      by (rule ent_of [OF assms(1) x])
    have "idx_ok (heap z') (nextInst z') b" if b: "affected x = Some b" for b
    proof -
      have idx: "idx_ok (heap z) (nextInst z) b"
        using old b by (simp add: ent_idx_def)
      show ?thesis
      proof (rule idx_ok_mono [OF idx])
        show "heap z' q = heap z q" if "q \<in> set (alist b)" for q
          using heap' [of q j] that x b by (simp add: active_def)
        show "nextInst z \<le> nextInst z'"
          using flds(2) p by simp
      qed
    qed
    then show ?thesis
      using old by (simp add: ent_idx_def)
  qed
  have "idx_ok (heap z') (nextInst z') a" "heap z' p = inst"
    using mono [OF assms(2)] assms(3) z' by (auto simp: ent_idx_def putEnt_def)
  then have "idx_ok (heap z') (nextInst z') (a\<lparr>alist := alist a @ [p], byKey := (byKey a)(instKey inst \<mapsto> p)\<rparr>)"
    using assms(4) fresh [of p i] assms(2,3) flds(2) p
    by (auto simp: idx_ok_def active_def)
  then have "ent_idx R (heap z') (nextInst z') e'"
    unfolding e'_def by (rule ent_idx_affected [OF mono [OF assms(2)] assms(3)]) simp
  moreover have "active z' j \<inter> active z' k = {}" if "j \<noteq> k" for j k
  proof -
    have "active z j \<inter> active z k = {}"
      using assms(1) that by (simp add: zone_ok_def zone_idx_def)
    then show ?thesis
      using fresh that by (auto simp: act)
  qed
  moreover have "synced (heap z') x" if x: "ents z j = Some x" for j x
  proof -
    have "recomputeMods (heap z') b = recomputeMods (heap z) b" if "affected x = Some b" for b
      using heap' [of _ j] that x by (intro recomputeMods_cong) (auto simp: active_def same_dose_def)
    then show ?thesis
      using assms(1) x by (simp add: zone_ok_def synced_def)
  qed
  ultimately show "zone_but R i z'"
    using mono by (auto simp: zone_but_def zone_idx_def flds split: if_splits)
qed

lemma locate_but:
  assumes "zone_ok R z" and "ents z i = Some e" and "affected e = Some a"
    and "locate i inst z = (z', p, fresh)"
  shows "zone_but R i z'" and "p \<in> active z' i"
proof -
  have "zone_but R i z' \<and> p \<in> active z' i"
  proof (cases "byKey a (instKey inst)")
    case None
    then have "install i inst z = (z', p)"
      using assms(2-4) by (auto simp: locate_def split: prod.splits)
    then show ?thesis
      using install_but [OF assms(1-3) None] by blast
  next
    case (Some q)
    then have "q \<in> set (alist a)"
      using idx_of [OF assms(1-3)] unfolding idx_ok_def by blast
    then show ?thesis
      using assms Some zone_ok_but [OF assms(1)] by (auto simp: locate_def active_def)
  qed
  then show "zone_but R i z'" and "p \<in> active z' i"
    by auto
qed


lemma active_setInst [simp]: "active (setInst p f z) = active z"
  by (simp add: setInst_def active_def fun_eq_iff)

lemma reattachAffect_ok:
  assumes "zone_ok R z" and "ents z i = Some e" and "affected e = Some a"
  shows "zone_ok R (fst (reattachAffect R' i def opts dur mag z))"
proof -
  obtain z1 p fr where loc: "locate i (blank def (osource opts)) z = (z1, p, fr)"
    by (metis prod_cases3)
  show ?thesis
    using locate_but [OF assms loc] loc
    by (auto simp: reattachAffect_def Let_def intro!: settle_ok setInst_but)
qed

lemma liveApply_ok:
  assumes "zone_ok R z" and "hooks_ok R fire" and "ents z i = Some e" and "affected e = Some a"
  shows "zone_ok R (fst (liveApply fire R' i def opts dur mag z))"
proof -
  define inst where "inst = \<lparr>adef = def, asource = osource opts, remaining = dur, magnitude = mag, stacks = 1,
                     rung = (if rungs def \<noteq> [] then 1 else 0), sinceTick = 0, fromEquip = ofromEquip opts\<rparr>"
  obtain z1 p fr where loc: "locate i inst z = (z1, p, fr)"
    by (metis prod_cases3)
  note z1 = locate_but [OF assms(1,3,4) loc]
  define z2 where "z2 = (if fr then z1 else setInst p (restack def dur mag) z1)"
  have z2: "zone_but R i z2" "p \<in> active z2 i"
    using z1 by (auto simp: z2_def restack_def intro!: setInst_but split: affectStacking.splits)
  define z3 where "z3 = (if indefinite def \<and> oduration opts \<le> 0
                    then setInst p (\<lambda>inst. inst\<lparr>remaining := durationIndefinite\<rparr>) z2 else z2)"
  have "zone_but R i z3"
    using z2 by (auto simp: z3_def intro!: setInst_but)
  then have z4: "zone_ok R (settle R' i z3)"
    by (rule settle_ok)
  define z5 where "z5 = (case osource opts of
                      Some s \<Rightarrow> if concentration def then concentrationApply fire s i p (settle R' i z3) else settle R' i z3
                    | None \<Rightarrow> settle R' i z3)"
  have z5: "zone_ok R z5"
    using z4 assms(2) by (simp add: z5_def concentrationApply_ok split: option.splits)
  define z6 where "z6 = (case ents z5 i of
                      Some e \<Rightarrow> if map_of (conc z5) i \<noteq> None \<and> concentrationBroken (heap z5) e
                                then breakConcentration fire i z5 else z5
                    | None \<Rightarrow> z5)"
  have z6: "zone_ok R z6"
    using z5 assms(2) by (simp add: z6_def breakConcentration_ok split: option.splits)
  have "fst (liveApply fire R' i def opts dur mag z) = (if suppressApply opts then z6 else fire (OnApply p) i z6)"
    unfolding z6_def z5_def z3_def z2_def liveApply_def Let_def loc [unfolded inst_def] prod.case fst_conv
    by (rule refl)
  then show ?thesis
    using z6 assms(2) by (simp add: hooks_ok_def)
qed

lemma applyAffect_ok:
  assumes "zone_ok R z" and "hooks_ok R fire"
  shows "zone_ok R (fst (applyAffect fire R' i ref opts z))"
proof (cases "\<exists>e0 def. ents z i = Some e0 \<and> living e0 \<noteq> None \<and> map_of (fdefs R') ref = Some def")
  case True
  then obtain e0 def where e0: "ents z i = Some e0" "living e0 \<noteq> None" and d: "map_of (fdefs R') ref = Some def"
    by blast
  have sync: "synced (heap z) e0"
    using assms(1) e0(1) by (simp add: zone_ok_def)
  note comp = affectedComponent_ok [OF ent_of [OF assms(1) e0(1)] sync e0(2)]
  obtain a where a: "affected (affectedComponent e0) = Some a"
      "set (alist a) = (case affected e0 of None \<Rightarrow> {} | Some a \<Rightarrow> set (alist a))"
    using comp(3) by blast
  define z0 where "z0 = putEnt i (affectedComponent e0) z"
  have z0: "zone_ok R z0" "ents z0 i = Some (affectedComponent e0)"
    using zone_ok_but [OF assms(1)] comp(1,2) a e0(1)
    by (auto simp: z0_def active_def intro!: putEnt_ok) (simp add: putEnt_def)
  show ?thesis
    using reattachAffect_ok [OF z0 a(1)] liveApply_ok [OF z0(1) assms(2) z0(2) a(1)] z0(1) assms(2) e0 d
    by (auto simp: applyAffect_def Let_def z0_def [symmetric] hooks_ok_def split: option.splits)
next
  case False
  then show ?thesis
    using assms(1) by (auto simp: applyAffect_def split: option.splits)
qed

lemma foldl_delete:
  "foldl (\<lambda>m p. m(key p := None)) m ps k = (if k \<in> key ` set ps then None else m k)"
  by (induction ps arbitrary: m) auto

lemma stripHostileAffects_ok:
  assumes "zone_ok R z"
  shows "zone_ok R (stripHostileAffects hostile i z)"
proof (cases "\<exists>e a. ents z i = Some e \<and> affected e = Some a")
  case True
  then obtain e a where e: "ents z i = Some e" and a: "affected e = Some a"
    by blast
  define gone where "gone = (\<lambda>p. \<not> fromEquip (heap z p) \<and> hostile (adef (heap z p)))"
  define a1 where "a1 = a\<lparr>alist := filter (\<lambda>p. \<not> gone p) (alist a),
      byKey := foldl (\<lambda>m p. m(instKey (heap z p) := None)) (byKey a) (filter gone (alist a))\<rparr>"
  have idx: "idx_ok (heap z) (nextInst z) a"
    by (rule idx_of [OF assms e a])
  have inj: "p = q" if "p \<in> set (alist a)" "q \<in> set (alist a)" "instKey (heap z p) = instKey (heap z q)" for p q
    using idx that unfolding idx_ok_def by (metis option.inject)
  have "idx_ok (heap z) (nextInst z) a1"
    unfolding idx_ok_def
  proof (intro conjI ballI allI impI)
    show "distinct (alist a1)"
      using idx by (simp add: idx_ok_def a1_def)
    fix p
    assume p: "p \<in> set (alist a1)"
    then show "p < nextInst z" "byKey a1 (instKey (heap z p)) = Some p"
      using idx inj [of p] by (auto simp: idx_ok_def a1_def foldl_delete)
  next
    fix k p
    assume "byKey a1 k = Some p"
    then have "byKey a k = Some p" "k \<notin> (\<lambda>p. instKey (heap z p)) ` set (filter gone (alist a))"
      by (auto simp: a1_def foldl_delete split: if_splits)
    moreover from this have "p \<in> set (alist a)" "instKey (heap z p) = k"
      using idx unfolding idx_ok_def by blast+
    ultimately show "p \<in> set (alist a1)" "instKey (heap z p) = k"
      by (auto simp: a1_def)
  qed
  then have "zone_ok R (putEnt i (refreshMods (heap z) (e\<lparr>affected := Some a1\<rparr>)) z)"
    by (intro relist_ok [OF assms e a]) (auto simp: a1_def)
  then show ?thesis
    using e a assms by (simp add: stripHostileAffects_def Let_def gone_def [symmetric] a1_def [symmetric])
next
  case False
  then show ?thesis
    using assms by (auto simp: stripHostileAffects_def split: option.splits)
qed


section \<open>Pools and the tick keep it\<close>

definition ent_good :: "Rules \<Rightarrow> heap \<Rightarrow> nat \<Rightarrow> nat set \<Rightarrow> AEnt \<Rightarrow> bool" where
  "ent_good R h n S e \<longleftrightarrow>
     ent_idx R h n e \<and> synced h e \<and> (case affected e of None \<Rightarrow> True | Some a \<Rightarrow> set (alist a) \<subseteq> S)"

lemma putEnt_good:
  assumes "zone_ok R z" and "ent_good R (heap z) (nextInst z) (active z i) e"
  shows "zone_ok R (putEnt i e z)"
  using assms zone_ok_but by (auto simp: ent_good_def intro!: putEnt_ok)

lemma zone_good:
  assumes "zone_ok R z" and "ents z i = Some e"
  shows "ent_good R (heap z) (nextInst z) (active z i) e"
  using assms by (auto simp: ent_good_def zone_ok_def zone_idx_def active_def split: option.splits)

lemma write_pool_good:
  assumes "ent_good R h n S e"
  shows "ent_good R h n S (updateLiving (\<lambda>l. l\<lparr>resCur := (resCur l)(name \<mapsto> v)\<rparr>) e)"
proof (cases "living (mutableLiving e)")
  case None
  then have "updateLiving (\<lambda>l. l\<lparr>resCur := (resCur l)(name \<mapsto> v)\<rparr>) e = e"
    by (simp add: updateLiving_def Let_def)
  then show ?thesis
    using assms by simp
next
  case (Some l0)
  define f where "f = (\<lambda>l. l\<lparr>resCur := (resCur l0)(name \<mapsto> v), posn := posn l0\<rparr> :: Living)"
  have eq: "updateLiving (\<lambda>l. l\<lparr>resCur := (resCur l)(name \<mapsto> v)\<rparr>) e = updateLiving f e"
    using Some by (simp add: updateLiving_def Let_def f_def)
  have "attr_reach (adefs R) (updateLiving f e)"
    using assms unfolding f_def by (auto simp: ent_good_def ent_idx_def intro: attr_reach.write_rest)
  moreover have "affected (updateLiving f e) = affected e"
    by (simp add: updateLiving_def mutableLiving_def Let_def split: option.splits)
  moreover have "updateLiving f e = e\<lparr>living := map_option f (living e)\<rparr>" if "affected e \<noteq> None"
    using assms that by (intro updateLiving_owned) (auto simp: ent_good_def ent_idx_def)
  ultimately have "ent_good R h n S (updateLiving f e)"
    using assms
    by (cases "affected e") (auto simp: ent_good_def ent_idx_def synced_def f_def)
  then show ?thesis
    by (simp add: eq)
qed

lemma affectedComponent_good:
  assumes "ent_good R h n S e" and "living e \<noteq> None"
  shows "ent_good R h n S (affectedComponent e)"
  using affectedComponent_ok [of R h n e] assms
  by (fastforce simp: ent_good_def split: option.splits)

lemma ensureTick_good: "ent_good R h n S e \<Longrightarrow> ent_good R h n S (ensureTick R' e)"
  using ensureTick_ok(3) [of R' e] by (auto simp: ent_good_def ensureTick_ok(1,2) split: option.splits)

lemma living_updateLiving: "living (updateLiving f e) = None \<longleftrightarrow> living e = None"
  by (simp add: updateLiving_def Let_def)

lemma setResourceCurrent_good:
  assumes "ent_good R h n S e"
  shows "ent_good R h n S (setResourceCurrent R' e name v)"
proof (cases "living e = None")
  case False
  have "ent_good R h n S (if needsRegen (adefs R') (rdefs R') e1 then ensureTick R' (affectedComponent e1) else e1)"
    if e1: "e1 = updateLiving (\<lambda>l. l\<lparr>resCur := (resCur l)(name \<mapsto> w)\<rparr>) e" for e1 w
  proof -
    have "ent_good R h n S e1" "living e1 \<noteq> None"
      unfolding e1 using write_pool_good [OF assms] False by (simp_all add: living_updateLiving)
    then show ?thesis
      by (simp add: ensureTick_good affectedComponent_good)
  qed
  then show ?thesis
    using False unfolding setResourceCurrent_def Let_def by (simp only: if_False refl)
qed (use assms in \<open>simp add: setResourceCurrent_def\<close>)

lemma regen1_good: "ent_good R h n S e \<Longrightarrow> ent_good R h n S (regen1 R' lua su fi e rd)"
  by (auto simp: regen1_def Let_def case_prod_beta setResourceCurrent_good)

lemma runRegen_good: "ent_good R h n S e \<Longrightarrow> ent_good R h n S (runRegen R' lua h' e)"
proof -
  have "ent_good R h n S e \<Longrightarrow> ent_good R h n S (foldl (regen1 R' lua su fi) e rds)" for su fi rds
    by (induction rds arbitrary: e) (simp_all add: regen1_good)
  then show "ent_good R h n S e \<Longrightarrow> ent_good R h n S (runRegen R' lua h' e)"
    by (simp add: runRegen_def)
qed

lemma regenEnt_ok: "zone_ok R z \<Longrightarrow> zone_ok R (regenEnt R' lua i z)"
  by (auto simp: regenEnt_def split: option.splits intro!: putEnt_good runRegen_good zone_good)

lemma setInst_timer_ok:
  assumes "zone_ok R z" and "\<And>x. same_dose (f x) x"
  shows "zone_ok R (setInst p f z)"
proof -
  have dose: "same_dose (heap (setInst p f z) q) (heap z q)" for q
    using assms(2) by (simp add: setInst_def same_dose_def)
  have key: "instKey (heap (setInst p f z) q) = instKey (heap z q)" for q
    using same_dose_eqs(1) [OF dose] .
  have rec: "recomputeMods (heap (setInst p f z)) a = recomputeMods (heap z) a" for a
    using dose by (rule recomputeMods_cong)
  have "ents (setInst p f z) = ents z" "nextInst (setInst p f z) = nextInst z"
    by (simp_all add: setInst_def)
  then show ?thesis
    using assms(1) by (simp add: zone_ok_def zone_idx_def ent_idx_def idx_ok_def synced_def key rec)
qed

text \<open>
  A hook that runs during an affect's own tick may remove the affect, but must not put another instance
  under its key: the countdown that follows does not look again.
\<close>

definition current_or_gone :: "nat \<Rightarrow> nat \<Rightarrow> Zone \<Rightarrow> bool" where
  "current_or_gone i p z \<longleftrightarrow>
     (\<forall>e a. ents z i = Some e \<longrightarrow> affected e = Some a \<longrightarrow>
        byKey a (instKey (heap z p)) = Some p \<or> byKey a (instKey (heap z p)) = None)"

definition ticks_safe :: "Rules \<Rightarrow> hooks \<Rightarrow> bool" where
  "ticks_safe R fire \<longleftrightarrow>
     (\<forall>i p z. zone_ok R z \<and> current_or_gone i p z \<longrightarrow> current_or_gone i p (fire (OnTick p) i z))"

lemma current_setInst:
  assumes "\<And>x. same_dose (f x) x"
  shows "current_or_gone i p (setInst q f z) = current_or_gone i p z"
proof -
  have "instKey (heap (setInst q f z) p) = instKey (heap z p)"
    using assms by (intro same_dose_eqs(1)) (simp add: setInst_def same_dose_def)
  then show ?thesis
    by (simp add: current_or_gone_def setInst_def)
qed

lemma tick1_ok:
  assumes "zone_ok R z" and "hooks_ok R fire" and "ticks_safe R fire"
  shows "zone_ok R (tick1 fire i z p)"
proof (cases "\<exists>e a. ents z i = Some e \<and> affected e = Some a \<and> byKey a (instKey (heap z p)) = Some p")
  case True
  then obtain e a where e: "ents z i = Some e" "affected e = Some a" "byKey a (instKey (heap z p)) = Some p"
    by blast
  define d where "d = adef (heap z p)"
  define z1 where "z1 = (if hasTick d \<and> tickInterval d > 0
                           then if sinceTick (heap z p) + 1 \<ge> tickInterval d
                                then fire (OnTick p) i (setInst p (\<lambda>x. x\<lparr>sinceTick := 0\<rparr>) z)
                                else setInst p (\<lambda>x. x\<lparr>sinceTick := sinceTick x + 1\<rparr>) z
                           else z)"
  define z2 where "z2 = (if remaining (heap z1 p) > 0
                         then setInst p (\<lambda>x. x\<lparr>remaining := remaining x - 1\<rparr>) z1 else z1)"
  have timers: "same_dose (x\<lparr>sinceTick := k\<rparr>) x" "same_dose (x\<lparr>remaining := m\<rparr>) x" for x k m
    by (simp_all add: same_dose_def)
  have "current_or_gone i p z"
    using e by (simp add: current_or_gone_def)
  then have z1: "zone_ok R z1 \<and> current_or_gone i p z1"
    using assms timers
    by (auto simp: z1_def current_setInst setInst_timer_ok hooks_ok_def ticks_safe_def)
  then have z2: "zone_ok R z2 \<and> current_or_gone i p z2"
    using timers by (simp add: z2_def current_setInst setInst_timer_ok)
  have "zone_ok R (expire fire i p z2)"
    using z2 assms(2) by (intro expire_ok) (auto simp: current_or_gone_def)
  moreover have "tick1 fire i z p =
      (if indefinite d then z1 else if remaining (heap z2 p) \<le> 0 then expire fire i p z2 else z2)"
    using e unfolding z2_def z1_def d_def by (simp add: tick1_def Let_def)
  ultimately show ?thesis
    using z1 z2 by simp
next
  case False
  then show ?thesis
    using assms(1) by (auto simp: tick1_def split: option.splits)
qed

lemma tickOnce_ok:
  assumes "zone_ok R z" and "hooks_ok R fire" and "ticks_safe R fire"
  shows "zone_ok R (tickOnce fire R' lua i z)"
proof -
  have "zone_ok R z' \<Longrightarrow> zone_ok R (foldl (tick1 fire i) z' ps)" for z' ps
    by (induction ps arbitrary: z') (simp_all add: tick1_ok assms)
  then show ?thesis
    using assms(1) by (auto simp: tickOnce_def regenEnt_ok split: option.splits)
qed

lemma ticking_good:
  "ent_good R h n S e \<Longrightarrow> ent_good R h n S (e\<lparr>affected := map_option (\<lambda>a. a\<lparr>ticking := t\<rparr>) (affected e)\<rparr>)"
  by (cases "affected e")
     (auto simp: ent_good_def ent_idx_def synced_def idx_ok_def attr_reach_affected recomputeMods_ticking)

lemma affectTick_ok:
  assumes "zone_ok R z" and "hooks_ok R fire" and "ticks_safe R fire"
  shows "zone_ok R (snd (affectTick fire R' lua frozen i z))"
proof (cases "ents z i")
  case (Some e)
  define z1 where "z1 = tickOnce fire R' lua i z"
  have z1: "zone_ok R z1"
    using tickOnce_ok [OF assms] by (simp add: z1_def)
  have stop: "zone_ok R (putEnt i (e1\<lparr>affected := Some (a1\<lparr>ticking := False\<rparr>)\<rparr>) z1)"
    if "ents z1 i = Some e1" "affected e1 = Some a1" for e1 a1
    using putEnt_good [OF z1 ticking_good [OF zone_good [OF z1 that(1)], where t = False]] that(2) by simp
  show ?thesis
  proof (cases frozen)
    case True
    then show ?thesis
      using putEnt_good [OF assms(1) ticking_good [OF zone_good [OF assms(1) Some], where t = False]] Some
      by (simp add: affectTick_def)
  next
    case False
    then show ?thesis
      using Some assms(1) regenEnt_ok [OF assms(1)] z1 stop
      by (auto simp: affectTick_def Let_def z1_def [symmetric] split: option.splits)
  qed
qed (use assms(1) in \<open>simp add: affectTick_def\<close>)


section \<open>Tags\<close>

lemma foldl_count_tag: "foldl count_tag f ts t = f t + count_list ts t"
  by (induction ts arbitrary: f) (simp_all add: count_tag_def)

lemma foldl_add_mod_tags:
  "prevents (foldl (add_mod s) a ms) = prevents a" "immunity (foldl (add_mod s) a ms) = immunity a"
  "damageMult (foldl (add_mod s) a ms) = damageMult a"
  by (induction ms arbitrary: a) (simp_all add: add_mod_def)

lemma contribute_tags:
  "prevents (contribute a x) t = prevents a t + count_list (fst (snd (active_set x))) t"
  "immunity (contribute a x) t = immunity a t + count_list (grantsImmunity (adef x)) t"
  by (simp_all add: contribute_def Let_def case_prod_beta foldl_count_tag foldl_add_mod_tags)

lemma foldl_contribute_tags:
  "prevents (foldl contribute a xs) t > 0 \<longleftrightarrow>
     prevents a t > 0 \<or> (\<exists>x \<in> set xs. t \<in> set (fst (snd (active_set x))))"
  "immunity (foldl contribute a xs) t > 0 \<longleftrightarrow>
     immunity a t > 0 \<or> (\<exists>x \<in> set xs. t \<in> set (grantsImmunity (adef x)))"
  by (induction xs arbitrary: a) (auto simp: contribute_tags count_list_0_iff)

lemma recompute_tags:
  "prevents (recomputeMods h a) t > 0 \<longleftrightarrow>
     (\<exists>p \<in> set (alist a). contributes h (alist a) p \<and> t \<in> set (fst (snd (active_set (h p)))))"
  "immunity (recomputeMods h a) t > 0 \<longleftrightarrow>
     (\<exists>p \<in> set (alist a). contributes h (alist a) p \<and> t \<in> set (grantsImmunity (adef (h p))))"
  by (auto simp: recomputeMods_def foldl_contribute_tags cleared_def)

section \<open>Histories\<close>

text \<open>A reattach comes from the saved character, which does not record sources.\<close>

inductive affect_reach :: "Rules \<Rightarrow> hooks \<Rightarrow> Zone \<Rightarrow> bool" for R fire where
  start: "(\<And>i e. ents z i = Some e \<Longrightarrow> attr_reach (adefs R) e \<and> affected e = None) \<Longrightarrow> affect_reach R fire z"
| apply_one: "affect_reach R fire z \<Longrightarrow> (reattach opts \<Longrightarrow> osource opts = None) \<Longrightarrow>
    affect_reach R fire (fst (applyAffect fire R i ref opts z))"
| remove: "affect_reach R fire z \<Longrightarrow> ents z i = Some e \<Longrightarrow> affected e = Some a \<Longrightarrow> byKey a key = Some p \<Longrightarrow>
    affect_reach R fire (expire fire i p z)"
| break_conc: "affect_reach R fire z \<Longrightarrow> affect_reach R fire (breakConcentrationInvolving fire i z)"
| strip: "affect_reach R fire z \<Longrightarrow> affect_reach R fire (stripHostileAffects hostile i z)"
| tick: "affect_reach R fire z \<Longrightarrow> affect_reach R fire (snd (affectTick fire R lua frozen i z))"
| pool: "affect_reach R fire z \<Longrightarrow> ents z i = Some e \<Longrightarrow>
    affect_reach R fire (putEnt i (setResourceCurrent R e name v) z)"
| read: "affect_reach R fire z \<Longrightarrow> ents z i = Some e \<Longrightarrow> attr (adefs R) e name = Some (e', w) \<Longrightarrow>
    affect_reach R fire (putEnt i e' z)"
| set_base: "affect_reach R fire z \<Longrightarrow> ents z i = Some e \<Longrightarrow>
    affect_reach R fire (putEnt i (setAttrBase e name b) z)"

lemma attr_affected:
  assumes "attr defs e name = Some (e', v)"
  shows "affected (e' :: AEnt) = affected e"
  using assms
  by (auto simp: attr_def Let_def mutableLiving_def split: option.splits if_splits prod.splits)

lemma read_good:
  assumes "ent_good R h n S e" and "attr (adefs R) e name = Some (e', v)"
  shows "ent_good R h n S e'"
proof -
  have reach: "attr_reach (adefs R) e"
    using assms(1) by (simp add: ent_good_def ent_idx_def)
  have reach': "attr_reach (adefs R) e'"
    using reach assms(2) by (rule attr_reach.read)
  have same: "affected e' = affected e"
    by (rule attr_affected [OF assms(2)])
  show ?thesis
  proof (cases "affected e")
    case None
    then show ?thesis
      using assms(1) reach' same by (simp add: ent_good_def ent_idx_def synced_def)
  next
    case (Some a)
    then obtain l where l: "living e = Some l" "\<not> aliased e" "srcIx a < length (modSrcs l)"
      using assms(1) by (auto simp: ent_good_def ent_idx_def)
    then obtain c where "living e' = Some (l\<lparr>attrs := c\<rparr>)" "\<not> aliased e'"
      using attr_correct [OF reach_ok [OF reach], of l name] assms(2) by (auto split: option.splits)
    then show ?thesis
      using assms(1) reach' same Some l by (auto simp: ent_good_def ent_idx_def synced_def)
  qed
qed

lemma setAttrBase_good:
  assumes "ent_good R h n S e"
  shows "ent_good R h n S (setAttrBase e name b)"
proof -
  have reach: "attr_reach (adefs R) (setAttrBase e name b)"
    using assms by (auto simp: ent_good_def ent_idx_def intro: attr_reach.set_base)
  have same: "affected (setAttrBase e name b) = affected e"
    by (simp add: setAttrBase_def markAttrsDirty_def updateLiving_def mutableLiving_def Let_def
             split: option.splits)
  have owned: "setAttrBase e name b =
     e\<lparr>living := map_option (\<lambda>l. l\<lparr>attrBase := (attrBase l)(name \<mapsto> b), attrs := (attrs l)\<lparr>dirty := True\<rparr>\<rparr>) (living e)\<rparr>"
    if "\<not> aliased e"
    using that by (simp add: setAttrBase_def markAttrsDirty_def updateLiving_owned option.map_comp comp_def)
  show ?thesis
    using assms reach same owned
    by (cases "affected e") (auto simp: ent_good_def ent_idx_def synced_def)
qed

lemma affect_reach_ok:
  assumes "affect_reach R fire z" and "hooks_ok R fire" and "ticks_safe R fire"
  shows "zone_ok R z"
  using assms(1)
proof (induction rule: affect_reach.induct)
  case (start z)
  then have "active z i = {}" for i
    by (auto simp: active_def split: option.splits)
  then show ?case
    using start by (auto simp: zone_ok_def zone_idx_def ent_idx_def synced_def)
next
  case (apply_one z opts i ref)
  then show ?case
    using applyAffect_ok assms(2) by blast
next
  case (remove z i e a key p)
  have "instKey (heap z p) = key"
    using idx_of [OF remove(5,2,3)] remove(4) unfolding idx_ok_def by blast
  then show ?case
    using remove by (intro expire_ok [OF _ assms(2)]) auto
next
  case (break_conc z i)
  then show ?case
    using breakConcentrationInvolving_ok assms(2) by blast
next
  case (tick z lua frozen i)
  then show ?case
    using affectTick_ok assms(2,3) by blast
next
  case (read z i e name e' w)
  then show ?case
    by (intro putEnt_good read_good [OF zone_good]) auto
qed (auto intro!: stripHostileAffects_ok putEnt_good setResourceCurrent_good setAttrBase_good zone_good)

end
