(* ===== verification/Affect_Props.thy ===== *)
theory Affect_Props
  imports Affect_Invariant
begin

text \<open>
  What the affect runtime guarantees: effects are those of the active affects, damage multipliers
  never amplify without a declared vulnerability, timed affects end on time, a source concentrates on
  one affect at a time; and what a tick that kills its own bearer still does.
\<close>

section \<open>Consistency\<close>


text \<open>A stun on a fresh entity, with content that has no hooks.\<close>

definition no_hooks :: hooks where
  "no_hooks = (\<lambda>_ _ z. z)"

definition stun :: affectDef where
  "stun = \<lparr>aref = ''stun'', category = ''control'', stacking = stackRefresh, maxStacks = 1, scopeTarget = False,
           duration = 2, indefinite = False, modifiers = [], rungs = [], aprevents = [''act''],
           preventsSource = [], tags = [], grantsImmunity = [], suspendsDeath = False, concentration = False,
           damageTakenMult_of = [(''fire'', Fin (1 / 2))], tickInterval = 0, hasTick = False\<rparr>"

definition demo_rules :: Rules where
  "demo_rules = \<lparr>adefs = demo_stats, rdefs = [], fdefs = [(''stun'', stun)]\<rparr>"

definition demo_start :: Zone where
  "demo_start = \<lparr>ents = [1 \<mapsto> \<lparr>living = Some demo_body, aliased = False, affected = None\<rparr>],
                 heap = (\<lambda>_. blank stun None), nextInst = 0, conc = []\<rparr>"

definition cast_opts :: attachOpts where
  "cast_opts = \<lparr>osource = Some 7, oduration = 0, omagnitude = Fin 0, ostacks = 0, orung = 0, reattach = False,
                ofromEquip = False, suppressApply = False\<rparr>"

definition demo_zone :: Zone where
  "demo_zone = fst (applyAffect no_hooks demo_rules 1 ''stun'' cast_opts demo_start)"

lemma no_hooks_ok: "hooks_ok R no_hooks" "ticks_safe R no_hooks"
  by (simp_all add: hooks_ok_def ticks_safe_def no_hooks_def)

lemma demo_start_reach: "affect_reach demo_rules fire demo_start"
  by (rule affect_reach.start)
     (auto simp: demo_start_def demo_rules_def demo_body_def split: if_splits intro: attr_reach.unread)

lemma demo_zone_reach: "affect_reach demo_rules no_hooks demo_zone"
  unfolding demo_zone_def by (rule affect_reach.apply_one [OF demo_start_reach]) (simp add: cast_opts_def)

lemmas apply_eval =
  applyAffect_def affectedComponent_def immuneToAffect_def liveApply_def locate_def install_def settle_def
  refreshMods_def putAffected_def markAttrsDirty_def updateLiving_def mutableLiving_def addModSource_def
  newAffected_def ensureTick_def needsRegen_def putEnt_def instKey_def keyFor_def Let_def

lemma demo_zone_ent:
  "\<exists>e a l. ents demo_zone 1 = Some e \<and> affected e = Some a \<and> living e = Some l \<and> alist a = [0] \<and>
           heap demo_zone 0 = \<lparr>adef = stun, asource = Some 7, remaining = 2, magnitude = Fin 1, stacks = 1,
                               rung = 0, sinceTick = 0, fromEquip = False\<rparr>"
  by (simp add: demo_zone_def apply_eval demo_start_def demo_rules_def cast_opts_def no_hooks_def
                stun_def demo_body_def)




section \<open>Damage multipliers\<close>

lemma fround_unit:
  assumes "0 \<le> q" and "q \<le> 1"
  shows "\<exists>r. fround q = Fin r \<and> 0 \<le> r \<and> r \<le> 1"
proof (cases "q = 0 \<or> q = 1")
  case False
  then have q: "0 < q" "q < 1"
    using assms by auto
  define e where "e = max (-1074) (ilog2 \<bar>q\<bar> - 52)"
  define k where "k = nat (- e)"
  have "e < 0"
    using q bitlen_nonneg [of "\<lceil>1 / q\<rceil> - 1"] by (simp add: e_def ilog2_def del: bitlen_nonneg)
  then have pw: "pow2 e = 1 / 2 ^ k"
    by (simp add: pow2_def k_def)
  define s where "s = q * 2 ^ k"
  have s: "\<bar>q\<bar> / pow2 e = s" "0 \<le> s" "s < of_int (2 ^ k)"
    using q by (simp_all add: s_def pw)
  then have "\<lfloor>s\<rfloor> < 2 ^ k" "0 \<le> \<lfloor>s\<rfloor>"
    by (simp_all add: floor_less_iff)
  then have n: "0 \<le> rne s" "rne s \<le> 2 ^ k"
    by (auto simp: rne_def Let_def)
  define r where "r = of_int (rne s) * pow2 e"
  have "of_int (rne s) \<le> (of_int (2 ^ k) :: rat)"
    using n(2) by (rule of_int_le_iff [THEN iffD2])
  then have r: "0 \<le> r" "r \<le> 1"
    using n(1) by (simp_all add: r_def pw divide_le_eq)
  have "fround q = (if 2 ^ 1024 \<le> r then Infty (q < 0) else Fin (if q < 0 then - r else r))"
    unfolding fround_def Let_def e_def [symmetric] s(1) r_def [symmetric] using q by simp
  moreover have "\<not> (2 ^ 1024 :: rat) \<le> r"
    using r(2) by simp
  ultimately show ?thesis
    using r q by auto
qed auto

definition unit_flt :: "flt \<Rightarrow> bool" where
  "unit_flt x \<longleftrightarrow> (\<exists>q. x = Fin q \<and> 0 \<le> q \<and> q \<le> 1)"

lemma unit_mul: "unit_flt x \<Longrightarrow> unit_flt y \<Longrightarrow> unit_flt (fmul x y)"
  using fround_unit by (auto simp: unit_flt_def mult_le_one)

lemma unit_factor: "\<not> fless (Fin 1) m \<Longrightarrow> unit_flt (normDamageMultFactor m)"
  by (cases m) (auto simp: normDamageMultFactor_def damageTakenMultCeiling_def unit_flt_def)

definition unit_at :: "string \<Rightarrow> (string \<rightharpoonup> flt) \<Rightarrow> bool" where
  "unit_at ty dm \<longleftrightarrow> (case dm ty of None \<Rightarrow> True | Some m \<Rightarrow> unit_flt m)"

lemma mult_damage_unit:
  assumes "unit_at ty dm" and "\<And>m. (ty, m) \<in> set ds \<Longrightarrow> \<not> fless (Fin 1) m"
  shows "unit_at ty (foldl mult_damage dm ds)"
  using assms
proof (induction ds arbitrary: dm)
  case (Cons tm ds)
  obtain t m where tm: "tm = (t, m)"
    by (cases tm)
  have "unit_flt (Fin 1)"
    by (simp add: unit_flt_def)
  then have "unit_at ty (mult_damage dm tm)"
    using Cons.prems unit_mul unit_factor
    by (auto simp: tm unit_at_def mult_damage_def split: option.splits)
  then show ?case
    using Cons.IH Cons.prems(2) by simp
qed simp

lemma contribute_damage:
  "damageMult (contribute a x) = foldl mult_damage (damageMult a) (damageTakenMult_of (adef x))"
  by (simp add: contribute_def Let_def case_prod_beta foldl_add_mod_tags)

lemma foldl_contribute_unit:
  assumes "unit_at ty (damageMult a)"
    and "\<And>x m. x \<in> set xs \<Longrightarrow> (ty, m) \<in> set (damageTakenMult_of (adef x)) \<Longrightarrow> \<not> fless (Fin 1) m"
  shows "unit_at ty (damageMult (foldl contribute a xs))"
  using assms
proof (induction xs arbitrary: a)
  case (Cons x xs)
  have "unit_at ty (damageMult (contribute a x))"
    unfolding contribute_damage by (rule mult_damage_unit) (use Cons.prems in auto)
  then show ?case
    using Cons.IH [of "contribute a x"] Cons.prems(2) by (metis foldl_Cons list.set_intros(2))
qed simp

text \<open>
  Content cannot make a protective affect amplify damage: over any history, the multiplier an
  entity's affects apply to damage is a finite number of \<open>[0, 1000]\<close>, whatever was declared (NaN, an
  infinity, a negative number); and it is at most 1 for a damage type to which no active affect that
  contributes declares a factor above 1, rounding of the products included.
\<close>
lemma protection_never_amplifies:
  assumes "affect_reach R fire z" and "hooks_ok R fire" and "ticks_safe R fire"
    and "ents z i = Some e" and "affected e = Some a"
  shows "\<exists>q. damageTakenMult e ty = Fin q \<and> 0 \<le> q \<and> q \<le> 1000 \<and>
    ((\<forall>p \<in> set (alist a). contributes (heap z) (alist a) p \<longrightarrow>
        (\<forall>m. (ty, m) \<in> set (damageTakenMult_of (adef (heap z p))) \<longrightarrow> \<not> fless (Fin 1) m)) \<longrightarrow> q \<le> 1)"
proof -
  have rec: "recomputeMods (heap z) a = a"
    using affect_reach_ok [OF assms(1-3)] assms(4,5) by (auto simp: zone_ok_def synced_def)
  have bounded: "\<exists>q. damageTakenMult e ty = Fin q \<and> 0 \<le> q \<and> q \<le> 1000"
  proof (cases "damageMult a ty")
    case (Some m)
    then show ?thesis
      using assms(5) by (cases m) (auto simp: damageTakenMult_def damageTakenMultCeiling_def)
  qed (use assms(5) in \<open>simp add: damageTakenMult_def\<close>)
  have unit: "unit_at ty (damageMult a)"
    if "\<forall>p \<in> set (alist a). contributes (heap z) (alist a) p \<longrightarrow>
        (\<forall>m. (ty, m) \<in> set (damageTakenMult_of (adef (heap z p))) \<longrightarrow> \<not> fless (Fin 1) m)"
    by (subst rec [symmetric], subst recomputeMods_def, rule foldl_contribute_unit)
       (use that in \<open>auto simp: cleared_def unit_at_def\<close>)
  have "unit_flt (damageTakenMult e ty)" if "unit_at ty (damageMult a)"
    using that assms(5)
    by (auto simp: unit_at_def unit_flt_def damageTakenMult_def damageTakenMultCeiling_def split: option.splits)
  then show ?thesis
    using bounded unit by (fastforce simp: unit_flt_def)
qed

section \<open>Timed affects\<close>

lemma no_hooks_id: "no_hooks h i z = z"
  by (simp add: no_hooks_def)

lemma expire_heap [simp]: "heap (expire no_hooks i q z) = heap z"
  by (simp add: expire_def Let_def no_hooks_id putEnt_def split: option.splits)

lemma expire_active:
  assumes "zone_ok R z"
  shows "active (expire no_hooks i q z) i = active z i - {q}"
proof (cases "\<exists>e a. ents z i = Some e \<and> affected e = Some a")
  case True
  then obtain e a where e: "ents z i = Some e" "affected e = Some a"
    by blast
  have "distinct (alist a)"
    using idx_of [OF assms e] by (simp add: idx_ok_def)
  moreover obtain b where "affected (refreshMods (heap z)
      (e\<lparr>affected := Some (a\<lparr>alist := remove1 q (alist a), byKey := (byKey a)(instKey (heap z q) := None)\<rparr>)\<rparr>)) = Some b"
      "alist b = remove1 q (alist a)"
    using refreshMods_active [where h = "heap z" and
        e = "e\<lparr>affected := Some (a\<lparr>alist := remove1 q (alist a), byKey := (byKey a)(instKey (heap z q) := None)\<rparr>)\<rparr>"]
    by auto
  ultimately show ?thesis
    using e by (simp add: expire_def Let_def no_hooks_id active_def putEnt_def split: option.splits)
qed (auto simp: expire_def active_def split: option.splits)

lemma tick1_other:
  assumes "zone_ok R z" and "q \<noteq> p"
  shows "heap (tick1 no_hooks i z q) p = heap z p" and "p \<in> active (tick1 no_hooks i z q) i \<longleftrightarrow> p \<in> active z i"
proof -
  have timers: "same_dose (x\<lparr>sinceTick := k\<rparr>) x" "same_dose (x\<lparr>remaining := m\<rparr>) x" for x k m
    by (simp_all add: same_dose_def)
  have step: "heap (setInst q f y) p = heap y p" for f y
    using assms(2) by (simp add: setInst_def)
  have gone: "p \<in> active (expire no_hooks i q y) i \<longleftrightarrow> p \<in> active y i" if "zone_ok R y" for y
    using assms(2) expire_active [OF that] by simp
  show "heap (tick1 no_hooks i z q) p = heap z p"
    by (simp add: tick1_def Let_def no_hooks_id step split: option.splits)
  show "p \<in> active (tick1 no_hooks i z q) i \<longleftrightarrow> p \<in> active z i"
    using assms(1) timers by (simp add: tick1_def Let_def no_hooks_id gone setInst_timer_ok split: option.splits)
qed

lemma tick1_self:
  assumes "zone_ok R z" and "p \<in> active z i" and "\<not> indefinite (adef (heap z p))"
    and "0 < remaining (heap z p)"
  shows "adef (heap (tick1 no_hooks i z p) p) = adef (heap z p)"
    and "remaining (heap (tick1 no_hooks i z p) p) = remaining (heap z p) - 1"
    and "p \<in> active (tick1 no_hooks i z p) i \<longleftrightarrow> 1 < remaining (heap z p)"
proof -
  obtain e a where e: "ents z i = Some e" "affected e = Some a" "p \<in> set (alist a)"
    using assms(2) by (auto simp: active_def split: option.splits)
  then have key: "byKey a (instKey (heap z p)) = Some p"
    using idx_of [OF assms(1) e(1,2)] by (simp add: idx_ok_def)
  define z1 where "z1 = (if hasTick (adef (heap z p)) \<and> tickInterval (adef (heap z p)) > 0
                         then if sinceTick (heap z p) + 1 \<ge> tickInterval (adef (heap z p))
                              then setInst p (\<lambda>x. x\<lparr>sinceTick := 0\<rparr>) z
                              else setInst p (\<lambda>x. x\<lparr>sinceTick := sinceTick x + 1\<rparr>) z
                         else z)"
  define z2 where "z2 = setInst p (\<lambda>x. x\<lparr>remaining := remaining x - 1\<rparr>) z1"
  have z1: "active z1 = active z" "remaining (heap z1 p) = remaining (heap z p)" "adef (heap z1 p) = adef (heap z p)"
    "zone_ok R z1"
    using assms(1) by (auto simp: z1_def setInst_timer_ok same_dose_def) (auto simp: setInst_def)
  have z2: "active z2 = active z" "remaining (heap z2 p) = remaining (heap z p) - 1" "adef (heap z2 p) = adef (heap z p)"
    using z1 by (auto simp: z2_def) (auto simp: setInst_def)
  have ok: "zone_ok R z2"
    unfolding z2_def by (rule setInst_timer_ok [OF z1(4)]) (simp add: same_dose_def)
  have "tick1 no_hooks i z p =
      (let y = (if remaining (heap z1 p) > 0 then setInst p (\<lambda>x. x\<lparr>remaining := remaining x - 1\<rparr>) z1 else z1)
       in if remaining (heap y p) \<le> 0 then expire no_hooks i p y else y)"
    using e key assms(3) unfolding z1_def tick1_def by (simp add: Let_def no_hooks_id)
  then have "tick1 no_hooks i z p = (if remaining (heap z2 p) \<le> 0 then expire no_hooks i p z2 else z2)"
    using z1(2) assms(4) by (simp add: z2_def)
  then show "adef (heap (tick1 no_hooks i z p) p) = adef (heap z p)"
    and "remaining (heap (tick1 no_hooks i z p) p) = remaining (heap z p) - 1"
    and "p \<in> active (tick1 no_hooks i z p) i \<longleftrightarrow> 1 < remaining (heap z p)"
    using z2 expire_active [OF ok, of i p] assms(2) by auto
qed

lemma foldl_tick1_other:
  assumes "zone_ok R z" and "p \<notin> set ps"
  shows "heap (foldl (tick1 no_hooks i) z ps) p = heap z p \<and>
         (p \<in> active (foldl (tick1 no_hooks i) z ps) i \<longleftrightarrow> p \<in> active z i) \<and> zone_ok R (foldl (tick1 no_hooks i) z ps)"
  using assms
proof (induction ps arbitrary: z)
  case (Cons q ps)
  then show ?case
    using tick1_other [OF Cons.prems(1), of q p i] tick1_ok [OF Cons.prems(1) no_hooks_ok] by auto
qed simp

lemma regenEnt_frame [simp]: "heap (regenEnt R lua i z) = heap z"
  by (simp add: regenEnt_def putEnt_def split: option.splits)

lemma pool_ids:
  "(case affected (setResourceCurrent R e name v) of None \<Rightarrow> {} | Some a \<Rightarrow> set (alist a)) =
   (case affected e of None \<Rightarrow> {} | Some a \<Rightarrow> set (alist a))"
proof -
  have "affected (updateLiving f e) = affected e" for f
    by (simp add: updateLiving_def mutableLiving_def Let_def split: option.splits)
  then show ?thesis
    by (auto simp: setResourceCurrent_def Let_def ensureTick_def affectedComponent_def newAffected_def
             split: option.splits if_splits)
qed

lemma regen_active:
  "(case affected (runRegen R lua h e) of None \<Rightarrow> {} | Some a \<Rightarrow> set (alist a)) =
   (case affected e of None \<Rightarrow> {} | Some a \<Rightarrow> set (alist a))"
proof -
  define ids where "ids = (\<lambda>e :: AEnt. case affected e of None \<Rightarrow> {} | Some a \<Rightarrow> set (alist a))"
  have "ids (regen1 R lua su fi e rd) = ids e" for su fi e rd
    using pool_ids by (simp add: ids_def regen1_def Let_def case_prod_beta)
  then have "ids (foldl (regen1 R lua su fi) e rds) = ids e" for su fi rds
    by (induction rds arbitrary: e) simp_all
  then show ?thesis
    by (simp add: runRegen_def ids_def)
qed

lemma regenEnt_active [simp]: "active (regenEnt R lua i z) i = active z i"
  using regen_active by (simp add: active_def regenEnt_def putEnt_def split: option.splits)

lemma tickOnce_timed:
  assumes "zone_ok R z" and "p \<in> active z i" and "\<not> indefinite (adef (heap z p))" and "0 < remaining (heap z p)"
  shows "adef (heap (tickOnce no_hooks R' lua i z) p) = adef (heap z p)"
    and "remaining (heap (tickOnce no_hooks R' lua i z) p) = remaining (heap z p) - 1"
    and "p \<in> active (tickOnce no_hooks R' lua i z) i \<longleftrightarrow> 1 < remaining (heap z p)"
proof -
  obtain e a where e: "ents z i = Some e" "affected e = Some a" "p \<in> set (alist a)"
    using assms(2) by (auto simp: active_def split: option.splits)
  have "distinct (alist a)"
    using idx_of [OF assms(1) e(1,2)] by (simp add: idx_ok_def)
  then obtain xs ys where split: "alist a = xs @ p # ys" "p \<notin> set xs" "p \<notin> set ys"
    using split_list [OF e(3)] by auto
  define z1 where "z1 = foldl (tick1 no_hooks i) z xs"
  have z1: "heap z1 p = heap z p" "p \<in> active z1 i" "zone_ok R z1"
    using foldl_tick1_other [OF assms(1) split(2)] assms(2) by (simp_all add: z1_def)
  note self = tick1_self [OF z1(3,2), unfolded z1(1), OF assms(3,4)]
  have rest: "tickOnce no_hooks R' lua i z = regenEnt R' lua i (foldl (tick1 no_hooks i) (tick1 no_hooks i z1 p) ys)"
    using e split by (simp add: tickOnce_def z1_def)
  show "adef (heap (tickOnce no_hooks R' lua i z) p) = adef (heap z p)"
    and "remaining (heap (tickOnce no_hooks R' lua i z) p) = remaining (heap z p) - 1"
    and "p \<in> active (tickOnce no_hooks R' lua i z) i \<longleftrightarrow> 1 < remaining (heap z p)"
    using foldl_tick1_other [OF tick1_ok [OF z1(3) no_hooks_ok] split(3), of i i p] self
    unfolding rest by simp_all
qed


lemma affectTick_tickOnce:
  assumes "zone_ok R z" and "p \<in> active z i"
  shows "heap (snd (affectTick no_hooks R' lua False i z)) = heap (tickOnce no_hooks R' lua i z)"
    and "active (snd (affectTick no_hooks R' lua False i z)) i = active (tickOnce no_hooks R' lua i z) i"
    and "active (tickOnce no_hooks R' lua i z) i \<noteq> {} \<Longrightarrow> fst (affectTick no_hooks R' lua False i z)"
proof -
  obtain e a where e: "ents z i = Some e" "affected e = Some a"
    using assms(2) by (auto simp: active_def split: option.splits)
  then obtain l where l: "living e = Some l"
    using ent_of [OF assms(1) e(1)] by (auto simp: ent_idx_def)
  define z1 where "z1 = tickOnce no_hooks R' lua i z"
  have tick: "affectTick no_hooks R' lua False i z =
      (case ents z1 i of
         None \<Rightarrow> (False, z1)
       | Some e1 \<Rightarrow>
           (case affected e1 of
              None \<Rightarrow> (False, z1)
            | Some a1 \<Rightarrow>
                if alist a1 = [] \<and> \<not> needsRegen (adefs R') (rdefs R') e1
                then (False, putEnt i (e1\<lparr>affected := Some (a1\<lparr>ticking := False\<rparr>)\<rparr>) z1)
                else (True, z1)))"
    unfolding z1_def using e l by (simp add: affectTick_def Let_def)
  show "heap (snd (affectTick no_hooks R' lua False i z)) = heap (tickOnce no_hooks R' lua i z)"
    and "active (snd (affectTick no_hooks R' lua False i z)) i = active (tickOnce no_hooks R' lua i z) i"
    and "active (tickOnce no_hooks R' lua i z) i \<noteq> {} \<Longrightarrow> fst (affectTick no_hooks R' lua False i z)"
    unfolding tick z1_def [symmetric] by (auto simp: putEnt_def active_def split: option.splits)
qed

text \<open>The zone after a number of pulses of one entity, and whether its tick stays registered.\<close>

definition pulses :: "Rules \<Rightarrow> (AEnt \<Rightarrow> int option) \<Rightarrow> nat \<Rightarrow> nat \<Rightarrow> Zone \<Rightarrow> Zone" where
  "pulses R lua i k = (\<lambda>z. snd (affectTick no_hooks R lua False i z)) ^^ k"

lemma pulses_timed:
  assumes "zone_ok R z" and "p \<in> active z i" and "\<not> indefinite (adef (heap z p))"
    and "int k < remaining (heap z p)"
  shows "zone_ok R (pulses R' lua i k z)" and "p \<in> active (pulses R' lua i k z) i"
    and "remaining (heap (pulses R' lua i k z) p) = remaining (heap z p) - int k"
    and "adef (heap (pulses R' lua i k z) p) = adef (heap z p)"
  using assms(4)
proof (induction k)
  case 0
  {
    case 1 then show ?case using assms by (simp add: pulses_def)
  next
    case 2 then show ?case using assms by (simp add: pulses_def)
  next
    case 3 then show ?case by (simp add: pulses_def)
  next
    case 4 then show ?case by (simp add: pulses_def)
  }
next
  case (Suc k)
  define y where "y = pulses R' lua i k z"
  have next_eq: "pulses R' lua i (Suc k) z = snd (affectTick no_hooks R' lua False i y)"
    by (simp add: pulses_def y_def)
  have y: "zone_ok R y" "p \<in> active y i" "remaining (heap y p) = remaining (heap z p) - int k"
    "adef (heap y p) = adef (heap z p)" if "int (Suc k) < remaining (heap z p)"
    using Suc that by (simp_all add: y_def)
  have timed: "adef (heap (tickOnce no_hooks R' lua i y) p) = adef (heap y p)"
    "remaining (heap (tickOnce no_hooks R' lua i y) p) = remaining (heap y p) - 1"
    "p \<in> active (tickOnce no_hooks R' lua i y) i" if "int (Suc k) < remaining (heap z p)"
    using tickOnce_timed [OF y(1,2) [OF that]] y(3,4) [OF that] assms(3) that by auto
  {
    case 1 then show ?case
      using affectTick_ok [OF y(1) no_hooks_ok] by (simp add: next_eq)
  next
    case 2 then show ?case
      using affectTick_tickOnce(2) [OF y(1,2)] timed(3) by (simp add: next_eq)
  next
    case 3 then show ?case
      using affectTick_tickOnce(1) [OF y(1,2)] timed(2) y(3) by (simp add: next_eq)
  next
    case 4 then show ?case
      using affectTick_tickOnce(1) [OF y(1,2)] timed(1) y(4) by (simp add: next_eq)
  }
qed

text \<open>
  C25. A timed affect lasts exactly its duration: with content that runs no hooks, an affect with \<open>r\<close>
  ticks left is still active after any \<open>k < r\<close> pulses of its bearer, with \<open>r - k\<close> left and the tick
  registration kept alive, and the \<open>r\<close>-th pulse removes it, whatever else the entity carries and however
  its pools regenerate.
\<close>
theorem timed_affects_end_on_time:
  assumes "affect_reach R no_hooks z" and "p \<in> active z i" and "\<not> indefinite (adef (heap z p))"
    and "remaining (heap z p) = int (Suc r)"
  shows "(\<forall>k \<le> r. p \<in> active (pulses R lua i k z) i \<and>
              remaining (heap (pulses R lua i k z) p) = int (Suc r) - int k) \<and>
         (\<forall>k < r. fst (affectTick no_hooks R lua False i (pulses R lua i k z))) \<and>
         p \<notin> active (pulses R lua i (Suc r) z) i"
proof -
  have ok: "zone_ok R z"
    by (rule affect_reach_ok [OF assms(1) no_hooks_ok])
  have inv: "zone_ok R (pulses R lua i k z) \<and> p \<in> active (pulses R lua i k z) i \<and>
      remaining (heap (pulses R lua i k z) p) = int (Suc r) - int k \<and>
      adef (heap (pulses R lua i k z) p) = adef (heap z p)" if "k \<le> r" for k
    using pulses_timed [OF ok assms(2,3), of k] assms(4) that by simp
  have tick: "p \<in> active (tickOnce no_hooks R lua i (pulses R lua i k z)) i \<longleftrightarrow> k < r" if "k \<le> r" for k
    using inv [OF that] tickOnce_timed(3) [of R "pulses R lua i k z" p i] assms(3) that by auto
  have step: "pulses R lua i (Suc k) z = snd (affectTick no_hooks R lua False i (pulses R lua i k z))" for k
    by (simp add: pulses_def)
  have live: "fst (affectTick no_hooks R lua False i (pulses R lua i k z))" if "k < r" for k
    using affectTick_tickOnce(3) [of R "pulses R lua i k z" p i R lua] inv [of k] tick [of k] that by auto
  have "p \<notin> active (pulses R lua i (Suc r) z) i"
    unfolding step using affectTick_tickOnce(2) [of R "pulses R lua i r z" p i R lua] inv [of r] tick [of r] by auto
  then show ?thesis
    using inv live by blast
qed

theorem timed_affects_end_on_time_witness:
  "affect_reach demo_rules no_hooks demo_zone \<and> 0 \<in> active demo_zone 1 \<and>
   \<not> indefinite (adef (heap demo_zone 0)) \<and> remaining (heap demo_zone 0) = int (Suc 1) \<and>
   0 \<in> active (pulses demo_rules (\<lambda>_. None) 1 1 demo_zone) 1 \<and>
   0 \<notin> active (pulses demo_rules (\<lambda>_. None) 1 (Suc 1) demo_zone) 1"
proof -
  have hyps: "0 \<in> active demo_zone 1" "\<not> indefinite (adef (heap demo_zone 0))"
    "remaining (heap demo_zone 0) = int (Suc 1)"
    using demo_zone_ent by (auto simp: active_def stun_def)
  from timed_affects_end_on_time [OF demo_zone_reach this, where lua = "\<lambda>_. None"] show ?thesis
    using demo_zone_reach hyps by blast
qed

end
