(* ===== verification/Concentration.thy ===== *)
theory Concentration
  imports Affect_Props
begin

text \<open>
  The concentration slot: a source holds at most one active concentration affect, wherever it sits.
\<close>

section \<open>The slot of an active instance\<close>

definition conc_at :: "Zone \<Rightarrow> nat \<Rightarrow> bool" where
  "conc_at z p \<longleftrightarrow>
     (\<forall>i s. p \<in> active z i \<longrightarrow> concentration (adef (heap z p)) \<longrightarrow> asource (heap z p) = Some s \<longrightarrow>
        map_of (conc z) s = Some (i, instKey (heap z p), p))"

lemma conc_at_cong:
  assumes "conc_at z p" and "\<And>i. p \<in> active z' i \<Longrightarrow> p \<in> active z i"
    and "adef (heap z' p) = adef (heap z p)" and "asource (heap z' p) = asource (heap z p)" and "conc z' = conc z"
  shows "conc_at z' p"
  using assms by (simp add: conc_at_def instKey_def)

lemma active_unique: "zone_ok R z \<Longrightarrow> p \<in> active z i \<Longrightarrow> p \<in> active z j \<Longrightarrow> i = j"
  unfolding zone_ok_def zone_idx_def by blast

lemma expire_active_other: "j \<noteq> i \<Longrightarrow> active (expire no_hooks i q z) j = active z j"
  by (auto simp: expire_def Let_def no_hooks_id active_def putEnt_def split: option.splits)

lemma expire_slots:
  "map_of (conc (expire no_hooks i q z)) s = map_of (conc z) s \<or>
   (\<exists>h k. map_of (conc z) s = Some (h, k, q))"
  by (auto simp: expire_def Let_def no_hooks_id putEnt_def clearConcentrationSlot_def delete_conv'
           split: option.splits if_splits)

lemma expire_conc_at:
  assumes "zone_ok R z" and "q \<in> active z i" and "p \<noteq> q \<Longrightarrow> conc_at z p"
  shows "conc_at (expire no_hooks i q z) p"
proof (cases "p = q")
  case True
  have "q \<notin> active (expire no_hooks i q z) j" for j
    using expire_active [OF assms(1), of i q] expire_active_other [of j i q z] active_unique [OF assms(1,2), of j]
    by (cases "j = i") auto
  then show ?thesis
    using True by (simp add: conc_at_def)
next
  case False
  have sub: "p \<in> active z j" if "p \<in> active (expire no_hooks i q z) j" for j
    using that expire_active [OF assms(1), of i q] expire_active_other [of j i q z] by (cases "j = i") auto
  show ?thesis
    unfolding conc_at_def
  proof (intro allI impI)
    fix j s
    assume p: "p \<in> active (expire no_hooks i q z) j" "concentration (adef (heap (expire no_hooks i q z) p))"
      "asource (heap (expire no_hooks i q z) p) = Some s"
    then have "map_of (conc z) s = Some (j, instKey (heap z p), p)"
      using assms(3) [OF False] sub by (simp add: conc_at_def)
    then show "map_of (conc (expire no_hooks i q z)) s = Some (j, instKey (heap (expire no_hooks i q z) p), p)"
      using expire_slots [of i q z s] False by auto
  qed
qed

lemma in_index:
  assumes "zone_ok R z" and "ents z i = Some e" and "affected e = Some a"
  shows "byKey a k = Some p \<longleftrightarrow> p \<in> active z i \<and> instKey (heap z p) = k"
  using idx_of [OF assms] assms(2,3) unfolding idx_ok_def active_def by (cases k) auto

text \<open>Ending the affect of a slot, when the slot may already be free.\<close>

lemma expireConcentration_conc_at:
  assumes "zone_ok R z" and "p = q \<Longrightarrow> p \<notin> active z h \<or> instKey (heap z q) \<noteq> k \<Longrightarrow> conc_at z p"
    and "p \<noteq> q \<Longrightarrow> conc_at z p"
  shows "conc_at (expireConcentration no_hooks (h, k, q) z) p"
proof (cases "q \<in> active z h \<and> instKey (heap z q) = k")
  case True
  then obtain e a where e: "ents z h = Some e" "affected e = Some a"
    by (auto simp: active_def split: option.splits)
  then have "expireConcentration no_hooks (h, k, q) z = expire no_hooks h q z"
    using in_index [OF assms(1) e] True by (simp add: expireConcentration_def)
  then show ?thesis
    using expire_conc_at [OF assms(1), of q h p] True assms(3) by simp
next
  case False
  have "expireConcentration no_hooks (h, k, q) z = z"
    using in_index [OF assms(1)] False by (auto simp: expireConcentration_def split: option.splits)
  then show ?thesis
    using assms(2,3) False by (cases "p = q") auto
qed

lemma expire_conc_gone:
  assumes "zone_ok R z" and "q \<in> active z i"
  shows "q \<notin> active (expire no_hooks i q z) j"
  using expire_active [OF assms(1), of i q] expire_active_other [of j i q z] active_unique [OF assms, of j]
  by (cases "j = i") auto

lemma expireConcentration_frame:
  assumes "zone_ok R z"
  shows "heap (expireConcentration no_hooks (h, k, q) z) = heap z"
    and "active (expireConcentration no_hooks (h, k, q) z) j \<subseteq> active z j"
    and "p \<noteq> q \<Longrightarrow> p \<in> active (expireConcentration no_hooks (h, k, q) z) j \<longleftrightarrow> p \<in> active z j"
proof -
  have sub: "p \<in> active (expire no_hooks h q z) j \<longleftrightarrow> p \<in> active z j \<and> \<not> (j = h \<and> p = q)" for p
    using expire_active [OF assms, of h q] expire_active_other [of j h q z] by (cases "j = h") auto
  show "heap (expireConcentration no_hooks (h, k, q) z) = heap z"
    by (simp add: expireConcentration_def split: option.splits)
  show "active (expireConcentration no_hooks (h, k, q) z) j \<subseteq> active z j"
    using sub by (auto simp: expireConcentration_def split: option.splits)
  show "p \<noteq> q \<Longrightarrow> p \<in> active (expireConcentration no_hooks (h, k, q) z) j \<longleftrightarrow> p \<in> active z j"
    using sub by (auto simp: expireConcentration_def split: option.splits)
qed

lemma expireConcentration_ends:
  assumes "zone_ok R z" and "conc_at z q" and "map_of (conc z) s = Some (h, k, q)"
    and "q \<in> active (expireConcentration no_hooks (h, k, q) z) j" and "concentration (adef (heap z q))"
  shows "asource (heap z q) \<noteq> Some s"
proof
  assume src: "asource (heap z q) = Some s"
  have "q \<in> active z j"
    using expireConcentration_frame(2) [OF assms(1)] assms(4) by blast
  then have here: "q \<in> active z h" "instKey (heap z q) = k"
    using assms(2,3,5) src by (auto simp: conc_at_def)
  then obtain e a where e: "ents z h = Some e" "affected e = Some a"
    by (auto simp: active_def split: option.splits)
  then have "expireConcentration no_hooks (h, k, q) z = expire no_hooks h q z"
    using in_index [OF assms(1) e] here by (simp add: expireConcentration_def)
  then show False
    using expire_conc_gone [OF assms(1) here(1)] assms(4) by simp
qed

definition conc_ok :: "Zone \<Rightarrow> bool" where
  "conc_ok z \<longleftrightarrow> (\<forall>p. conc_at z p)"

lemma breakConcentration_conc:
  assumes "zone_ok R z" and "conc_ok z"
  shows "conc_ok (breakConcentration no_hooks s z)"
proof (cases "map_of (conc z) s")
  case None
  then show ?thesis
    using assms(2) by (simp add: breakConcentration_def)
next
  case (Some slot)
  obtain h k q where slot: "slot = (h, k, q)"
    by (cases slot) auto
  define z' where "z' = z\<lparr>conc := AList.delete s (conc z)\<rparr>"
  have z': "active z' = active z" "heap z' = heap z" "map_of (conc z') = (map_of (conc z))(s := None)"
    by (auto simp: z'_def active_def delete_conv')
  have "zone_ok R z'"
    using assms(1) by (simp add: z'_def)
  moreover have "conc_at z' p" if "p = q \<Longrightarrow> p \<notin> active z h \<or> instKey (heap z q) \<noteq> k" for p
    using assms(2) that Some slot by (auto simp: conc_ok_def conc_at_def z')
  ultimately have "conc_at (expireConcentration no_hooks (h, k, q) z') p" for p
    by (intro expireConcentration_conc_at) (auto simp: z')
  then show ?thesis
    using Some slot by (simp add: breakConcentration_def conc_ok_def z'_def)
qed

lemma concentrationApply_conc:
  assumes "zone_ok R z" and "p \<in> active z i" and "\<And>p'. p' \<noteq> p \<Longrightarrow> conc_at z p'"
    and "asource (heap z p) \<noteq> Some s \<Longrightarrow> conc_at z p"
  shows "conc_ok (concentrationApply no_hooks s i p z)"
proof -
  define z1 where "z1 = (case map_of (conc z) s of
                  None \<Rightarrow> z
                | Some (h, k, q) \<Rightarrow> if q \<noteq> p then expireConcentration no_hooks (h, k, q) z else z)"
  have z1: "heap z1 = heap z" "p \<in> active z1 j \<longleftrightarrow> p \<in> active z j" "active z1 j \<subseteq> active z j" for j
    using expireConcentration_frame [OF assms(1)] by (auto simp: z1_def split: option.splits prod.splits)
  have keep: "conc_at z1 p'" if "conc_at z p'" for p'
    using that by (auto simp: z1_def intro!: expireConcentration_conc_at [OF assms(1)] split: option.splits)
  have free: "asource (heap z p') \<noteq> Some s"
    if p': "p' \<noteq> p" "p' \<in> active z1 j" "concentration (adef (heap z p'))" for p' j
  proof
    assume src: "asource (heap z p') = Some s"
    define k where "k = instKey (heap z p')"
    have slot: "map_of (conc z) s = Some (j, k, p')"
      using assms(3) [OF p'(1)] p'(2,3) z1(3) [of j] src unfolding conc_at_def k_def by blast
    then have "z1 = expireConcentration no_hooks (j, k, p') z"
      using p'(1) by (simp add: z1_def)
    then show False
      using expireConcentration_ends [OF assms(1) assms(3) [OF p'(1)] slot] p'(2,3) src by blast
  qed
  have "conc_at (z1\<lparr>conc := AList.update s (i, instKey (heap z1 p), p) (conc z1)\<rparr>) p'" for p'
  proof (cases "p' = p")
    case True
    have "j = i" if "p \<in> active z j" for j
      using active_unique [OF assms(1,2) that] by simp
    moreover have "asource (heap z p) \<noteq> Some s \<Longrightarrow> conc_at z1 p"
      using assms(4) keep by blast
    ultimately show ?thesis
      using True z1(1,2) by (auto simp: conc_at_def update_conv' active_def [of "z1\<lparr>conc := _\<rparr>"] active_def [of z1, symmetric])
  next
    case False
    then show ?thesis
      using keep [OF assms(3)] free z1(1)
      by (auto simp: conc_at_def update_conv' active_def [of "z1\<lparr>conc := _\<rparr>"] active_def [of z1, symmetric])
  qed
  then show ?thesis
    by (simp add: conc_ok_def concentrationApply_def z1_def [symmetric])
qed

section \<open>Every operation keeps the slots\<close>

lemma settle_frame [simp]:
  "heap (settle R i z) = heap z" "conc (settle R i z) = conc z" "active (settle R i z) = active z"
proof -
  show "heap (settle R i z) = heap z" "conc (settle R i z) = conc z"
    by (simp_all add: settle_def putEnt_def split: option.splits)
  have ids: "(case x of None \<Rightarrow> {} | Some a \<Rightarrow> set (alist a)) = (case y of None \<Rightarrow> {} | Some a \<Rightarrow> set (alist a))"
    if "map_option alist x = map_option alist y" for x y :: "Affected option"
    using that by (cases x; cases y) auto
  have "(case affected (ensureTick R (refreshMods h e)) of None \<Rightarrow> {} | Some a \<Rightarrow> set (alist a)) =
             (case affected e of None \<Rightarrow> {} | Some a \<Rightarrow> set (alist a))" for h e
    by (rule ids) (simp add: ensureTick_ok refreshMods_active)
  then show "active (settle R i z) = active z"
    by (auto simp: settle_def active_def putEnt_def fun_eq_iff split: option.splits)
qed

lemma setInst_conc [simp]: "conc (setInst p f z) = conc z"
  by (simp add: setInst_def)

lemma locate_conc:
  assumes "zone_ok R z" and "conc_ok z" and "ents z i = Some e" and "affected e = Some a"
    and "locate i inst z = (z', p, fresh)"
  shows "p' \<noteq> p \<Longrightarrow> conc_at z' p'" and "fresh \<Longrightarrow> heap z' p = inst" and "\<not> fresh \<Longrightarrow> conc_at z' p"
    and "\<not> fresh \<Longrightarrow> z' = z"
proof -
  have "(p' \<noteq> p \<longrightarrow> conc_at z' p') \<and> (fresh \<longrightarrow> heap z' p = inst) \<and> (\<not> fresh \<longrightarrow> conc_at z' p \<and> z' = z)"
  proof (cases "byKey a (instKey inst)")
    case None
    then have p: "p = nextInst z" "fresh"
      and z': "z' = putEnt i (e\<lparr>affected := Some (a\<lparr>alist := alist a @ [p], byKey := (byKey a)(instKey inst \<mapsto> p)\<rparr>)\<rparr>)
                    (z\<lparr>heap := (heap z)(p := inst), nextInst := p + 1\<rparr>)"
      using assms(3-5) by (auto simp: locate_def install_def Let_def)
    have "conc_at z' p'" if "p' \<noteq> p"
      by (rule conc_at_cong [where z = z])
         (use assms(2-4) that in \<open>auto simp: conc_ok_def z' putEnt_def active_def split: if_splits\<close>)
    then show ?thesis
      using p z' by (simp add: putEnt_def)
  next
    case (Some q)
    then show ?thesis
      using assms(2-5) by (auto simp: locate_def conc_ok_def)
  qed
  then show "p' \<noteq> p \<Longrightarrow> conc_at z' p'" and "fresh \<Longrightarrow> heap z' p = inst" and "\<not> fresh \<Longrightarrow> conc_at z' p"
    and "\<not> fresh \<Longrightarrow> z' = z"
    by auto
qed

lemma setInst_conc_at:
  assumes "conc_at z p'" and "\<And>x. adef (f x) = adef x" and "\<And>x. asource (f x) = asource x"
  shows "conc_at (setInst p f z) p'"
  by (rule conc_at_cong [OF assms(1)]) (use assms(2,3) in \<open>auto simp: setInst_def\<close>, simp add: active_def)

lemma reattachAffect_conc:
  assumes "zone_ok R z" and "conc_ok z" and "ents z i = Some e" and "affected e = Some a" and "osource opts = None"
  shows "conc_ok (fst (reattachAffect R' i def opts dur mag z))"
proof -
  obtain z1 p fr where loc: "locate i (blank def None) z = (z1, p, fr)"
    by (metis prod_cases3)
  note z1 = locate_conc [OF assms(1-4) loc]
  have at: "conc_at z1 q" for q
    using z1(1) [of q] z1(2,3) by (cases "q = p"; cases fr) (auto simp: conc_at_def blank_def)
  have "conc_at (settle R' i (setInst p f z1)) q"
    if "\<And>x. adef (f x) = adef x" "\<And>x. asource (f x) = asource x" for f q
    by (rule conc_at_cong [OF setInst_conc_at [OF at that, of p q]]) auto
  then show ?thesis
    by (simp add: reattachAffect_def assms(5) loc Let_def conc_ok_def)
qed

lemma liveApply_last:
  assumes "zone_ok R z" and "conc_ok z" and "ents z i = Some e" and "affected e = Some a"
  obtains z5 where "zone_ok R z5" and "conc_ok z5"
    and "fst (liveApply no_hooks R' i def opts dur mag z) =
      (case ents z5 i of
         Some e \<Rightarrow> if map_of (conc z5) i \<noteq> None \<and> concentrationBroken (heap z5) e
                   then breakConcentration no_hooks i z5 else z5
       | None \<Rightarrow> z5)"
proof -
  define inst where "inst = \<lparr>adef = def, asource = osource opts, remaining = dur, magnitude = mag, stacks = 1,
                     rung = (if rungs def \<noteq> [] then 1 else 0), sinceTick = 0, fromEquip = ofromEquip opts\<rparr>"
  obtain z1 p fr where loc: "locate i inst z = (z1, p, fr)"
    by (metis prod_cases3)
  note z1 = locate_but [OF assms(1,3,4) loc] and at1 = locate_conc [OF assms loc]
  define z2 where "z2 = (if fr then z1 else setInst p (restack def dur mag) z1)"
  define z3 where "z3 = (if indefinite def \<and> oduration opts \<le> 0
                    then setInst p (\<lambda>inst. inst\<lparr>remaining := durationIndefinite\<rparr>) z2 else z2)"
  define z4 where "z4 = settle R' i z3"
  have stack: "adef (restack def dur mag x) = adef x" "asource (restack def dur mag x) = asource x" for x
    by (simp_all add: restack_def split: affectStacking.splits)
  have z3: "zone_but R i z3" "p \<in> active z3 i"
    using z1 stack by (auto simp: z3_def z2_def intro!: setInst_but)
  have z4: "zone_ok R z4" "p \<in> active z4 i"
    using settle_ok [OF z3(1)] z3(2) by (simp_all add: z4_def)
  have same: "adef (heap z4 p) = adef (heap z1 p)" "asource (heap z4 p) = asource (heap z1 p)"
    using stack by (simp_all add: z4_def z3_def z2_def setInst_def)
  have at3: "conc_at z3 q" if "conc_at z1 q" for q
    using that stack by (auto simp: z3_def z2_def intro!: setInst_conc_at)
  have at4: "conc_at z4 q" if "conc_at z1 q" for q
    by (rule conc_at_cong [OF at3 [OF that]]) (auto simp: z4_def)
  have self: "conc_at z4 p" if "\<not> fr \<or> asource (heap z4 p) = None \<or> \<not> concentration def"
    using that at4 [OF at1(3)] at1(2) same by (cases fr) (auto simp: conc_at_def inst_def)
  define z5 where "z5 = (case osource opts of
                      Some s \<Rightarrow> if concentration def then concentrationApply no_hooks s i p z4 else z4
                    | None \<Rightarrow> z4)"
  have z5: "zone_ok R z5"
    using z4(1) no_hooks_ok by (simp add: z5_def concentrationApply_ok split: option.splits)
  have src: "asource (heap z4 p) = osource opts" if fr
    using at1(2) [OF that] same by (simp add: inst_def)
  have "conc_ok z5"
  proof (cases "osource opts \<noteq> None \<and> concentration def")
    case True
    then obtain s where s: "osource opts = Some s" by blast
    have "conc_ok (concentrationApply no_hooks s i p z4)"
      by (rule concentrationApply_conc [OF z4]) (use at4 at1(1) self src s in auto)
    then show ?thesis
      using True s by (simp add: z5_def)
  next
    case False
    then have "conc_at z4 q" for q
      using at4 [OF at1(1), of q] self src by (cases "q = p") auto
    then show ?thesis
      using False by (auto simp: z5_def conc_ok_def split: option.splits)
  qed
  moreover have "fst (liveApply no_hooks R' i def opts dur mag z) =
      (case ents z5 i of
         Some e \<Rightarrow> if map_of (conc z5) i \<noteq> None \<and> concentrationBroken (heap z5) e
                   then breakConcentration no_hooks i z5 else z5
       | None \<Rightarrow> z5)"
    unfolding z5_def z4_def z3_def z2_def liveApply_def Let_def loc [unfolded inst_def] prod.case fst_conv no_hooks_id
      if_cancel
    by (rule refl)
  ultimately show ?thesis
    using that z5 by blast
qed

lemma liveApply_conc:
  assumes "zone_ok R z" and "conc_ok z" and "ents z i = Some e" and "affected e = Some a"
  shows "conc_ok (fst (liveApply no_hooks R' i def opts dur mag z))"
proof -
  obtain z5 where z5: "zone_ok R z5" "conc_ok z5" and last: "fst (liveApply no_hooks R' i def opts dur mag z) =
      (case ents z5 i of
         Some e \<Rightarrow> if map_of (conc z5) i \<noteq> None \<and> concentrationBroken (heap z5) e
                   then breakConcentration no_hooks i z5 else z5
       | None \<Rightarrow> z5)"
    by (rule liveApply_last [OF assms])
  show ?thesis
    unfolding last using breakConcentration_conc [OF z5] z5(2) by (simp split: option.splits)
qed

lemma putEnt_conc:
  assumes "conc_ok z" and "ents z i = Some e"
    and "(case affected e' of None \<Rightarrow> {} | Some a \<Rightarrow> set (alist a)) \<subseteq> (case affected e of None \<Rightarrow> {} | Some a \<Rightarrow> set (alist a))"
  shows "conc_ok (putEnt i e' z)"
proof -
  have "conc_at (putEnt i e' z) p" for p
    by (rule conc_at_cong [where z = z])
       (use assms in \<open>auto simp: conc_ok_def putEnt_def active_def split: if_splits\<close>)
  then show ?thesis
    by (simp add: conc_ok_def)
qed

lemma component_ids:
  "(case affected (affectedComponent e) of None \<Rightarrow> {} | Some a \<Rightarrow> set (alist a)) =
   (case affected e of None \<Rightarrow> {} | Some a \<Rightarrow> set (alist a))"
  by (auto simp: affectedComponent_def Let_def newAffected_def split: option.splits)

lemma component_kept:
  assumes "zone_ok R z" and "conc_ok z" and "ents z i = Some e" and "living e \<noteq> None"
  shows "zone_ok R (putEnt i (affectedComponent e) z)" and "conc_ok (putEnt i (affectedComponent e) z)"
    and "ents (putEnt i (affectedComponent e) z) i = Some (affectedComponent e)"
  using putEnt_good [OF assms(1) affectedComponent_good [OF zone_good [OF assms(1,3)] assms(4)]]
    putEnt_conc [OF assms(2,3)] component_ids [of e]
  by (simp_all add: putEnt_def)

lemma applyAffect_conc:
  assumes "zone_ok R z" and "conc_ok z" and "reattach opts \<Longrightarrow> osource opts = None"
  shows "conc_ok (fst (applyAffect no_hooks R' i ref opts z))"
proof (cases "\<exists>e0 def. ents z i = Some e0 \<and> living e0 \<noteq> None \<and> map_of (fdefs R') ref = Some def")
  case True
  then obtain e0 def where e0: "ents z i = Some e0" "living e0 \<noteq> None" and d: "map_of (fdefs R') ref = Some def"
    by blast
  obtain a where a: "affected (affectedComponent e0) = Some a"
    using affectedComponent_ok(3) [OF ent_of [OF assms(1) e0(1)] _ e0(2)] assms(1) e0(1) by (auto simp: zone_ok_def)
  define z0 where "z0 = putEnt i (affectedComponent e0) z"
  have z0: "zone_ok R z0" "conc_ok z0" "ents z0 i = Some (affectedComponent e0)"
    using component_kept [OF assms(1,2) e0] by (simp_all add: z0_def)
  show ?thesis
    using reattachAffect_conc [OF z0 a assms(3)] liveApply_conc [OF z0 a] z0(2) e0 d
    by (auto simp: applyAffect_def Let_def z0_def [symmetric] no_hooks_id split: option.splits)
next
  case False
  then show ?thesis
    using assms(2) by (auto simp: applyAffect_def split: option.splits)
qed

lemma expire_conc:
  assumes "zone_ok R z" and "conc_ok z" and "p \<in> active z i"
  shows "conc_ok (expire no_hooks i p z)"
  using expire_conc_at [OF assms(1,3)] assms(2) by (simp add: conc_ok_def)

lemma setInst_conc_ok:
  assumes "conc_ok z" and "\<And>x. same_dose (f x) x"
  shows "conc_ok (setInst p f z)"
  using assms setInst_conc_at by (simp add: conc_ok_def same_dose_def)

lemma tick1_conc:
  assumes "zone_ok R z" and "conc_ok z"
  shows "conc_ok (tick1 no_hooks i z p)"
proof (cases "p \<in> active z i")
  case True
  have timers: "same_dose (x\<lparr>sinceTick := k\<rparr>) x" "same_dose (x\<lparr>remaining := m\<rparr>) x" for x k m
    by (simp_all add: same_dose_def)
  have "conc_ok (expire no_hooks i p y)" if "zone_ok R y" "conc_ok y" "active y = active z" for y
    using expire_conc [OF that(1,2)] that(3) True by simp
  then show ?thesis
    using assms timers
    by (simp add: tick1_def Let_def no_hooks_id setInst_conc_ok setInst_timer_ok split: option.splits)
next
  case False
  then have "tick1 no_hooks i z p = z"
    using in_index [OF assms(1)] by (auto simp: tick1_def split: option.splits)
  then show ?thesis
    using assms(2) by simp
qed

lemma regenEnt_conc: "conc_ok z \<Longrightarrow> conc_ok (regenEnt R lua i z)"
  using regen_active by (auto simp: regenEnt_def intro!: putEnt_conc split: option.splits)

lemma tickOnce_conc:
  assumes "zone_ok R z" and "conc_ok z"
  shows "conc_ok (tickOnce no_hooks R' lua i z)"
proof -
  have "zone_ok R y \<Longrightarrow> conc_ok y \<Longrightarrow> conc_ok (foldl (tick1 no_hooks i) y ps)" for y ps
    by (induction ps arbitrary: y) (simp_all add: tick1_conc tick1_ok [OF _ no_hooks_ok])
  then show ?thesis
    using assms by (auto simp: tickOnce_def regenEnt_conc split: option.splits)
qed

lemma affectTick_conc:
  assumes "zone_ok R z" and "conc_ok z"
  shows "conc_ok (snd (affectTick no_hooks R' lua frozen i z))"
  using tickOnce_conc [OF assms, of R' lua i] regenEnt_conc [OF assms(2), of R' lua i] assms(2)
  by (auto simp: affectTick_def Let_def intro!: putEnt_conc split: option.splits)

lemma strip_conc:
  assumes "conc_ok z"
  shows "conc_ok (stripHostileAffects hostile i z)"
proof -
  have "(case affected (refreshMods h (e\<lparr>affected := Some b\<rparr>)) of None \<Rightarrow> {} | Some a \<Rightarrow> set (alist a)) = set (alist b)"
    for h e b
    using refreshMods_active [of h "e\<lparr>affected := Some b\<rparr>"] by (auto split: option.splits)
  then show ?thesis
    using assms by (auto simp: stripHostileAffects_def Let_def intro!: putEnt_conc split: option.splits)
qed

lemma breakInvolving_conc:
  assumes "zone_ok R z" and "conc_ok z"
  shows "conc_ok (breakConcentrationInvolving no_hooks i z)"
proof -
  have "zone_ok R y \<Longrightarrow> conc_ok y \<Longrightarrow>
        zone_ok R (foldl (\<lambda>z src. breakConcentration no_hooks src z) y srcs) \<and>
        conc_ok (foldl (\<lambda>z src. breakConcentration no_hooks src z) y srcs)" for y srcs
    by (induction srcs arbitrary: y) (simp_all add: breakConcentration_ok [OF _ no_hooks_ok(1)] breakConcentration_conc)
  then show ?thesis
    using assms breakConcentration_conc by (simp add: breakConcentrationInvolving_def Let_def) blast
qed


section \<open>One concentration at a time\<close>

lemma affect_reach_conc:
  assumes "affect_reach R no_hooks z"
  shows "conc_ok z"
  using assms
proof (induction rule: affect_reach.induct)
  case (start z)
  then have "active z i = {}" for i
    by (auto simp: active_def split: option.splits)
  then show ?case
    by (simp add: conc_ok_def conc_at_def)
next
  case (remove z i e a key p)
  have "p \<in> active z i"
    using in_index [OF affect_reach_ok [OF remove(1) no_hooks_ok] remove(2,3)] remove(4) by blast
  then show ?case
    using expire_conc [OF affect_reach_ok [OF remove(1) no_hooks_ok] remove(5)] by blast
next
  case (pool z i e name v)
  have "(case affected (setResourceCurrent R e name v) of None \<Rightarrow> {} | Some a \<Rightarrow> set (alist a)) =
        (case affected e of None \<Rightarrow> {} | Some a \<Rightarrow> set (alist a))"
    by (rule pool_ids)
  then show ?case
    using putEnt_conc [OF pool(3,2)] by simp
next
  case (read z i e name e' w)
  then show ?case
    using putEnt_conc [OF read(4,2)] attr_affected [OF read(3)] by simp
next
  case (set_base z i e name b)
  have "affected (setAttrBase e name b) = affected e"
    by (simp add: setAttrBase_def markAttrsDirty_def updateLiving_def mutableLiving_def Let_def
             split: option.splits)
  then show ?case
    using putEnt_conc [OF set_base(3,2)] by simp
qed (use applyAffect_conc breakInvolving_conc strip_conc affectTick_conc affect_reach_ok [OF _ no_hooks_ok] in \<open>blast+\<close>)

text \<open>
  A caster concentrates on one affect at a time: with content that runs no hooks, over any history
  of casts at any targets, expiries, breaks, strips, ticks and restores at login (which record no source), two active
  concentration affects of the same source are the same affect on the same bearer, and it is the one
  the source's slot records.
\<close>
lemma one_concentration_per_source:
  assumes "affect_reach R no_hooks z"
    and "p \<in> active z i" and "concentration (adef (heap z p))" and "asource (heap z p) = Some s"
    and "q \<in> active z j" and "concentration (adef (heap z q))" and "asource (heap z q) = Some s"
  shows "p = q \<and> i = j \<and> map_of (conc z) s = Some (i, instKey (heap z p), p)"
proof -
  have "map_of (conc z) s = Some (i, instKey (heap z p), p)"
    using affect_reach_conc [OF assms(1)] assms(2-4) unfolding conc_ok_def conc_at_def by blast
  moreover have "map_of (conc z) s = Some (j, instKey (heap z q), q)"
    using affect_reach_conc [OF assms(1)] assms(5-7) unfolding conc_ok_def conc_at_def by blast
  ultimately show ?thesis
    by simp
qed

text \<open>A concentration affect that stuns its bearer, and a cast of it.\<close>

definition hold :: affectDef where
  "hold = stun\<lparr>aref := ''hold'', concentration := True\<rparr>"

definition hold_rules :: Rules where
  "hold_rules = \<lparr>adefs = demo_stats, rdefs = [], fdefs = [(''hold'', hold)]\<rparr>"

definition hold_zone :: Zone where
  "hold_zone = fst (applyAffect no_hooks hold_rules 1 ''hold'' cast_opts demo_start)"

lemma hold_start_reach: "affect_reach hold_rules no_hooks demo_start"
  by (rule affect_reach.start)
     (auto simp: demo_start_def hold_rules_def demo_body_def split: if_splits intro: attr_reach.unread)

lemma hold_zone_reach: "affect_reach hold_rules no_hooks hold_zone"
  unfolding hold_zone_def by (rule affect_reach.apply_one [OF hold_start_reach]) (simp add: cast_opts_def)

lemma hold_fields:
  "aref hold = ''hold''" "category hold = ''control''" "scopeTarget hold = False" "rungs hold = []"
  "duration hold = 2" "indefinite hold = False" "tags hold = []" "concentration hold"
  by (simp_all add: hold_def stun_def)

lemma hold_applied:
  "\<exists>p. applyAffect no_hooks hold_rules 1 ''hold'' cast_opts demo_start = (hold_zone, Some p)"
proof -
  have "map_of (fdefs hold_rules) ''hold'' = Some hold"
    "ents demo_start 1 = Some \<lparr>living = Some demo_body, aliased = False, affected = None\<rparr>"
    by (simp_all add: hold_rules_def demo_start_def)
  then have "snd (applyAffect no_hooks hold_rules 1 ''hold'' cast_opts demo_start) \<noteq> None"
    by (simp add: applyAffect_def Let_def affectedComponent_def newAffected_def immuneToAffect_def hold_fields
                  cast_opts_def liveApply_def case_prod_beta)
  then show ?thesis
    by (cases "applyAffect no_hooks hold_rules 1 ''hold'' cast_opts demo_start") (auto simp: hold_zone_def)
qed

lemma hold_zone_ent:
  "(\<exists>e a. ents hold_zone 1 = Some e \<and> affected e = Some a \<and> alist a = [0]) \<and> adef (heap hold_zone 0) = hold \<and> asource (heap hold_zone 0) = Some 7"
proof -
  have "map_of (fdefs hold_rules) ''hold'' = Some (hold)" "rdefs hold_rules = []"
    "ents demo_start 1 = Some \<lparr>living = Some demo_body, aliased = False, affected = None\<rparr>" "nextInst demo_start = 0"
    "conc demo_start = []"
    by (simp_all add: hold_rules_def demo_start_def)
  then show ?thesis
    by (simp add: hold_zone_def apply_eval cast_opts_def no_hooks_def concentrationApply_def hold_fields)
qed

section \<open>Incapacitation\<close>

lemma break_frees: "map_of (conc (breakConcentration no_hooks s z)) s = None"
proof (cases "map_of (conc z) s")
  case (Some slot)
  obtain h k q where slot: "slot = (h, k, q)"
    by (cases slot) auto
  define z' where "z' = z\<lparr>conc := AList.delete s (conc z)\<rparr>"
  have "map_of (conc z') s = None"
    by (simp add: z'_def delete_conv')
  then have "map_of (conc (expire no_hooks h q z')) s = None"
    using expire_slots [of h q z' s] by auto
  then show ?thesis
    using Some slot \<open>map_of (conc z') s = None\<close>
    by (auto simp: breakConcentration_def expireConcentration_def z'_def [symmetric] split: option.splits)
qed (simp add: breakConcentration_def)

lemma liveApply_breaks:
  assumes "zone_ok R z" and "conc_ok z" and "ents z i = Some e" and "affected e = Some a"
    and "z' = fst (liveApply no_hooks R' i def opts dur mag z)"
    and "ents z' i = Some e'" and "concentrationBroken (heap z') e'"
  shows "map_of (conc z') i = None"
proof -
  obtain z5 where "zone_ok R z5" "conc_ok z5" and last: "z' =
      (case ents z5 i of
         Some e \<Rightarrow> if map_of (conc z5) i \<noteq> None \<and> concentrationBroken (heap z5) e
                   then breakConcentration no_hooks i z5 else z5
       | None \<Rightarrow> z5)"
    unfolding assms(5) by (rule liveApply_last [OF assms(1-4)])
  then show ?thesis
    using assms(6,7) break_frees [of i z5]
    by (cases "map_of (conc z5) i") (auto split: option.splits if_splits)
qed

text \<open>
  An incapacitated caster holds no concentration: with content that runs no hooks, when an affect
  is applied to an entity that may not act afterwards (stunned, asleep, dead or downed), no affect that
  the entity was concentrating on is active anywhere, on itself or on another.
\<close>
lemma incapacitated_caster_concentrates_on_nothing:
  assumes "affect_reach R no_hooks z" and "\<not> reattach opts"
    and "applyAffect no_hooks R i ref opts z = (z', Some p)"
    and "ents z' i = Some e" and "concentrationBroken (heap z') e"
    and "q \<in> active z' j" and "concentration (adef (heap z' q))"
  shows "asource (heap z' q) \<noteq> Some i"
proof
  assume src: "asource (heap z' q) = Some i"
  have ok: "zone_ok R z" "conc_ok z"
    using affect_reach_ok [OF assms(1) no_hooks_ok] affect_reach_conc [OF assms(1)] .
  obtain e0 def where e0: "ents z i = Some e0" "living e0 \<noteq> None" "map_of (fdefs R) ref = Some def"
    using assms(3) by (auto simp: applyAffect_def split: option.splits if_splits)
  define z0 where "z0 = putEnt i (affectedComponent e0) z"
  have z0: "zone_ok R z0" "conc_ok z0" "ents z0 i = Some (affectedComponent e0)"
    using component_kept [OF ok e0(1,2)] by (simp_all add: z0_def)
  obtain a where a: "affected (affectedComponent e0) = Some a"
    using affectedComponent_ok(3) [OF ent_of [OF ok(1) e0(1)] _ e0(2)] ok(1) e0(1) by (auto simp: zone_ok_def)
  obtain dur mag where "liveApply no_hooks R i def opts dur mag z0 = (z', Some p)"
    using assms(2,3) e0 by (auto simp: applyAffect_def Let_def z0_def [symmetric] split: option.splits if_splits)
  then have "z' = fst (liveApply no_hooks R i def opts dur mag z0)"
    by simp
  then have "map_of (conc z') i = None"
    by (rule liveApply_breaks [OF z0 a _ assms(4,5)])
  moreover have "conc_ok z'"
    using applyAffect_conc [OF ok, of opts R i ref] assms(2,3) by simp
  ultimately show False
    using assms(6,7) src unfolding conc_ok_def conc_at_def by fastforce
qed

section \<open>A tick that kills its bearer\<close>

lemma strip_removes:
  assumes "zone_ok R z" and "ents z i = Some e" and "affected e = Some a" and "p \<in> set (alist a)"
    and "hostile (adef (heap z p))" and "\<not> fromEquip (heap z p)"
  shows "\<exists>e1 a1. ents (stripHostileAffects hostile i z) i = Some e1 \<and> affected e1 = Some a1 \<and> p \<notin> set (alist a1)"
    and "heap (stripHostileAffects hostile i z) = heap z"
proof -
  define gone where "gone = (\<lambda>q. \<not> fromEquip (heap z q) \<and> hostile (adef (heap z q)))"
  define b where "b = a\<lparr>alist := filter (\<lambda>q. \<not> gone q) (alist a),
      byKey := foldl (\<lambda>m q. m(instKey (heap z q) := None)) (byKey a) (filter gone (alist a))\<rparr>"
  have "gone p" "list_ex gone (alist a)"
    using assms(4-6) by (auto simp: gone_def list_ex_iff)
  then have eq: "stripHostileAffects hostile i z = putEnt i (refreshMods (heap z) (e\<lparr>affected := Some b\<rparr>)) z"
    using assms(2,3) by (simp add: stripHostileAffects_def Let_def gone_def [symmetric] b_def [symmetric])
  have "p \<notin> set (alist b)"
    using \<open>gone p\<close> by (simp add: b_def)
  then show "\<exists>e1 a1. ents (stripHostileAffects hostile i z) i = Some e1 \<and> affected e1 = Some a1 \<and> p \<notin> set (alist a1)"
    using refreshMods_active [of "heap z" "e\<lparr>affected := Some b\<rparr>"] by (auto simp: eq putEnt_def)
  show "heap (stripHostileAffects hostile i z) = heap z"
    by (simp add: eq putEnt_def)
qed

text \<open>
  The death strip is undone by the tick that caused the death: when the last tick of a timed affect
  kills its bearer, and respawning strips the affect without its expiry hook, the countdown that follows
  does not look again and still runs the expiry of the removed affect, hook included, on the respawned
  bearer. The guard at the head of the loop only protects the affects that come later in the snapshot.
\<close>
lemma killing_tick_still_expires:
  assumes "zone_ok R z" and "ents z i = Some e" and "affected e = Some a" and "p \<in> set (alist a)"
    and "hasTick (adef (heap z p))" and "0 < tickInterval (adef (heap z p))"
    and "tickInterval (adef (heap z p)) \<le> sinceTick (heap z p) + 1"
    and "\<not> indefinite (adef (heap z p))" and "remaining (heap z p) \<le> 1"
    and "hostile (adef (heap z p))" and "\<not> fromEquip (heap z p)"
    and "fire (OnTick p) i = stripHostileAffects hostile i"
  shows "\<exists>y. p \<notin> active y i \<and> tick1 fire i z p = fire (OnExpire p) i y"
proof -
  define z0 where "z0 = setInst p (\<lambda>x. x\<lparr>sinceTick := 0\<rparr>) z"
  define z1 where "z1 = stripHostileAffects hostile i z0"
  define z2 where "z2 = (if remaining (heap z1 p) > 0
                         then setInst p (\<lambda>x. x\<lparr>remaining := remaining x - 1\<rparr>) z1 else z1)"
  have z0: "zone_ok R z0" "ents z0 i = Some e" "adef (heap z0 p) = adef (heap z p)"
      "fromEquip (heap z0 p) = fromEquip (heap z p)" "remaining (heap z0 p) = remaining (heap z p)"
    using assms(1,2) unfolding z0_def
    by (auto intro!: setInst_timer_ok simp: same_dose_def) (auto simp: setInst_def)
  note strip = strip_removes [where hostile = hostile, OF z0(1,2) assms(3,4), unfolded z0(3,4), OF assms(10,11), folded z1_def]
  obtain e1 a1 where e1: "ents z1 i = Some e1" "affected e1 = Some a1" "p \<notin> set (alist a1)"
    using strip(1) by blast
  have key: "byKey a (instKey (heap z p)) = Some p"
    using in_index [OF assms(1-3)] assms(2-4) by (simp add: active_def)
  have z2: "ents z2 i = Some e1" "remaining (heap z2 p) \<le> 0"
    using e1(1) strip(2) z0(5) assms(9) by (auto simp: z2_def) (auto simp: setInst_def)
  have "tick1 fire i z p = (if remaining (heap z2 p) \<le> 0 then expire fire i p z2 else z2)"
    using assms(2,3,5-8,12) key unfolding z2_def z1_def z0_def tick1_def by (simp add: Let_def)
  then have "tick1 fire i z p = expire fire i p z2"
    using z2(2) by simp
  moreover have "\<exists>y. p \<notin> active y i \<and> expire fire i p z2 = fire (OnExpire p) i y"
  proof (intro exI conjI)
    define b where "b = a1\<lparr>alist := remove1 p (alist a1), byKey := (byKey a1)(instKey (heap z2 p) := None)\<rparr>"
    define y where "y = putEnt i (refreshMods (heap z2) (e1\<lparr>affected := Some b\<rparr>))
      (if concentration (adef (heap z2 p))
       then (case asource (heap z2 p) of None \<Rightarrow> z2 | Some s \<Rightarrow> clearConcentrationSlot s p z2) else z2)"
    show "expire fire i p z2 = fire (OnExpire p) i y"
      using z2(1) e1(2) by (simp add: expire_def Let_def y_def b_def)
    have "p \<notin> set (alist b)"
      using e1(3) by (simp add: b_def notin_set_remove1)
    then show "p \<notin> active y i"
      using refreshMods_active [of "heap z2" "e1\<lparr>affected := Some b\<rparr>"] by (auto simp: y_def active_putEnt)
  qed
  ultimately show ?thesis
    by simp
qed

text \<open>A poison with one tick left.\<close>

definition venom :: affectDef where
  "venom = stun\<lparr>aref := ''venom'', aprevents := [], duration := 1, hasTick := True, tickInterval := 1\<rparr>"

definition venom_rules :: Rules where
  "venom_rules = \<lparr>adefs = demo_stats, rdefs = [], fdefs = [(''venom'', venom)]\<rparr>"

definition venom_zone :: Zone where
  "venom_zone = fst (applyAffect no_hooks venom_rules 1 ''venom'' cast_opts demo_start)"

lemma venom_zone_ent:
  "(\<exists>e a. ents venom_zone 1 = Some e \<and> affected e = Some a \<and> alist a = [0]) \<and> adef (heap venom_zone 0) = venom \<and>
   nextInst venom_zone = 1 \<and> sinceTick (heap venom_zone 0) = 0 \<and> remaining (heap venom_zone 0) = 1 \<and> \<not> fromEquip (heap venom_zone 0)"
proof -
  have "aref venom = ''venom''" "category venom = ''control''" "scopeTarget venom = False" "rungs venom = []"
    "duration venom = 1" "indefinite venom = False" "tags venom = []" "concentration venom = False"
    by (simp_all add: venom_def stun_def)
  moreover have "map_of (fdefs venom_rules) ''venom'' = Some venom" "rdefs venom_rules = []"
    "ents demo_start 1 = Some \<lparr>living = Some demo_body, aliased = False, affected = None\<rparr>" "nextInst demo_start = 0"
    "conc demo_start = []"
    by (simp_all add: venom_rules_def demo_start_def)
  ultimately show ?thesis
    by (simp add: venom_zone_def apply_eval cast_opts_def no_hooks_def)
qed

end
