(* ===== verification/Targeting.thy ===== *)
theory Targeting
  imports Dice
begin

text \<open>
  How a typed line is read: the split of a verb from its argument and the command table of
  \<open>internal/world/parser.go\<close>, and the target selectors of \<open>internal/world/targeting.go\<close> (\<open>sword\<close>,
  \<open>2.sword\<close>, \<open>all.coin\<close>, \<open>all\<close>). Text is ASCII: bytes beyond it have no case and are no space.
\<close>

section \<open>Words\<close>

definition isBlank :: "char \<Rightarrow> bool" where
  "isBlank c \<longleftrightarrow> c = CHR '' '' \<or> c = CHR 0x09"

definition split :: "string \<Rightarrow> string \<times> string" where
  "split line =
     (case dropWhile (\<lambda>c. \<not> isBlank c) line of
        [] \<Rightarrow> (line, [])
      | _ # rest \<Rightarrow> (takeWhile (\<lambda>c. \<not> isBlank c) line, trimSpace rest))"

definition equalFold :: "string \<Rightarrow> string \<Rightarrow> bool" where
  "equalFold s t \<longleftrightarrow> toLower s = toLower t"

lemma length_trimSpace: "length (trimSpace s) \<le> length s"
  unfolding trimSpace_def
  by (metis length_dropWhile_le length_rev order_trans)

lemma length_split: "snd (split line) \<noteq> [] \<Longrightarrow> length (snd (split line)) < length line"
proof -
  assume "snd (split line) \<noteq> []"
  then obtain c rest where d: "dropWhile (\<lambda>c. \<not> isBlank c) line = c # rest" "snd (split line) = trimSpace rest"
    by (auto simp: split_def split: list.splits)
  have "Suc (length rest) \<le> length line"
    using length_dropWhile_le [of "\<lambda>c. \<not> isBlank c" line] d(1) by simp
  then show ?thesis
    using length_trimSpace [of rest] d(2) by simp
qed

text \<open>\<open>strings.Fields\<close>.\<close>

function Fields :: "string \<Rightarrow> string list" where
  "Fields s =
     (case dropWhile isSpace s of
        [] \<Rightarrow> []
      | c # cs \<Rightarrow> takeWhile (\<lambda>c. \<not> isSpace c) (c # cs) # Fields (dropWhile (\<lambda>c. \<not> isSpace c) (c # cs)))"
  by pat_completeness auto
termination
proof (relation "measure length")
  fix s c cs
  assume d: "dropWhile isSpace s = c # cs"
  then have "\<not> isSpace c"
    using hd_dropWhile [of isSpace s] by simp
  then have "length (dropWhile (\<lambda>c. \<not> isSpace c) (c # cs)) \<le> length cs"
    by (simp add: length_dropWhile_le)
  also have "\<dots> < length s"
    using d length_dropWhile_le [of isSpace s] by simp
  finally show "(dropWhile (\<lambda>c. \<not> isSpace c) (c # cs), s) \<in> measure length"
    by simp
qed simp

declare Fields.simps [simp del]

section \<open>Selectors\<close>

record TargetSpec =
  sel_all :: bool
  sel_bare :: bool
  sel_index :: int
  sel_keywords :: "string list"

definition no_spec :: TargetSpec where
  "no_spec = \<lparr>sel_all = False, sel_bare = False, sel_index = 0, sel_keywords = []\<rparr>"

definition spec_empty :: "TargetSpec \<Rightarrow> bool" where
  "spec_empty ts \<longleftrightarrow> \<not> sel_bare ts \<and> sel_keywords ts = []"

definition atoiBounded :: "string \<Rightarrow> int option" where
  "atoiBounded s = (if s = [] \<or> length s > 6 then None else digits 0 s)"

function words :: "string \<Rightarrow> string list" where
  "words rest =
     (if rest = [] then []
      else let (w, r) = split rest
           in (if w \<noteq> [] then [toLower w] else []) @ words r)"
  by pat_completeness auto
termination
proof (relation "measure length")
  fix rest w and x :: "string \<times> string" and r
  assume "rest \<noteq> ([] :: string)" "x = split rest" "(w, r) = x"
  then show "(r, rest) \<in> measure length"
    using length_split [of rest] by (cases "r = []") (auto dest: sym)
qed simp

declare words.simps [simp del]

text \<open>The selector part of the first word: what it sets and the keyword that is left.\<close>

definition selector :: "string \<Rightarrow> TargetSpec \<times> string" where
  "selector first =
     (case cutAt ''.'' first of
        None \<Rightarrow> (no_spec, first)
      | Some (sel, kw) \<Rightarrow>
          if equalFold sel ''all'' then (no_spec\<lparr>sel_all := True\<rparr>, kw)
          else (case atoiBounded sel of
                  Some n \<Rightarrow> (no_spec\<lparr>sel_index := (if n = 0 then -1 else n)\<rparr>, kw)
                | None \<Rightarrow> (no_spec, first)))"

definition parseTargetSpec :: "string \<Rightarrow> TargetSpec" where
  "parseTargetSpec arg =
     (let a = trimSpace arg in
      if a = [] then no_spec
      else
        let (first, rest) = split a in
        if cutAt ''.'' first = None \<and> equalFold first ''all'' \<and> rest = []
        then no_spec\<lparr>sel_all := True, sel_bare := True\<rparr>
        else
          let (ts, kw) = selector first
          in ts\<lparr>sel_keywords := (if kw \<noteq> [] then [toLower kw] else []) @ words rest\<rparr>)"

definition word_hits :: "string list \<Rightarrow> string \<Rightarrow> bool" where
  "word_hits kws word \<longleftrightarrow>
     list_ex (\<lambda>kw. length word \<le> length kw \<and> equalFold (take (length word) kw) word) kws"

definition matchesKeywords :: "TargetSpec \<Rightarrow> string list \<Rightarrow> bool" where
  "matchesKeywords ts kws \<longleftrightarrow>
     (if sel_bare ts then True
      else if sel_keywords ts = [] then False
      else list_all (word_hits kws) (sel_keywords ts))"

definition selectMatches :: "TargetSpec \<Rightarrow> 'a list \<Rightarrow> 'a list" where
  "selectMatches ts hits =
     (if sel_all ts then hits
      else if sel_index ts > 0 then
        (if sel_index ts \<le> int (length hits) then [hits ! nat (sel_index ts - 1)] else [])
      else if sel_index ts < 0 then []
      else take 1 hits)"

section \<open>The command table\<close>

record 'r Command =
  cmd_name :: string
  cmd_aliases :: "string list"
  cmd_minRank :: int
  cmd_run :: 'r

record 'r commandTable =
  byExact :: "string \<rightharpoonup> 'r Command"
  ordered :: "'r Command list"

definition registerCommand :: "'r Command \<Rightarrow> 'r commandTable \<Rightarrow> 'r commandTable" where
  "registerCommand c t =
     \<lparr>byExact = foldl (\<lambda>m a. m(a \<mapsto> c)) ((byExact t)(cmd_name c \<mapsto> c)) (cmd_aliases c),
      ordered = ordered t @ [c]\<rparr>"

definition newCommandTable :: "'r Command list \<Rightarrow> 'r commandTable" where
  "newCommandTable cmds = foldl (\<lambda>t c. registerCommand c t) \<lparr>byExact = Map.empty, ordered = []\<rparr> cmds"

definition resolve :: "'r commandTable \<Rightarrow> string \<Rightarrow> 'r Command option" where
  "resolve t verb =
     (if verb = [] then None
      else case byExact t verb of
             Some c \<Rightarrow> Some c
           | None \<Rightarrow> find (\<lambda>c. length verb \<le> length (cmd_name c) \<and> take (length verb) (cmd_name c) = verb) (ordered t))"

text \<open>The resolution of a verb of a session of a given rank: a command above it does not exist for it.\<close>

definition resolve_for :: "'r commandTable \<Rightarrow> int \<Rightarrow> string \<Rightarrow> 'r Command option" where
  "resolve_for t rank verb =
     (case resolve t verb of
        None \<Rightarrow> None
      | Some c \<Rightarrow> if cmd_minRank c > 0 \<and> rank < cmd_minRank c then None else Some c)"

end
