(* ===== verification/Textsan.thy ===== *)
theory Textsan
  imports Utf8
begin

text \<open>
  The text sanitiser, \<open>internal/textsan/textsan.go\<close>: what is stripped from player and content text
  before it is stored, matched or displayed, and the byte and rune caps. Whether a rune is printable is
  Unicode's table, the parameter \<open>IsPrint\<close>.
\<close>

section \<open>The code\<close>

definition MaxLineBytes_textsan :: nat where "MaxLineBytes_textsan = 4096"

definition RuneStart :: "char \<Rightarrow> bool" where "RuneStart c \<longleftrightarrow> \<not> cont c"

fun back_up :: "string \<Rightarrow> nat \<Rightarrow> nat" where
  "back_up s 0 = 0"
| "back_up s (Suc n) = (if RuneStart (s ! Suc n) then Suc n else back_up s n)"

definition capBytes :: "string \<Rightarrow> nat \<Rightarrow> string" where
  "capBytes s limit = (if length s \<le> limit then s else take (back_up s limit) s)"

definition capRunes :: "string \<Rightarrow> int \<Rightarrow> string" where
  "capRunes s limit =
     (if limit \<le> 0 then []
      else if int (length (pieces s)) \<le> limit then s
      else concat (map snd (take (nat limit) (pieces s))))"

definition stripControl :: "string \<Rightarrow> string" where
  "stripControl s =
     (if \<not> list_ex (\<lambda>p. IsControl (fst p)) (pieces s) then s
      else concat (map (\<lambda>p. if IsControl (fst p) then [] else EncodeRune (fst p)) (pieces s)))"

definition IsBidiOverride :: "nat \<Rightarrow> bool" where
  "IsBidiOverride r \<longleftrightarrow> (0x202A \<le> r \<and> r \<le> 0x202E) \<or> (0x2066 \<le> r \<and> r \<le> 0x2069)"

definition NeutralizeBidi :: "string \<Rightarrow> string" where
  "NeutralizeBidi s =
     (if \<not> list_ex (\<lambda>p. IsBidiOverride (fst p)) (pieces s) then s
      else concat (map (\<lambda>p. if IsBidiOverride (fst p) then [] else EncodeRune (fst p)) (pieces s)))"

definition badOutputRune :: "nat \<Rightarrow> bool" where
  "badOutputRune r \<longleftrightarrow> IsControl r \<or> IsBidiOverride r"

definition drop_bad :: "(nat \<Rightarrow> bool) \<Rightarrow> string \<Rightarrow> string" where
  "drop_bad bad s =
     (if ValidString s \<and> \<not> list_ex (\<lambda>p. bad (fst p)) (pieces s) then s
      else concat (map (\<lambda>p. if invalid_piece p \<or> bad (fst p) then [] else snd p) (pieces s)))"

definition stripOutputControl :: "string \<Rightarrow> string" where
  "stripOutputControl = drop_bad badOutputRune"

definition stripNonGraphic :: "(nat \<Rightarrow> bool) \<Rightarrow> string \<Rightarrow> string" where
  "stripNonGraphic IsPrint = drop_bad (\<lambda>r. IsControl r \<or> \<not> IsPrint r)"

definition CleanLine :: "string \<Rightarrow> string" where
  "CleanLine s = capBytes (stripControl (capBytes s MaxLineBytes_textsan)) MaxLineBytes_textsan"

definition CleanName :: "(nat \<Rightarrow> bool) \<Rightarrow> string \<Rightarrow> int \<Rightarrow> string" where
  "CleanName IsPrint s maxRunes = capRunes (stripNonGraphic IsPrint s) maxRunes"

definition CleanMarkup :: "string \<Rightarrow> string" where
  "CleanMarkup s = capBytes (stripOutputControl (capBytes s MaxLineBytes_textsan)) MaxLineBytes_textsan"

section \<open>Cutting at a rune boundary\<close>

lemma back_up_le: "back_up s n \<le> n"
  by (induction n) auto

lemma back_up_start: "back_up s n = 0 \<or> RuneStart (s ! back_up s n)"
  by (induction n) auto

lemma length_capBytes: "length (capBytes s n) \<le> n"
  using back_up_le [of s n] by (simp add: capBytes_def)

lemma DecodeRune_cut:
  assumes "snd (DecodeRune s) \<le> n" and "0 < n"
  shows "DecodeRune (take n s) = DecodeRune s"
proof (cases s)
  case (Cons c cs)
  obtain m where n: "n = Suc m"
    using assms(2) by (cases n) auto
  show ?thesis
    using assms(1) unfolding Cons n
    by (auto simp: Let_def take_Cons' split: if_splits list.splits)
qed simp

lemma second_cont: "second_ok b x \<Longrightarrow> cont x"
  by (auto simp: second_ok_def cont_def split: if_splits)

lemma DecodeRune_tail:
  "1 < snd (DecodeRune s) \<Longrightarrow> cont (s ! 1)" "2 < snd (DecodeRune s) \<Longrightarrow> cont (s ! 2)"
  "3 < snd (DecodeRune s) \<Longrightarrow> cont (s ! 3)" "snd (DecodeRune s) \<le> 4"
  by (cases s; auto simp: Let_def second_cont numeral_2_eq_2 numeral_3_eq_3 split: if_splits list.splits)+

lemma DecodeRune_inner:
  assumes "0 < n" and "n < snd (DecodeRune s)"
  shows "\<not> RuneStart (s ! n)"
proof -
  have "n = 1 \<or> n = 2 \<or> n = 3"
    using assms DecodeRune_tail(4) [of s] by linarith
  then show ?thesis
    using assms DecodeRune_tail(1-3) [of s] by (auto simp: RuneStart_def)
qed

lemma pieces_take:
  assumes "n \<le> length s" and "n = 0 \<or> n = length s \<or> RuneStart (s ! n)"
  shows "\<exists>k. pieces (take n s) = take k (pieces s)"
  using assms
proof (induction s arbitrary: n rule: pieces.induct)
  case (1 s)
  show ?case
  proof (cases "s = [] \<or> n = 0")
    case True
    then show ?thesis
      by (auto intro: exI [of _ 0])
  next
    case False
    define k where "k = snd (DecodeRune s)"
    have size: "1 \<le> k" "k \<le> length s"
      using DecodeRune_size [of s] False by (simp_all add: k_def)
    have "k \<le> n"
    proof (rule ccontr)
      assume "\<not> k \<le> n"
      then have "\<not> RuneStart (s ! n)" "n \<noteq> length s"
        using DecodeRune_inner [of n s] False size by (auto simp: k_def)
      then show False
        using "1.prems"(2) False by blast
    qed
    then have head: "DecodeRune (take n s) = DecodeRune s"
      using False by (intro DecodeRune_cut) (auto simp: k_def)
    have "\<exists>j. pieces (take (n - k) (drop k s)) = take j (pieces (drop k s))"
      unfolding k_def
    proof (rule "1.IH")
      show "s \<noteq> []"
        using False by simp
      show "n - snd (DecodeRune s) \<le> length (drop (snd (DecodeRune s)) s)"
        using "1.prems"(1) by simp
      show "n - snd (DecodeRune s) = 0 \<or> n - snd (DecodeRune s) = length (drop (snd (DecodeRune s)) s) \<or>
            RuneStart (drop (snd (DecodeRune s)) s ! (n - snd (DecodeRune s)))"
        using "1.prems" \<open>k \<le> n\<close> size False by (auto simp: k_def)
    qed
    then obtain j where j: "pieces (take (n - k) (drop k s)) = take j (pieces (drop k s))"
      by blast
    have "pieces (take n s) = (fst (DecodeRune s), take k s) # pieces (take (n - k) (drop k s))"
      using False \<open>k \<le> n\<close> by (subst pieces.simps) (simp add: head k_def min_absorb1 drop_take)
    moreover have "pieces s = (fst (DecodeRune s), take k s) # pieces (drop k s)"
      using False by (subst pieces.simps) (simp add: k_def)
    ultimately show ?thesis
      using j by (intro exI [of _ "Suc j"]) simp
  qed
qed

lemma pieces_capBytes: "\<exists>k. pieces (capBytes s n) = take k (pieces s)"
proof (cases "length s \<le> n")
  case True
  then show ?thesis
    by (intro exI [of _ "length (pieces s)"]) (simp add: capBytes_def)
next
  case False
  then show ?thesis
    using pieces_take [of "back_up s n" s] back_up_start [of s n] back_up_le [of s n]
    by (simp add: capBytes_def)
qed

lemma capBytes_keeps: "(\<And>p. p \<in> set (pieces s) \<Longrightarrow> P p) \<Longrightarrow> p \<in> set (pieces (capBytes s n)) \<Longrightarrow> P p"
  using pieces_capBytes [of s n] by (metis in_set_takeD)

lemma capBytes_short [simp]: "length s \<le> n \<Longrightarrow> capBytes s n = s"
  by (simp add: capBytes_def)

section \<open>Stripping\<close>

lemma stripControl_clean: "p \<in> set (pieces (stripControl s)) \<Longrightarrow> \<not> IsControl (fst p)"
proof (cases "list_ex (\<lambda>p. IsControl (fst p)) (pieces s)")
  case True
  define ps where "ps = map (\<lambda>p. (fst p, EncodeRune (fst p))) (filter (\<lambda>p. \<not> IsControl (fst p)) (pieces s))"
  have "concat (map (\<lambda>p. if IsControl (fst p) then [] else EncodeRune (fst p)) xs) =
        concat (map snd (map (\<lambda>p. (fst p, EncodeRune (fst p))) (filter (\<lambda>p. \<not> IsControl (fst p)) xs)))"
    for xs :: "(nat \<times> string) list"
    by (induction xs) auto
  then have eq: "stripControl s = concat (map snd ps)"
    using True by (simp add: stripControl_def ps_def)
  have "list_all delimited ps"
    using pieces_valid encoded_delimited by (fastforce simp: ps_def list_all_iff)
  then have "pieces (stripControl s) = ps"
    unfolding eq by (rule pieces_concat)
  then show "p \<in> set (pieces (stripControl s)) \<Longrightarrow> \<not> IsControl (fst p)"
    by (auto simp: ps_def)
qed (auto simp: stripControl_def list_ex_iff)

lemma drop_bad_pieces: "p \<in> set (pieces (drop_bad bad s)) \<Longrightarrow> \<not> invalid_piece p \<and> \<not> bad (fst p)"
proof (cases "ValidString s \<and> \<not> list_ex (\<lambda>p. bad (fst p)) (pieces s)")
  case False
  define ps where "ps = filter (\<lambda>p. \<not> (invalid_piece p \<or> bad (fst p))) (pieces s)"
  have "concat (map (\<lambda>p. if invalid_piece p \<or> bad (fst p) then [] else snd p) xs) =
        concat (map snd (filter (\<lambda>p. \<not> (invalid_piece p \<or> bad (fst p))) xs))" for xs
    by (induction xs) auto
  then have eq: "drop_bad bad s = concat (map snd ps)"
    unfolding drop_bad_def ps_def if_not_P [OF False] .
  have "list_all delimited ps"
    using piece_delimited by (auto simp: ps_def list_all_iff)
  then have "pieces (drop_bad bad s) = ps"
    unfolding eq by (rule pieces_concat)
  then show "p \<in> set (pieces (drop_bad bad s)) \<Longrightarrow> \<not> invalid_piece p \<and> \<not> bad (fst p)"
    by (auto simp: ps_def)
qed (auto simp: drop_bad_def ValidString_def list_all_iff list_ex_iff)

section \<open>What is clean\<close>

lemma pieces_take_pieces:
  assumes "list_all delimited (pieces s)"
  shows "pieces (concat (map snd (take k (pieces s)))) = take k (pieces s)"
  using assms by (intro pieces_concat) (auto simp: list_all_iff dest: in_set_takeD)

text \<open>
  A sanitised line, name or markup is safe whatever bytes went in. A line has no control rune and at
  most 4096 bytes; markup is also valid UTF-8 without bidirectional overrides; a name is valid UTF-8 of
  printable runes only and within its rune cap. Cleaning a clean text again changes nothing.
\<close>
lemma clean_text_is_clean:
  "length (CleanLine s) \<le> 4096 \<and> list_all (\<lambda>p. \<not> IsControl (fst p)) (pieces (CleanLine s)) \<and>
   CleanLine (CleanLine s) = CleanLine s \<and>
   length (CleanMarkup s) \<le> 4096 \<and> ValidString (CleanMarkup s) \<and>
   list_all (\<lambda>p. \<not> badOutputRune (fst p)) (pieces (CleanMarkup s)) \<and>
   CleanMarkup (CleanMarkup s) = CleanMarkup s \<and>
   int (length (pieces (CleanName IsPrint s n))) \<le> max 0 n \<and> ValidString (CleanName IsPrint s n) \<and>
   list_all (\<lambda>p. IsPrint (fst p) \<and> \<not> IsControl (fst p)) (pieces (CleanName IsPrint s n)) \<and>
   CleanName IsPrint (CleanName IsPrint s n) n = CleanName IsPrint s n"
proof -
  have line: "length (CleanLine s) \<le> 4096" "list_all (\<lambda>p. \<not> IsControl (fst p)) (pieces (CleanLine s))"
    using length_capBytes capBytes_keeps [where P = "\<lambda>p. \<not> IsControl (fst p)", OF stripControl_clean]
    by (auto simp: CleanLine_def MaxLineBytes_textsan_def list_all_iff)
  then have line2: "CleanLine (CleanLine s) = CleanLine s"
    by (subst CleanLine_def) (simp add: MaxLineBytes_textsan_def stripControl_def list_all_iff list_ex_iff)
  have markup: "length (CleanMarkup s) \<le> 4096" "list_all (\<lambda>p. \<not> invalid_piece p \<and> \<not> badOutputRune (fst p)) (pieces (CleanMarkup s))"
    using length_capBytes capBytes_keeps [where P = "\<lambda>p. \<not> invalid_piece p \<and> \<not> badOutputRune (fst p)", OF drop_bad_pieces [where bad = badOutputRune]]
    by (auto simp: CleanMarkup_def stripOutputControl_def MaxLineBytes_textsan_def list_all_iff)
  then have valid: "ValidString (CleanMarkup s)" "list_all (\<lambda>p. \<not> badOutputRune (fst p)) (pieces (CleanMarkup s))"
    by (auto simp: ValidString_def list_all_iff)
  have markup2: "CleanMarkup (CleanMarkup s) = CleanMarkup s"
    using markup(1) valid
    by (subst CleanMarkup_def)
       (simp add: MaxLineBytes_textsan_def stripOutputControl_def drop_bad_def list_all_iff list_ex_iff)
  define t where "t = stripNonGraphic IsPrint s"
  have t: "\<not> invalid_piece p \<and> IsPrint (fst p) \<and> \<not> IsControl (fst p)" if "p \<in> set (pieces t)" for p
    using drop_bad_pieces [of p "\<lambda>r. IsControl r \<or> \<not> IsPrint r" s] that by (simp add: t_def stripNonGraphic_def)
  then have delim: "list_all delimited (pieces t)"
    using piece_delimited by (auto simp: list_all_iff)
  define u where "u = CleanName IsPrint s n"
  have u: "pieces u = take (nat n) (pieces t)"
    using pieces_take_pieces [OF delim, of "nat n"]
    by (auto simp: u_def CleanName_def t_def [symmetric] capRunes_def not_le)
  have name: "int (length (pieces u)) \<le> max 0 n" "ValidString u"
    "list_all (\<lambda>p. IsPrint (fst p) \<and> \<not> IsControl (fst p)) (pieces u)"
    using t by (auto simp: u ValidString_def list_all_iff dest: in_set_takeD)
  have "stripNonGraphic IsPrint u = u"
    using name(2,3) by (simp add: stripNonGraphic_def drop_bad_def list_all_iff list_ex_iff)
  moreover have "capRunes u n = u"
  proof (cases "n \<le> 0")
    case True
    then have "u = []"
      by (simp add: u_def CleanName_def capRunes_def)
    then show ?thesis
      by (simp add: capRunes_def)
  qed (use name(1) in \<open>simp add: capRunes_def\<close>)
  ultimately have "CleanName IsPrint u n = u"
    by (simp add: CleanName_def)
  then show ?thesis
    using line line2 markup(1) valid markup2 name unfolding u_def by blast
qed

end
