(* ===== verification/Verbs.thy ===== *)
theory Verbs
  imports Targeting Textsan "HOL-Library.AList"
begin

text \<open>
  The verbs of a session: the built-in command table in registration order (\<open>registerCommands\<close> of
  \<open>internal/world/commands.go\<close> and the groups it appends, \<open>help\<close> registered after it), the trust-rank gate
  of \<open>dispatch\<close>, and the players' command aliases of \<open>internal/world/aliases.go\<close>.
\<close>

section \<open>The built-in table\<close>

definition verb :: "string \<Rightarrow> string list \<Rightarrow> int \<Rightarrow> unit Command" where
  "verb name als r = \<lparr>cmd_name = name, cmd_aliases = als, cmd_minRank = r, cmd_run = ()\<rparr>"

definition rankStaff :: int where "rankStaff = 1"

definition containerCommands :: "unit Command list" where
  "containerCommands =
     [verb ''inventory'' [''i'', ''inv''] 0, verb ''equipment'' [''eq''] 0, verb ''get'' [''take''] 0,
      verb ''drop'' [] 0, verb ''put'' [] 0, verb ''wear'' [] 0, verb ''wield'' [] 0, verb ''hold'' [] 0,
      verb ''remove'' [] 0, verb ''open'' [] 0, verb ''close'' [] 0, verb ''split'' [] 0, verb ''keep'' [] 0,
      verb ''unkeep'' [] 0]"

definition staffCommands :: "unit Command list" where
  "staffCommands = [verb ''stat'' [] rankStaff, verb ''reload'' [] rankStaff, verb ''pull'' [] rankStaff]"

definition staffToggleCommands :: "unit Command list" where
  "staffToggleCommands =
     [verb ''holylight'' [] rankStaff, verb ''wizinvis'' [] rankStaff, verb ''rolls'' [] rankStaff,
      verb ''debug'' [] rankStaff]"

definition mortalCommands :: "unit Command list" where
  "mortalCommands =
     [verb ''north'' [''n''] 0, verb ''south'' [''s''] 0, verb ''east'' [''e''] 0, verb ''west'' [''w''] 0,
      verb ''up'' [''u''] 0, verb ''down'' [''d''] 0, verb ''look'' [''l''] 0, verb ''say'' [[CHR 0x27]] 0,
      verb ''score'' [''sc''] 0, verb ''who'' [] 0, verb ''tell'' [] 0, verb ''reply'' [] 0, verb ''quit'' [] 0] @
     containerCommands @
     [verb ''enter'' [] 0, verb ''exit'' [] 0, verb ''out'' [] 0,
      verb ''kill'' [''k''] 0, verb ''flee'' [] 0, verb ''assist'' [''as''] 0, verb ''consider'' [''con''] 0,
      verb ''rest'' [''sit''] 0, verb ''stand'' [] 0, verb ''vitals'' [] 0,
      verb ''channels'' [] 0, verb ''history'' [] 0, verb ''ignore'' [] 0, verb ''afk'' [] 0,
      verb ''tells'' [''replay''] 0, verb ''mail'' [] 0, verb ''audit'' [] 0, verb ''clear'' [''cls''] 0,
      verb ''credits'' [''license'', ''copyright''] 0, verb ''alias'' [] 0, verb ''unalias'' [] 0]"

definition registerCommands :: "unit Command list" where
  "registerCommands = mortalCommands @ staffCommands @ staffToggleCommands"

definition helpCommand :: "unit Command" where
  "helpCommand = verb ''help'' [] 0"

definition baseTable :: "unit commandTable" where
  "baseTable = registerCommand helpCommand (newCommandTable registerCommands)"

section \<open>Resolution\<close>

lemma foldl_alias: "foldl (\<lambda>m a. m(a \<mapsto> c)) m as v = (if v \<in> set as then Some c else m v)"
  by (induction as arbitrary: m) auto

definition names :: "'r Command \<Rightarrow> string set" where
  "names c = insert (cmd_name c) (set (cmd_aliases c))"

lemma register_fields [simp]:
  "ordered (registerCommand c t) = ordered t @ [c]"
  "byExact (registerCommand c t) v = (if v \<in> names c then Some c else byExact t v)"
  by (auto simp: registerCommand_def foldl_alias names_def)

definition tabled :: "'r Command list \<Rightarrow> 'r commandTable" where
  "tabled cmds = foldl (\<lambda>t c. registerCommand c t) \<lparr>byExact = Map.empty, ordered = []\<rparr> cmds"

lemma tabled_snoc: "tabled (cmds @ [c]) = registerCommand c (tabled cmds)"
  by (simp add: tabled_def)

lemma tabled_ordered: "ordered (tabled cmds) = cmds"
  by (induction cmds rule: rev_induct) (simp_all add: tabled_snoc, simp add: tabled_def)

text \<open>An exact match is one of the commands that own the name, and the others do not matter for it.\<close>

lemma tabled_exact:
  "byExact (tabled cmds) v = Some c \<Longrightarrow> c \<in> set cmds \<and> v \<in> names c"
  "byExact (tabled cmds) v = None \<longleftrightarrow> (\<forall>c \<in> set cmds. v \<notin> names c)"
  by (induction cmds rule: rev_induct) (auto simp: tabled_snoc split: if_splits, auto simp: tabled_def)

lemma tabled_exact_filter:
  assumes "\<And>c. c \<in> set cmds \<Longrightarrow> v \<in> names c \<Longrightarrow> P c"
  shows "byExact (tabled cmds) v = byExact (tabled (filter P cmds)) v"
  using assms
  by (induction cmds rule: rev_induct) (auto simp: tabled_snoc)

definition abbreviates :: "string \<Rightarrow> 'r Command \<Rightarrow> bool" where
  "abbreviates v c \<longleftrightarrow> length v \<le> length (cmd_name c) \<and> take (length v) (cmd_name c) = v"

lemma resolve_tabled:
  "v \<noteq> [] \<Longrightarrow> resolve (tabled cmds) v =
     (case byExact (tabled cmds) v of Some c \<Rightarrow> Some c | None \<Rightarrow> find (abbreviates v) cmds)"
  by (simp add: resolve_def tabled_ordered abbreviates_def [abs_def] split: option.splits)

lemma find_append: "find P (xs @ ys) = (case find P xs of None \<Rightarrow> find P ys | Some x \<Rightarrow> Some x)"
  by (induction xs) auto

definition mortal :: "'r Command \<Rightarrow> bool" where
  "mortal c \<longleftrightarrow> cmd_minRank c \<le> 0"

lemma base_tabled: "baseTable = tabled (registerCommands @ [helpCommand])"
  by (simp add: baseTable_def newCommandTable_def tabled_def)

text \<open>
  When restricted commands have no aliases and no plain verb is or begins with one of their names, and no
  command registered after them shares an abbreviation with them that no earlier one takes.
\<close>

lemma restricted_invisible:
  fixes ms ss :: "'r Command list"
  assumes ms: "\<And>c. c \<in> set ms \<Longrightarrow> mortal c" and h: "mortal h" and ss: "\<And>c. c \<in> set ss \<Longrightarrow> \<not> mortal c"
    and own: "\<And>s c. s \<in> set ss \<Longrightarrow> cmd_aliases s = [] \<and>
        (c \<in> set (ms @ [h]) \<longrightarrow> cmd_name s \<notin> names c \<and> \<not> abbreviates (cmd_name s) c)"
    and late: "\<And>s. v \<noteq> [] \<Longrightarrow> abbreviates v h \<Longrightarrow> s \<in> set ss \<Longrightarrow> abbreviates v s \<Longrightarrow> \<exists>c \<in> set ms. abbreviates v c"
  shows "resolve_for (tabled (ms @ ss @ [h])) 0 v = resolve (tabled (ms @ [h])) v"
proof (cases "v = []")
  case False
  show ?thesis
  proof (cases "\<exists>s \<in> set ss. v = cmd_name s")
    case True
    then have none: "v \<notin> names c \<and> \<not> abbreviates v c" if "c \<in> set (ms @ [h])" for c
      using own that by blast
    have "byExact (tabled (ms @ [h])) v = None" "find (abbreviates v) (ms @ [h]) = None"
      using none by (auto simp: tabled_exact(2) find_None_iff)
    then have right: "resolve (tabled (ms @ [h])) v = None"
      using False by (simp add: resolve_tabled)
    obtain c where c: "byExact (tabled (ms @ ss @ [h])) v = Some c"
      using True tabled_exact(2) [of "ms @ ss @ [h]" v] by (fastforce simp: names_def)
    then have "c \<in> set ss"
      using tabled_exact(1) [OF c] none by auto
    then show ?thesis
      using right c False ss by (simp add: resolve_for_def resolve_tabled mortal_def not_le)
  next
    case other: False
    have filt: "filter mortal (ms @ ss @ [h]) = ms @ [h]"
      using ms h ss by (simp add: filter_id_conv filter_empty_conv)
    have "byExact (tabled (ms @ ss @ [h])) v = byExact (tabled (filter mortal (ms @ ss @ [h]))) v"
      using other own ms h by (intro tabled_exact_filter) (auto simp: names_def)
    then have exact: "byExact (tabled (ms @ ss @ [h])) v = byExact (tabled (ms @ [h])) v"
      unfolding filt .
    have plain: "c \<in> set (ms @ [h]) \<Longrightarrow> \<not> 0 < cmd_minRank c" for c
      using ms [of c] h by (auto simp: mortal_def)
    show ?thesis
    proof (cases "byExact (tabled (ms @ [h])) v")
      case (Some c)
      then show ?thesis
        using exact tabled_exact(1) [OF Some] plain False by (simp add: resolve_for_def resolve_tabled)
    next
      case None
      have found: "find (abbreviates v) ms = Some c \<Longrightarrow> c \<in> set (ms @ [h])" for c
        by (auto simp: find_Some_iff)
      have "find (abbreviates v) ms = None \<Longrightarrow> find (abbreviates v) ss = Some s \<Longrightarrow> 0 < cmd_minRank s \<and> \<not> abbreviates v h" for s
        using ss [of s] late [OF False, of s] by (auto simp: find_Some_iff find_None_iff mortal_def)
      then show ?thesis
        using None exact False found plain
        by (auto simp: resolve_for_def resolve_tabled find_append split: option.splits)
    qed
  qed
qed (simp add: resolve_for_def resolve_def)

definition prefixes_of :: "'r Command list \<Rightarrow> string list" where
  "prefixes_of cs = concat (map (\<lambda>c. map (\<lambda>n. take n (cmd_name c)) [1..<Suc (length (cmd_name c))]) cs)"

lemma prefixes_of_in:
  assumes "c \<in> set cs" and "abbreviates v c" and "v \<noteq> []"
  shows "v \<in> set (prefixes_of cs)"
proof -
  have len: "length v \<le> length (cmd_name c)" and eq: "v = take (length v) (cmd_name c)"
    using assms(2) unfolding abbreviates_def by (blast, metis)
  have "length v \<in> set [1..<Suc (length (cmd_name c))]"
    using len assms(3) by (cases v) auto
  with eq have "v \<in> set (map (\<lambda>n. take n (cmd_name c)) [1..<Suc (length (cmd_name c))])"
    unfolding set_map by (rule image_eqI)
  then show ?thesis
    unfolding prefixes_of_def set_concat set_map using assms(1) by (intro UN_I imageI) auto
qed

lemma staff_names_apart:
  "list_all (\<lambda>s. cmd_aliases s = [] \<and> list_all (\<lambda>c. cmd_name s \<noteq> cmd_name c \<and> cmd_name s \<notin> set (cmd_aliases c) \<and>
      \<not> abbreviates (cmd_name s) c) (mortalCommands @ [helpCommand])) (staffCommands @ staffToggleCommands)"
  by code_simp

lemma help_prefixes_taken:
  "list_all (\<lambda>v. list_ex (abbreviates v) mortalCommands \<or> \<not> list_ex (abbreviates v) (staffCommands @ staffToggleCommands))
     (prefixes_of [helpCommand])"
  by code_simp

lemma ranks: "list_all mortal mortalCommands" "mortal helpCommand" "list_all (\<lambda>c. \<not> mortal c) (staffCommands @ staffToggleCommands)"
  by code_simp+

text \<open>
  Staff verbs do not exist for a player without rank: whatever is typed, exactly or abbreviated, the
  dispatcher of the built-in table resolves it as a table without the staff verbs would, so a staff verb
  neither answers nor takes an abbreviation from another command.
\<close>
lemma staff_verbs_are_invisible:
  "resolve_for baseTable 0 v = resolve (newCommandTable (mortalCommands @ [helpCommand])) v"
proof -
  have tab: "newCommandTable cs = tabled cs" for cs :: "unit Command list"
    by (simp add: newCommandTable_def tabled_def)
  have base: "baseTable = tabled (mortalCommands @ (staffCommands @ staffToggleCommands) @ [helpCommand])"
    by (simp add: base_tabled registerCommands_def)
  show ?thesis
    unfolding base tab
  proof (rule restricted_invisible)
    show "mortal c" if "c \<in> set mortalCommands" for c
      using ranks(1) that unfolding list_all_iff by blast
    show "\<not> mortal c" if "c \<in> set (staffCommands @ staffToggleCommands)" for c
      using ranks(3) that unfolding list_all_iff by blast
    show "mortal helpCommand"
      by (rule ranks(2))
    show "cmd_aliases s = [] \<and> (c \<in> set (mortalCommands @ [helpCommand]) \<longrightarrow> cmd_name s \<notin> names c \<and> \<not> abbreviates (cmd_name s) c)"
      if "s \<in> set (staffCommands @ staffToggleCommands)" for s c
      using staff_names_apart that unfolding list_all_iff names_def by blast
    show "\<exists>c \<in> set mortalCommands. abbreviates v c"
      if "v \<noteq> []" "abbreviates v helpCommand" "s \<in> set (staffCommands @ staffToggleCommands)" "abbreviates v s" for s
    proof -
      have "v \<in> set (prefixes_of [helpCommand])"
        using that(1,2) by (intro prefixes_of_in [of helpCommand]) auto
      then show ?thesis
        using help_prefixes_taken that(3,4) unfolding list_all_iff list_ex_iff by blast
    qed
  qed
qed

section \<open>Aliases\<close>

definition aliasMaxCount :: nat where "aliasMaxCount = 64"

definition aliasNameMaxRunes :: nat where "aliasNameMaxRunes = 32"

definition aliasBodyMaxRunes :: nat where "aliasBodyMaxRunes = 256"

definition aliasMaxDepth :: nat where "aliasMaxDepth = aliasMaxCount + 1"

definition reservedAliasNames :: "string list" where
  "reservedAliasNames = [''alias'', ''unalias'']"

type_synonym aliasState = "(string \<times> string) list"

fun expand_loop :: "nat \<Rightarrow> aliasState \<Rightarrow> string set \<Rightarrow> string \<Rightarrow> string \<Rightarrow> bool \<Rightarrow> string \<times> string \<times> bool" where
  "expand_loop 0 m seen v rest expanded = (v, rest, expanded)"
| "expand_loop (Suc k) m seen v rest expanded =
     (case map_of m v of
        None \<Rightarrow> (v, rest, expanded)
      | Some body \<Rightarrow>
          if v \<in> seen then (v, rest, expanded)
          else let (nv, nr) = split (if rest \<noteq> [] then body @ '' '' @ rest else body)
               in expand_loop k m (insert v seen) (toLower nv) nr True)"

definition expandAlias :: "aliasState \<Rightarrow> string \<Rightarrow> string \<Rightarrow> string \<times> string \<times> bool" where
  "expandAlias m v rest =
     (if m = [] then (v, rest, False)
      else case expand_loop aliasMaxDepth m {} v rest False of
             (v1, r1, expanded) \<Rightarrow>
               if expanded then let (v2, r2) = split (CleanLine (v1 @ '' '' @ r1)) in (toLower v2, r2, True)
               else (v1, r1, False))"

datatype alias_reply = Listed | Shown string | NoSuchAlias | Reserved | NameTooLong | EmptyBody | BodyTooLong
  | TooMany | AliasSet | AliasRemoved | Usage

definition alias_name :: "string \<Rightarrow> string" where
  "alias_name arg = toLower (trimSpace (fst (split arg)))"

definition cmdAlias :: "string \<Rightarrow> aliasState \<Rightarrow> alias_reply \<times> aliasState" where
  "cmdAlias arg m =
     (let name = alias_name arg;
          body = trimSpace (trimPrefix (trimSpace arg) (fst (split arg)));
          exp = CleanLine body
      in if name = [] then (Listed, m)
         else if body = [] then (case map_of m name of Some e \<Rightarrow> (Shown e, m) | None \<Rightarrow> (NoSuchAlias, m))
         else if name \<in> set reservedAliasNames then (Reserved, m)
         else if length (pieces name) > aliasNameMaxRunes then (NameTooLong, m)
         else if exp = [] then (EmptyBody, m)
         else if length (pieces exp) > aliasBodyMaxRunes then (BodyTooLong, m)
         else if map_of m name = None \<and> length m \<ge> aliasMaxCount then (TooMany, m)
         else (AliasSet, AList.update name exp m))"

definition cmdUnalias :: "string \<Rightarrow> aliasState \<Rightarrow> alias_reply \<times> aliasState" where
  "cmdUnalias arg m =
     (let name = alias_name arg
      in if name = [] then (Usage, m)
         else if map_of m name = None then (NoSuchAlias, m)
         else (AliasRemoved, AList.delete name m))"

definition dumpAliasState :: "aliasState \<Rightarrow> (string \<times> string) list" where
  "dumpAliasState m = take aliasMaxCount m"

definition load1 :: "aliasState \<Rightarrow> string \<times> string \<Rightarrow> aliasState" where
  "load1 m ne =
     (if length m \<ge> aliasMaxCount then m
      else let name = toLower (trimSpace (CleanLine (fst ne)));
               exp = CleanLine (trimSpace (snd ne))
           in if name = [] \<or> exp = [] then m
              else if name \<in> set reservedAliasNames then m
              else if length (pieces name) > aliasNameMaxRunes \<or> length (pieces exp) > aliasBodyMaxRunes then m
              else AList.update name exp m)"

definition loadAliasState :: "(string \<times> string) list \<Rightarrow> aliasState" where
  "loadAliasState saved = foldl load1 [] saved"

section \<open>What alias states look like\<close>

definition alias_ok :: "aliasState \<Rightarrow> bool" where
  "alias_ok m \<longleftrightarrow>
     distinct (map fst m) \<and> length m \<le> aliasMaxCount \<and>
     (\<forall>(n, e) \<in> set m. n \<noteq> [] \<and> n \<notin> set reservedAliasNames \<and> length (pieces n) \<le> aliasNameMaxRunes \<and>
        e \<noteq> [] \<and> CleanLine e = e \<and> length (pieces e) \<le> aliasBodyMaxRunes)"

lemma CleanLine_idem: "CleanLine (CleanLine s) = CleanLine s"
proof -
  have "list_all (\<lambda>p. \<not> IsControl (fst p)) (pieces (CleanLine s))" "length (CleanLine s) \<le> MaxLineBytes_textsan"
    using capBytes_keeps [where P = "\<lambda>p. \<not> IsControl (fst p)", OF stripControl_clean]
    by (auto simp: CleanLine_def list_all_iff length_capBytes)
  then show ?thesis
    by (subst CleanLine_def) (simp add: stripControl_def list_all_iff list_ex_iff)
qed

lemma update_ok:
  assumes "alias_ok m" and "map_of m n \<noteq> None \<or> length m < aliasMaxCount"
    and "n \<noteq> []" and "n \<notin> set reservedAliasNames" and "length (pieces n) \<le> aliasNameMaxRunes"
    and "e \<noteq> []" and "CleanLine e = e" and "length (pieces e) \<le> aliasBodyMaxRunes"
  shows "alias_ok (AList.update n e m)"
proof -
  have len: "length (AList.update n e m) = (if n \<in> fst ` set m then length m else Suc (length m))" for m
    by (induction m) auto
  have sub: "set (AList.update n e m) \<subseteq> insert (n, e) (set m)" for m
    by (induction m) auto
  have "length (AList.update n e m) \<le> aliasMaxCount"
    using assms(1,2) by (auto simp: len alias_ok_def map_of_eq_None_iff image_iff)
  then show ?thesis
    using assms sub [of m] distinct_update [of m n e] unfolding alias_ok_def by fastforce
qed

lemma cmdAlias_ok: "alias_ok m \<Longrightarrow> alias_ok (snd (cmdAlias arg m))"
  by (auto simp: cmdAlias_def Let_def CleanLine_idem not_less split: option.splits intro!: update_ok)

lemma cmdUnalias_ok:
  assumes "alias_ok m"
  shows "alias_ok (snd (cmdUnalias arg m))"
proof -
  have "set (AList.delete n m) \<subseteq> set m" "length (AList.delete n m) \<le> length m" "distinct (map fst (AList.delete n m))" for n
    using assms by (auto simp: AList.delete_eq alias_ok_def intro: distinct_map_filter)
  then have "alias_ok (AList.delete n m)" for n
    using assms unfolding alias_ok_def by (meson le_trans subset_iff)
  then show ?thesis
    using assms by (simp add: cmdUnalias_def Let_def)
qed

lemma loadAliasState_ok: "alias_ok (loadAliasState saved)"
proof -
  have "alias_ok m \<Longrightarrow> alias_ok (load1 m ne)" for m ne
    by (auto simp: load1_def Let_def CleanLine_idem not_le not_less intro!: update_ok)
  then have "alias_ok m \<Longrightarrow> alias_ok (foldl load1 m saved)" for m
    by (induction saved arbitrary: m) auto
  moreover have "alias_ok []"
    by (simp add: alias_ok_def)
  ultimately show ?thesis
    by (simp add: loadAliasState_def)
qed

inductive alias_reach :: "aliasState \<Rightarrow> bool" where
  fresh: "alias_reach []"
| load: "alias_reach (loadAliasState saved)"
| define_alias: "alias_reach m \<Longrightarrow> alias_reach (snd (cmdAlias arg m))"
| remove_alias: "alias_reach m \<Longrightarrow> alias_reach (snd (cmdUnalias arg m))"

lemma alias_reach_ok: "alias_reach m \<Longrightarrow> alias_ok m"
  by (induction rule: alias_reach.induct)
     (simp_all add: loadAliasState_ok cmdAlias_ok cmdUnalias_ok, simp add: alias_ok_def)

lemma expand_enough:
  assumes "card (fst ` set m - seen) < k"
  shows "expand_loop (k + j) m seen v rest b = expand_loop k m seen v rest b"
  using assms
proof (induction k arbitrary: seen v rest b)
  case (Suc k)
  show ?case
  proof (cases "map_of m v = None \<or> v \<in> seen")
    case True
    then show ?thesis
      by (auto split: option.splits)
  next
    case False
    then have "v \<in> fst ` set m - seen"
      by (auto simp: map_of_eq_None_iff)
    then have "card (fst ` set m - insert v seen) < card (fst ` set m - seen)"
      by (intro psubset_card_mono) auto
    then have "card (fst ` set m - insert v seen) < k"
      using Suc.prems by simp
    from Suc.IH [OF this] show ?thesis
      using False by (auto split: option.splits prod.splits)
  qed
qed simp

text \<open>
  A player cannot be trapped or flooded by aliases, whatever they define and whatever a saved state
  holds: there are at most 64, with names of at most 32 runes and clean bodies of at most 256; \<open>alias\<close> and
  \<open>unalias\<close> are never expanded, so every alias can be removed; and the depth cap never cuts an expansion
  short: it ends because the verb is no alias or because it was expanded before.
\<close>
lemma aliases_are_bounded_and_removable:
  assumes "alias_reach m"
  shows "length m \<le> 64 \<and>
    (\<forall>(n, e) \<in> set m. length (pieces n) \<le> 32 \<and> length (pieces e) \<le> 256 \<and> CleanLine e = e) \<and>
    expandAlias m ''alias'' rest = (''alias'', rest, False) \<and>
    expandAlias m ''unalias'' rest = (''unalias'', rest, False) \<and>
    expand_loop (aliasMaxDepth + j) m {} v rest b = expand_loop aliasMaxDepth m {} v rest b"
proof -
  have ok: "alias_ok m"
    by (rule alias_reach_ok [OF assms])
  have bounds: "length m \<le> 64" "\<forall>(n, e) \<in> set m. length (pieces n) \<le> 32 \<and> length (pieces e) \<le> 256 \<and> CleanLine e = e"
    using ok by (auto simp: alias_ok_def aliasMaxCount_def aliasNameMaxRunes_def aliasBodyMaxRunes_def)
  have free: "map_of m n = None" if "n \<in> set reservedAliasNames" for n
    using ok that by (auto simp: alias_ok_def map_of_eq_None_iff)
  have reserved: "expandAlias m n rest = (n, rest, False)" if "n \<in> set reservedAliasNames" for n
    using free [OF that] by (simp add: expandAlias_def aliasMaxDepth_def)
  have "card (fst ` set m - {}) < aliasMaxDepth"
    using bounds(1) card_image_le [of "set m" fst] card_length [of m] by (simp add: aliasMaxDepth_def aliasMaxCount_def)
  then show ?thesis
    using bounds reserved expand_enough by (auto simp: reservedAliasNames_def)
qed

text \<open>Two aliases that name each other.\<close>

definition demo_aliases :: aliasState where
  "demo_aliases = snd (cmdAlias ''b a x'' (snd (cmdAlias ''a b y'' [])))"

end
