(* ===== verification/Items.thy ===== *)
theory Items
  imports Concentration Targeting "HOL-Library.Product_Lexorder"
begin

text \<open>
  Items: the entity tree (\<open>internal/world/entity.go\<close>), targeting and visibility (\<open>targeting.go\<close>,
  \<open>visibility.go\<close>), the inventory and equipment verbs (\<open>container.go\<close>, \<open>keep.go\<close>), binding (\<open>binding.go\<close>),
  stacks (\<open>stack.go\<close>), encumbrance (\<open>encumbrance.go\<close>), worn modifiers and equip affects
  (\<open>worn_mods.go\<close>, \<open>equip_affects.go\<close>), the transfer audit (\<open>transferaudit.go\<close>) and the item ops of
  crafting (\<open>crafting_op.go\<close>, \<open>recipe.go\<close>).

  Entities are addresses of a heap; their living half (attributes, affects) is the zone of \<open>Affects\<close>
  under the same address. Prototypes, wear slots and definitions are content, in \<open>Env\<close>. What a command
  says is a value of \<open>reply\<close>; lines to the room are left out, and hooks change the living half only.
\<close>

section \<open>State\<close>

record Container =
  capacity :: int
  closed :: bool

record Wearable =
  locs :: "string list"
  wadd :: "(string \<times> flt) list"
  wmul :: "(string \<times> flt) list"
  equipAffects :: "string list"

record Wearer =
  worn :: "(string \<times> nat) list"
  wmods :: "string \<rightharpoonup> flt"
  wmuls :: "string \<rightharpoonup> flt"
  wsrc :: "nat option"

record ItemMeta =
  bindRule :: string
  maxStack :: int
  itags :: "string list"

record CorpseOwner =
  owner :: string
  ownerPID :: string
  until :: nat

record Released =
  rel_pid :: string
  rel_name :: string

record Obj =
  proto :: string
  oname :: string
  kws :: "string list"
  pid :: "string option"
  location :: "nat option"
  contents :: "nat list"
  isLiving :: bool
  isPlayer :: bool
  flags :: "string list"
  roomFlags :: "string list"
  rank :: int
  professions :: "string list"
  container :: "Container option"
  wearable :: "Wearable option"
  wearer :: "Wearer option"
  meta :: "ItemMeta option"
  bound :: bool
  kept :: bool
  stack :: "int option"
  weight :: "int option"
  quality :: "(int \<times> (string \<times> flt) list) option"
  corpse :: "CorpseOwner option"
  released :: "Released option"

record wearSlot =
  ws_ref :: string
  ws_label :: string
  ws_order :: int
  ws_kind :: string

record wearSlotVocab =
  vorder :: "wearSlot list"
  vbyRef :: "string \<rightharpoonup> wearSlot"

record auditRow =
  au_from :: string
  au_to :: string
  au_item :: string
  au_stack :: int

record World =
  objs :: "nat \<Rightarrow> Obj"
  nextObj :: nat
  zn :: Zone
  trail :: "auditRow list"

record Env =
  rules :: Rules
  fires :: hooks
  vocab :: wearSlotVocab
  protos :: "string \<rightharpoonup> Obj"
  auditEnabled :: bool

definition upd :: "nat \<Rightarrow> (Obj \<Rightarrow> Obj) \<Rightarrow> World \<Rightarrow> World" where
  "upd i f w = w\<lparr>objs := (objs w)(i := f (objs w i))\<rparr>"

section \<open>Wear slots\<close>

definition wear_slot :: "wearSlot \<Rightarrow> wearSlot" where
  "wear_slot d = d\<lparr>ws_label := (if ws_label d = [] then ws_ref d else ws_label d),
                   ws_kind := (if ws_kind d = [] then ''worn'' else ws_kind d)\<rparr>"

definition buildWearVocab :: "wearSlot list \<Rightarrow> wearSlotVocab option" where
  "buildWearVocab dtos =
     (if dtos = [] then None
      else Some \<lparr>vorder = sort_key (\<lambda>s. (ws_order s, ws_ref s)) (map wear_slot dtos),
                 vbyRef = map_of (rev (map (\<lambda>d. (ws_ref d, wear_slot d)) dtos))\<rparr>)"

definition orderedRefs :: "wearSlotVocab \<Rightarrow> string list" where
  "orderedRefs v = map ws_ref (vorder v)"

definition kindOf :: "wearSlotVocab \<Rightarrow> string \<Rightarrow> string" where
  "kindOf v ref = (case vbyRef v ref of Some s \<Rightarrow> ws_kind s | None \<Rightarrow> [])"

definition isWorn :: "wearSlotVocab \<Rightarrow> string \<Rightarrow> bool" where
  "isWorn v ref \<longleftrightarrow> kindOf v ref = ''worn''"

definition slotOfKind :: "wearSlotVocab \<Rightarrow> string \<Rightarrow> string" where
  "slotOfKind v k = (case find (\<lambda>s. ws_kind s = k) (vorder v) of Some s \<Rightarrow> ws_ref s | None \<Rightarrow> [])"

definition wieldSlot :: "wearSlotVocab \<Rightarrow> string" where
  "wieldSlot v = (if slotOfKind v ''wield'' \<noteq> [] then slotOfKind v ''wield'' else ''wield'')"

definition holdSlot :: "wearSlotVocab \<Rightarrow> string" where
  "holdSlot v = (if slotOfKind v ''hold'' \<noteq> [] then slotOfKind v ''hold'' else ''hold'')"

section \<open>Stacks, binding, weight\<close>

definition isMaterial :: "Obj \<Rightarrow> bool" where
  "isMaterial x \<longleftrightarrow> (case meta x of None \<Rightarrow> False | Some m \<Rightarrow> maxStack m > 0)"

definition stackMax :: "Obj \<Rightarrow> int" where
  "stackMax x = (case meta x of None \<Rightarrow> 0 | Some m \<Rightarrow> maxStack m)"

definition itemStackCount :: "Obj \<Rightarrow> int" where
  "itemStackCount x = (case stack x of Some n \<Rightarrow> n | None \<Rightarrow> if isMaterial x then 1 else 0)"

definition setItemStackCount :: "nat \<Rightarrow> int \<Rightarrow> World \<Rightarrow> World" where
  "setItemStackCount i n w = upd i (\<lambda>x. x\<lparr>stack := Some n\<rparr>) w"

definition ensureStack :: "Obj \<Rightarrow> Obj" where
  "ensureStack x = (if isMaterial x \<and> stack x = None then x\<lparr>stack := Some 1\<rparr> else x)"

definition itemBindRule :: "Obj \<Rightarrow> string" where
  "itemBindRule x = (case meta x of None \<Rightarrow> [] | Some m \<Rightarrow> bindRule m)"

definition bindItem :: "nat \<Rightarrow> World \<Rightarrow> World" where
  "bindItem i w = upd i (\<lambda>x. x\<lparr>bound := True\<rparr>) w"

definition bindOnPickup :: "nat \<Rightarrow> World \<Rightarrow> World" where
  "bindOnPickup i w = (if itemBindRule (objs w i) = ''bind_on_pickup'' then bindItem i w else w)"

definition bindOnEquip :: "nat \<Rightarrow> World \<Rightarrow> World" where
  "bindOnEquip i w = (if itemBindRule (objs w i) = ''bind_on_equip'' then bindItem i w else w)"

definition itemWeight :: "Obj \<Rightarrow> int" where
  "itemWeight x =
     (case weight x of
        None \<Rightarrow> 0
      | Some p \<Rightarrow> p * (if itemStackCount x < 1 then 1 else itemStackCount x))"

definition carriedWeight :: "World \<Rightarrow> nat \<Rightarrow> int" where
  "carriedWeight w i = sum_list (map (\<lambda>c. itemWeight (objs w c)) (contents (objs w i)))"

definition canCarry :: "Env \<Rightarrow> World \<Rightarrow> nat \<Rightarrow> int \<Rightarrow> bool" where
  "canCarry env w i add =
     (case ents (zn w) i of
        None \<Rightarrow> True
      | Some e \<Rightarrow>
          let cap = attrOf (adefs (rules env)) e ''carry_capacity''
          in if fleq cap (Fin 0) then True else fleq (of_int_flt (carriedWeight w i + add)) cap)"

section \<open>Worn modifiers and equip affects\<close>

definition slotOf :: "Wearer \<Rightarrow> nat \<Rightarrow> string option" where
  "slotOf wr item = map_option fst (find (\<lambda>(l, e). e = item) (worn wr))"

definition worn_slot :: "World \<Rightarrow> nat \<Rightarrow> nat \<Rightarrow> string option" where
  "worn_slot w i item = (case wearer (objs w i) of None \<Rightarrow> None | Some wr \<Rightarrow> slotOf wr item)"

definition add_to :: "(string \<rightharpoonup> flt) \<Rightarrow> string \<times> flt \<Rightarrow> (string \<rightharpoonup> flt)" where
  "add_to m av = m(fst av \<mapsto> fadd (case m (fst av) of None \<Rightarrow> Fin 0 | Some v \<Rightarrow> v) (snd av))"

definition mul_to :: "(string \<rightharpoonup> flt) \<Rightarrow> string \<times> flt \<Rightarrow> (string \<rightharpoonup> flt)" where
  "mul_to m av = m(fst av \<mapsto> fmul (case m (fst av) of None \<Rightarrow> Fin 1 | Some v \<Rightarrow> v) (snd av))"

definition worn_adds :: "World \<Rightarrow> nat list \<Rightarrow> (string \<rightharpoonup> flt)" where
  "worn_adds w items =
     foldl add_to Map.empty
       (concat (map (\<lambda>i. (case wearable (objs w i) of None \<Rightarrow> [] | Some wd \<Rightarrow> wadd wd) @
                         (case quality (objs w i) of None \<Rightarrow> [] | Some q \<Rightarrow> snd q)) items))"

definition worn_muls :: "World \<Rightarrow> nat list \<Rightarrow> (string \<rightharpoonup> flt)" where
  "worn_muls w items =
     foldl mul_to Map.empty
       (concat (map (\<lambda>i. case wearable (objs w i) of None \<Rightarrow> [] | Some wd \<Rightarrow> wmul wd) items))"

definition worn_view :: "Wearer \<Rightarrow> modSource" where
  "worn_view wr = \<lparr>flatMod = (\<lambda>ref. case wmods wr ref of None \<Rightarrow> Fin 0 | Some v \<Rightarrow> v),
                   mulMod = (\<lambda>ref. case wmuls wr ref of None \<Rightarrow> Fin 1 | Some v \<Rightarrow> v)\<rparr>"

definition on_living :: "nat \<Rightarrow> (AEnt \<Rightarrow> AEnt) \<Rightarrow> World \<Rightarrow> World" where
  "on_living i f w = (case ents (zn w) i of None \<Rightarrow> w | Some e \<Rightarrow> w\<lparr>zn := putEnt i (f e) (zn w)\<rparr>)"

definition ensureWornModSource :: "nat \<Rightarrow> World \<Rightarrow> World" where
  "ensureWornModSource i w =
     (case wearer (objs w i) of
        None \<Rightarrow> w
      | Some wr \<Rightarrow>
          if wsrc wr \<noteq> None then w
          else
            let ix = (case ents (zn w) i of
                        None \<Rightarrow> 0
                      | Some e \<Rightarrow> (case living (mutableLiving e) of None \<Rightarrow> 0 | Some l \<Rightarrow> length (modSrcs l)))
            in upd i (\<lambda>x. x\<lparr>wearer := Some (wr\<lparr>wsrc := Some ix\<rparr>)\<rparr>)
                 (on_living i (\<lambda>e. addModSource e (worn_view wr)) w))"

definition recomputeWornMods :: "nat \<Rightarrow> World \<Rightarrow> World" where
  "recomputeWornMods i w =
     (case wearer (objs w i) of
        None \<Rightarrow> w
      | Some wr \<Rightarrow>
          let items = map snd (worn wr);
              wr1 = wr\<lparr>wmods := worn_adds w items, wmuls := worn_muls w items\<rparr>
          in upd i (\<lambda>x. x\<lparr>wearer := Some wr1\<rparr>)
               (on_living i (\<lambda>e. markAttrsDirty
                  (updateLiving (\<lambda>l. case wsrc wr1 of
                                       None \<Rightarrow> l
                                     | Some ix \<Rightarrow> l\<lparr>modSrcs := (modSrcs l)[ix := worn_view wr1]\<rparr>) e)) w))"

definition applyWornMods :: "nat \<Rightarrow> World \<Rightarrow> World" where
  "applyWornMods i w = recomputeWornMods i (ensureWornModSource i w)"

definition equip_opts :: "nat \<Rightarrow> bool \<Rightarrow> attachOpts" where
  "equip_opts item quiet =
     \<lparr>osource = Some item, oduration = 0, omagnitude = Fin 0, ostacks = 0, orung = 0, reattach = False,
      ofromEquip = True, suppressApply = quiet\<rparr>"

definition equip_refs :: "World \<Rightarrow> nat \<Rightarrow> string list" where
  "equip_refs w item = (case wearable (objs w item) of None \<Rightarrow> [] | Some wd \<Rightarrow> equipAffects wd)"

definition applyEquipAffects :: "Env \<Rightarrow> nat \<Rightarrow> nat \<Rightarrow> bool \<Rightarrow> World \<Rightarrow> World" where
  "applyEquipAffects env i item quiet w =
     w\<lparr>zn := foldl (\<lambda>z ref. fst (applyAffect (fires env) (rules env) i ref (equip_opts item quiet) z))
               (zn w) (equip_refs w item)\<rparr>"

definition removeEquipAffect :: "Env \<Rightarrow> nat \<Rightarrow> nat \<Rightarrow> Zone \<Rightarrow> string \<Rightarrow> Zone" where
  "removeEquipAffect env i item z ref =
     (case (map_of (fdefs (rules env)) ref, ents z i) of
        (Some def, Some e) \<Rightarrow>
          (case affected e of
             None \<Rightarrow> z
           | Some a \<Rightarrow>
               (case byKey a (keyFor def (Some item)) of
                  None \<Rightarrow> z
                | Some p \<Rightarrow> expire (fires env) i p z))
      | _ \<Rightarrow> z)"

definition removeEquipAffects :: "Env \<Rightarrow> nat \<Rightarrow> nat \<Rightarrow> World \<Rightarrow> World" where
  "removeEquipAffects env i item w =
     w\<lparr>zn := foldl (removeEquipAffect env i item) (zn w) (equip_refs w item)\<rparr>"

definition unequipFromWearer :: "Env \<Rightarrow> nat \<Rightarrow> nat \<Rightarrow> World \<Rightarrow> World" where
  "unequipFromWearer env holder item w =
     (case wearer (objs w holder) of
        None \<Rightarrow> w
      | Some wr \<Rightarrow>
          (case slotOf wr item of
             None \<Rightarrow> w
           | Some loc \<Rightarrow>
               removeEquipAffects env holder item
                 (applyWornMods holder
                   (upd holder (\<lambda>x. x\<lparr>wearer := Some (wr\<lparr>worn := AList.delete loc (worn wr)\<rparr>)\<rparr>) w))))"

section \<open>The tree\<close>

definition removeContent :: "nat \<Rightarrow> nat \<Rightarrow> World \<Rightarrow> World" where
  "removeContent holder child w = upd holder (\<lambda>x. x\<lparr>contents := remove1 child (contents x)\<rparr>) w"

definition Move :: "Env \<Rightarrow> nat \<Rightarrow> nat option \<Rightarrow> World \<Rightarrow> World" where
  "Move env e dest w =
     (let w1 = (case location (objs w e) of
                  None \<Rightarrow> w
                | Some h \<Rightarrow> removeContent h e (unequipFromWearer env h e w));
          w2 = upd e (\<lambda>x. x\<lparr>location := dest\<rparr>) w1
      in case dest of
           None \<Rightarrow> w2
         | Some d \<Rightarrow> upd d (\<lambda>x. x\<lparr>contents := contents x @ [e]\<rparr>) w2)"

definition spawn :: "Env \<Rightarrow> string \<Rightarrow> World \<Rightarrow> (World \<times> nat) option" where
  "spawn env ref w =
     (case protos env ref of
        None \<Rightarrow> None
      | Some p \<Rightarrow>
          let x = ensureStack (p\<lparr>location := None, contents := [], proto := ref\<rparr>)
          in Some (w\<lparr>objs := (objs w)(nextObj w := x), nextObj := nextObj w + 1\<rparr>, nextObj w))"

fun merge_loop :: "nat \<Rightarrow> int \<Rightarrow> nat list \<Rightarrow> World \<Rightarrow> bool \<times> World" where
  "merge_loop src limit [] w = (False, w)"
| "merge_loop src limit (held # hs) w =
     (if held = src \<or> proto (objs w held) \<noteq> proto (objs w src) \<or> \<not> isMaterial (objs w held)
      then merge_loop src limit hs w
      else
        let room = limit - itemStackCount (objs w held)
        in if room \<le> 0 then merge_loop src limit hs w
           else
             let moved = (if itemStackCount (objs w src) > room then room else itemStackCount (objs w src));
                 w1 = setItemStackCount held (itemStackCount (objs w held) + moved) w;
                 w2 = setItemStackCount src (itemStackCount (objs w1 src) - moved) w1
             in if itemStackCount (objs w2 src) \<le> 0 then (True, w2) else merge_loop src limit hs w2)"

definition mergeStackInto :: "nat \<Rightarrow> nat \<Rightarrow> World \<Rightarrow> bool \<times> World" where
  "mergeStackInto dest src w =
     (if \<not> isMaterial (objs w src) then (False, w)
      else merge_loop src (stackMax (objs w src)) (contents (objs w dest)) w)"

text \<open>Merge an item just received, and drop it from the tree when a held stack absorbed it.\<close>

definition fold_in :: "nat \<Rightarrow> nat \<Rightarrow> World \<Rightarrow> World" where
  "fold_in i item w =
     (case mergeStackInto i item w of (absorbed, w1) \<Rightarrow> if absorbed then removeContent i item w1 else w1)"

definition splitStack :: "Env \<Rightarrow> nat \<Rightarrow> nat \<Rightarrow> int \<Rightarrow> World \<Rightarrow> World \<times> nat option" where
  "splitStack env own item n w =
     (if \<not> isMaterial (objs w item) \<or> n < 1 \<or> n \<ge> itemStackCount (objs w item) then (w, None)
      else
        (case spawn env (proto (objs w item)) w of
           None \<Rightarrow> (w, None)
         | Some (w1, piece) \<Rightarrow>
             let w2 = setItemStackCount piece n w1;
                 w3 = setItemStackCount item (itemStackCount (objs w2 item) - n) w2
             in (Move env piece (Some own) w3, Some piece)))"

section \<open>Visibility and targeting\<close>

definition hasFlag :: "Obj \<Rightarrow> string \<Rightarrow> bool" where
  "hasFlag x f \<longleftrightarrow> isLiving x \<and> f \<in> set (flags x)"

definition hasItemTag :: "Obj \<Rightarrow> string \<Rightarrow> bool" where
  "hasItemTag x tag \<longleftrightarrow> tag = [] \<or> (case meta x of None \<Rightarrow> False | Some m \<Rightarrow> tag \<in> set (itags m))"

definition roomFlag :: "World \<Rightarrow> nat option \<Rightarrow> string \<Rightarrow> bool" where
  "roomFlag w r f \<longleftrightarrow> (case r of None \<Rightarrow> False | Some i \<Rightarrow> f \<in> set (roomFlags (objs w i)))"

definition emitsLight :: "Obj \<Rightarrow> bool" where
  "emitsLight x \<longleftrightarrow> hasFlag x ''light'' \<or> hasItemTag x ''light''"

definition roomIsLit :: "World \<Rightarrow> nat \<Rightarrow> bool" where
  "roomIsLit w r \<longleftrightarrow>
     list_ex (\<lambda>occ. emitsLight (objs w occ) \<or> list_ex (\<lambda>held. emitsLight (objs w held)) (contents (objs w occ)))
       (contents (objs w r))"

definition roomIsDark :: "World \<Rightarrow> nat option \<Rightarrow> bool" where
  "roomIsDark w r \<longleftrightarrow> (case r of None \<Rightarrow> False | Some i \<Rightarrow> roomFlag w r ''dark'' \<and> \<not> roomIsLit w i)"

definition visibleTo :: "World \<Rightarrow> nat \<Rightarrow> nat \<Rightarrow> bool" where
  "visibleTo w v t \<longleftrightarrow>
     (let x = objs w v; y = objs w t
      in if v = t then True
         else if hasFlag x ''holylight'' then True
         else if \<not> hasFlag x ''infravision'' \<and> location x = location y \<and> roomIsDark w (location x) then False
         else if hasFlag y ''wizinvis'' \<and> rank x < rank y then False
         else if hasFlag y ''invisible'' \<and> \<not> hasFlag x ''detect_invis'' then False
         else \<not> (hasFlag y ''hidden'' \<and> \<not> hasFlag x ''sense_hidden''))"

datatype Scope = ScopeInventory | ScopeRoomLiving | ScopeRoomItems | ScopeEquipment | ScopeContainer

definition roomContents :: "World \<Rightarrow> nat option \<Rightarrow> nat list" where
  "roomContents w r = (case r of None \<Rightarrow> [] | Some i \<Rightarrow> contents (objs w i))"

definition scope_entities :: "Env \<Rightarrow> World \<Rightarrow> nat \<Rightarrow> Scope \<Rightarrow> nat list" where
  "scope_entities env w a sc =
     (case sc of
        ScopeInventory \<Rightarrow> contents (objs w a)
      | ScopeRoomLiving \<Rightarrow> filter (\<lambda>e. e \<noteq> a \<and> isLiving (objs w e)) (roomContents w (location (objs w a)))
      | ScopeRoomItems \<Rightarrow> filter (\<lambda>e. e \<noteq> a \<and> \<not> isLiving (objs w e)) (roomContents w (location (objs w a)))
      | ScopeEquipment \<Rightarrow>
          (case wearer (objs w a) of
             None \<Rightarrow> []
           | Some wr \<Rightarrow> List.map_filter (map_of (worn wr)) (orderedRefs (vocab env)))
      | ScopeContainer \<Rightarrow> [])"

definition scopeCandidates :: "Env \<Rightarrow> World \<Rightarrow> nat \<Rightarrow> Scope list \<Rightarrow> nat list" where
  "scopeCandidates env w a scs = concat (map (scope_entities env w a) scs)"

definition hits :: "World \<Rightarrow> nat \<Rightarrow> TargetSpec \<Rightarrow> nat list \<Rightarrow> nat list" where
  "hits w a spec cands = filter (\<lambda>e. visibleTo w a e \<and> matchesKeywords spec (kws (objs w e))) cands"

definition Resolve :: "Env \<Rightarrow> World \<Rightarrow> nat \<Rightarrow> TargetSpec \<Rightarrow> Scope list \<Rightarrow> nat list" where
  "Resolve env w a spec scs =
     (if spec_empty spec then [] else selectMatches spec (hits w a spec (scopeCandidates env w a scs)))"

definition resolveInContainer :: "World \<Rightarrow> nat \<Rightarrow> nat \<Rightarrow> TargetSpec \<Rightarrow> nat list" where
  "resolveInContainer w a box spec =
     (if spec_empty spec then [] else selectMatches spec (hits w a spec (contents (objs w box))))"

definition Arg0 :: "string \<Rightarrow> string" where
  "Arg0 arg = fst (split arg)"

definition Target :: "Env \<Rightarrow> World \<Rightarrow> nat \<Rightarrow> string \<Rightarrow> Scope list \<Rightarrow> nat option" where
  "Target env w a arg scs =
     (case Resolve env w a (parseTargetSpec (Arg0 arg)) scs of [] \<Rightarrow> None | e # _ \<Rightarrow> Some e)"

section \<open>The transfer audit\<close>

definition containerNestDepthMax :: nat where "containerNestDepthMax = 64"

text \<open>The walk of a container's nesting, cut off at depth \<open>containerNestDepthMax\<close>: \<open>n\<close> levels are left.\<close>

fun stampReleasedTree :: "Released \<Rightarrow> nat \<Rightarrow> nat \<Rightarrow> World \<Rightarrow> World" where
  "stampReleasedTree rel 0 i w = upd i (\<lambda>x. x\<lparr>released := Some rel\<rparr>) w"
| "stampReleasedTree rel (Suc n) i w =
     foldl (\<lambda>w c. stampReleasedTree rel n c w) (upd i (\<lambda>x. x\<lparr>released := Some rel\<rparr>) w) (contents (objs w i))"

definition stampReleased :: "Env \<Rightarrow> nat \<Rightarrow> nat \<Rightarrow> World \<Rightarrow> World" where
  "stampReleased env item a w =
     (case pid (objs w a) of
        Some p \<Rightarrow>
          if auditEnabled env \<and> isPlayer (objs w a)
          then stampReleasedTree \<lparr>rel_pid = p, rel_name = oname (objs w a)\<rparr> containerNestDepthMax item w
          else w
      | None \<Rightarrow> w)"

definition auditItemTransfer :: "nat \<Rightarrow> Released \<Rightarrow> nat \<Rightarrow> World \<Rightarrow> World" where
  "auditItemTransfer a rel item w =
     (case pid (objs w a) of
        Some p \<Rightarrow>
          if isPlayer (objs w a)
          then w\<lparr>trail := trail w @ [\<lparr>au_from = rel_pid rel, au_to = p, au_item = proto (objs w item),
                                       au_stack = (case stack (objs w item) of Some n \<Rightarrow> n | None \<Rightarrow> 1)\<rparr>]\<rparr>
          else w
      | None \<Rightarrow> w)"

definition record1 :: "nat \<Rightarrow> nat \<Rightarrow> World \<Rightarrow> World" where
  "record1 a item w =
     (case released (objs w item) of
        None \<Rightarrow> w
      | Some rel \<Rightarrow>
          let w1 = upd item (\<lambda>x. x\<lparr>released := None\<rparr>) w
          in if rel_pid rel \<noteq> [] \<and> pid (objs w a) \<noteq> None \<and> pid (objs w a) \<noteq> Some (rel_pid rel)
             then auditItemTransfer a rel item w1 else w1)"

fun recordCrossCharTransferAt :: "nat \<Rightarrow> nat \<Rightarrow> nat \<Rightarrow> World \<Rightarrow> World" where
  "recordCrossCharTransferAt a 0 item w = record1 a item w"
| "recordCrossCharTransferAt a (Suc n) item w =
     foldl (\<lambda>w c. recordCrossCharTransferAt a n c w) (record1 a item w) (contents (objs w item))"

definition recordCrossCharTransfer :: "Env \<Rightarrow> nat \<Rightarrow> nat \<Rightarrow> World \<Rightarrow> World" where
  "recordCrossCharTransfer env a item w =
     (if auditEnabled env then recordCrossCharTransferAt a containerNestDepthMax item w else w)"

end
