(* ===== verification/Item_Verbs.thy ===== *)
theory Item_Verbs
  imports Items
begin

text \<open>
  The inventory and equipment verbs of \<open>internal/world/container.go\<close> and \<open>keep.go\<close>, with the gates of
  \<open>binding.go\<close> and the loot window of \<open>death.go\<close>. A command takes the clock, the acting entity and its
  argument, and returns what it says and the new world.
\<close>

datatype (plugins only: code size) reply = AskWhat | NotHere | NotYourself | TooHeavy nat | Got nat | NoSuchContainer | NotAContainer nat
  | IsClosed nat | NotYoursYet nat | NotInside nat | NotCarrying | MustRemove nat | MarkedKeep nat | BoundToYou nat
  | Dropped nat | InsideItself | CannotHoldMore nat | PutIn nat nat | NoStacks nat | CannotSplit | SplitOff nat
  | CannotWear nat | Wears nat string | AlreadyInHand | NotUsing | StopsUsing nat | AlreadyOpen nat | Opened nat
  | AlreadyClosed nat | ClosedIt nat | AlreadyKept nat | NowKept nat | NotKept nat | NoLongerKept nat

section \<open>Phrases\<close>

fun unwords :: "string list \<Rightarrow> string" where
  "unwords [] = []"
| "unwords [x] = x"
| "unwords (x # xs) = x @ '' '' @ unwords xs"

fun cut_word :: "string \<Rightarrow> string list \<Rightarrow> string list \<Rightarrow> (string list \<times> string list) option" where
  "cut_word kw before [] = None"
| "cut_word kw before (x # xs) =
     (if equalFold x kw \<and> before \<noteq> [] \<and> xs \<noteq> [] then Some (before, xs) else cut_word kw (before @ [x]) xs)"

definition splitKeyword :: "string \<Rightarrow> string \<Rightarrow> (string \<times> string) option" where
  "splitKeyword rest kw = map_option (\<lambda>(b, a). (unwords b, unwords a)) (cut_word kw [] (Fields rest))"

definition splitTrailingContainer :: "Env \<Rightarrow> World \<Rightarrow> nat \<Rightarrow> string \<Rightarrow> (string \<times> string) option" where
  "splitTrailingContainer env w a arg =
     (let ws = Fields arg
      in if length ws < 2 then None
         else if list_ex (\<lambda>e. container (objs w e) \<noteq> None)
                   (Resolve env w a (parseTargetSpec (last ws)) [ScopeRoomItems, ScopeInventory])
         then Some (unwords (butlast ws), last ws) else None)"

section \<open>Gates\<close>

definition hasRoom :: "Container \<Rightarrow> nat \<Rightarrow> bool" where
  "hasRoom c n \<longleftrightarrow> capacity c = 0 \<or> int n < capacity c"

definition equippedBlocked :: "World \<Rightarrow> nat \<Rightarrow> nat \<Rightarrow> bool" where
  "equippedBlocked w a item \<longleftrightarrow> worn_slot w a item \<noteq> None"

definition part_blocked :: "World \<Rightarrow> nat \<Rightarrow> nat \<Rightarrow> reply option" where
  "part_blocked w a item =
     (if equippedBlocked w a item then Some (MustRemove item)
      else if kept (objs w item) then Some (MarkedKeep item)
      else if bound (objs w item) then Some (BoundToYou item) else None)"

definition owned :: "CorpseOwner \<Rightarrow> bool" where
  "owned co \<longleftrightarrow> owner co \<noteq> [] \<or> ownerPID co \<noteq> []"

definition looterIsOwner :: "CorpseOwner \<Rightarrow> Obj \<Rightarrow> bool" where
  "looterIsOwner co x =
     (case pid x of
        Some p \<Rightarrow> if ownerPID co \<noteq> [] then ownerPID co = p else owner co \<noteq> [] \<and> owner co = oname x
      | None \<Rightarrow> owner co \<noteq> [] \<and> owner co = oname x)"

definition loot_refused :: "nat \<Rightarrow> World \<Rightarrow> nat \<Rightarrow> nat \<Rightarrow> bool" where
  "loot_refused now w a box \<longleftrightarrow>
     (case corpse (objs w box) of
        None \<Rightarrow> False
      | Some co \<Rightarrow> owned co \<and> \<not> looterIsOwner co (objs w a) \<and> now < until co)"

section \<open>Getting, dropping, putting\<close>

fun get_each :: "Env \<Rightarrow> nat \<Rightarrow> nat \<Rightarrow> nat list \<Rightarrow> World \<Rightarrow> reply list \<times> World" where
  "get_each env a box [] w = ([], w)"
| "get_each env a box (m # ms) w =
     (if \<not> canCarry env w a (itemWeight (objs w m))
      then (case get_each env a box ms w of (rs, w1) \<Rightarrow> (TooHeavy m # rs, w1))
      else (case get_each env a box ms (recordCrossCharTransfer env a m (Move env m (Some a) w)) of
              (rs, w1) \<Rightarrow> (Got m # rs, w1)))"

definition getFrom :: "Env \<Rightarrow> nat \<Rightarrow> nat \<Rightarrow> string \<Rightarrow> string \<Rightarrow> World \<Rightarrow> reply list \<times> World" where
  "getFrom env now a item cont w =
     (case Resolve env w a (parseTargetSpec cont) [ScopeRoomItems, ScopeInventory] of
        [] \<Rightarrow> ([NoSuchContainer], w)
      | box # _ \<Rightarrow>
          (case container (objs w box) of
             None \<Rightarrow> ([NotAContainer box], w)
           | Some cc \<Rightarrow>
               if closed cc then ([IsClosed box], w)
               else if loot_refused now w a box then ([NotYoursYet box], w)
               else (case resolveInContainer w a box (parseTargetSpec item) of
                       [] \<Rightarrow> ([NotInside box], w)
                     | ms \<Rightarrow> get_each env a box ms w)))"

definition cmdGet :: "Env \<Rightarrow> nat \<Rightarrow> nat \<Rightarrow> string \<Rightarrow> World \<Rightarrow> reply list \<times> World" where
  "cmdGet env now a arg w =
     (if Arg0 arg = [] then ([AskWhat], w)
      else
        (case splitKeyword arg ''from'' of
           Some (item, cont) \<Rightarrow> getFrom env now a item cont w
         | None \<Rightarrow>
             (case splitTrailingContainer env w a arg of
                Some (item, cont) \<Rightarrow> getFrom env now a item cont w
              | None \<Rightarrow>
                  (case Target env w a arg [ScopeRoomItems] of
                     None \<Rightarrow> ([NotHere], w)
                   | Some t \<Rightarrow>
                       if t = a then ([NotYourself], w)
                       else if \<not> canCarry env w a (itemWeight (objs w t)) then ([TooHeavy t], w)
                       else ([Got t], fold_in a t (recordCrossCharTransfer env a t (Move env t (Some a) w)))))))"

definition cmdDrop :: "Env \<Rightarrow> nat \<Rightarrow> string \<Rightarrow> World \<Rightarrow> reply list \<times> World" where
  "cmdDrop env a arg w =
     (if Arg0 arg = [] then ([AskWhat], w)
      else
        (case Target env w a arg [ScopeInventory] of
           None \<Rightarrow> ([NotCarrying], w)
         | Some t \<Rightarrow>
             (case part_blocked w a t of
                Some r \<Rightarrow> ([r], w)
              | None \<Rightarrow> ([Dropped t], stampReleased env t a (Move env t (location (objs w a)) w)))))"

fun put_each :: "Env \<Rightarrow> nat \<Rightarrow> nat \<Rightarrow> Container \<Rightarrow> nat list \<Rightarrow> World \<Rightarrow> reply list \<times> World" where
  "put_each env a box cc [] w = ([], w)"
| "put_each env a box cc (m # ms) w =
     (if m = box
      then (case put_each env a box cc ms w of (rs, w1) \<Rightarrow> (InsideItself # rs, w1))
      else
        (case part_blocked w a m of
           Some r \<Rightarrow> (case put_each env a box cc ms w of (rs, w1) \<Rightarrow> (r # rs, w1))
         | None \<Rightarrow>
             if \<not> hasRoom cc (length (contents (objs w box))) then ([CannotHoldMore box], w)
             else (case put_each env a box cc ms (stampReleased env m a (Move env m (Some box) w)) of
                     (rs, w1) \<Rightarrow> (PutIn m box # rs, w1))))"

definition cmdPut :: "Env \<Rightarrow> nat \<Rightarrow> string \<Rightarrow> World \<Rightarrow> reply list \<times> World" where
  "cmdPut env a arg w =
     (case splitKeyword arg ''in'' of
        None \<Rightarrow> ([AskWhat], w)
      | Some (item, cont) \<Rightarrow>
          if item = [] \<or> cont = [] then ([AskWhat], w)
          else
            (case Resolve env w a (parseTargetSpec item) [ScopeInventory] of
               [] \<Rightarrow> ([NotCarrying], w)
             | ms \<Rightarrow>
                 (case Resolve env w a (parseTargetSpec cont) [ScopeInventory, ScopeRoomItems] of
                    [] \<Rightarrow> ([NoSuchContainer], w)
                  | box # _ \<Rightarrow>
                      (case container (objs w box) of
                         None \<Rightarrow> ([NotAContainer box], w)
                       | Some cc \<Rightarrow>
                           if closed cc then ([IsClosed box], w) else put_each env a box cc ms w))))"

definition cmdSplit :: "Env \<Rightarrow> nat \<Rightarrow> string \<Rightarrow> World \<Rightarrow> reply list \<times> World" where
  "cmdSplit env a arg w =
     (case atoi (Arg0 arg) of
        None \<Rightarrow> ([AskWhat], w)
      | Some n \<Rightarrow>
          let what = trimSpace (trimPrefix arg (Arg0 arg))
          in if n < 1 then ([AskWhat], w)
             else if what = [] then ([AskWhat], w)
             else (case Resolve env w a (parseTargetSpec what) [ScopeInventory] of
                     [] \<Rightarrow> ([NotCarrying], w)
                   | item # _ \<Rightarrow>
                       if \<not> isMaterial (objs w item) then ([NoStacks item], w)
                       else (case splitStack env a item n w of
                               (w1, None) \<Rightarrow> ([CannotSplit], w1)
                             | (w1, Some piece) \<Rightarrow> ([SplitOff item], w1))))"

section \<open>Equipment\<close>

definition canWear :: "Wearable \<Rightarrow> string \<Rightarrow> bool" where
  "canWear wd loc \<longleftrightarrow> loc \<in> set (locs wd)"

definition actorWearer :: "Obj \<Rightarrow> Wearer" where
  "actorWearer x =
     (case wearer x of Some wr \<Rightarrow> wr | None \<Rightarrow> \<lparr>worn = [], wmods = Map.empty, wmuls = Map.empty, wsrc = None\<rparr>)"

definition fill_slot :: "nat \<Rightarrow> string \<Rightarrow> nat \<Rightarrow> World \<Rightarrow> World" where
  "fill_slot a loc item w =
     upd a (\<lambda>x. x\<lparr>wearer := Some ((actorWearer x)\<lparr>worn := AList.update loc item (worn (actorWearer x))\<rparr>)\<rparr>) w"

definition ensure_wearer :: "nat \<Rightarrow> World \<Rightarrow> World" where
  "ensure_wearer a w = upd a (\<lambda>x. x\<lparr>wearer := Some (actorWearer x)\<rparr>) w"

definition cmdWear :: "Env \<Rightarrow> nat \<Rightarrow> string \<Rightarrow> World \<Rightarrow> reply list \<times> World" where
  "cmdWear env a arg w =
     (if Arg0 arg = [] then ([AskWhat], w)
      else
        (case Target env w a arg [ScopeInventory] of
           None \<Rightarrow> ([NotCarrying], w)
         | Some t \<Rightarrow>
             (case wearable (objs w t) of
                None \<Rightarrow> ([CannotWear t], w)
              | Some wd \<Rightarrow>
                  (case find (\<lambda>loc. isWorn (vocab env) loc \<and> canWear wd loc \<and>
                                    map_of (worn (actorWearer (objs w a))) loc = None) (orderedRefs (vocab env)) of
                     None \<Rightarrow> ([CannotWear t], ensure_wearer a w)
                   | Some loc \<Rightarrow>
                       ([Wears t loc],
                        applyEquipAffects env a t False (applyWornMods a (bindOnEquip t (fill_slot a loc t w))))))))"

definition cmdWield :: "Env \<Rightarrow> nat \<Rightarrow> string \<Rightarrow> World \<Rightarrow> reply list \<times> World" where
  "cmdWield env a arg w =
     (if Arg0 arg = [] then ([AskWhat], w)
      else
        (case Target env w a arg [ScopeInventory] of
           None \<Rightarrow> ([NotCarrying], w)
         | Some t \<Rightarrow>
             let loc = wieldSlot (vocab env)
             in if (case wearable (objs w t) of None \<Rightarrow> True | Some wd \<Rightarrow> \<not> canWear wd loc) then ([CannotWear t], w)
                else if map_of (worn (actorWearer (objs w a))) loc \<noteq> None then ([AlreadyInHand], w)
                else ([Wears t loc],
                      applyEquipAffects env a t False (applyWornMods a (bindOnEquip t (fill_slot a loc t w))))))"

definition cmdHold :: "Env \<Rightarrow> nat \<Rightarrow> string \<Rightarrow> World \<Rightarrow> reply list \<times> World" where
  "cmdHold env a arg w =
     (if Arg0 arg = [] then ([AskWhat], w)
      else
        (case Target env w a arg [ScopeInventory] of
           None \<Rightarrow> ([NotCarrying], w)
         | Some t \<Rightarrow>
             let loc = holdSlot (vocab env)
             in if (case wearable (objs w t) of None \<Rightarrow> True | Some wd \<Rightarrow> \<not> canWear wd loc) then ([CannotWear t], w)
                else if map_of (worn (actorWearer (objs w a))) loc \<noteq> None then ([AlreadyInHand], w)
                else ([Wears t loc], applyEquipAffects env a t False (applyWornMods a (fill_slot a loc t w)))))"

definition cmdRemove :: "Env \<Rightarrow> nat \<Rightarrow> string \<Rightarrow> World \<Rightarrow> reply list \<times> World" where
  "cmdRemove env a arg w =
     (if Arg0 arg = [] then ([AskWhat], w)
      else
        (case Target env w a arg [ScopeEquipment] of
           None \<Rightarrow> ([NotUsing], w)
         | Some t \<Rightarrow>
             (case worn_slot w a t of
                None \<Rightarrow> ([NotUsing], w)
              | Some _ \<Rightarrow> ([StopsUsing t], unequipFromWearer env a t w))))"

section \<open>Opening and keeping\<close>

definition targetContainer :: "Env \<Rightarrow> World \<Rightarrow> nat \<Rightarrow> string \<Rightarrow> reply + nat \<times> Container" where
  "targetContainer env w a arg =
     (if Arg0 arg = [] then Inl AskWhat
      else
        (case Target env w a arg [ScopeRoomItems, ScopeInventory] of
           None \<Rightarrow> Inl NotHere
         | Some box \<Rightarrow>
             (case container (objs w box) of None \<Rightarrow> Inl (NotAContainer box) | Some cc \<Rightarrow> Inr (box, cc))))"

definition set_closed :: "nat \<Rightarrow> bool \<Rightarrow> World \<Rightarrow> World" where
  "set_closed box b w = upd box (\<lambda>x. x\<lparr>container := map_option (\<lambda>c. c\<lparr>closed := b\<rparr>) (container x)\<rparr>) w"

definition cmdOpen :: "Env \<Rightarrow> nat \<Rightarrow> string \<Rightarrow> World \<Rightarrow> reply list \<times> World" where
  "cmdOpen env a arg w =
     (case targetContainer env w a arg of
        Inl r \<Rightarrow> ([r], w)
      | Inr (box, cc) \<Rightarrow> if \<not> closed cc then ([AlreadyOpen box], w) else ([Opened box], set_closed box False w))"

definition cmdClose :: "Env \<Rightarrow> nat \<Rightarrow> string \<Rightarrow> World \<Rightarrow> reply list \<times> World" where
  "cmdClose env a arg w =
     (case targetContainer env w a arg of
        Inl r \<Rightarrow> ([r], w)
      | Inr (box, cc) \<Rightarrow> if closed cc then ([AlreadyClosed box], w) else ([ClosedIt box], set_closed box True w))"

definition cmdKeep :: "Env \<Rightarrow> nat \<Rightarrow> string \<Rightarrow> World \<Rightarrow> reply list \<times> World" where
  "cmdKeep env a arg w =
     (if Arg0 arg = [] then ([AskWhat], w)
      else
        (case Target env w a arg [ScopeInventory] of
           None \<Rightarrow> ([NotCarrying], w)
         | Some t \<Rightarrow>
             if kept (objs w t) then ([AlreadyKept t], w) else ([NowKept t], upd t (\<lambda>x. x\<lparr>kept := True\<rparr>) w)))"

definition cmdUnkeep :: "Env \<Rightarrow> nat \<Rightarrow> string \<Rightarrow> World \<Rightarrow> reply list \<times> World" where
  "cmdUnkeep env a arg w =
     (if Arg0 arg = [] then ([AskWhat], w)
      else
        (case Target env w a arg [ScopeInventory] of
           None \<Rightarrow> ([NotCarrying], w)
         | Some t \<Rightarrow>
             if \<not> kept (objs w t) then ([NotKept t], w) else ([NoLongerKept t], upd t (\<lambda>x. x\<lparr>kept := False\<rparr>) w)))"

end
