(* ===== verification/Crafting.thy ===== *)
theory Crafting
  imports Items "HOL-Library.List_Lexorder" "HOL-Library.Char_ord"
begin

text \<open>
  The item ops of crafting: \<open>internal/world/crafting_op.go\<close> (consume, produce, augment), \<open>recipe.go\<close>
  (recipes), \<open>recipe_target.go\<close> (naming a recipe) and the corpse of \<open>death.go\<close>. The verdict of the
  cross-player guard is an argument.

  The loop that consumes items removes one per round; it carries as fuel the number of items held, and
  \<open>None\<close> is a loop that does not end.
\<close>

datatype craftErr = NoItemNamed | ItemsShort | RanOut | UnknownProto | NotHeld | UnknownRecipe

section \<open>Consuming\<close>

definition findHeldByProto :: "World \<Rightarrow> nat \<Rightarrow> string \<Rightarrow> nat option" where
  "findHeldByProto w a ref = find (\<lambda>i. proto (objs w i) = ref) (contents (objs w a))"

definition units :: "Obj \<Rightarrow> int" where
  "units x = (if isMaterial x then itemStackCount x else 1)"

definition heldQuantity :: "World \<Rightarrow> nat \<Rightarrow> string \<Rightarrow> int" where
  "heldQuantity w a ref =
     sum_list (map (\<lambda>i. units (objs w i)) (filter (\<lambda>i. proto (objs w i) = ref) (contents (objs w a))))"

fun consume_loop :: "nat \<Rightarrow> Env \<Rightarrow> nat \<Rightarrow> string \<Rightarrow> int \<Rightarrow> World \<Rightarrow> ((craftErr + unit) \<times> World) option" where
  "consume_loop 0 env a ref qty w = (if qty \<le> 0 then Some (Inr (), w) else None)"
| "consume_loop (Suc k) env a ref qty w =
     (if qty \<le> 0 then Some (Inr (), w)
      else
        (case findHeldByProto w a ref of
           None \<Rightarrow> Some (Inl RanOut, w)
         | Some it \<Rightarrow>
             if isMaterial (objs w it) \<and> itemStackCount (objs w it) > qty
             then Some (Inr (), setItemStackCount it (itemStackCount (objs w it) - qty) w)
             else consume_loop k env a ref (qty - units (objs w it)) (Move env it None w)))"

definition consumeQuantity :: "Env \<Rightarrow> nat \<Rightarrow> string \<Rightarrow> int \<Rightarrow> World \<Rightarrow> ((craftErr + unit) \<times> World) option" where
  "consumeQuantity env a ref qty w =
     (if heldQuantity w a ref < qty then Some (Inl ItemsShort, w)
      else consume_loop (Suc (length (contents (objs w a)))) env a ref qty w)"

definition opQty :: "flt \<Rightarrow> int" where
  "opQty amount = (if to_int amount \<ge> 1 then to_int amount else 1)"

definition opConsumeItem :: "Env \<Rightarrow> bool \<Rightarrow> nat \<Rightarrow> string \<Rightarrow> flt \<Rightarrow> World \<Rightarrow> ((craftErr + unit) \<times> World) option" where
  "opConsumeItem env guard a item amount w =
     (if item = [] then Some (Inl NoItemNamed, w)
      else if \<not> guard then Some (Inr (), w)
      else consumeQuantity env a item (opQty amount) w)"

section \<open>Producing and augmenting\<close>

definition applyProduceBind :: "nat \<Rightarrow> string \<Rightarrow> World \<Rightarrow> World" where
  "applyProduceBind item how w = (if how = ''bound'' then bindItem item w else w)"

fun produce_more :: "nat \<Rightarrow> Env \<Rightarrow> nat \<Rightarrow> string \<Rightarrow> string \<Rightarrow> World \<Rightarrow> World" where
  "produce_more 0 env a item how w = w"
| "produce_more (Suc n) env a item how w =
     (case spawn env item w of
        None \<Rightarrow> w
      | Some (w1, it) \<Rightarrow> produce_more n env a item how (Move env it (Some a) (applyProduceBind it how w1)))"

definition opProduceItem :: "Env \<Rightarrow> bool \<Rightarrow> nat \<Rightarrow> string \<Rightarrow> flt \<Rightarrow> string \<Rightarrow> World \<Rightarrow> (craftErr + unit) \<times> World" where
  "opProduceItem env guard a item amount how w =
     (if item = [] then (Inl NoItemNamed, w)
      else if \<not> guard then (Inr (), w)
      else
        (case spawn env item w of
           None \<Rightarrow> (Inl UnknownProto, w)
         | Some (w1, it) \<Rightarrow>
             if isMaterial (objs w1 it)
             then (Inr (), fold_in a it (Move env it (Some a)
                             (applyProduceBind it how (setItemStackCount it (opQty amount) w1))))
             else (Inr (), produce_more (nat (opQty amount) - 1) env a item how
                             (Move env it (Some a) (applyProduceBind it how w1)))))"

definition bump_affix :: "string \<Rightarrow> flt \<Rightarrow> (string \<times> flt) list \<Rightarrow> (string \<times> flt) list" where
  "bump_affix name v affixes =
     AList.update name (fadd (case map_of affixes name of None \<Rightarrow> Fin 0 | Some x \<Rightarrow> x) v) affixes"

definition opAugmentItem :: "Env \<Rightarrow> bool \<Rightarrow> nat \<Rightarrow> string \<Rightarrow> string \<Rightarrow> flt \<Rightarrow> World \<Rightarrow> (craftErr + unit) \<times> World" where
  "opAugmentItem env guard a item name amount w =
     (if item = [] then (Inl NoItemNamed, w)
      else
        (case findHeldByProto w a item of
           None \<Rightarrow> (Inl NotHeld, w)
         | Some it \<Rightarrow>
             if \<not> guard then (Inr (), w)
             else
               let stat = (if name = [] then ''power'' else name);
                   v = (if amount = Fin 0 then Fin 1 else amount);
                   w1 = upd it (\<lambda>x. x\<lparr>quality := (case quality x of
                                                     None \<Rightarrow> Some (0, bump_affix stat v [])
                                                   | Some (l, as) \<Rightarrow> Some (l, bump_affix stat v as))\<rparr>) w
               in (Inr (), if worn_slot w1 a it \<noteq> None then recomputeWornMods a w1 else w1)))"

section \<open>Recipes\<close>

record recipeDef =
  rc_ref :: string
  rc_name :: string
  rc_aliases :: "string list"
  rc_profession :: string
  rc_track :: string
  rc_skill :: string
  rc_minSkill :: int
  rc_station :: string
  rc_inputs :: "(string \<times> int) list"
  rc_item :: string
  rc_qty :: int
  rc_bind :: string
  rc_qualityBase :: int

definition max1 :: "int \<Rightarrow> int" where
  "max1 n = (if n < 1 then 1 else n)"

definition buildRecipeDef :: "recipeDef \<Rightarrow> recipeDef" where
  "buildRecipeDef d = d\<lparr>rc_qty := max1 (rc_qty d), rc_inputs := map (\<lambda>(i, q). (i, max1 q)) (rc_inputs d)\<rparr>"

record Crafts =
  recipes :: "recipeDef list"
  tracks :: "string \<rightharpoonup> string"

definition recipeSkillAttr :: "Crafts \<Rightarrow> recipeDef \<Rightarrow> string" where
  "recipeSkillAttr cr def =
     (case (if rc_track def \<noteq> [] then tracks cr (rc_track def) else None) of
        Some lv \<Rightarrow> if lv \<noteq> [] then lv else rc_skill def
      | None \<Rightarrow> rc_skill def)"

definition recipeDisplayName :: "recipeDef \<Rightarrow> string" where
  "recipeDisplayName def = (if rc_name def \<noteq> [] then rc_name def else rc_ref def)"

definition isRecipeSep :: "char \<Rightarrow> bool" where
  "isRecipeSep c \<longleftrightarrow> c = CHR '' '' \<or> c = CHR 0x09 \<or> c = CHR '':'' \<or> c = CHR ''_'' \<or> c = CHR ''-''"

fun tokens :: "string \<Rightarrow> string \<Rightarrow> string list" where
  "tokens acc [] = (if acc = [] then [] else [acc])"
| "tokens acc (c # cs) =
     (if isRecipeSep c then (if acc = [] then [] else [acc]) @ tokens [] cs else tokens (acc @ [c]) cs)"

definition ref_leaf :: "string \<Rightarrow> string" where
  "ref_leaf ref = rev (takeWhile (\<lambda>c. c \<noteq> CHR '':'') (rev ref))"

definition recipeKeywords :: "recipeDef \<Rightarrow> string list" where
  "recipeKeywords def =
     map toLower (concat (map (tokens []) (rc_aliases def @ [rc_name def, ref_leaf (rc_ref def)]))) @
     (if ref_leaf (rc_ref def) \<noteq> [] then [toLower (ref_leaf (rc_ref def))] else [])"

definition hasProfession :: "Obj \<Rightarrow> string \<Rightarrow> bool" where
  "hasProfession x p \<longleftrightarrow> isLiving x \<and> p \<in> set (professions x)"

definition craftableRecipes :: "Crafts \<Rightarrow> Obj \<Rightarrow> recipeDef list" where
  "craftableRecipes cr x =
     sort_key (\<lambda>d. (recipeDisplayName d, rc_ref d))
       (filter (\<lambda>d. rc_profession d = [] \<or> hasProfession x (rc_profession d)) (recipes cr))"

definition resolveRecipe :: "Crafts \<Rightarrow> Obj \<Rightarrow> string \<Rightarrow> recipeDef option" where
  "resolveRecipe cr x arg =
     (let spec = parseTargetSpec arg;
          found = filter (\<lambda>d. matchesKeywords spec (recipeKeywords d)) (craftableRecipes cr x)
      in if spec_empty spec \<or> sel_all spec then None
         else if sel_index spec > 0
         then (if sel_index spec \<le> int (length found) then Some (found ! nat (sel_index spec - 1)) else None)
         else if sel_index spec < 0 then None
         else (case found of [] \<Rightarrow> None | d # _ \<Rightarrow> Some d))"

definition skillLevel :: "Env \<Rightarrow> World \<Rightarrow> nat \<Rightarrow> string \<Rightarrow> int" where
  "skillLevel env w a name = (case ents (zn w) a of None \<Rightarrow> 0 | Some e \<Rightarrow> to_int (attrOf (adefs (rules env)) e name))"

fun produce_output :: "nat \<Rightarrow> Env \<Rightarrow> nat \<Rightarrow> int \<Rightarrow> recipeDef \<Rightarrow> World \<Rightarrow> World" where
  "produce_output 0 env a level def w = w"
| "produce_output (Suc n) env a level def w =
     (case spawn env (rc_item def) w of
        None \<Rightarrow> w
      | Some (w1, it) \<Rightarrow>
          let w2 = (if level > 0 then upd it (\<lambda>x. x\<lparr>quality := Some (level, [])\<rparr>) w1 else w1);
              w3 = Move env it (Some a) (applyProduceBind it (rc_bind def) w2)
          in produce_output n env a level def (if isMaterial (objs w3 it) then fold_in a it w3 else w3))"

definition produceRecipeOutput :: "Env \<Rightarrow> Crafts \<Rightarrow> nat \<Rightarrow> recipeDef \<Rightarrow> World \<Rightarrow> World" where
  "produceRecipeOutput env cr a def w =
     (let name = recipeSkillAttr cr def;
          level = rc_qualityBase def + (if name \<noteq> [] then skillLevel env w a name else 0)
      in produce_output (nat (rc_qty def)) env a level def w)"

fun consume_inputs :: "Env \<Rightarrow> nat \<Rightarrow> (string \<times> int) list \<Rightarrow> World \<Rightarrow> ((craftErr + unit) \<times> World) option" where
  "consume_inputs env a [] w = Some (Inr (), w)"
| "consume_inputs env a ((item, q) # ins) w =
     (case consumeQuantity env a item q w of
        None \<Rightarrow> None
      | Some (Inl e, w1) \<Rightarrow> Some (Inl e, w1)
      | Some (Inr _, w1) \<Rightarrow> consume_inputs env a ins w1)"

datatype craftResult = CraftFailed craftErr | Refused string | Crafted recipeDef | Guarded

definition recipe_refused :: "Env \<Rightarrow> Crafts \<Rightarrow> nat \<Rightarrow> recipeDef \<Rightarrow> World \<Rightarrow> string option" where
  "recipe_refused env cr a def w =
     (let name = recipeSkillAttr cr def
      in if rc_profession def \<noteq> [] \<and> \<not> hasProfession (objs w a) (rc_profession def) then Some ''training''
         else if name \<noteq> [] \<and> rc_minSkill def > 0 \<and> skillLevel env w a name < rc_minSkill def then Some ''skill''
         else if rc_station def \<noteq> [] \<and> \<not> roomFlag w (location (objs w a)) (rc_station def) then Some ''station''
         else if list_ex (\<lambda>(item, q). heldQuantity w a item < q) (rc_inputs def) then Some ''components''
         else None)"

definition opCraftRecipe :: "Env \<Rightarrow> Crafts \<Rightarrow> bool \<Rightarrow> nat \<Rightarrow> string \<Rightarrow> string \<Rightarrow> World \<Rightarrow> (craftResult \<times> World) option" where
  "opCraftRecipe env cr guard a ref arg w =
     (case (if ref \<noteq> [] then find (\<lambda>d. rc_ref d = ref) (recipes cr) else resolveRecipe cr (objs w a) arg) of
        None \<Rightarrow> Some (if ref \<noteq> [] then CraftFailed UnknownRecipe else Refused ''unknown'', w)
      | Some def \<Rightarrow>
          if \<not> guard then Some (Guarded, w)
          else
            (case recipe_refused env cr a def w of
               Some why \<Rightarrow> Some (Refused why, w)
             | None \<Rightarrow>
                 (case consume_inputs env a (rc_inputs def) w of
                    None \<Rightarrow> None
                  | Some (Inl e, w1) \<Rightarrow> Some (CraftFailed e, w1)
                  | Some (Inr _, w1) \<Rightarrow> Some (Crafted def, produceRecipeOutput env cr a def w1))))"

section \<open>Corpses\<close>

definition corpseLootWindow :: nat where "corpseLootWindow = 60"

definition blank_obj :: "string \<Rightarrow> Obj" where
  "blank_obj ref =
     \<lparr>proto = ref, oname = [], kws = [], pid = None, location = None, contents = [], isLiving = False,
      isPlayer = False, flags = [], roomFlags = [], rank = 0, professions = [], container = None, wearable = None,
      wearer = None, meta = None, bound = False, kept = False, stack = None, weight = None, quality = None,
      corpse = None, released = None\<rparr>"

definition newCorpse :: "Obj \<Rightarrow> Obj" where
  "newCorpse victim =
     (blank_obj ''corpse'')\<lparr>oname := ''the corpse of '' @ oname victim, kws := [''corpse'', ''remains''],
        container := Some \<lparr>capacity = 0, closed = False\<rparr>\<rparr>"

definition corpse_owner :: "nat \<Rightarrow> Obj \<Rightarrow> CorpseOwner option" where
  "corpse_owner now killer =
     (if isPlayer killer \<and> oname killer \<noteq> []
      then Some \<lparr>owner = oname killer, ownerPID = (case pid killer of Some p \<Rightarrow> p | None \<Rightarrow> []),
                 until = now + corpseLootWindow\<rparr>
      else None)"

definition makeCorpse :: "Env \<Rightarrow> nat \<Rightarrow> nat \<Rightarrow> nat option \<Rightarrow> World \<Rightarrow> World" where
  "makeCorpse env now victim killer w =
     (let c = nextObj w;
          body = (newCorpse (objs w victim))\<lparr>corpse := (case killer of None \<Rightarrow> None | Some k \<Rightarrow> corpse_owner now (objs w k))\<rparr>;
          w1 = w\<lparr>objs := (objs w)(c := body), nextObj := c + 1\<rparr>;
          w2 = foldl (\<lambda>w item. Move env item (Some c) w) w1 (contents (objs w victim));
          w3 = (case location (objs w victim) of None \<Rightarrow> w2 | Some r \<Rightarrow> Move env c (Some r) w2)
      in Move env victim None w3)"

end
