(* ===== verification/Item_Tree.thy ===== *)
theory Item_Tree
  imports Item_Verbs Crafting
begin

text \<open>
  The tree of entities: what every item operation does to containment. Equipment, binding, audit marks and
  the living half never touch it (\<open>same_tree\<close>), and \<open>Move\<close> is the only operation that does.
\<close>

section \<open>Operations that leave the tree alone\<close>

text \<open>Entities that differ in worn slots, marks and counts only; and what is bound stays bound.\<close>

definition frame :: "Obj \<Rightarrow> Obj" where
  "frame x = x\<lparr>wearer := None, bound := False, kept := False, stack := None, quality := None, released := None,
               container := None\<rparr>"

definition same_tree :: "World \<Rightarrow> World \<Rightarrow> bool" where
  "same_tree w w' \<longleftrightarrow>
     (\<forall>j. frame (objs w' j) = frame (objs w j) \<and> (bound (objs w j) \<longrightarrow> bound (objs w' j))) \<and> nextObj w' = nextObj w"

lemma frame_fields:
  assumes "frame x = frame y"
  shows "location x = location y" "contents x = contents y" "isPlayer x = isPlayer y" "isLiving x = isLiving y"
    "proto x = proto y" "meta x = meta y" "kws x = kws y" "flags x = flags y" "roomFlags x = roomFlags y"
    "rank x = rank y" "oname x = oname y" "pid x = pid y" "corpse x = corpse y" "wearable x = wearable y"
    "professions x = professions y" "weight x = weight y"
  using assms by (cases x; cases y; simp add: frame_def)+

lemma same_tree_fields:
  assumes "same_tree w w'"
  shows "location (objs w' j) = location (objs w j)" "contents (objs w' j) = contents (objs w j)"
    "isPlayer (objs w' j) = isPlayer (objs w j)" "isLiving (objs w' j) = isLiving (objs w j)"
    "proto (objs w' j) = proto (objs w j)" "meta (objs w' j) = meta (objs w j)" "kws (objs w' j) = kws (objs w j)"
    "flags (objs w' j) = flags (objs w j)" "roomFlags (objs w' j) = roomFlags (objs w j)"
    "rank (objs w' j) = rank (objs w j)" "oname (objs w' j) = oname (objs w j)" "pid (objs w' j) = pid (objs w j)"
    "corpse (objs w' j) = corpse (objs w j)" "wearable (objs w' j) = wearable (objs w j)"
  using frame_fields [of "objs w' j" "objs w j"] assms by (simp_all add: same_tree_def)

lemma frame_update [simp]:
  "frame (x\<lparr>wearer := wr\<rparr>) = frame x" "frame (x\<lparr>bound := b\<rparr>) = frame x" "frame (x\<lparr>kept := b\<rparr>) = frame x"
  "frame (x\<lparr>stack := s\<rparr>) = frame x" "frame (x\<lparr>quality := q\<rparr>) = frame x" "frame (x\<lparr>released := r\<rparr>) = frame x"
  "frame (x\<lparr>container := c\<rparr>) = frame x"
  by (simp_all add: frame_def)

lemma same_tree_refl [simp]: "same_tree w w"
  by (simp add: same_tree_def)

lemma same_tree_trans: "same_tree w w1 \<Longrightarrow> same_tree w1 w2 \<Longrightarrow> same_tree w w2"
  by (simp add: same_tree_def)

lemma same_tree_upd:
  "(\<And>x. frame (f x) = frame x) \<Longrightarrow> (\<And>x. bound x \<Longrightarrow> bound (f x)) \<Longrightarrow> same_tree w (upd i f w)"
  by (simp add: same_tree_def upd_def)

lemma same_tree_zone [simp]: "same_tree w (w\<lparr>zn := z\<rparr>)" "same_tree w (w\<lparr>trail := t\<rparr>)" "same_tree w (on_living i f w)"
  by (auto simp: same_tree_def on_living_def split: option.splits)

lemma same_tree_foldl:
  assumes "\<And>w c. same_tree w (f w c)"
  shows "same_tree w (foldl f w cs)"
  by (induction cs arbitrary: w) (auto intro: same_tree_trans assms)

lemma ensureWornModSource_tree: "same_tree w (ensureWornModSource i w)"
proof -
  have "same_tree w (upd i (\<lambda>x. x\<lparr>wearer := y\<rparr>) (on_living i f w))" for y f
    by (rule same_tree_trans [OF _ same_tree_upd]) simp_all
  then show ?thesis
    by (simp add: ensureWornModSource_def Let_def split: option.split)
qed

lemma recomputeWornMods_tree: "same_tree w (recomputeWornMods i w)"
proof -
  have "same_tree w (upd i (\<lambda>x. x\<lparr>wearer := y\<rparr>) (on_living i f w))" for y f
    by (rule same_tree_trans [OF _ same_tree_upd]) simp_all
  then show ?thesis
    by (simp add: recomputeWornMods_def Let_def split: option.split)
qed

lemma applyWornMods_tree: "same_tree w (applyWornMods i w)"
  unfolding applyWornMods_def by (rule same_tree_trans [OF ensureWornModSource_tree recomputeWornMods_tree])

lemma applyEquipAffects_tree: "same_tree w (applyEquipAffects env i item q w)"
  by (simp add: applyEquipAffects_def)

lemma unequipFromWearer_tree: "same_tree w (unequipFromWearer env h item w)"
proof -
  have "same_tree w (removeEquipAffects env h item (applyWornMods h (upd h (\<lambda>x. x\<lparr>wearer := y\<rparr>) w)))" for y
    unfolding removeEquipAffects_def
    by (rule same_tree_trans [OF same_tree_trans [OF same_tree_upd applyWornMods_tree] same_tree_zone(1)]) simp_all
  then show ?thesis
    by (auto simp: unequipFromWearer_def split: option.splits)
qed

lemma stampReleasedTree_tree: "same_tree w (stampReleasedTree rel n i w)"
proof (induction n arbitrary: i w)
  case (Suc n)
  show ?case
    unfolding stampReleasedTree.simps
    by (rule same_tree_trans [OF same_tree_upd same_tree_foldl]) (simp_all add: Suc.IH)
qed (simp add: same_tree_upd)

lemma stampReleased_tree: "same_tree w (stampReleased env item a w)"
  by (simp add: stampReleased_def stampReleasedTree_tree split: option.split)

lemma record1_tree: "same_tree w (record1 a item w)"
proof -
  have "same_tree w1 (auditItemTransfer a rel item w1)" for w1 rel
    by (simp add: auditItemTransfer_def split: option.split)
  then have "same_tree w (auditItemTransfer a rel item (upd item (\<lambda>x. x\<lparr>released := None\<rparr>) w))" for rel
    by (rule same_tree_trans [OF same_tree_upd, rotated 2]) simp_all
  then show ?thesis
    by (auto simp: record1_def Let_def same_tree_upd split: option.split)
qed

lemma recordCrossCharTransferAt_tree: "same_tree w (recordCrossCharTransferAt a n i w)"
proof (induction n arbitrary: i w)
  case (Suc n)
  show ?case
    unfolding recordCrossCharTransferAt.simps
    by (rule same_tree_trans [OF record1_tree same_tree_foldl]) (rule Suc.IH)
qed (simp add: record1_tree)

lemma recordCrossCharTransfer_tree: "same_tree w (recordCrossCharTransfer env a i w)"
  by (simp add: recordCrossCharTransfer_def recordCrossCharTransferAt_tree)

lemma setItemStackCount_tree: "same_tree w (setItemStackCount i n w)"
  by (simp add: setItemStackCount_def same_tree_upd)

lemma bindItem_tree: "same_tree w (bindItem i w)" "same_tree w (bindOnEquip i w)" "same_tree w (applyProduceBind i how w)"
  by (simp_all add: bindItem_def bindOnEquip_def applyProduceBind_def same_tree_upd)

lemma merge_loop_tree: "same_tree w (snd (merge_loop src limit hs w))"
proof (induction hs arbitrary: w)
  case (Cons h hs)
  have "same_tree w (setItemStackCount src m (setItemStackCount h n w))" for m n
    by (rule same_tree_trans [OF setItemStackCount_tree setItemStackCount_tree])
  then show ?case
    using Cons.IH by (auto simp: Let_def intro: same_tree_trans)
qed simp

lemma mergeStackInto_tree: "same_tree w (snd (mergeStackInto d src w))"
  by (simp add: mergeStackInto_def merge_loop_tree)

section \<open>Moving\<close>

lemma Move_location: "location (objs (Move env e dest w) j) = (if j = e then dest else location (objs w j))"
proof -
  have "location (objs (unequipFromWearer env h e w) j) = location (objs w j)" for h j
    using unequipFromWearer_tree by (auto simp: same_tree_def intro: frame_fields)
  then show ?thesis
    by (auto simp: Move_def Let_def upd_def removeContent_def split: option.splits)
qed

lemma Move_contents:
  "contents (objs (Move env e dest w) j) =
     (if location (objs w e) = Some j then remove1 e (contents (objs w j)) else contents (objs w j)) @
     (if dest = Some j then [e] else [])"
proof -
  have "contents (objs (unequipFromWearer env h e w) j) = contents (objs w j)" for h j
    using unequipFromWearer_tree by (auto simp: same_tree_def intro: frame_fields)
  then show ?thesis
    by (auto simp: Move_def Let_def upd_def removeContent_def split: option.splits)
qed


definition bare :: "Obj \<Rightarrow> Obj" where
  "bare x = (frame x)\<lparr>location := None, contents := []\<rparr>"

lemma bare_update [simp]: "bare (x\<lparr>location := l\<rparr>) = bare x" "bare (x\<lparr>contents := cs\<rparr>) = bare x"
  by (simp_all add: bare_def frame_def)

lemma bare_fields:
  assumes "bare x = bare y"
  shows "isPlayer x = isPlayer y" "isLiving x = isLiving y" "proto x = proto y" "meta x = meta y"
    "wearable x = wearable y" "corpse x = corpse y" "pid x = pid y" "kws x = kws y"
  using assms by (cases x; cases y; simp add: bare_def frame_def)+

lemma Move_bare: "bare (objs (Move env e dest w) j) = bare (objs w j)"
proof -
  have "bare (objs (unequipFromWearer env h e w) j) = bare (objs w j)" for h j
    using unequipFromWearer_tree by (auto simp: same_tree_def bare_def)
  then show ?thesis
    by (auto simp: Move_def Let_def upd_def removeContent_def split: option.splits)
qed

lemma Move_next [simp]: "nextObj (Move env e dest w) = nextObj w"
  using unequipFromWearer_tree [of w env _ e]
  by (auto simp: Move_def Let_def upd_def removeContent_def same_tree_def split: option.splits)

lemma Move_fields [simp]:
  "isPlayer (objs (Move env e dest w) j) = isPlayer (objs w j)"
  "isLiving (objs (Move env e dest w) j) = isLiving (objs w j)"
  "proto (objs (Move env e dest w) j) = proto (objs w j)"
  "meta (objs (Move env e dest w) j) = meta (objs w j)"
  using bare_fields [OF Move_bare [of env e dest w j]] by simp_all

text \<open>Marks, counts and slots: \<open>Move\<close> changes worn slots only.\<close>

definition marks :: "Obj \<Rightarrow> bool \<times> bool \<times> int option" where
  "marks x = (bound x, kept x, stack x)"

lemma unequip_marks: "marks (objs (unequipFromWearer env h e w) j) = marks (objs w j)"
  by (auto simp: unequipFromWearer_def removeEquipAffects_def applyWornMods_def recomputeWornMods_def
      ensureWornModSource_def upd_def on_living_def marks_def Let_def split: option.splits)

lemma Move_marks: "marks (objs (Move env e dest w) j) = marks (objs w j)"
proof -
  have "marks (x\<lparr>location := l\<rparr>) = marks x" "marks (x\<lparr>contents := cs\<rparr>) = marks x" for x l cs
    by (simp_all add: marks_def)
  then show ?thesis
    by (auto simp: Move_def Let_def upd_def removeContent_def unequip_marks split: option.splits)
qed

lemma Move_bound [simp]:
  "bound (objs (Move env e dest w) j) = bound (objs w j)"
  "kept (objs (Move env e dest w) j) = kept (objs w j)"
  "stack (objs (Move env e dest w) j) = stack (objs w j)"
  using Move_marks [of env e dest w j] by (simp_all add: marks_def)

lemma Move_units [simp]:
  "isMaterial (objs (Move env e dest w) j) = isMaterial (objs w j)"
  "itemStackCount (objs (Move env e dest w) j) = itemStackCount (objs w j)"
  "units (objs (Move env e dest w) j) = units (objs w j)"
  by (simp_all add: isMaterial_def itemStackCount_def units_def)

section \<open>The tree invariant\<close>

definition inside :: "World \<Rightarrow> (nat \<times> nat) set" where
  "inside w = {(c, p). location (objs w c) = Some p}"

definition holds_ok :: "World \<Rightarrow> bool" where
  "holds_ok w \<longleftrightarrow>
     (\<forall>p. distinct (contents (objs w p)) \<and> (\<forall>c \<in> set (contents (objs w p)). location (objs w c) = Some p))"

definition players_ok :: "World \<Rightarrow> bool" where
  "players_ok w \<longleftrightarrow>
     (\<forall>i. isPlayer (objs w i) \<longrightarrow> isLiving (objs w i) \<and>
        (\<forall>r. location (objs w i) = Some r \<longrightarrow> location (objs w r) = None \<and> \<not> isPlayer (objs w r)))"

definition fresh_ok :: "World \<Rightarrow> bool" where
  "fresh_ok w \<longleftrightarrow>
     (\<forall>i \<ge> nextObj w. location (objs w i) = None \<and> contents (objs w i) = [] \<and> \<not> isPlayer (objs w i)) \<and>
     (\<forall>i p. location (objs w i) = Some p \<longrightarrow> p < nextObj w)"

definition tree_ok :: "World \<Rightarrow> bool" where
  "tree_ok w \<longleftrightarrow> holds_ok w \<and> acyclic (inside w) \<and> players_ok w \<and> fresh_ok w"

lemma tree_contents:
  assumes "tree_ok w"
  shows "c \<in> set (contents (objs w p)) \<Longrightarrow> location (objs w c) = Some p" "distinct (contents (objs w p))"
    "acyclic (inside w)"
  using assms unfolding tree_ok_def holds_ok_def by blast+

lemma tree_players:
  assumes "tree_ok w" and "isPlayer (objs w i)"
  shows "isLiving (objs w i)" "location (objs w i) = Some r \<Longrightarrow> location (objs w r) = None"
    "location (objs w i) = Some r \<Longrightarrow> \<not> isPlayer (objs w r)"
  using assms unfolding tree_ok_def players_ok_def by blast+

lemma tree_fresh:
  assumes "tree_ok w" and "nextObj w \<le> i"
  shows "location (objs w i) = None" "contents (objs w i) = []" "\<not> isPlayer (objs w i)"
  using assms unfolding tree_ok_def fresh_ok_def by blast+

lemma tree_low: "tree_ok w \<Longrightarrow> location (objs w i) = Some p \<Longrightarrow> p < nextObj w"
  unfolding tree_ok_def fresh_ok_def by blast

lemma located_low: "tree_ok w \<Longrightarrow> location (objs w i) = Some p \<Longrightarrow> i < nextObj w"
  using tree_fresh(1) [of w i] by (cases "nextObj w \<le> i") auto

lemma same_tree_ok:
  assumes "same_tree w w'"
  shows "tree_ok w' = tree_ok w"
proof -
  have "nextObj w' = nextObj w"
    using assms by (simp add: same_tree_def)
  then show ?thesis
    by (simp add: tree_ok_def holds_ok_def players_ok_def fresh_ok_def inside_def same_tree_fields [OF assms])
qed

text \<open>Nothing below \<open>e\<close>: what has no location, or whose chain of locations ends without meeting \<open>e\<close>.\<close>

lemma above_None: "location (objs w d) = None \<Longrightarrow> (d, e) \<in> (inside w)\<^sup>* \<Longrightarrow> e = d"
  by (erule converse_rtranclE) (auto simp: inside_def)

lemma above_Some: "location (objs w d) = Some r \<Longrightarrow> (d, e) \<in> (inside w)\<^sup>* \<Longrightarrow> e = d \<or> (r, e) \<in> (inside w)\<^sup>*"
  by (erule converse_rtranclE) (auto simp: inside_def)

lemma Move_acyclic:
  assumes "acyclic (inside w)" and "\<And>d. dest = Some d \<Longrightarrow> (d, e) \<notin> (inside w)\<^sup>*"
  shows "acyclic (inside (Move env e dest w))"
proof -
  have sub: "inside (Move env e dest w) \<subseteq> (case dest of None \<Rightarrow> inside w | Some d \<Rightarrow> insert (e, d) (inside w))"
    by (auto simp: inside_def Move_location split: option.splits if_splits)
  have "acyclic (case dest of None \<Rightarrow> inside w | Some d \<Rightarrow> insert (e, d) (inside w))"
    using assms by (auto simp: acyclic_insert split: option.split)
  then show ?thesis
    using sub by (rule acyclic_subset)
qed

lemma Move_ok:
  assumes t: "tree_ok w" and e: "e < nextObj w"
    and d: "\<And>d. dest = Some d \<Longrightarrow> d < nextObj w \<and> (d, e) \<notin> (inside w)\<^sup>*"
    and p: "\<And>d. isPlayer (objs w e) \<Longrightarrow> dest = Some d \<Longrightarrow> location (objs w d) = None \<and> \<not> isPlayer (objs w d)"
    and r: "\<And>d i. dest = Some d \<Longrightarrow> isPlayer (objs w i) \<Longrightarrow> location (objs w i) \<noteq> Some e"
  shows "tree_ok (Move env e dest w)"
proof -
  let ?w = "Move env e dest w"
  have de: "dest \<noteq> Some e"
    using d by blast
  have "distinct (contents (objs ?w q)) \<and> (\<forall>c \<in> set (contents (objs ?w q)). location (objs ?w c) = Some q)" for q
  proof -
    have "e \<notin> set (contents (objs w q))" if "location (objs w e) \<noteq> Some q"
      using tree_contents(1) [OF t] that by blast
    moreover have "e \<notin> set (remove1 e (contents (objs w q)))"
      using tree_contents(2) [OF t] by simp
    ultimately show ?thesis
      using tree_contents(1,2) [OF t] by (auto simp: Move_contents Move_location dest: notin_set_remove1)
  qed
  then have "holds_ok ?w"
    by (simp add: holds_ok_def)
  moreover have "acyclic (inside ?w)"
    using tree_contents(3) [OF t] d by (intro Move_acyclic) auto
  moreover have "isLiving (objs w i) \<and> (location (objs ?w i) = Some q \<longrightarrow> location (objs ?w q) = None \<and> \<not> isPlayer (objs w q))"
    if i: "isPlayer (objs w i)" for i q
  proof -
    note P = tree_players [OF t i]
    show ?thesis
    proof (cases "i = e")
      case True
      then have "isPlayer (objs w e)"
        using i by simp
      from p [OF this, of q] show ?thesis
        using P(1) True de by (auto simp: Move_location)
    next
      case False
      have "location (objs ?w q) = None \<and> \<not> isPlayer (objs w q)" if l: "location (objs w i) = Some q"
      proof -
        have "q = e \<Longrightarrow> dest = None"
          using r [OF _ i] l by (cases dest) auto
        then show ?thesis
          using P(2) [OF l] P(3) [OF l] by (simp add: Move_location)
      qed
      moreover have "location (objs ?w i) = location (objs w i)"
        using False by (simp add: Move_location)
      ultimately show ?thesis
        using P(1) by metis
    qed
  qed
  then have "players_ok ?w"
    unfolding players_ok_def Move_fields by blast
  moreover have "location (objs ?w i) = None \<and> contents (objs ?w i) = [] \<and> \<not> isPlayer (objs w i)" if "nextObj w \<le> i" for i
  proof -
    have "i \<noteq> e" "dest \<noteq> Some i"
      using that e d [of i] by auto
    then show ?thesis
      using tree_fresh [OF t that] by (simp add: Move_location Move_contents)
  qed
  moreover have "q < nextObj w" if "location (objs ?w i) = Some q" for i q
    using that tree_low [OF t, of i q] d [of q] by (simp add: Move_location split: if_splits)
  ultimately show ?thesis
    by (simp add: tree_ok_def fresh_ok_def)
qed


section \<open>Steps that keep the tree and what is bound\<close>

text \<open>
  A bound item that a player holds, or that nobody holds, is afterwards held by the same player or by
  nobody; bindings last and no entity becomes a player.
\<close>

definition safe :: "World \<Rightarrow> World \<Rightarrow> bool" where
  "safe w w' \<longleftrightarrow> tree_ok w' \<and> nextObj w \<le> nextObj w' \<and>
     (\<forall>j < nextObj w. isPlayer (objs w' j) = isPlayer (objs w j) \<and> (bound (objs w j) \<longrightarrow> bound (objs w' j))) \<and>
     (\<forall>a i. isPlayer (objs w a) \<longrightarrow> i < nextObj w \<longrightarrow> \<not> isPlayer (objs w i) \<longrightarrow> bound (objs w i) \<longrightarrow>
        location (objs w i) \<in> {None, Some a} \<longrightarrow> location (objs w' i) \<in> {None, Some a})"

lemma player_low: "tree_ok w \<Longrightarrow> isPlayer (objs w a) \<Longrightarrow> a < nextObj w"
  using tree_fresh(3) [of w a] by (cases "nextObj w \<le> a") auto

lemma safe_trans:
  assumes t: "tree_ok w" and s1: "safe w w1" and s2: "safe w1 w2"
  shows "safe w w2"
proof -
  have "location (objs w2 i) \<in> {None, Some a}"
    if "isPlayer (objs w a)" "i < nextObj w" "\<not> isPlayer (objs w i)" "bound (objs w i)" "location (objs w i) \<in> {None, Some a}" for a i
  proof -
    have "a < nextObj w"
      using player_low [OF t that(1)] .
    then have "isPlayer (objs w1 a)" "i < nextObj w1" "\<not> isPlayer (objs w1 i)" "bound (objs w1 i)"
      "location (objs w1 i) \<in> {None, Some a}"
      using s1 that unfolding safe_def by (blast, fastforce, blast+)
    then show ?thesis
      using s2 unfolding safe_def by blast
  qed
  moreover have "isPlayer (objs w2 j) = isPlayer (objs w j) \<and> (bound (objs w j) \<longrightarrow> bound (objs w2 j))" if "j < nextObj w" for j
    using s1 s2 that unfolding safe_def by (metis less_le_trans)
  ultimately show ?thesis
    using s1 s2 unfolding safe_def by (metis le_trans)
qed

lemma same_tree_safe: "tree_ok w \<Longrightarrow> same_tree w w' \<Longrightarrow> safe w w'"
  using same_tree_ok [of w w'] same_tree_fields(1,3) [of w w'] by (simp add: safe_def) (simp add: same_tree_def)

lemma safe_refl: "tree_ok w \<Longrightarrow> safe w w"
  by (simp add: same_tree_safe)

lemma removeContent_safe:
  assumes "tree_ok w"
  shows "safe w (removeContent h c w)"
proof -
  have f: "location (objs (removeContent h c w) j) = location (objs w j)" "isPlayer (objs (removeContent h c w) j) = isPlayer (objs w j)"
    "isLiving (objs (removeContent h c w) j) = isLiving (objs w j)" "bound (objs (removeContent h c w) j) = bound (objs w j)"
    "set (contents (objs (removeContent h c w) j)) \<subseteq> set (contents (objs w j))"
    "distinct (contents (objs w j)) \<Longrightarrow> distinct (contents (objs (removeContent h c w) j))"
    "nextObj (removeContent h c w) = nextObj w" for j
    by (auto simp: removeContent_def upd_def dest: subsetD [OF set_remove1_subset])
  have "holds_ok (removeContent h c w)"
    using tree_contents(1,2) [OF assms] f(1,5,6) unfolding holds_ok_def by (metis subsetD)
  moreover have "fresh_ok (removeContent h c w)"
    using tree_fresh [OF assms] tree_low [OF assms] f(1,2,5,7) unfolding fresh_ok_def by (metis set_empty2 subset_empty)
  moreover have "players_ok (removeContent h c w)" "inside (removeContent h c w) = inside w"
    using assms unfolding tree_ok_def players_ok_def inside_def f by blast+
  ultimately have "tree_ok (removeContent h c w)"
    using tree_contents(3) [OF assms] by (simp add: tree_ok_def)
  then show ?thesis
    by (simp add: safe_def f)
qed

lemma not_above: "tree_ok w \<Longrightarrow> location (objs w t) = Some a \<Longrightarrow> (a, t) \<notin> (inside w)\<^sup>*"
  using tree_contents(3) [of w] rtrancl_into_trancl2 [of t a "inside w" t] by (auto simp: acyclic_def inside_def)

lemma into_player:
  assumes t: "tree_ok w" and a: "isPlayer (objs w a)" and m: "location (objs w m) = Some b" "m \<noteq> a"
  shows "(a, m) \<notin> (inside w)\<^sup>*"
proof
  assume in_a: "(a, m) \<in> (inside w)\<^sup>*"
  show False
  proof (cases "location (objs w a)")
    case None
    then show False
      using above_None [OF None in_a] m(2) by simp
  next
    case (Some r)
    then have "location (objs w r) = None" "(r, m) \<in> (inside w)\<^sup>*"
      using tree_players(2) [OF t a Some] above_Some [OF Some in_a] m(2) by auto
    then show False
      using above_None [of w r m] m(1) by auto
  qed
qed

lemma Move_held:
  assumes t: "tree_ok w" and e: "location (objs w e) = Some b" "\<not> isPlayer (objs w e)"
    and d: "\<And>d. dest = Some d \<Longrightarrow> d < nextObj w \<and> (d, e) \<notin> (inside w)\<^sup>*"
    and g: "bound (objs w e) \<Longrightarrow> isPlayer (objs w b) \<Longrightarrow> dest \<in> {None, Some b}"
  shows "safe w (Move env e dest w)"
proof -
  have "location (objs w i) \<noteq> Some e" if "isPlayer (objs w i)" for i
    using tree_players(2) [OF t that, of e] e(1) by auto
  then have "tree_ok (Move env e dest w)"
    using d e(2) located_low [OF t e(1)] by (intro Move_ok [OF t]) auto
  then show ?thesis
    using e g by (auto simp: safe_def Move_location)
qed

end
