(* ===== verification/Item_Safety.thy ===== *)
theory Item_Safety
  imports Item_Tree
begin

text \<open>
  Every item verb and item op keeps the tree and what is bound: each is shown \<open>safe\<close> in the sense of
  \<open>Item_Tree\<close>, and the histories of a zone's items are the closure of these steps.
\<close>

section \<open>What resolution returns\<close>

lemma selectMatches_sub: "set (selectMatches spec xs) \<subseteq> set xs"
  by (auto simp: selectMatches_def split: if_splits dest: in_set_takeD in_set_dropD)

lemma Resolve_sub: "set (Resolve env w a spec scs) \<subseteq> (\<Union>sc \<in> set scs. set (scope_entities env w a sc))"
  using selectMatches_sub [of spec "hits w a spec (scopeCandidates env w a scs)"]
  by (auto simp: Resolve_def hits_def scopeCandidates_def)

lemma Target_in: "Target env w a arg scs = Some t \<Longrightarrow> t \<in> (\<Union>sc \<in> set scs. set (scope_entities env w a sc))"
  using Resolve_sub [of env w a "parseTargetSpec (Arg0 arg)" scs] by (auto simp: Target_def split: list.splits)

lemma resolveInContainer_sub: "set (resolveInContainer w a box spec) \<subseteq> set (contents (objs w box))"
  using selectMatches_sub [of spec "hits w a spec (contents (objs w box))"]
  by (auto simp: resolveInContainer_def hits_def)

lemma inventory_held:
  assumes "tree_ok w" and "isPlayer (objs w a)" and "t \<in> set (scope_entities env w a ScopeInventory)"
  shows "location (objs w t) = Some a" "\<not> isPlayer (objs w t)" "t \<noteq> a"
proof -
  show loc: "location (objs w t) = Some a"
    using tree_contents(1) [OF assms(1)] assms(3) by (simp add: scope_entities_def)
  then show "\<not> isPlayer (objs w t)" "t \<noteq> a"
    using tree_players(3) [OF assms(1), of t a] assms(2) by auto
qed

lemma room_item:
  assumes "tree_ok w" and "isPlayer (objs w a)" and "t \<in> set (scope_entities env w a ScopeRoomItems)"
  shows "\<exists>r. location (objs w a) = Some r \<and> location (objs w t) = Some r \<and> \<not> isPlayer (objs w r)"
    "\<not> isPlayer (objs w t)" "t \<noteq> a"
proof -
  obtain r where r: "location (objs w a) = Some r" "t \<in> set (contents (objs w r))" "\<not> isLiving (objs w t)" "t \<noteq> a"
    using assms(3) by (cases "location (objs w a)") (auto simp: scope_entities_def roomContents_def)
  then show "\<exists>r. location (objs w a) = Some r \<and> location (objs w t) = Some r \<and> \<not> isPlayer (objs w r)"
    "\<not> isPlayer (objs w t)" "t \<noteq> a"
    using tree_contents(1) [OF assms(1) r(2)] tree_players(3) [OF assms(1,2) r(1)] tree_players(1) [OF assms(1), of t] by auto
qed

section \<open>Stacks and spawned items\<close>

lemma fold_in_safe:
  assumes "tree_ok w"
  shows "safe w (fold_in a item w)"
proof -
  define w1 where "w1 = snd (mergeStackInto a item w)"
  have s: "safe w w1" "tree_ok w1"
    using same_tree_safe [OF assms mergeStackInto_tree] by (simp_all add: w1_def safe_def)
  have "fold_in a item w = w1 \<or> fold_in a item w = removeContent a item w1"
    by (auto simp: fold_in_def w1_def split: prod.splits)
  then show ?thesis
    using s(1) safe_trans [OF assms s(1) removeContent_safe [OF s(2)]] by auto
qed

definition items_only :: "Env \<Rightarrow> bool" where
  "items_only env \<longleftrightarrow> (\<forall>ref p. protos env ref = Some p \<longrightarrow> \<not> isPlayer p)"

lemma spawn_facts:
  assumes "spawn env ref w = Some (w1, it)" and "items_only env"
  shows "it = nextObj w" "nextObj w1 = Suc (nextObj w)" "j \<noteq> it \<Longrightarrow> objs w1 j = objs w j"
    "location (objs w1 it) = None" "contents (objs w1 it) = []" "\<not> isPlayer (objs w1 it)" "proto (objs w1 it) = ref"
proof -
  have "isPlayer (ensureStack x) = isPlayer x" "location (ensureStack x) = location x" "contents (ensureStack x) = contents x"
    "proto (ensureStack x) = proto x" for x
    by (simp_all add: ensureStack_def)
  then show "it = nextObj w" "nextObj w1 = Suc (nextObj w)" "j \<noteq> it \<Longrightarrow> objs w1 j = objs w j"
    "location (objs w1 it) = None" "contents (objs w1 it) = []" "\<not> isPlayer (objs w1 it)" "proto (objs w1 it) = ref"
    using assms by (auto simp: spawn_def items_only_def Let_def split: option.splits)
qed

lemma fresh_obj_ok:
  assumes t: "tree_ok w" and n: "nextObj w1 = Suc (nextObj w)" and o: "\<And>j. j \<noteq> nextObj w \<Longrightarrow> objs w1 j = objs w j"
    and x: "location (objs w1 (nextObj w)) = None" "contents (objs w1 (nextObj w)) = []" "\<not> isPlayer (objs w1 (nextObj w))"
  shows "tree_ok w1"
proof -
  note fresh = tree_fresh [OF t, of "nextObj w", simplified]
  have loc: "location (objs w1 j) = location (objs w j)" for j
    using o [of j] x(1) fresh(1) by (cases "j = nextObj w") auto
  have cont: "contents (objs w1 j) = contents (objs w j)" for j
    using o [of j] x(2) fresh(2) by (cases "j = nextObj w") auto
  have play: "isPlayer (objs w1 j) = isPlayer (objs w j)" for j
    using o [of j] x(3) fresh(3) by (cases "j = nextObj w") auto
  have live: "isLiving (objs w1 j)" if "isPlayer (objs w j)" for j
    using that o [of j] fresh(3) tree_players(1) [OF t that] by (cases "j = nextObj w") auto
  have "holds_ok w1" "inside w1 = inside w"
    using t by (simp_all add: tree_ok_def holds_ok_def inside_def loc cont)
  moreover have "players_ok w1"
    using tree_players(2,3) [OF t] live unfolding players_ok_def loc play by blast
  moreover have "fresh_ok w1"
    using tree_fresh [OF t] tree_low [OF t] unfolding fresh_ok_def loc cont play n by (metis Suc_leD less_Suc_eq)
  ultimately show ?thesis
    using t by (simp add: tree_ok_def)
qed

lemma spawn_ok:
  assumes t: "tree_ok w" and s: "spawn env ref w = Some (w1, it)" and "items_only env"
  shows "tree_ok w1"
  using spawn_facts [OF s assms(3)] by (intro fresh_obj_ok [OF t]) auto

lemma deliver_safe:
  assumes t: "tree_ok w" and a: "isPlayer (objs w a)" and s: "spawn env ref w = Some (w1, it)"
    and io: "items_only env" and st: "same_tree w1 w2"
  shows "safe w (Move env it (Some a) w2)"
proof -
  note S = spawn_facts [OF s io]
  have t1: "tree_ok w1"
    by (rule spawn_ok [OF t s io])
  have t2: "tree_ok w2"
    using same_tree_ok [OF st] t1 by simp
  have n: "a < nextObj w" "a \<noteq> it"
    using player_low [OF t a] S(1) by auto
  have f: "location (objs w2 j) = location (objs w1 j)" "isPlayer (objs w2 j) = isPlayer (objs w1 j)" "nextObj w2 = Suc (nextObj w)" for j
    using same_tree_fields [OF st] st S(2) by (auto simp: same_tree_def)
  have above: "(a, it) \<notin> (inside w2)\<^sup>*"
  proof
    assume "(a, it) \<in> (inside w2)\<^sup>*"
    then obtain j where "location (objs w2 j) = Some it"
      using n(2) by (auto elim: rtranclE simp: inside_def)
    then have "location (objs w j) = Some it"
      using f(1) S(3,4) by (cases "j = it") auto
    then show False
      using tree_low [OF t] S(1) by blast
  qed
  have nobody: "location (objs w2 i) \<noteq> Some it" for i
    using f(1) S(1,3,4) tree_low [OF t, of i it] by (cases "i = it") auto
  have "tree_ok (Move env it (Some a) w2)"
    using f S(1,6) n above nobody by (intro Move_ok [OF t2]) auto
  moreover have "bound (objs w2 j)" if "bound (objs w1 j)" for j
    using st that by (simp add: same_tree_def)
  ultimately show ?thesis
    using S(1,3) f by (auto simp: safe_def Move_location)
qed


section \<open>The verbs\<close>

lemma then_marks:
  assumes "tree_ok w" and "safe w w1" and "same_tree w1 w2"
  shows "safe w w2"
proof -
  have "tree_ok w1"
    using assms(2) by (simp add: safe_def)
  then show ?thesis
    using safe_trans [OF assms(1,2) same_tree_safe] assms(3) by blast
qed

text \<open>An item at hand that is not on a player, or that stays with its holder, moves to a player.\<close>

lemma take_safe:
  assumes t: "tree_ok w" and a: "isPlayer (objs w a)" and m: "location (objs w m) = Some b" "m \<noteq> a" "\<not> isPlayer (objs w m)"
    and b: "b = a \<or> \<not> isPlayer (objs w b)"
  shows "safe w (Move env m (Some a) w)"
  using into_player [OF t a m(1,2)] player_low [OF t a] b m by (intro Move_held [OF t m(1,3)]) auto

lemma get_each_safe:
  assumes "tree_ok w" and "isPlayer (objs w a)" and "\<not> isPlayer (objs w box)"
    and "\<And>m. m \<in> set ms \<Longrightarrow> location (objs w m) \<in> {Some a, Some box} \<and> m \<noteq> a \<and> \<not> isPlayer (objs w m)"
  shows "safe w (snd (get_each env a box ms w))"
  using assms
proof (induction ms arbitrary: w)
  case (Cons m ms)
  show ?case
  proof (cases "canCarry env w a (itemWeight (objs w m))")
    case True
    define w1 where "w1 = recordCrossCharTransfer env a m (Move env m (Some a) w)"
    have m: "location (objs w m) \<in> {Some a, Some box}" "m \<noteq> a" "\<not> isPlayer (objs w m)"
      using Cons.prems(4) [of m] by auto
    have s: "safe w (Move env m (Some a) w)"
      using m Cons.prems(3) by (auto intro: take_safe [OF Cons.prems(1,2)])
    then have s1: "safe w w1"
      unfolding w1_def by (rule then_marks [OF Cons.prems(1) _ recordCrossCharTransfer_tree])
    have f: "location (objs w1 j) = (if j = m then Some a else location (objs w j))" "isPlayer (objs w1 j) = isPlayer (objs w j)" for j
      using same_tree_fields(1,3) [OF recordCrossCharTransfer_tree] by (simp_all add: w1_def Move_location)
    have "safe w1 (snd (get_each env a box ms w1))"
      using Cons.prems s1 by (intro Cons.IH) (auto simp: f safe_def)
    from safe_trans [OF Cons.prems(1) s1 this] show ?thesis
      using True by (simp add: w1_def [symmetric] case_prod_beta)
  next
    case False
    have "safe w (snd (get_each env a box ms w))"
      using Cons.prems by (intro Cons.IH) auto
    then show ?thesis
      using False by (simp add: case_prod_beta)
  qed
qed (simp add: safe_refl)

lemma box_place:
  assumes t: "tree_ok w" and a: "isPlayer (objs w a)"
    and box: "box \<in> set (Resolve env w a spec scs)" "set scs \<subseteq> {ScopeRoomItems, ScopeInventory}"
  shows "\<not> isPlayer (objs w box)"
    "location (objs w box) = Some a \<or> (\<exists>r. location (objs w a) = Some r \<and> location (objs w box) = Some r)"
proof -
  obtain sc where sc: "sc = ScopeRoomItems \<or> sc = ScopeInventory" "box \<in> set (scope_entities env w a sc)"
    using Resolve_sub [of env w a spec scs] box by blast
  then show "\<not> isPlayer (objs w box)"
    "location (objs w box) = Some a \<or> (\<exists>r. location (objs w a) = Some r \<and> location (objs w box) = Some r)"
    using inventory_held(1,2) [OF t a] room_item(1,2) [OF t a] by blast+
qed

lemma getFrom_safe:
  assumes t: "tree_ok w" and a: "isPlayer (objs w a)"
  shows "safe w (snd (getFrom env now a item cont w))"
proof -
  have "safe w (snd (get_each env a box ms w))"
    if "Resolve env w a spec [ScopeRoomItems, ScopeInventory] = box # bs" and ms: "set ms \<subseteq> set (contents (objs w box))" for box bs spec ms
  proof -
    have box: "\<not> isPlayer (objs w box)" "location (objs w box) = Some a \<or> (\<exists>r. location (objs w a) = Some r \<and> location (objs w box) = Some r)"
      using box_place [OF t a, of box env spec "[ScopeRoomItems, ScopeInventory]"] that(1) by auto
    have "location (objs w m) = Some box \<and> m \<noteq> a \<and> \<not> isPlayer (objs w m)" if "m \<in> set ms" for m
    proof -
      have loc: "location (objs w m) = Some box"
        using tree_contents(1) [OF t] ms that by blast
      have "\<not> isPlayer (objs w m)"
        using tree_players(2) [OF t, of m box] loc box(2) by auto
      then show ?thesis
        using loc a by auto
    qed
    then show ?thesis
      by (intro get_each_safe [OF t a box(1)]) auto
  qed
  then have "safe w (snd (get_each env a box (resolveInContainer w a box (parseTargetSpec item)) w))"
    if "Resolve env w a spec [ScopeRoomItems, ScopeInventory] = box # bs" for box bs spec
    using that resolveInContainer_sub by blast
  note each = this
  show ?thesis
  proof (cases "Resolve env w a (parseTargetSpec cont) [ScopeRoomItems, ScopeInventory]")
    case Nil
    then show ?thesis
      by (simp add: getFrom_def safe_refl [OF t])
  next
    case (Cons box bs)
    define ms where "ms = resolveInContainer w a box (parseTargetSpec item)"
    have "snd (getFrom env now a item cont w) \<in> {w, snd (get_each env a box ms w)}"
      by (auto simp: getFrom_def Cons ms_def split: option.split list.split)
    then show ?thesis
      using each [OF Cons] safe_refl [OF t] unfolding ms_def by auto
  qed
qed

lemma cmdGet_safe:
  assumes t: "tree_ok w" and a: "isPlayer (objs w a)"
  shows "safe w (snd (cmdGet env now a arg w))"
proof -
  have "safe w (fold_in a e (recordCrossCharTransfer env a e (Move env e (Some a) w)))"
    if "Target env w a arg [ScopeRoomItems] = Some e" for e
  proof -
    have e: "e \<in> set (scope_entities env w a ScopeRoomItems)"
      using Target_in [OF that] by simp
    obtain r where "location (objs w e) = Some r" "\<not> isPlayer (objs w r)"
      using room_item(1) [OF t a e] by blast
    then have "safe w (Move env e (Some a) w)"
      using room_item(2,3) [OF t a e] by (intro take_safe [OF t a]) auto
    from then_marks [OF t this recordCrossCharTransfer_tree]
    have s: "safe w (recordCrossCharTransfer env a e (Move env e (Some a) w))" .
    then have "tree_ok (recordCrossCharTransfer env a e (Move env e (Some a) w))"
      by (simp add: safe_def)
    from safe_trans [OF t s fold_in_safe [OF this]] show ?thesis .
  qed
  then show ?thesis
    using safe_refl [OF t] getFrom_safe [OF t a] by (auto simp: cmdGet_def split: option.splits)
qed

lemma unblocked_unbound: "part_blocked w a m = None \<Longrightarrow> \<not> bound (objs w m)"
  by (simp add: part_blocked_def split: if_splits)

lemma cmdDrop_safe:
  assumes t: "tree_ok w" and a: "isPlayer (objs w a)"
  shows "safe w (snd (cmdDrop env a arg w))"
proof -
  have "safe w (stampReleased env e a (Move env e (location (objs w a)) w))"
    if "Target env w a arg [ScopeInventory] = Some e" "part_blocked w a e = None" for e
  proof -
    have e: "location (objs w e) = Some a" "\<not> isPlayer (objs w e)"
      using inventory_held [OF t a] Target_in [OF that(1)] by auto
    have "(r, e) \<notin> (inside w)\<^sup>*" "r < nextObj w" if r: "location (objs w a) = Some r" for r
      using above_None [of w r e] tree_players(2) [OF t a r] tree_low [OF t r] e(1) by auto
    then have "safe w (Move env e (location (objs w a)) w)"
      using unblocked_unbound [OF that(2)] by (intro Move_held [OF t e]) auto
    then show ?thesis
      by (rule then_marks [OF t _ stampReleased_tree])
  qed
  then show ?thesis
    using safe_refl [OF t] by (auto simp: cmdDrop_def split: option.splits)
qed


text \<open>A box at hand never lies inside an item of the inventory.\<close>

definition at_hand :: "World \<Rightarrow> nat \<Rightarrow> nat \<Rightarrow> bool" where
  "at_hand w a box \<longleftrightarrow> \<not> isPlayer (objs w box) \<and>
     (location (objs w box) = Some a \<or> (\<exists>r. location (objs w a) = Some r \<and> location (objs w box) = Some r))"

lemma stow_safe:
  assumes t: "tree_ok w" and a: "isPlayer (objs w a)" and box: "at_hand w a box"
    and m: "location (objs w m) \<in> {Some a, Some box}" "m \<noteq> box" "\<not> bound (objs w m)"
  shows "safe w (Move env m (Some box) w)"
proof -
  obtain b where b: "location (objs w m) = Some b" "b = a \<or> b = box"
    using m(1) by auto
  have "\<not> isPlayer (objs w m)"
    using b tree_players(2,3) [OF t, of m b] a box by (auto simp: at_hand_def)
  moreover have "box < nextObj w"
    using box located_low [OF t, of box] by (auto simp: at_hand_def)
  moreover have "(box, m) \<notin> (inside w)\<^sup>*"
  proof (cases "b = box")
    case True
    then show ?thesis
      using not_above [OF t] b(1) by simp
  next
    case False
    then have ma: "location (objs w m) = Some a"
      using b by simp
    show ?thesis
    proof
      assume "(box, m) \<in> (inside w)\<^sup>*"
      moreover have "(a, m) \<notin> (inside w)\<^sup>*"
        by (rule not_above [OF t ma])
      ultimately obtain r where r: "location (objs w a) = Some r" "(r, m) \<in> (inside w)\<^sup>*"
        using box m(2) above_Some [of w box _ m] by (auto simp: at_hand_def)
      then show False
        using above_None [OF tree_players(2) [OF t a r(1)] r(2)] tree_players(2) [OF t a r(1)] ma by simp
    qed
  qed
  ultimately show ?thesis
    using m(3) by (intro Move_held [OF t b(1)]) auto
qed

lemma put_each_safe:
  assumes "tree_ok w" and "isPlayer (objs w a)" and "at_hand w a box"
    and "\<And>m. m \<in> set ms \<Longrightarrow> location (objs w m) \<in> {Some a, Some box}"
  shows "safe w (snd (put_each env a box cc ms w))"
  using assms
proof (induction ms arbitrary: w)
  case (Cons m ms)
  have skip: "safe w (snd (put_each env a box cc ms w))"
    using Cons.prems by (intro Cons.IH) auto
  show ?case
  proof (cases "m \<noteq> box \<and> part_blocked w a m = None \<and> hasRoom cc (length (contents (objs w box)))")
    case True
    define w1 where "w1 = stampReleased env m a (Move env m (Some box) w)"
    have "safe w (Move env m (Some box) w)"
      using True Cons.prems(4) [of m] unblocked_unbound [of w a m] by (intro stow_safe [OF Cons.prems(1-3)]) auto
    then have s1: "safe w w1"
      unfolding w1_def by (rule then_marks [OF Cons.prems(1) _ stampReleased_tree])
    have f: "location (objs w1 j) = (if j = m then Some box else location (objs w j))" "isPlayer (objs w1 j) = isPlayer (objs w j)" for j
      using same_tree_fields(1,3) [OF stampReleased_tree] by (simp_all add: w1_def Move_location)
    have "m \<noteq> a"
      using Cons.prems(2,3) Cons.prems(4) [of m] tree_players(2,3) [OF Cons.prems(1), of m] by (auto simp: at_hand_def)
    then have "at_hand w1 a box"
      using Cons.prems(3) True by (simp add: at_hand_def f)
    then have "safe w1 (snd (put_each env a box cc ms w1))"
      using Cons.prems s1 by (intro Cons.IH) (auto simp: f safe_def)
    from safe_trans [OF Cons.prems(1) s1 this] show ?thesis
      using True by (simp add: w1_def [symmetric] case_prod_beta)
  next
    case False
    then show ?thesis
      using skip safe_refl [OF Cons.prems(1)] by (auto simp: case_prod_beta split: option.split)
  qed
qed (simp add: safe_refl)

lemma cmdPut_safe:
  assumes t: "tree_ok w" and a: "isPlayer (objs w a)"
  shows "safe w (snd (cmdPut env a arg w))"
proof -
  have each: "safe w (snd (put_each env a box cc ms w))"
    if "Resolve env w a spec [ScopeInventory, ScopeRoomItems] = box # bs" "ms = Resolve env w a spec' [ScopeInventory]"
    for box bs spec spec' cc ms
  proof -
    have "at_hand w a box"
      using box_place [OF t a, of box env spec "[ScopeInventory, ScopeRoomItems]"] that(1) by (auto simp: at_hand_def)
    moreover have "location (objs w m) = Some a" if "m \<in> set ms" for m
      using Resolve_sub [of env w a spec' "[ScopeInventory]"] \<open>ms = _\<close> that inventory_held(1) [OF t a, of m env] by auto
    ultimately show ?thesis
      by (intro put_each_safe [OF t a]) auto
  qed
  show ?thesis
  proof (cases "splitKeyword arg ''in''")
    case (Some p)
    obtain item cont where p: "p = (item, cont)"
      by (cases p)
    define ms where "ms = Resolve env w a (parseTargetSpec item) [ScopeInventory]"
    show ?thesis
    proof (cases "Resolve env w a (parseTargetSpec cont) [ScopeInventory, ScopeRoomItems]")
      case Nil
      then show ?thesis
        using safe_refl [OF t] by (auto simp: cmdPut_def Some p split: list.split)
    next
      case (Cons box bs)
      have "snd (cmdPut env a arg w) \<in> insert w (range (\<lambda>cc. snd (put_each env a box cc ms w)))"
        by (auto simp: cmdPut_def Some p Cons ms_def split: option.split list.split)
      then show ?thesis
        using each [OF Cons ms_def] safe_refl [OF t] by auto
    qed
  qed (simp add: cmdPut_def safe_refl [OF t])
qed

lemma cmdSplit_safe:
  assumes t: "tree_ok w" and a: "isPlayer (objs w a)" and io: "items_only env"
  shows "safe w (snd (cmdSplit env a arg w))"
proof -
  have piece: "safe w (fst (splitStack env a item n w))" for item n
  proof (cases "spawn env (proto (objs w item)) w")
    case (Some r)
    obtain w1 it where r: "r = (w1, it)"
      by (cases r)
    have "same_tree w1 (setItemStackCount i m (setItemStackCount it n w1))" for i m
      by (rule same_tree_trans [OF setItemStackCount_tree setItemStackCount_tree])
    from deliver_safe [OF t a Some [unfolded r] io this] show ?thesis
      using safe_refl [OF t] by (auto simp: splitStack_def Some r Let_def)
  qed (simp add: splitStack_def safe_refl [OF t])
  have "snd (case splitStack env a item n w of (w1, None) \<Rightarrow> ([CannotSplit], w1) | (w1, Some piece) \<Rightarrow> ([SplitOff item], w1)) =
      fst (splitStack env a item n w)" for item n
    by (simp split: prod.split option.split)
  then show ?thesis
    using piece safe_refl [OF t] by (simp add: cmdSplit_def Let_def split: option.split list.split)
qed


lemma equip_tree:
  "same_tree w (applyEquipAffects env a e q (applyWornMods a (bindOnEquip e (fill_slot a loc e w))))"
  "same_tree w (applyEquipAffects env a e q (applyWornMods a (fill_slot a loc e w)))"
proof -
  have f: "same_tree w (fill_slot a loc e w)"
    unfolding fill_slot_def by (rule same_tree_upd) simp_all
  show "same_tree w (applyEquipAffects env a e q (applyWornMods a (bindOnEquip e (fill_slot a loc e w))))"
    "same_tree w (applyEquipAffects env a e q (applyWornMods a (fill_slot a loc e w)))"
    by (rule same_tree_trans [OF same_tree_trans [OF same_tree_trans [OF f bindItem_tree(2)] applyWornMods_tree] applyEquipAffects_tree],
        rule same_tree_trans [OF same_tree_trans [OF f applyWornMods_tree] applyEquipAffects_tree])
qed

lemma marks_only:
  "same_tree w (snd (cmdWear env a arg w))" "same_tree w (snd (cmdWield env a arg w))"
  "same_tree w (snd (cmdHold env a arg w))" "same_tree w (snd (cmdRemove env a arg w))"
  "same_tree w (snd (cmdOpen env a arg w))" "same_tree w (snd (cmdClose env a arg w))"
  "same_tree w (snd (cmdKeep env a arg w))" "same_tree w (snd (cmdUnkeep env a arg w))"
  "same_tree w (snd (opAugmentItem env guard a item name amount w))"
proof -
  have e: "same_tree w (ensure_wearer a w)" "same_tree w (set_closed b c w)" "same_tree w (upd i (\<lambda>x. x\<lparr>kept := k\<rparr>) w)"
    "same_tree w (upd i (\<lambda>x. x\<lparr>quality := q x\<rparr>) w)" for b c i k q
    by (simp_all add: ensure_wearer_def set_closed_def same_tree_upd)
  show "same_tree w (snd (cmdWear env a arg w))" "same_tree w (snd (cmdWield env a arg w))"
    "same_tree w (snd (cmdHold env a arg w))" "same_tree w (snd (cmdRemove env a arg w))"
    "same_tree w (snd (cmdOpen env a arg w))" "same_tree w (snd (cmdClose env a arg w))"
    "same_tree w (snd (cmdKeep env a arg w))" "same_tree w (snd (cmdUnkeep env a arg w))"
    by (simp_all add: cmdWear_def cmdWield_def cmdHold_def cmdRemove_def cmdOpen_def cmdClose_def cmdKeep_def cmdUnkeep_def
        e equip_tree unequipFromWearer_tree Let_def split: option.split sum.split prod.split)
  show "same_tree w (snd (opAugmentItem env guard a item name amount w))"
    by (simp add: opAugmentItem_def Let_def e same_tree_trans [OF e(4) recomputeWornMods_tree] split: option.split)
qed

section \<open>The ops\<close>

lemma held_move:
  assumes t: "tree_ok w" and a: "isPlayer (objs w a)" and h: "it \<in> set (contents (objs w a))"
  shows "safe w (Move env it None w)"
  using inventory_held(1,2) [OF t a, of it undefined] h by (intro Move_held [OF t]) (auto simp: scope_entities_def)

lemma findHeld_in: "findHeldByProto w a ref = Some it \<Longrightarrow> it \<in> set (contents (objs w a)) \<and> proto (objs w it) = ref"
  by (auto simp: findHeldByProto_def find_Some_iff)

lemma consume_loop_safe:
  assumes "tree_ok w" and "isPlayer (objs w a)" and "consume_loop fuel env a ref qty w = Some (r, w')"
  shows "safe w w'"
  using assms
proof (induction fuel arbitrary: qty w)
  case 0
  then show ?case
    by (simp add: safe_refl split: if_splits)
next
  case (Suc fuel)
  show ?case
  proof (cases "qty \<le> 0 \<or> findHeldByProto w a ref = None")
    case True
    then show ?thesis
      using Suc.prems by (auto simp: safe_refl split: if_splits)
  next
    case False
    then obtain it where it: "findHeldByProto w a ref = Some it" "it \<in> set (contents (objs w a))"
      using findHeld_in by blast
    show ?thesis
    proof (cases "isMaterial (objs w it) \<and> itemStackCount (objs w it) > qty")
      case True
      then show ?thesis
        using Suc.prems False it(1) same_tree_safe [OF Suc.prems(1) setItemStackCount_tree]
        by auto
    next
      case whole: False
      have s: "safe w (Move env it None w)"
        by (rule held_move [OF Suc.prems(1,2) it(2)])
      have "safe (Move env it None w) w'"
        using Suc.prems False it(1) whole s by (intro Suc.IH) (auto simp: safe_def)
      from safe_trans [OF Suc.prems(1) s this] show ?thesis .
    qed
  qed
qed

lemma consumeQuantity_safe:
  "tree_ok w \<Longrightarrow> isPlayer (objs w a) \<Longrightarrow> consumeQuantity env a ref qty w = Some (r, w') \<Longrightarrow> safe w w'"
  by (auto simp: consumeQuantity_def safe_refl simp del: consume_loop.simps split: if_splits intro: consume_loop_safe)

lemma safe_player: "tree_ok w \<Longrightarrow> safe w w' \<Longrightarrow> isPlayer (objs w a) \<Longrightarrow> tree_ok w' \<and> isPlayer (objs w' a)"
  using player_low [of w a] by (auto simp: safe_def)

lemma consume_inputs_safe:
  assumes "tree_ok w" and "isPlayer (objs w a)" and "consume_inputs env a ins w = Some (r, w')"
  shows "safe w w'"
  using assms
proof (induction ins arbitrary: w)
  case (Cons i ins)
  obtain item q where i: "i = (item, q)"
    by (cases i)
  obtain x w1 where c: "consumeQuantity env a item q w = Some (x, w1)"
    using Cons.prems(3) by (auto simp: i split: option.splits)
  have s: "safe w w1"
    by (rule consumeQuantity_safe [OF Cons.prems(1,2) c])
  show ?case
  proof (cases x)
    case (Inl e)
    then show ?thesis
      using Cons.prems(3) s by (simp add: i c)
  next
    case (Inr u)
    then have "safe w1 w'"
      using Cons.prems(3) safe_player [OF Cons.prems(1) s Cons.prems(2)] by (intro Cons.IH) (auto simp: i c)
    from safe_trans [OF Cons.prems(1) s this] show ?thesis .
  qed
qed (simp add: safe_refl)

lemma produce_more_safe:
  assumes "tree_ok w" and "isPlayer (objs w a)" and io: "items_only env"
  shows "safe w (produce_more n env a item how w)"
  using assms(1,2)
proof (induction n arbitrary: w)
  case (Suc n)
  show ?case
  proof (cases "spawn env item w")
    case (Some r)
    obtain w1 it where r: "r = (w1, it)"
      by (cases r)
    have s: "safe w (Move env it (Some a) (applyProduceBind it how w1))"
      by (rule deliver_safe [OF Suc.prems Some [unfolded r] io bindItem_tree(3)])
    from safe_trans [OF Suc.prems(1) s Suc.IH] show ?thesis
      using safe_player [OF Suc.prems(1) s Suc.prems(2)] by (simp add: Some r)
  qed (simp add: safe_refl Suc.prems(1))
qed (simp add: safe_refl)

lemma opProduceItem_safe:
  assumes t: "tree_ok w" and a: "isPlayer (objs w a)" and io: "items_only env"
  shows "safe w (snd (opProduceItem env guard a item amount how w))"
proof (cases "spawn env item w")
  case (Some r)
  obtain w1 it where r: "r = (w1, it)"
    by (cases r)
  have sm: "safe w (Move env it (Some a) (applyProduceBind it how (setItemStackCount it n w1)))" for n
    by (rule deliver_safe [OF t a Some [unfolded r] io same_tree_trans [OF setItemStackCount_tree bindItem_tree(3)]])
  have sd: "safe w (Move env it (Some a) (applyProduceBind it how w1))"
    by (rule deliver_safe [OF t a Some [unfolded r] io bindItem_tree(3)])
  have "safe w (fold_in a it (Move env it (Some a) (applyProduceBind it how (setItemStackCount it n w1))))" for n
    using safe_trans [OF t sm fold_in_safe] sm by (simp add: safe_def)
  moreover have "safe w (produce_more n env a item how (Move env it (Some a) (applyProduceBind it how w1)))" for n
    using safe_trans [OF t sd produce_more_safe [OF _ _ io]] safe_player [OF t sd a] by blast
  ultimately show ?thesis
    using safe_refl [OF t] by (simp add: opProduceItem_def Some r)
qed (simp add: opProduceItem_def safe_refl [OF t])

lemma produce_output_safe:
  assumes "tree_ok w" and "isPlayer (objs w a)" and io: "items_only env"
  shows "safe w (produce_output n env a level def w)"
  using assms(1,2)
proof (induction n arbitrary: w)
  case (Suc n)
  show ?case
  proof (cases "spawn env (rc_item def) w")
    case (Some r)
    obtain w1 it where r: "r = (w1, it)"
      by (cases r)
    define w2 where "w2 = (if level > 0 then upd it (\<lambda>x. x\<lparr>quality := Some (level, [])\<rparr>) w1 else w1)"
    define w3 where "w3 = Move env it (Some a) (applyProduceBind it (rc_bind def) w2)"
    have "same_tree w1 w2"
      by (simp add: w2_def same_tree_upd)
    from deliver_safe [OF Suc.prems Some [unfolded r] io same_tree_trans [OF this bindItem_tree(3)]]
    have s: "safe w w3"
      by (simp add: w3_def)
    define w4 where "w4 = (if isMaterial (objs w3 it) then fold_in a it w3 else w3)"
    have s4: "safe w w4"
      using s safe_trans [OF Suc.prems(1) s fold_in_safe] by (simp add: w4_def safe_def)
    have "produce_output (Suc n) env a level def w = produce_output n env a level def w4"
      by (simp only: produce_output.simps Some r option.case prod.case Let_def w2_def w3_def w4_def)
    then show ?thesis
      using safe_trans [OF Suc.prems(1) s4 Suc.IH] safe_player [OF Suc.prems(1) s4 Suc.prems(2)] by metis
  qed (simp add: safe_refl Suc.prems(1))
qed (simp add: safe_refl)

lemma opCraftRecipe_safe:
  assumes t: "tree_ok w" and a: "isPlayer (objs w a)" and io: "items_only env"
    and c: "opCraftRecipe env cr guard a ref arg w = Some (r, w')"
  shows "safe w w'"
proof -
  have "w' = w \<or> (\<exists>ins x w1. consume_inputs env a ins w = Some (x, w1) \<and> (w' = w1 \<or> (\<exists>def. w' = produceRecipeOutput env cr a def w1)))"
    using c by (auto simp: opCraftRecipe_def split: option.splits sum.splits if_splits) blast+
  moreover have "safe w w1 \<and> safe w (produceRecipeOutput env cr a def w1)" if "consume_inputs env a ins w = Some (x, w1)" for ins x w1 def
  proof -
    have s: "safe w w1"
      by (rule consume_inputs_safe [OF t a that])
    show ?thesis
      using s safe_trans [OF t s produce_output_safe [OF _ _ io]] safe_player [OF t s a]
      by (simp add: produceRecipeOutput_def Let_def)
  qed
  ultimately show ?thesis
    using safe_refl [OF t] by blast
qed


text \<open>A mob dies in its room: what it carried goes into the corpse, the corpse into the room.\<close>

lemma fill_corpse:
  assumes "tree_ok w" and "c < nextObj w" and "location (objs w c) = None" and "\<not> isPlayer (objs w v)"
    and "\<And>i. i \<in> set items \<Longrightarrow> location (objs w i) = Some v \<and> \<not> isPlayer (objs w i)" and "distinct items"
  shows "safe w (foldl (\<lambda>w item. Move env item (Some c) w) w items) \<and>
    (\<forall>j. j \<notin> set items \<longrightarrow> location (objs (foldl (\<lambda>w item. Move env item (Some c) w) w items) j) = location (objs w j)) \<and>
    (\<forall>j. isPlayer (objs (foldl (\<lambda>w item. Move env item (Some c) w) w items) j) = isPlayer (objs w j) \<and>
       bound (objs (foldl (\<lambda>w item. Move env item (Some c) w) w items) j) = bound (objs w j)) \<and>
    nextObj (foldl (\<lambda>w item. Move env item (Some c) w) w items) = nextObj w"
  using assms
proof (induction items arbitrary: w)
  case (Cons i items)
  have i: "location (objs w i) = Some v" "\<not> isPlayer (objs w i)" "i \<noteq> c"
    using Cons.prems(3) Cons.prems(5) [of i] by auto
  have "(c, i) \<notin> (inside w)\<^sup>*"
    using above_None [OF Cons.prems(3)] i(3) by blast
  then have s: "safe w (Move env i (Some c) w)"
    using Cons.prems(2,4) by (intro Move_held [OF Cons.prems(1) i(1,2)]) auto
  have t: "tree_ok (Move env i (Some c) w)"
    using s by (simp add: safe_def)
  note IH = Cons.IH [OF t]
  have "\<And>k. k \<in> set items \<Longrightarrow> location (objs (Move env i (Some c) w) k) = Some v \<and> \<not> isPlayer (objs (Move env i (Some c) w) k)"
    using Cons.prems(5,6) by (auto simp: Move_location)
  from IH [OF _ _ _ this] have ih: "safe (Move env i (Some c) w) (foldl (\<lambda>w item. Move env item (Some c) w) (Move env i (Some c) w) items)"
    "\<And>j. j \<notin> set items \<Longrightarrow> location (objs (foldl (\<lambda>w item. Move env item (Some c) w) (Move env i (Some c) w) items) j) = location (objs (Move env i (Some c) w) j)"
    "\<And>j. isPlayer (objs (foldl (\<lambda>w item. Move env item (Some c) w) (Move env i (Some c) w) items) j) = isPlayer (objs w j)"
    "\<And>j. bound (objs (foldl (\<lambda>w item. Move env item (Some c) w) (Move env i (Some c) w) items) j) = bound (objs w j)"
    "nextObj (foldl (\<lambda>w item. Move env item (Some c) w) (Move env i (Some c) w) items) = nextObj w"
    using Cons.prems(2,3,4,6) i(3) by (auto simp: Move_location)
  then show ?case
    using safe_trans [OF Cons.prems(1) s ih(1)] by (simp add: Move_location)
qed (simp add: safe_refl)

lemma makeCorpse_safe:
  assumes t: "tree_ok w" and v: "\<not> isPlayer (objs w v)" "location (objs w v) = Some r" "location (objs w r) = None"
  shows "safe w (makeCorpse env now v killer w)"
proof -
  define c where "c = nextObj w"
  define body where "body = (newCorpse (objs w v))\<lparr>corpse := (case killer of None \<Rightarrow> None | Some k \<Rightarrow> corpse_owner now (objs w k))\<rparr>"
  define w1 where "w1 = w\<lparr>objs := (objs w)(c := body), nextObj := c + 1\<rparr>"
  define w2 where "w2 = foldl (\<lambda>w item. Move env item (Some c) w) w1 (contents (objs w v))"
  have body: "location body = None" "contents body = []" "\<not> isPlayer body" "\<not> bound body"
    by (simp_all add: body_def newCorpse_def blank_obj_def)
  have o: "objs w1 c = body" "j \<noteq> c \<Longrightarrow> objs w1 j = objs w j" "nextObj w1 = Suc (nextObj w)" for j
    by (simp_all add: w1_def c_def)
  have t1: "tree_ok w1"
    using o body by (intro fresh_obj_ok [OF t]) (auto simp: c_def)
  have low: "v < nextObj w" "r < nextObj w"
    using located_low [OF t v(2)] tree_low [OF t v(2)] by auto
  have s1: "safe w w1"
    using t1 o body by (auto simp: safe_def c_def)
  have items: "location (objs w1 i) = Some v \<and> \<not> isPlayer (objs w1 i)" if "i \<in> set (contents (objs w v))" for i
  proof -
    have l: "location (objs w i) = Some v"
      using tree_contents(1) [OF t that] .
    then have "i \<noteq> c" "\<not> isPlayer (objs w i)"
      using located_low [OF t l] tree_players(2) [OF t, of i v] v(2) by (auto simp: c_def)
    then show ?thesis
      using l o(2) by simp
  qed
  have vc: "v \<noteq> c" "r \<noteq> c"
    using low by (auto simp: c_def)
  have "\<not> isPlayer (objs w1 v)" "location (objs w1 c) = None" "c < nextObj w1" "distinct (contents (objs w v))"
    using vc v(1) o body tree_contents(2) [OF t] by (auto simp: c_def)
  from fill_corpse [OF t1 this(3,2,1) items this(4)]
  have s2: "safe w1 w2" and f: "\<And>j. j \<notin> set (contents (objs w v)) \<Longrightarrow> location (objs w2 j) = location (objs w1 j)"
    "\<And>j. isPlayer (objs w2 j) = isPlayer (objs w1 j)" "\<And>j. bound (objs w2 j) = bound (objs w1 j)" "nextObj w2 = nextObj w1"
    by (simp_all add: w2_def)
  have t2: "tree_ok w2"
    using s2 by (simp add: safe_def)
  have out: "v \<notin> set (contents (objs w v))" "r \<notin> set (contents (objs w v))" "c \<notin> set (contents (objs w v))"
    using tree_contents(1) [OF t, of _ v] v(2,3) not_above [OF t, of v v] located_low [OF t] by (auto simp: c_def)
  have l2: "location (objs w2 v) = Some r" "location (objs w2 r) = None" "location (objs w2 c) = None"
    using f(1) out vc v o body by auto
  have nobody: "location (objs w2 i) \<noteq> Some c" if "isPlayer (objs w2 i)" for i
  proof -
    have p: "isPlayer (objs w i)" "i \<noteq> c"
      using that f(2) o body by (metis, metis)
    then have "i \<notin> set (contents (objs w v))"
      using items o(2) by metis
    then show ?thesis
      using f(1) [of i] o(2) p(2) tree_low [OF t, of i c] by (auto simp: c_def)
  qed
  define w3 where "w3 = Move env c (Some r) w2"
  have "(r, c) \<notin> (inside w2)\<^sup>*"
    using above_None [OF l2(2)] vc by blast
  then have "tree_ok w3"
    unfolding w3_def using f(2,4) o body low nobody by (intro Move_ok [OF t2]) (auto simp: c_def)
  then have s3: "safe w2 w3"
    using f(3) [of c] o body by (auto simp: safe_def w3_def Move_location)
  have l3: "location (objs w3 v) = Some r" "\<not> isPlayer (objs w3 v)"
    using l2 vc f(2) o v(1) by (simp_all add: w3_def Move_location)
  have t3: "tree_ok w3"
    using s3 by (simp add: safe_def)
  have "safe w3 (Move env v None w3)"
    using l3 by (intro Move_held [OF t3]) auto
  moreover have "makeCorpse env now v killer w = Move env v None w3"
    by (simp add: makeCorpse_def Let_def v(2) w3_def w2_def w1_def c_def body_def)
  ultimately show ?thesis
    using safe_trans [OF t s1 safe_trans [OF t1 s2 safe_trans [OF t2 s3]]] by simp
qed

lemma walk_safe:
  assumes t: "tree_ok w" and a: "isPlayer (objs w a)"
    and r: "\<And>r. dest = Some r \<Longrightarrow> r < nextObj w \<and> location (objs w r) = None \<and> \<not> isPlayer (objs w r)"
  shows "safe w (Move env a dest w)"
proof -
  have "location (objs w i) \<noteq> Some a" if "isPlayer (objs w i)" for i
    using tree_players(3) [OF t that] a by blast
  moreover have "(r, a) \<notin> (inside w)\<^sup>*" if "dest = Some r" for r
    using above_None [of w r a] r [OF that] a by auto
  ultimately have "tree_ok (Move env a dest w)"
    using player_low [OF t a] r by (intro Move_ok [OF t]) auto
  then show ?thesis
    using a by (auto simp: safe_def Move_location)
qed

section \<open>Histories\<close>

text \<open>What happens to the items of a zone: verbs and ops of its players, deaths of mobs, players that
  enter a room or leave the zone.\<close>

inductive item_step :: "Env \<Rightarrow> Crafts \<Rightarrow> World \<Rightarrow> World \<Rightarrow> bool" for env cr where
  get: "isPlayer (objs w a) \<Longrightarrow> item_step env cr w (snd (cmdGet env now a arg w))"
| drop: "isPlayer (objs w a) \<Longrightarrow> item_step env cr w (snd (cmdDrop env a arg w))"
| put: "isPlayer (objs w a) \<Longrightarrow> item_step env cr w (snd (cmdPut env a arg w))"
| splits: "isPlayer (objs w a) \<Longrightarrow> item_step env cr w (snd (cmdSplit env a arg w))"
| wear: "item_step env cr w (snd (cmdWear env a arg w))"
| wield: "item_step env cr w (snd (cmdWield env a arg w))"
| hold: "item_step env cr w (snd (cmdHold env a arg w))"
| remove: "item_step env cr w (snd (cmdRemove env a arg w))"
| opens: "item_step env cr w (snd (cmdOpen env a arg w))"
| closes: "item_step env cr w (snd (cmdClose env a arg w))"
| keep: "item_step env cr w (snd (cmdKeep env a arg w))"
| unkeep: "item_step env cr w (snd (cmdUnkeep env a arg w))"
| consume: "isPlayer (objs w a) \<Longrightarrow> opConsumeItem env guard a item amount w = Some (r, w') \<Longrightarrow> item_step env cr w w'"
| produce: "isPlayer (objs w a) \<Longrightarrow> item_step env cr w (snd (opProduceItem env guard a item amount how w))"
| augment: "item_step env cr w (snd (opAugmentItem env guard a item name amount w))"
| craft: "isPlayer (objs w a) \<Longrightarrow> opCraftRecipe env cr guard a ref arg w = Some (res, w') \<Longrightarrow> item_step env cr w w'"
| die: "\<not> isPlayer (objs w v) \<Longrightarrow> location (objs w v) = Some r \<Longrightarrow> location (objs w r) = None \<Longrightarrow>
    item_step env cr w (makeCorpse env now v killer w)"
| walk: "isPlayer (objs w a) \<Longrightarrow> r < nextObj w \<Longrightarrow> location (objs w r) = None \<Longrightarrow> \<not> isPlayer (objs w r) \<Longrightarrow>
    item_step env cr w (Move env a (Some r) w)"
| leave: "isPlayer (objs w a) \<Longrightarrow> item_step env cr w (Move env a None w)"

lemma item_step_safe:
  assumes "item_step env cr w w'" and t: "tree_ok w" and io: "items_only env"
  shows "safe w w'"
  using assms(1)
proof cases
  case (consume a guard item amount r)
  then show ?thesis
    using consumeQuantity_safe [OF t consume(1)] safe_refl [OF t] by (auto simp: opConsumeItem_def split: if_splits)
next
  case (die v r now killer)
  then show ?thesis
    using makeCorpse_safe [OF t] by blast
next
  case (walk a r)
  then show ?thesis
    using walk_safe [OF t, of a "Some r"] by auto
next
  case (leave a)
  then show ?thesis
    using walk_safe [OF t, of a None] by auto
qed (use t io same_tree_safe [OF t] in \<open>auto intro: cmdGet_safe cmdDrop_safe cmdPut_safe cmdSplit_safe opProduceItem_safe
      opCraftRecipe_safe marks_only\<close>)

lemma item_steps_safe: "(item_step env cr)\<^sup>*\<^sup>* w w' \<Longrightarrow> tree_ok w \<Longrightarrow> items_only env \<Longrightarrow> safe w w'"
proof (induction rule: rtranclp_induct)
  case (step w1 w2)
  have "tree_ok w1"
    using step by (simp add: safe_def)
  from safe_trans [OF step.prems(1) step.IH [OF step.prems] item_step_safe [OF step.hyps(2) this step.prems(2)]]
  show ?case .
qed (simp add: safe_refl)

end
