(* ===== verification/Item_Props.thy ===== *)
theory Item_Props
  imports Item_Safety
begin

text \<open>
  What players can rely on for their items: the tree they form, what is bound, how many units they hold
  after splitting, merging, consuming and crafting; and where the code breaks its own rules.
\<close>

section \<open>Counting units\<close>

definition counted :: "World \<Rightarrow> string \<Rightarrow> nat \<Rightarrow> int" where
  "counted w ref i = (if proto (objs w i) = ref then units (objs w i) else 0)"

lemma held_sum: "heldQuantity w a ref = sum_list (map (counted w ref) (contents (objs w a)))"
  by (simp add: heldQuantity_def counted_def [abs_def] sum_list_map_filter')

lemma held_remove:
  assumes "contents (objs w' a) = remove1 it (contents (objs w a))" and "it \<in> set (contents (objs w a))"
    and "\<And>j. counted w' ref j = counted w ref j"
  shows "heldQuantity w' a ref = heldQuantity w a ref - counted w ref it"
  using sum_list_map_remove1 [OF assms(2), of "counted w ref"] assms(3) by (simp add: held_sum assms(1) cong: map_cong)

lemma held_change:
  assumes "contents (objs w' a) = contents (objs w a)" and "distinct (contents (objs w a))" and "it \<in> set (contents (objs w a))"
    and "\<And>j. j \<noteq> it \<Longrightarrow> counted w' ref j = counted w ref j"
  shows "heldQuantity w' a ref = heldQuantity w a ref - counted w ref it + counted w' ref it"
proof -
  have "sum_list (map (counted w' ref) (remove1 it (contents (objs w a)))) =
      sum_list (map (counted w ref) (remove1 it (contents (objs w a))))"
    using assms(2,4) by (intro arg_cong [where f = sum_list] map_cong) auto
  then show ?thesis
    using sum_list_map_remove1 [OF assms(3), of "counted w ref"] sum_list_map_remove1 [OF assms(3), of "counted w' ref"]
    by (simp add: held_sum assms(1))
qed

lemma set_count_fields [simp]:
  "contents (objs (setItemStackCount i n w) j) = contents (objs w j)" "proto (objs (setItemStackCount i n w) j) = proto (objs w j)"
  "isMaterial (objs (setItemStackCount i n w) j) = isMaterial (objs w j)" "isPlayer (objs (setItemStackCount i n w) j) = isPlayer (objs w j)"
  "itemStackCount (objs (setItemStackCount i n w) j) = (if j = i then n else itemStackCount (objs w j))"
  by (auto simp: setItemStackCount_def upd_def isMaterial_def itemStackCount_def)

lemma counted_set_count: "isMaterial (objs w i) \<Longrightarrow>
  counted (setItemStackCount i n w) ref j = (if j = i \<and> proto (objs w i) = ref then n else if j = i then 0 else counted w ref j)"
  by (auto simp: counted_def units_def)

lemma held_set_count:
  assumes "distinct (contents (objs w a))" and "i \<in> set (contents (objs w a))" and "isMaterial (objs w i)"
  shows "heldQuantity (setItemStackCount i n w) a ref =
    heldQuantity w a ref + (if proto (objs w i) = ref then n - itemStackCount (objs w i) else 0)"
  using held_change [of "setItemStackCount i n w" a w i ref] assms
  by (simp add: counted_set_count) (simp add: counted_def units_def assms(3))

section \<open>Consuming\<close>

lemma held_Move_None:
  assumes "tree_ok w" and "it \<in> set (contents (objs w a))"
  shows "heldQuantity (Move env it None w) a ref = heldQuantity w a ref - counted w ref it"
  using assms tree_contents(1) [OF assms] by (intro held_remove) (simp_all add: Move_contents counted_def)

lemma held_found:
  assumes "heldQuantity w a ref > 0"
  shows "\<exists>it. findHeldByProto w a ref = Some it"
proof (rule ccontr)
  assume "\<not> ?thesis"
  then have "filter (\<lambda>i. proto (objs w i) = ref) (contents (objs w a)) = []"
    by (simp add: findHeldByProto_def find_None_iff filter_empty_conv)
  then show False
    using assms by (simp add: heldQuantity_def)
qed

lemma consume_exact:
  assumes "tree_ok w" and "isPlayer (objs w a)" and "length (contents (objs w a)) < fuel" and "0 \<le> qty" and "qty \<le> heldQuantity w a ref"
  shows "\<exists>w'. consume_loop fuel env a ref qty w = Some (Inr (), w') \<and>
    (\<forall>other. heldQuantity w' a other = heldQuantity w a other - (if other = ref then qty else 0))"
  using assms
proof (induction fuel arbitrary: qty w)
  case (Suc fuel)
  show ?case
  proof (cases "qty = 0")
    case False
    then obtain it where it: "findHeldByProto w a ref = Some it"
      using held_found [of w a ref] Suc.prems(4,5) by fastforce
    then have h: "it \<in> set (contents (objs w a))" "proto (objs w it) = ref"
      using findHeld_in by auto
    have d: "distinct (contents (objs w a))"
      by (rule tree_contents(2) [OF Suc.prems(1)])
    show ?thesis
    proof (cases "isMaterial (objs w it) \<and> itemStackCount (objs w it) > qty")
      case True
      then show ?thesis
        using False it Suc.prems(4) h held_set_count [OF d h(1)] by auto
    next
      case whole: False
      have u: "units (objs w it) \<le> qty"
        using whole False Suc.prems(4) by (auto simp: units_def)
      let ?w = "Move env it None w"
      have held: "heldQuantity ?w a other = heldQuantity w a other - (if other = ref then units (objs w it) else 0)" for other
        using held_Move_None [OF Suc.prems(1) h(1)] h(2) by (simp add: counted_def)
      have "safe w ?w"
        by (rule held_move [OF Suc.prems(1,2) h(1)])
      then have "tree_ok ?w"
        by (simp add: safe_def)
      moreover have "length (contents (objs ?w a)) < fuel"
      proof -
        have "length (contents (objs ?w a)) = length (contents (objs w a)) - 1"
          using h(1) tree_contents(1) [OF Suc.prems(1) h(1)] by (simp add: Move_contents length_remove1)
        then show ?thesis
          using Suc.prems(3) length_pos_if_in_set [OF h(1)] by linarith
      qed
      ultimately obtain w' where "consume_loop fuel env a ref (qty - units (objs w it)) ?w = Some (Inr (), w')"
        "\<forall>other. heldQuantity w' a other = heldQuantity ?w a other - (if other = ref then qty - units (objs w it) else 0)"
        using Suc.IH [of ?w "qty - units (objs w it)"] Suc.prems(2,5) u held by auto
      then show ?thesis
        using False it whole Suc.prems(4) held by auto
    qed
  qed simp
qed simp

lemma consumeQuantity_exact:
  assumes "tree_ok w" and "isPlayer (objs w a)" and "0 \<le> qty" and "qty \<le> heldQuantity w a ref"
  shows "\<exists>w'. consumeQuantity env a ref qty w = Some (Inr (), w') \<and> safe w w' \<and>
    (\<forall>other. heldQuantity w' a other = heldQuantity w a other - (if other = ref then qty else 0))"
proof -
  obtain w' where w': "consume_loop (Suc (length (contents (objs w a)))) env a ref qty w = Some (Inr (), w')"
    "\<forall>other. heldQuantity w' a other = heldQuantity w a other - (if other = ref then qty else 0)"
    using consume_exact [OF assms(1,2) lessI assms(3,4)] by blast
  then have "consumeQuantity env a ref qty w = Some (Inr (), w')"
    using assms(4) by (simp add: consumeQuantity_def del: consume_loop.simps)
  then show ?thesis
    using w'(2) consumeQuantity_safe [OF assms(1,2)] by blast
qed

definition needs :: "(string \<times> int) list \<Rightarrow> string \<Rightarrow> int" where
  "needs ins item = (case map_of ins item of None \<Rightarrow> 0 | Some q \<Rightarrow> q)"

lemma consume_inputs_exact:
  assumes "tree_ok w" and "isPlayer (objs w a)" and "distinct (map fst ins)"
    and "\<And>item q. (item, q) \<in> set ins \<Longrightarrow> 0 \<le> q \<and> q \<le> heldQuantity w a item"
  shows "\<exists>w'. consume_inputs env a ins w = Some (Inr (), w') \<and> safe w w' \<and>
    (\<forall>other. heldQuantity w' a other = heldQuantity w a other - needs ins other)"
  using assms
proof (induction ins arbitrary: w)
  case (Cons i ins)
  obtain item q where i: "i = (item, q)"
    by (cases i)
  obtain w1 where w1: "consumeQuantity env a item q w = Some (Inr (), w1)" "safe w w1"
    "\<forall>other. heldQuantity w1 a other = heldQuantity w a other - (if other = item then q else 0)"
    using consumeQuantity_exact [OF Cons.prems(1,2), of q item] Cons.prems(4) [of item q] by (auto simp: i)
  have "tree_ok w1" "isPlayer (objs w1 a)"
    using safe_player [OF Cons.prems(1) w1(2) Cons.prems(2)] by auto
  moreover have "0 \<le> q' \<and> q' \<le> heldQuantity w1 a item'" if "(item', q') \<in> set ins" for item' q'
  proof -
    have "item' \<noteq> item"
      using Cons.prems(3) that by (force simp: i)
    then show ?thesis
      using Cons.prems(4) [of item' q'] that w1(3) by simp
  qed
  ultimately obtain w2 where w2: "consume_inputs env a ins w1 = Some (Inr (), w2)" "safe w1 w2"
    "\<forall>other. heldQuantity w2 a other = heldQuantity w1 a other - needs ins other"
    using Cons.IH [of w1] Cons.prems(3) by (auto simp: i)
  have "needs ins item = 0"
    using Cons.prems(3) by (auto simp: i needs_def map_of_eq_None_iff image_iff split: option.split dest: map_of_SomeD)
  then have "\<forall>other. heldQuantity w2 a other = heldQuantity w a other - needs (i # ins) other"
    using w1(3) w2(3) by (simp add: i needs_def)
  then show ?case
    using w1(1) w2(1) safe_trans [OF Cons.prems(1) w1(2) w2(2)] by (simp add: i)
qed (simp add: needs_def safe_refl)


section \<open>Merging and producing\<close>

lemma merge_loop_held:
  assumes "distinct (contents (objs w a))" and "src \<in> set (contents (objs w a))" and "set hs \<subseteq> set (contents (objs w a))"
    and "isMaterial (objs w src)"
  shows "heldQuantity (snd (merge_loop src limit hs w)) a ref = heldQuantity w a ref \<and>
    (fst (merge_loop src limit hs w) \<longrightarrow> itemStackCount (objs (snd (merge_loop src limit hs w)) src) = 0)"
  using assms
proof (induction hs arbitrary: w)
  case (Cons h hs)
  define room where "room = limit - itemStackCount (objs w h)"
  define moved where "moved = (if itemStackCount (objs w src) > room then room else itemStackCount (objs w src))"
  define w1 where "w1 = setItemStackCount h (itemStackCount (objs w h) + moved) w"
  define w2 where "w2 = setItemStackCount src (itemStackCount (objs w1 src) - moved) w1"
  show ?case
  proof (cases "h = src \<or> proto (objs w h) \<noteq> proto (objs w src) \<or> \<not> isMaterial (objs w h) \<or> room \<le> 0")
    case True
    then have "merge_loop src limit (h # hs) w = merge_loop src limit hs w"
      by (auto simp: room_def)
    then show ?thesis
      using Cons.IH [of w] Cons.prems by simp
  next
    case False
    have loop: "merge_loop src limit (h # hs) w =
        (if itemStackCount (objs w2 src) \<le> 0 then (True, w2) else merge_loop src limit hs w2)"
      using False by (simp add: room_def moved_def w1_def w2_def Let_def)
    have held: "heldQuantity w2 a ref = heldQuantity w a ref"
      using False Cons.prems held_set_count [of w1 a src] held_set_count [of w a h] by (simp add: w1_def w2_def)
    have keep: "distinct (contents (objs w2 a))" "src \<in> set (contents (objs w2 a))" "set hs \<subseteq> set (contents (objs w2 a))"
      "isMaterial (objs w2 src)"
      using Cons.prems by (simp_all add: w1_def w2_def)
    have "itemStackCount (objs w2 src) = itemStackCount (objs w src) - moved"
      using False by (simp add: w1_def w2_def)
    then have "itemStackCount (objs w2 src) \<le> 0 \<Longrightarrow> itemStackCount (objs w2 src) = 0"
      by (simp add: moved_def split: if_splits)
    then show ?thesis
      unfolding loop using held Cons.IH [OF keep] by simp
  qed
qed simp

lemma fold_in_held:
  assumes "tree_ok w" and "item \<in> set (contents (objs w a))"
  shows "heldQuantity (fold_in a item w) a ref = heldQuantity w a ref"
proof (cases "isMaterial (objs w item)")
  case True
  define r where "r = merge_loop item (stackMax (objs w item)) (contents (objs w a)) w"
  have m: "heldQuantity (snd r) a ref = heldQuantity w a ref" "fst r \<Longrightarrow> itemStackCount (objs (snd r) item) = 0"
    using merge_loop_held [OF tree_contents(2) [OF assms(1)] assms(2) _ True] by (auto simp: r_def)
  have st: "same_tree w (snd r)"
    by (simp add: r_def merge_loop_tree)
  have "fold_in a item w = (if fst r then removeContent a item (snd r) else snd r)"
    using True by (simp add: fold_in_def mergeStackInto_def r_def case_prod_beta)
  moreover have "heldQuantity (removeContent a item (snd r)) a ref = heldQuantity (snd r) a ref" if "fst r"
  proof -
    have "isMaterial (objs (snd r) item)"
      using True same_tree_fields(6) [OF st] by (simp add: isMaterial_def)
    then have "counted (snd r) ref item = 0"
      using m(2) [OF that] by (simp add: counted_def units_def)
    moreover have "counted (removeContent a item (snd r)) ref j = counted (snd r) ref j" for j
      by (auto simp: counted_def units_def isMaterial_def itemStackCount_def removeContent_def upd_def)
    ultimately show ?thesis
      using held_remove [of "removeContent a item (snd r)" a item "snd r" ref] assms(2) same_tree_fields(2) [OF st]
      by (simp add: removeContent_def upd_def)
  qed
  ultimately show ?thesis
    using m(1) by simp
qed (simp add: fold_in_def mergeStackInto_def)

definition batch :: "Env \<Rightarrow> string \<Rightarrow> int" where
  "batch env ref = (case protos env ref of None \<Rightarrow> 0 | Some p \<Rightarrow> units (ensureStack p))"

lemma spawn_batch:
  assumes "spawn env ref w = Some (w1, it)"
  shows "units (objs w1 it) = batch env ref"
proof -
  have "units (ensureStack (p\<lparr>location := None, contents := [], proto := ref\<rparr>)) = units (ensureStack p)" for p
    by (simp add: units_def ensureStack_def isMaterial_def itemStackCount_def)
  then show ?thesis
    using assms by (auto simp: spawn_def batch_def Let_def split: option.splits)
qed

text \<open>A spawned item that is marked and handed over adds what its prototype counts.\<close>

lemma deliver_held:
  assumes t: "tree_ok w" and a: "isPlayer (objs w a)" and s: "spawn env ref w = Some (w1, it)" and io: "items_only env"
    and st: "same_tree w1 w2" and u: "\<And>j. stack (objs w2 j) = stack (objs w1 j)"
  shows "heldQuantity (Move env it (Some a) w2) a item = heldQuantity w a item + (if ref = item then batch env ref else 0)"
    "it \<in> set (contents (objs (Move env it (Some a) w2) a))"
proof -
  note S = spawn_facts [OF s io]
  have n: "a \<noteq> it"
    using player_low [OF t a] S(1) by auto
  have same: "counted (Move env it (Some a) w2) item j = counted w1 item j" for j
    using same_tree_fields(5,6) [OF st] u [of j] by (simp add: counted_def units_def isMaterial_def itemStackCount_def)
  have loc: "location (objs w2 it) = None" and cont: "contents (objs w2 a) = contents (objs w a)"
    using same_tree_fields(1,2) [OF st] S(3,4) n by auto
  then have c: "contents (objs (Move env it (Some a) w2) a) = contents (objs w a) @ [it]"
    by (simp add: Move_contents)
  then show "it \<in> set (contents (objs (Move env it (Some a) w2) a))"
    by simp
  have "it \<notin> set (contents (objs w a))"
    using tree_contents(1) [OF t, of it a] located_low [OF t, of it a] S(1) by auto
  then have "objs w1 j = objs w j" if "j \<in> set (contents (objs w a))" for j
    using S(3) that by metis
  then have "sum_list (map (counted w1 item) (contents (objs w a))) = sum_list (map (counted w item) (contents (objs w a)))"
    by (intro arg_cong [where f = sum_list] map_cong) (simp_all add: counted_def)
  moreover have "counted w1 item it = (if ref = item then batch env ref else 0)"
    using S(7) spawn_batch [OF s] by (simp add: counted_def)
  moreover have "counted (Move env it (Some a) w2) item = counted w1 item"
    using same by (rule ext)
  ultimately show "heldQuantity (Move env it (Some a) w2) a item = heldQuantity w a item + (if ref = item then batch env ref else 0)"
    by (simp add: held_sum c)
qed

lemma produce_output_held:
  assumes "tree_ok w" and "isPlayer (objs w a)" and io: "items_only env"
  shows "heldQuantity (produce_output n env a level def w) a item =
    heldQuantity w a item + (if rc_item def = item then int n * batch env item else 0)"
  using assms(1,2)
proof (induction n arbitrary: w)
  case (Suc n)
  show ?case
  proof (cases "spawn env (rc_item def) w")
    case None
    then have "batch env (rc_item def) = 0"
      by (simp add: spawn_def batch_def Let_def split: option.splits)
    then show ?thesis
      using None by auto
  next
    case (Some r)
    obtain w1 it where r: "r = (w1, it)"
      by (cases r)
    define w2 where "w2 = (if level > 0 then upd it (\<lambda>x. x\<lparr>quality := Some (level, [])\<rparr>) w1 else w1)"
    define w3 where "w3 = Move env it (Some a) (applyProduceBind it (rc_bind def) w2)"
    define w4 where "w4 = (if isMaterial (objs w3 it) then fold_in a it w3 else w3)"
    have st: "same_tree w1 (applyProduceBind it (rc_bind def) w2)"
      by (rule same_tree_trans [OF _ bindItem_tree(3)]) (simp add: w2_def same_tree_upd)
    have "stack (objs (applyProduceBind it (rc_bind def) w2) j) = stack (objs w1 j)" for j
      by (simp add: applyProduceBind_def bindItem_def w2_def upd_def)
    note d = deliver_held [OF Suc.prems Some [unfolded r] io st this, folded w3_def]
    have s3: "safe w w3"
      using deliver_safe [OF Suc.prems Some [unfolded r] io st] by (simp add: w3_def)
    have t3: "tree_ok w3"
      using s3 by (simp add: safe_def)
    have h4: "heldQuantity w4 a item = heldQuantity w a item + (if rc_item def = item then batch env (rc_item def) else 0)"
      using d fold_in_held [OF t3 d(2)] by (simp add: w4_def)
    have "safe w w4"
      using s3 safe_trans [OF Suc.prems(1) s3 fold_in_safe [OF t3]] by (simp add: w4_def)
    from safe_player [OF Suc.prems(1) this Suc.prems(2)] have "tree_ok w4" "isPlayer (objs w4 a)"
      by simp_all
    note IH = Suc.IH [OF this]
    have "produce_output (Suc n) env a level def w = produce_output n env a level def w4"
      by (simp only: produce_output.simps Some r option.case prod.case Let_def w2_def w3_def w4_def)
    then show ?thesis
      using IH h4 by (simp add: algebra_simps)
  qed
qed simp


section \<open>A small world\<close>

definition demo_proto :: Obj where
  "demo_proto = (blank_obj ''ore'')\<lparr>kws := [''ore''], meta := Some \<lparr>bindRule = [], maxStack = 10, itags = []\<rparr>\<rparr>"

definition finger :: "string \<Rightarrow> int \<Rightarrow> wearSlot" where
  "finger ref n = \<lparr>ws_ref = ref, ws_label = ref, ws_order = n, ws_kind = ''worn''\<rparr>"

definition demo_env :: Env where
  "demo_env =
     \<lparr>rules = \<lparr>adefs = [], rdefs = [], fdefs = []\<rparr>, fires = (\<lambda>_ _ z. z),
      vocab = \<lparr>vorder = [finger ''l'' 1, finger ''r'' 2], vbyRef = [''l'' \<mapsto> finger ''l'' 1, ''r'' \<mapsto> finger ''r'' 2]\<rparr>,
      protos = [''ore'' \<mapsto> demo_proto], auditEnabled = True\<rparr>"

definition demo_player :: "string \<Rightarrow> nat list \<Rightarrow> Obj" where
  "demo_player name held =
     (blank_obj [])\<lparr>oname := name, pid := Some name, location := Some 0, contents := held, isLiving := True, isPlayer := True\<rparr>"

text \<open>A room with two players; the first holds a bound stack of five and a ring for either finger.\<close>

definition demo_world :: World where
  "demo_world =
     \<lparr>objs = (\<lambda>_. blank_obj [])
        (0 := (blank_obj ''room'')\<lparr>contents := [1, 2]\<rparr>,
         1 := demo_player ''ann'' [3, 4], 2 := demo_player ''bob'' [],
         3 := demo_proto\<lparr>location := Some 1, bound := True, stack := Some 5\<rparr>,
         4 := (blank_obj ''ring'')\<lparr>kws := [''ring''], location := Some 1,
                wearable := Some \<lparr>locs = [''l'', ''r''], wadd = [], wmul = [], equipAffects = []\<rparr>\<rparr>),
      nextObj = 5, zn = \<lparr>ents = Map.empty, heap = undefined, nextInst = 0, conc = []\<rparr>, trail = []\<rparr>"

lemma demo_env_ok: "items_only demo_env"
  by (simp add: items_only_def demo_env_def demo_proto_def blank_obj_def)

lemma demo_objs:
  "objs demo_world 0 = (blank_obj ''room'')\<lparr>contents := [1, 2]\<rparr>" "objs demo_world 1 = demo_player ''ann'' [3, 4]"
  "objs demo_world (Suc 0) = demo_player ''ann'' [3, 4]" "objs demo_world 2 = demo_player ''bob'' []"
  "objs demo_world 3 = demo_proto\<lparr>location := Some 1, bound := True, stack := Some 5\<rparr>"
  "objs demo_world 4 = (blank_obj ''ring'')\<lparr>kws := [''ring''], location := Some 1,
                wearable := Some \<lparr>locs = [''l'', ''r''], wadd = [], wmul = [], equipAffects = []\<rparr>\<rparr>"
  "i > 4 \<Longrightarrow> objs demo_world i = blank_obj []" "nextObj demo_world = 5"
  by (simp_all add: demo_world_def)

lemma demo_cases: obtains "i = (0::nat)" | "i = 1" | "i = 2" | "i = 3" | "i = 4" | "i > 4"
  by linarith

lemma demo_ok: "tree_ok demo_world"
proof -
  have loc: "location (objs demo_world i) =
      (if i = 1 \<or> i = 2 then Some 0 else if i = 3 \<or> i = 4 then Some 1 else None)" for i
    by (cases rule: demo_cases [of i]) (simp_all add: demo_objs demo_player_def demo_proto_def blank_obj_def)
  have cont: "contents (objs demo_world i) = (if i = 0 then [1, 2] else if i = 1 then [3, 4] else [])" for i
    by (cases rule: demo_cases [of i]) (simp_all add: demo_objs demo_player_def demo_proto_def blank_obj_def)
  have play: "isPlayer (objs demo_world i) = (i = 1 \<or> i = 2)" "isLiving (objs demo_world i) = (i = 1 \<or> i = 2)" for i
    by (cases rule: demo_cases [of i]; simp add: demo_objs demo_player_def demo_proto_def blank_obj_def)+
  have "inside demo_world \<subseteq> measure (\<lambda>i. if i = 0 then 2 else if i = 1 then 1 else (0 :: nat))"
    by (auto simp: inside_def loc split: if_splits)
  then have "acyclic (inside demo_world)"
    by (rule acyclic_subset [OF wf_acyclic [OF wf_measure]])
  moreover have "holds_ok demo_world" "players_ok demo_world" "fresh_ok demo_world"
    by (auto simp: holds_ok_def players_ok_def fresh_ok_def loc cont play demo_objs(8) split: if_splits)
  ultimately show ?thesis
    by (simp add: tree_ok_def)
qed

section \<open>Properties\<close>


definition no_crafts :: Crafts where
  "no_crafts = \<lparr>recipes = [], tracks = Map.empty\<rparr>"


text \<open>
  C27. A bound item never changes hands: over any history of verbs, ops, deaths and movement, an item that
  is bound in a player's inventory stays bound, and nobody else ever holds it.
\<close>
theorem bound_items_stay:
  assumes "tree_ok w" and "items_only env" and "(item_step env cr)\<^sup>*\<^sup>* w w'"
    and "isPlayer (objs w a)" and "i \<in> set (contents (objs w a))" and "bound (objs w i)"
  shows "bound (objs w' i) \<and> (\<forall>p. i \<in> set (contents (objs w' p)) \<longrightarrow> p = a)"
proof -
  have s: "safe w w'"
    by (rule item_steps_safe [OF assms(3,1,2)])
  have l: "location (objs w i) = Some a"
    by (rule tree_contents(1) [OF assms(1,5)])
  then have "i < nextObj w" "\<not> isPlayer (objs w i)"
    using located_low [OF assms(1)] tree_players(3) [OF assms(1), of i a] assms(4) by auto
  then have "bound (objs w' i)" "location (objs w' i) \<in> {None, Some a}" "tree_ok w'"
    using s assms(4,6) l unfolding safe_def by blast+
  then show ?thesis
    using tree_contents(1) [of w' i] by force
qed

theorem bound_items_stay_witness:
  "let w' = snd (cmdDrop demo_env 1 ''ore'' demo_world)
   in bound (objs w' 3) \<and> (\<forall>p. 3 \<in> set (contents (objs w' p)) \<longrightarrow> p = 1)"
proof -
  have "item_step demo_env no_crafts demo_world (snd (cmdDrop demo_env 1 ''ore'' demo_world))"
    by (rule item_step.drop) (simp add: demo_objs demo_player_def)
  then show ?thesis
    using bound_items_stay [OF demo_ok demo_env_ok r_into_rtranclp, of no_crafts _ 1 3]
    by (simp add: Let_def demo_objs demo_player_def demo_proto_def)
qed


definition recipe_ok :: "recipeDef \<Rightarrow> bool" where
  "recipe_ok d \<longleftrightarrow> distinct (map fst (rc_inputs d)) \<and> (\<forall>(item, q) \<in> set (rc_inputs d). 0 \<le> q) \<and> 0 \<le> rc_qty d"

lemma resolveRecipe_in:
  assumes "resolveRecipe cr x arg = Some d"
  shows "d \<in> set (recipes cr)"
proof -
  define spec where "spec = parseTargetSpec arg"
  define found where "found = filter (\<lambda>d. matchesKeywords spec (recipeKeywords d)) (craftableRecipes cr x)"
  have "(0 < sel_index spec \<and> sel_index spec \<le> int (length found) \<and> d = found ! nat (sel_index spec - 1)) \<or> (\<exists>ds. found = d # ds)"
    using assms by (auto simp: resolveRecipe_def Let_def spec_def [symmetric] found_def [symmetric] split: if_splits list.splits)
  then have "d \<in> set found"
    by (auto intro!: nth_mem)
  then show ?thesis
    by (auto simp: found_def craftableRecipes_def)
qed

text \<open>
  C28. Crafting is all or nothing: with recipes that name each input once, the op always returns; unless it
  crafts, nothing changes at all; and when it crafts, the crafter holds of every item exactly what it held
  before, less the inputs, plus the output, however the units are spread over stacks.
\<close>
theorem crafting_is_all_or_nothing:
  assumes t: "tree_ok w" and a: "isPlayer (objs w a)" and io: "items_only env"
    and ok: "\<And>d. d \<in> set (recipes cr) \<Longrightarrow> recipe_ok d"
  shows "\<exists>r w'. opCraftRecipe env cr guard a ref arg w = Some (r, w') \<and>
    (case r of
       Crafted d \<Rightarrow> (\<forall>item. heldQuantity w' a item =
         heldQuantity w a item - needs (rc_inputs d) item + (if rc_item d = item then rc_qty d * batch env item else 0))
     | _ \<Rightarrow> w' = w)"
proof -
  define found where "found = (if ref \<noteq> [] then find (\<lambda>d. rc_ref d = ref) (recipes cr) else resolveRecipe cr (objs w a) arg)"
  note craft = opCraftRecipe_def [of env cr guard a ref arg w, folded found_def]
  have member: "d \<in> set (recipes cr)" if "found = Some d" for d
    using that resolveRecipe_in [of cr "objs w a" arg d] by (auto simp: found_def find_Some_iff split: if_splits)
  show ?thesis
  proof (cases "\<exists>d. found = Some d \<and> guard \<and> recipe_refused env cr a d w = None")
    case True
    then obtain d where d: "found = Some d" "guard" "recipe_refused env cr a d w = None"
      by blast
    have r: "recipe_ok d"
      by (rule ok [OF member [OF d(1)]])
    have "0 \<le> q \<and> q \<le> heldQuantity w a item" if "(item, q) \<in> set (rc_inputs d)" for item q
      using d(3) r that by (fastforce simp: recipe_refused_def recipe_ok_def Let_def list_ex_iff not_less split: if_splits)
    then obtain w1 where w1: "consume_inputs env a (rc_inputs d) w = Some (Inr (), w1)" "safe w w1"
      "\<forall>other. heldQuantity w1 a other = heldQuantity w a other - needs (rc_inputs d) other"
      using consume_inputs_exact [OF t a, of "rc_inputs d" env] r by (auto simp: recipe_ok_def)
    have p: "tree_ok w1" "isPlayer (objs w1 a)"
      using safe_player [OF t w1(2) a] by auto
    have "heldQuantity (produceRecipeOutput env cr a d w1) a item =
        heldQuantity w a item - needs (rc_inputs d) item + (if rc_item d = item then rc_qty d * batch env item else 0)" for item
      using produce_output_held [OF p io] w1(3) r by (simp add: produceRecipeOutput_def Let_def recipe_ok_def)
    moreover have "opCraftRecipe env cr guard a ref arg w = Some (Crafted d, produceRecipeOutput env cr a d w1)"
      using d w1(1) unfolding craft by simp
    ultimately show ?thesis
      by auto
  next
    case False
    then have "\<exists>r. opCraftRecipe env cr guard a ref arg w = Some (r, w) \<and> (\<forall>d. r \<noteq> Crafted d)"
      by (auto simp: craft split: option.split)
    then obtain r where "opCraftRecipe env cr guard a ref arg w = Some (r, w)" "\<forall>d. r \<noteq> Crafted d"
      by blast
    then show ?thesis
      by (cases r) auto
  qed
qed

definition demo_recipe :: recipeDef where
  "demo_recipe =
     \<lparr>rc_ref = ''bar'', rc_name = ''bar'', rc_aliases = [], rc_profession = [], rc_track = [], rc_skill = [], rc_minSkill = 0,
      rc_station = [], rc_inputs = [(''ore'', 2)], rc_item = ''ring'', rc_qty = 1, rc_bind = [], rc_qualityBase = 0\<rparr>"

definition demo_crafts :: Crafts where
  "demo_crafts = \<lparr>recipes = [demo_recipe], tracks = Map.empty\<rparr>"

theorem crafting_is_all_or_nothing_witness:
  "\<exists>w'. opCraftRecipe demo_env demo_crafts True 1 ''bar'' [] demo_world = Some (Crafted demo_recipe, w') \<and>
     heldQuantity w' 1 ''ore'' = 3"
proof -
  have held: "heldQuantity demo_world 1 ''ore'' = 5"
    by (simp add: heldQuantity_def demo_objs demo_player_def demo_proto_def blank_obj_def units_def isMaterial_def itemStackCount_def)
  have free: "recipe_refused demo_env demo_crafts 1 demo_recipe demo_world = None"
    using held by (simp add: recipe_refused_def demo_recipe_def recipeSkillAttr_def)
  have p: "isPlayer (objs demo_world 1)" and ok: "recipe_ok demo_recipe"
    by (simp_all add: demo_objs demo_player_def recipe_ok_def demo_recipe_def)
  have "distinct (map fst (rc_inputs demo_recipe))"
    "\<And>item q. (item, q) \<in> set (rc_inputs demo_recipe) \<Longrightarrow> 0 \<le> q \<and> q \<le> heldQuantity demo_world 1 item"
    using held by (simp_all add: demo_recipe_def)
  then obtain w1 where "consume_inputs demo_env 1 (rc_inputs demo_recipe) demo_world = Some (Inr (), w1)"
    using consume_inputs_exact [OF demo_ok p, of "rc_inputs demo_recipe" demo_env] by blast
  moreover have "find (\<lambda>d. rc_ref d = ''bar'') (recipes demo_crafts) = Some demo_recipe"
    by (simp add: demo_crafts_def demo_recipe_def)
  ultimately obtain w' where w': "opCraftRecipe demo_env demo_crafts True 1 ''bar'' [] demo_world = Some (Crafted demo_recipe, w')"
    using free by (simp add: opCraftRecipe_def)
  have "heldQuantity w' 1 ''ore'' = heldQuantity demo_world 1 ''ore'' - needs (rc_inputs demo_recipe) ''ore''"
    using crafting_is_all_or_nothing [OF demo_ok p demo_env_ok, of demo_crafts True "''bar''" "[]"] ok w'
    by (simp add: demo_crafts_def) (simp add: demo_recipe_def)
  then show ?thesis
    using w' held by (simp add: needs_def demo_recipe_def)
qed

end
