(* ===== verification/Item_Faults.thy ===== *)
theory Item_Faults
  imports Item_Props
begin

text \<open>
  Handing items over: the audit trail of transfers, and four ways in which the item verbs break what the
  code promises of them.
\<close>

section \<open>Splitting a bound stack\<close>

text \<open>
  C40. Splitting launders a binding: the piece split off a bound stack is spawned from the prototype and is not
  bound, so the gates of \<open>drop\<close> and \<open>put\<close> let it pass, although no path is meant to leak a bound item.
\<close>
theorem split_launders_binding:
  assumes t: "tree_ok w" and a: "isPlayer (objs w a)" and io: "items_only env"
    and item: "item \<in> set (contents (objs w a))" "bound (objs w item)" "isMaterial (objs w item)"
    and n: "1 \<le> n" "n < itemStackCount (objs w item)"
    and p: "protos env (proto (objs w item)) = Some p" "\<not> bound p" "\<not> kept p"
    and worn: "worn_slot w a (nextObj w) = None"
  shows "\<exists>w' piece. splitStack env a item n w = (w', Some piece) \<and> piece \<in> set (contents (objs w' a)) \<and>
    proto (objs w' piece) = proto (objs w item) \<and> itemStackCount (objs w' piece) = n \<and>
    bound (objs w' item) \<and> \<not> bound (objs w' piece) \<and> part_blocked w' a piece = None"
proof -
  define ref where "ref = proto (objs w item)"
  define x where "x = ensureStack (p\<lparr>location := None, contents := [], proto := ref\<rparr>)"
  define w1 where "w1 = w\<lparr>objs := (objs w)(nextObj w := x), nextObj := nextObj w + 1\<rparr>"
  have s: "spawn env ref w = Some (w1, nextObj w)"
    using p(1) by (simp add: spawn_def ref_def w1_def x_def)
  note S = spawn_facts [OF s io]
  define w2 where "w2 = setItemStackCount (nextObj w) n w1"
  define w3 where "w3 = setItemStackCount item (itemStackCount (objs w2 item) - n) w2"
  define w' where "w' = Move env (nextObj w) (Some a) w3"
  have neq: "item \<noteq> nextObj w" "a \<noteq> nextObj w"
    using located_low [OF t tree_contents(1) [OF t item(1)]] player_low [OF t a] by auto
  have split: "splitStack env a item n w = (w', Some (nextObj w))"
    using item(3) n by (simp add: splitStack_def s [unfolded ref_def] w'_def w3_def w2_def Let_def)
  have st: "same_tree w1 w3"
    unfolding w3_def w2_def by (rule same_tree_trans [OF setItemStackCount_tree setItemStackCount_tree])
  have c: "nextObj w \<in> set (contents (objs w' a))"
    by (simp add: w'_def Move_contents)
  have o: "objs w3 (nextObj w) = x\<lparr>stack := Some n\<rparr>" "wearer (objs w3 a) = wearer (objs w a)"
    using neq by (simp_all add: w3_def w2_def w1_def setItemStackCount_def upd_def)
  have marks: "\<not> bound x" "\<not> kept x"
    using p(2,3) by (simp_all add: x_def ensureStack_def)
  have "location (objs w3 (nextObj w)) = None"
    using same_tree_fields(1) [OF st] S(4) by simp
  then have "wearer (objs w' a) = wearer (objs w a)"
    using neq o(2) by (simp add: w'_def Move_def upd_def Let_def)
  then have "worn_slot w' a (nextObj w) = None"
    using worn by (simp add: worn_slot_def)
  then have free: "part_blocked w' a (nextObj w) = None" "\<not> bound (objs w' (nextObj w))"
    using marks o(1) by (simp_all add: part_blocked_def equippedBlocked_def w'_def)
  have "bound (objs w3 item)"
    using st S(3) [OF neq(1)] item(2) by (simp add: same_tree_def)
  moreover have "itemStackCount (objs w' (nextObj w)) = n"
    using o(1) by (simp add: w'_def itemStackCount_def)
  moreover have "proto (objs w' (nextObj w)) = ref"
    using same_tree_fields(5) [OF st] S(7) by (simp add: w'_def)
  ultimately show ?thesis
    using split c free by (simp add: w'_def ref_def)
qed

theorem split_launders_binding_witness:
  "\<exists>w' piece. splitStack demo_env 1 3 2 demo_world = (w', Some piece) \<and> \<not> bound (objs w' piece) \<and> bound (objs w' 3)"
proof -
  have "item \<in> set (contents (objs demo_world 1)) \<and> bound (objs demo_world item) \<and> isMaterial (objs demo_world item) \<and>
      itemStackCount (objs demo_world item) = 5 \<and> proto (objs demo_world item) = ''ore''" if "item = 3" for item
    using that by (simp add: demo_objs demo_player_def demo_proto_def blank_obj_def isMaterial_def itemStackCount_def)
  moreover have "protos demo_env ''ore'' = Some demo_proto" "\<not> bound demo_proto" "\<not> kept demo_proto"
    "worn_slot demo_world 1 (nextObj demo_world) = None" "isPlayer (objs demo_world 1)"
    by (simp_all add: demo_env_def demo_proto_def blank_obj_def worn_slot_def demo_objs demo_player_def)
  ultimately show ?thesis
    using split_launders_binding [OF demo_ok _ demo_env_ok, of 1 3 2 demo_proto] by auto
qed

section \<open>A recipe that lists an input twice\<close>

text \<open>
  Inputs are checked one by one before any is consumed, so a recipe that lists an item twice passes the
  check with units for one entry only: the first entry is consumed, the second fails, and the components
  are gone without an output, although a partial craft is meant never to destroy components.
\<close>
lemma repeated_input_loses_components:
  assumes t: "tree_ok w" and a: "isPlayer (objs w a)"
    and d: "ref \<noteq> []" "find (\<lambda>d. rc_ref d = ref) (recipes cr) = Some d" "rc_inputs d = [(item, q), (item, q)]"
    and q: "0 < q" "q \<le> heldQuantity w a item" "heldQuantity w a item < 2 * q"
    and gates: "rc_profession d = []" "rc_minSkill d \<le> 0" "rc_station d = []"
  shows "\<exists>w'. opCraftRecipe env cr True a ref arg w = Some (CraftFailed ItemsShort, w') \<and>
    (\<forall>other. heldQuantity w' a other = heldQuantity w a other - (if other = item then q else 0))"
proof -
  obtain w1 where w1: "consumeQuantity env a item q w = Some (Inr (), w1)"
    "\<forall>other. heldQuantity w1 a other = heldQuantity w a other - (if other = item then q else 0)"
    using consumeQuantity_exact [OF t a _ q(2), of env] q(1) by auto
  have "consumeQuantity env a item q w1 = Some (Inl ItemsShort, w1)"
    using w1(2) q(3) by (simp add: consumeQuantity_def)
  then have "consume_inputs env a (rc_inputs d) w = Some (Inl ItemsShort, w1)"
    using w1(1) by (simp add: d(3))
  moreover have "recipe_refused env cr a d w = None"
    using q gates by (simp add: recipe_refused_def d(3) Let_def)
  ultimately show ?thesis
    using d(1,2) w1(2) by (simp add: opCraftRecipe_def)
qed

definition twice_recipe :: recipeDef where
  "twice_recipe = demo_recipe\<lparr>rc_inputs := [(''ore'', 3), (''ore'', 3)]\<rparr>"

section \<open>Wearing an item twice\<close>

lemma Resolve_same:
  assumes st: "same_tree w w'"
  shows "Resolve env w' a spec [ScopeInventory] = Resolve env w a spec [ScopeInventory]"
proof -
  note f = same_tree_fields [OF st]
  have flag: "hasFlag (objs w' j) fl = hasFlag (objs w j) fl" "hasItemTag (objs w' j) fl = hasItemTag (objs w j) fl" for j fl
    by (simp_all add: hasFlag_def hasItemTag_def f)
  then have dark: "roomIsDark w' r = roomIsDark w r" for r
    by (simp add: roomIsDark_def roomFlag_def roomIsLit_def emitsLight_def f split: option.split)
  have "visibleTo w' a j = visibleTo w a j" for j
    unfolding visibleTo_def Let_def flag f dark by (rule refl)
  then show ?thesis
    by (simp add: Resolve_def scopeCandidates_def scope_entities_def hits_def f)
qed

definition slots :: "World \<Rightarrow> nat \<Rightarrow> (string \<times> nat) list" where
  "slots w a = worn (actorWearer (objs w a))"

lemma applyWornMods_slots: "slots (applyWornMods i w) j = slots w j" "wearer (objs (applyWornMods i w) j) = None \<longleftrightarrow> wearer (objs w j) = None"
proof -
  have e: "slots (ensureWornModSource i w) j = slots w j \<and> (wearer (objs (ensureWornModSource i w) j) = None \<longleftrightarrow> wearer (objs w j) = None)" for w
    by (auto simp: ensureWornModSource_def slots_def upd_def on_living_def Let_def actorWearer_def split: option.splits)
  have r: "slots (recomputeWornMods i w) j = slots w j \<and> (wearer (objs (recomputeWornMods i w) j) = None \<longleftrightarrow> wearer (objs w j) = None)" for w
    by (auto simp: recomputeWornMods_def slots_def upd_def on_living_def Let_def actorWearer_def split: option.splits)
  show "slots (applyWornMods i w) j = slots w j" "wearer (objs (applyWornMods i w) j) = None \<longleftrightarrow> wearer (objs w j) = None"
    using e r by (simp_all add: applyWornMods_def)
qed

lemma equip_slots:
  "slots (applyEquipAffects env a t q (applyWornMods a (bindOnEquip t (fill_slot a loc t w)))) a = AList.update loc t (slots w a)"
  "wearer (objs (applyEquipAffects env a t q (applyWornMods a (bindOnEquip t (fill_slot a loc t w)))) a) \<noteq> None"
proof -
  have b: "slots (bindOnEquip t (fill_slot a loc t w)) a = AList.update loc t (slots w a)"
    "wearer (objs (bindOnEquip t (fill_slot a loc t w)) a) \<noteq> None"
    by (simp_all add: bindOnEquip_def bindItem_def fill_slot_def upd_def slots_def actorWearer_def)
  show "slots (applyEquipAffects env a t q (applyWornMods a (bindOnEquip t (fill_slot a loc t w)))) a = AList.update loc t (slots w a)"
    "wearer (objs (applyEquipAffects env a t q (applyWornMods a (bindOnEquip t (fill_slot a loc t w)))) a) \<noteq> None"
    using applyWornMods_slots [of a "bindOnEquip t (fill_slot a loc t w)" a] b
    by (simp_all add: applyEquipAffects_def slots_def)
qed

lemma wear_once:
  assumes "Arg0 arg \<noteq> []" and "Target env w a arg [ScopeInventory] = Some t" and "wearable (objs w t) = Some wd"
    and "l \<in> set (orderedRefs (vocab env))" "isWorn (vocab env) l" "canWear wd l" "map_of (slots w a) l = None"
  shows "\<exists>loc. snd (cmdWear env a arg w) = applyEquipAffects env a t False (applyWornMods a (bindOnEquip t (fill_slot a loc t w))) \<and>
    map_of (slots w a) loc = None"
proof -
  obtain loc where "find (\<lambda>loc. isWorn (vocab env) loc \<and> canWear wd loc \<and> map_of (slots w a) loc = None) (orderedRefs (vocab env)) = Some loc"
    "map_of (slots w a) loc = None"
    using assms(4-7) by (cases "find (\<lambda>loc. isWorn (vocab env) loc \<and> canWear wd loc \<and> map_of (slots w a) loc = None) (orderedRefs (vocab env))")
      (auto simp: find_None_iff find_Some_iff)
  then show ?thesis
    using assms(1-3) by (auto simp: cmdWear_def slots_def)
qed


lemma find_slot: "(l, t) \<in> set ws \<Longrightarrow> \<exists>l'. map_option fst (find (\<lambda>(l, e). e = t) ws) = Some l'"
  by (induction ws) auto

text \<open>
  \<open>wear\<close> does not look whether the item is already worn: with two free slots it fits, wearing it twice puts it
  in both, so its modifiers count twice; and when it is destroyed or leaves, only one slot is cleared: the
  other still holds the item that nobody carries, with its bonus.
\<close>
lemma worn_twice_outlives_the_item:
  assumes t: "tree_ok w" and a: "isPlayer (objs w a)"
    and arg: "Arg0 arg \<noteq> []" "Target env w a arg [ScopeInventory] = Some t" "wearable (objs w t) = Some wd"
    and l: "l1 \<noteq> l2" "{l1, l2} \<subseteq> set (orderedRefs (vocab env))"
      "\<And>l. l \<in> {l1, l2} \<Longrightarrow> isWorn (vocab env) l \<and> canWear wd l \<and> map_of (slots w a) l = None"
  shows "let w2 = snd (cmdWear env a arg (snd (cmdWear env a arg w))); w3 = Move env t None w2
    in (\<exists>x y. x \<noteq> y \<and> map_of (slots w2 a) x = Some t \<and> map_of (slots w2 a) y = Some t) \<and>
       t \<notin> set (contents (objs w3 a)) \<and> worn_slot w3 a t \<noteq> None"
proof -
  define w1 where "w1 = snd (cmdWear env a arg w)"
  obtain x where x: "w1 = applyEquipAffects env a t False (applyWornMods a (bindOnEquip t (fill_slot a x t w)))" "map_of (slots w a) x = None"
    using wear_once [OF arg, of l1] l by (auto simp: w1_def)
  have s1: "slots w1 a = AList.update x t (slots w a)"
    unfolding x(1) by (rule equip_slots(1))
  have st: "same_tree w w1"
    unfolding x(1) by (rule equip_tree(1))
  have arg1: "Target env w1 a arg [ScopeInventory] = Some t" "wearable (objs w1 t) = Some wd"
    using arg(2,3) same_tree_fields(14) [OF st] by (simp_all add: Target_def Resolve_same [OF st])
  obtain l where l': "l \<in> {l1, l2}" "l \<noteq> x"
    using l(1) by blast
  have "map_of (slots w1 a) l = None"
    using l(3) [OF l'(1)] l'(2) by (simp add: s1 update_conv')
  then obtain y where y: "snd (cmdWear env a arg w1) = applyEquipAffects env a t False (applyWornMods a (bindOnEquip t (fill_slot a y t w1)))"
    "map_of (slots w1 a) y = None"
    using wear_once [OF arg(1) arg1, of l] l(2) l(3) [OF l'(1)] l'(1) by auto
  define w2 where "w2 = snd (cmdWear env a arg w1)"
  have s2: "slots w2 a = AList.update y t (slots w1 a)" "wearer (objs w2 a) \<noteq> None"
    unfolding w2_def y(1) by (rule equip_slots)+
  have xy: "x \<noteq> y"
    using y(2) by (auto simp: s1 update_conv')
  have both: "map_of (slots w2 a) x = Some t" "map_of (slots w2 a) y = Some t"
    using xy by (simp_all add: s1 s2(1) update_conv')
  have st2: "same_tree w w2"
    unfolding w2_def y(1) by (rule same_tree_trans [OF st equip_tree(1)])
  then have t2: "tree_ok w2"
    using same_tree_ok t by blast
  have "location (objs w t) = Some a" "t \<noteq> a"
    using inventory_held [OF t a, of t env] Target_in [OF arg(2)] by auto
  then have loc: "location (objs w2 t) = Some a" "t \<noteq> a"
    using same_tree_fields(1) [OF st2] by simp_all
  obtain wr where wr: "wearer (objs w2 a) = Some wr" "worn wr = slots w2 a"
    using s2(2) by (auto simp: slots_def actorWearer_def)
  have "\<exists>z. slotOf wr t = Some z"
    using find_slot [of x t] both(1) by (auto simp: slotOf_def wr(2) dest: map_of_SomeD)
  then obtain z where z: "slotOf wr t = Some z"
    by blast
  define w3 where "w3 = Move env t None w2"
  have u: "slots (unequipFromWearer env a t w2) a = AList.delete z (slots w2 a) \<and> wearer (objs (unequipFromWearer env a t w2) a) \<noteq> None"
    using applyWornMods_slots [of a "upd a (\<lambda>x. x\<lparr>wearer := Some (wr\<lparr>worn := AList.delete z (worn wr)\<rparr>)\<rparr>) w2" a]
    by (simp add: unequipFromWearer_def wr z removeEquipAffects_def slots_def) (simp add: upd_def actorWearer_def wr(2) [unfolded slots_def])
  have w3: "wearer (objs w3 a) = wearer (objs (unequipFromWearer env a t w2) a)"
    using loc by (simp add: w3_def Move_def Let_def upd_def removeContent_def)
  obtain v where v: "v \<in> {x, y}" "v \<noteq> z"
    using xy by blast
  then have "map_of (AList.delete z (slots w2 a)) v = Some t"
    using both by (auto simp: delete_conv')
  then have "worn_slot w3 a t \<noteq> None"
    using u find_slot [of v t "AList.delete z (slots w2 a)"]
    by (auto simp: worn_slot_def w3 slotOf_def slots_def actorWearer_def dest!: map_of_SomeD split: option.splits)
  moreover have "t \<notin> set (contents (objs w3 a))"
    using loc tree_contents(2) [OF t2, of a] by (simp add: w3_def Move_contents)
  ultimately show ?thesis
    using xy both by (auto simp: Let_def w1_def [symmetric] w2_def [symmetric] w3_def)
qed

section \<open>Taking a corpse away\<close>

text \<open>
  The loot window guards \<open>get ... from corpse\<close> only: while the window of another player's kill is open, a
  bystander who is refused its contents can still pick up the corpse itself, and carries everything off in it.
\<close>
lemma bystander_takes_the_corpse:
  assumes t: "tree_ok w" and b: "isPlayer (objs w b)"
    and arg: "Arg0 arg \<noteq> []" "splitKeyword arg ''from'' = None" "splitTrailingContainer env w b arg = None"
      "Target env w b arg [ScopeRoomItems] = Some box"
    and cont: "Resolve env w b (parseTargetSpec cont) [ScopeRoomItems, ScopeInventory] = box # rest"
    and box: "loot_refused now w b box" "container (objs w box) = Some \<lparr>capacity = 0, closed = False\<rparr>" "meta (objs w box) = None"
    and light: "canCarry env w b (itemWeight (objs w box))"
  shows "getFrom env now b item cont w = ([NotYoursYet box], w) \<and>
    (let w' = snd (cmdGet env now b arg w)
     in box \<in> set (contents (objs w' b)) \<and> contents (objs w' box) = contents (objs w box))"
proof -
  have refused: "getFrom env now b item cont w = ([NotYoursYet box], w)"
    using box cont by (simp add: getFrom_def)
  have e: "location (objs w box) \<noteq> Some box" "box \<noteq> b"
    using not_above [OF t, of box box] room_item(3) [OF t b, of box env] Target_in [OF arg(4)] by auto
  define w1 where "w1 = recordCrossCharTransfer env b box (Move env box (Some b) w)"
  have f: "contents (objs w1 j) = contents (objs (Move env box (Some b) w) j)" "meta (objs w1 j) = meta (objs w j)" for j
    using same_tree_fields(2,6) [OF recordCrossCharTransfer_tree] by (simp_all add: w1_def)
  have "snd (cmdGet env now b arg w) = w1"
    using arg light e(2) f(2) [of box] box(3)
    by (simp add: cmdGet_def fold_in_def mergeStackInto_def isMaterial_def w1_def [symmetric])
  then show ?thesis
    using refused e by (simp add: Let_def f(1) Move_contents)
qed

text \<open>The corpse of a mob that ann killed, with a ring in it, and bob beside it.\<close>

definition corpse_world :: World where
  "corpse_world =
     \<lparr>objs = (\<lambda>_. blank_obj [])
        (0 := (blank_obj ''room'')\<lparr>contents := [1, 2]\<rparr>, 1 := demo_player ''bob'' [],
         2 := (newCorpse (blank_obj ''rat''))\<lparr>location := Some 0, contents := [3],
                corpse := corpse_owner 0 (demo_player ''ann'' [])\<rparr>,
         3 := (blank_obj ''ring'')\<lparr>kws := [''ring''], location := Some 2\<rparr>),
      nextObj = 4, zn = \<lparr>ents = Map.empty, heap = undefined, nextInst = 0, conc = []\<rparr>, trail = []\<rparr>"

lemma corpse_objs:
  "objs corpse_world 0 = (blank_obj ''room'')\<lparr>contents := [1, 2]\<rparr>" "objs corpse_world 1 = demo_player ''bob'' []"
  "objs corpse_world (Suc 0) = demo_player ''bob'' []"
  "objs corpse_world 2 = (newCorpse (blank_obj ''rat''))\<lparr>location := Some 0, contents := [3], corpse := corpse_owner 0 (demo_player ''ann'' [])\<rparr>"
  "objs corpse_world 3 = (blank_obj ''ring'')\<lparr>kws := [''ring''], location := Some 2\<rparr>"
  "i > 3 \<Longrightarrow> objs corpse_world i = blank_obj []" "nextObj corpse_world = 4"
  by (simp_all add: corpse_world_def)

lemma corpse_ok: "tree_ok corpse_world"
proof -
  have cases: "i = 0 \<or> i = 1 \<or> i = 2 \<or> i = 3 \<or> i > 3" for i :: nat
    by linarith
  have loc: "location (objs corpse_world i) = (if i = 1 \<or> i = 2 then Some 0 else if i = 3 then Some 2 else None)" for i
    using cases [of i] by (elim disjE) (simp_all add: corpse_objs demo_player_def newCorpse_def blank_obj_def)
  have cont: "contents (objs corpse_world i) = (if i = 0 then [1, 2] else if i = 2 then [3] else [])" for i
    using cases [of i] by (elim disjE) (simp_all add: corpse_objs demo_player_def newCorpse_def blank_obj_def)
  have play: "isPlayer (objs corpse_world i) = (i = 1)" "isLiving (objs corpse_world i) = (i = 1)" for i
    using cases [of i] by (elim disjE; simp add: corpse_objs demo_player_def newCorpse_def blank_obj_def)+
  have "inside corpse_world \<subseteq> measure (\<lambda>i. if i = 0 then 2 else if i = 2 then 1 else (0 :: nat))"
    by (auto simp: inside_def loc split: if_splits)
  then have "acyclic (inside corpse_world)"
    by (rule acyclic_subset [OF wf_acyclic [OF wf_measure]])
  moreover have "holds_ok corpse_world" "players_ok corpse_world" "fresh_ok corpse_world"
    by (auto simp: holds_ok_def players_ok_def fresh_ok_def loc cont play corpse_objs(7) split: if_splits)
  ultimately show ?thesis
    by (simp add: tree_ok_def)
qed

section \<open>The audit of transfers\<close>

lemma released_kept: "released (objs (Move env e dest w) j) = released (objs w j)"
proof -
  have "released (objs (unequipFromWearer env h e w) j) = released (objs w j)" for h
    by (auto simp: unequipFromWearer_def removeEquipAffects_def applyWornMods_def recomputeWornMods_def
        ensureWornModSource_def upd_def on_living_def Let_def split: option.splits)
  then show ?thesis
    by (auto simp: Move_def Let_def upd_def removeContent_def split: option.splits)
qed

lemma stamp_released:
  "released (objs (stampReleasedTree rel n i w) i) = Some rel"
  "released (objs w j) = Some rel \<Longrightarrow> released (objs (stampReleasedTree rel n i w) j) = Some rel"
proof (induction n arbitrary: i j w)
  case (Suc n)
  have each: "released (objs w j) = Some rel \<Longrightarrow> released (objs (foldl (\<lambda>w c. stampReleasedTree rel n c w) w cs) j) = Some rel" for cs w j
    by (induction cs arbitrary: w) (auto intro: Suc.IH(2))
  case 1
  show ?case
    by (auto intro!: each simp: upd_def)
  case 2
  then show ?case
    by (auto intro!: each simp: upd_def)
qed (auto simp: upd_def)

lemma foldl_trail:
  assumes "\<And>w c. set (trail w) \<subseteq> set (trail (f w c))"
  shows "set (trail w) \<subseteq> set (trail (foldl f w cs))"
proof (induction cs arbitrary: w)
  case (Cons c cs)
  then show ?case
    using assms [of w c] Cons.IH [of "f w c"] by (simp add: subset_trans)
qed simp

lemma record_trail: "set (trail w) \<subseteq> set (trail (recordCrossCharTransferAt a n i w))"
proof -
  have one: "set (trail w) \<subseteq> set (trail (record1 a i w))" for i w
    by (auto simp: record1_def auditItemTransfer_def upd_def Let_def split: option.splits)
  show ?thesis
  proof (induction n arbitrary: i w)
    case (Suc n)
    show ?case
      unfolding recordCrossCharTransferAt.simps
      by (rule subset_trans [OF one foldl_trail]) (rule Suc.IH)
  qed (simp add: one)
qed

lemma record_row:
  assumes "released (objs w i) = Some rel" and "rel_pid rel \<noteq> []" and "pid (objs w a) = Some q" and "q \<noteq> rel_pid rel" and "isPlayer (objs w a)"
  shows "\<exists>row \<in> set (trail (recordCrossCharTransferAt a n i w)). au_from row = rel_pid rel \<and> au_to row = q \<and> au_item row = proto (objs w i)"
proof -
  have "\<exists>row \<in> set (trail (record1 a i w)). au_from row = rel_pid rel \<and> au_to row = q \<and> au_item row = proto (objs w i)"
    using assms by (auto simp: record1_def auditItemTransfer_def upd_def Let_def)
  moreover have "set (trail (record1 a i w)) \<subseteq> set (trail (recordCrossCharTransferAt a n i w))"
  proof (cases n)
    case (Suc m)
    show ?thesis
      unfolding Suc recordCrossCharTransferAt.simps by (rule foldl_trail) (rule record_trail)
  qed simp
  ultimately show ?thesis
    by blast
qed

lemma fold_in_trail: "trail (fold_in a item w) = trail w"
proof -
  have "trail (snd (merge_loop src limit hs w)) = trail w" for src limit hs w
    by (induction hs arbitrary: w) (auto simp: Let_def setItemStackCount_def upd_def)
  then show ?thesis
    by (simp add: fold_in_def mergeStackInto_def removeContent_def upd_def split: prod.split) (metis snd_conv)
qed



end
