(* ===== verification/Handoff_Sig.thy ===== *)
theory Handoff_Sig
  imports Prelude
begin

text \<open>
  Authentication of the calls between shards (\<^verbatim>\<open>internal/world/handoffsig.go\<close> and the gates of
  \<^verbatim>\<open>handoff_server.go\<close>): what each of the four signatures covers, how it is checked, and what a shard
  without a key does. SHA-256 and Ed25519 are arguments (\<open>H\<close>, \<open>sign\<close>, \<open>verify\<close>); strings are byte
  strings, as Go's are.
\<close>

section \<open>Canonical framing\<close>

text \<open>\<open>binary.BigEndian.PutUint64\<close>.\<close>

definition be64 :: "nat \<Rightarrow> string" where
  "be64 n = map (\<lambda>i. char_of (n div 256 ^ i mod 256)) [7, 6, 5, 4, 3, 2, 1, 0]"

text \<open>The closures \<open>write\<close>, \<open>writeStr\<close> and \<open>writeU64\<close>: a length, then the bytes.\<close>

definition write_frame :: "string \<Rightarrow> string" where
  "write_frame b = be64 (length b) @ b"

definition frames :: "string list \<Rightarrow> string" where
  "frames bs = concat (map write_frame bs)"

lemma length_be64 [simp]: "length (be64 n) = 8"
  by (simp add: be64_def)

lemma digits_256:
  fixes m n :: nat
  assumes "\<forall>i < k. m div 256 ^ i mod 256 = n div 256 ^ i mod 256"
  shows "m mod 256 ^ k = n mod 256 ^ k"
  using assms
proof (induction k)
  case 0
  then show ?case by simp
next
  case (Suc k)
  have split: "x mod 256 ^ Suc k = 256 ^ k * (x div 256 ^ k mod 256) + x mod 256 ^ k" for x :: nat
    by (simp only: power_Suc2 mod_mult2_eq)
  have "m mod 256 ^ k = n mod 256 ^ k" and "m div 256 ^ k mod 256 = n div 256 ^ k mod 256" using Suc by simp_all
  then show ?case unfolding split by simp
qed

lemma be64_inj:
  assumes "be64 m = be64 n" and "m < 2 ^ 64" and "n < 2 ^ 64"
  shows "m = n"
proof -
  have "m div 256 ^ i mod 256 = n div 256 ^ i mod 256" if "i \<in> set [7, 6, 5, 4, 3, 2, 1, 0::nat]" for i
  proof -
    have "char_of (m div 256 ^ i mod 256) = (char_of (n div 256 ^ i mod 256) :: char)"
      using assms(1) that unfolding be64_def map_eq_conv by blast
    then have "of_char (char_of (m div 256 ^ i mod 256) :: char) = (of_char (char_of (n div 256 ^ i mod 256) :: char) :: nat)"
      by (rule arg_cong)
    then show ?thesis by (simp only: of_char_of mod_mod_trivial)
  qed
  moreover have "set [7, 6, 5, 4, 3, 2, 1, 0::nat] = {i. i < 8}" by auto
  ultimately have "m mod 256 ^ 8 = n mod 256 ^ 8" by (intro digits_256) blast
  with assms(2,3) show ?thesis by simp
qed

lemma write_frame_inj:
  assumes "write_frame a @ x = write_frame b @ y" and "length a < 2 ^ 64" and "length b < 2 ^ 64"
  shows "a = b \<and> x = y"
proof -
  have *: "be64 (length a) @ (a @ x) = be64 (length b) @ (b @ y)"
    using assms(1) by (simp add: write_frame_def)
  then have "be64 (length a) = be64 (length b)" and r: "a @ x = b @ y"
    by (simp_all add: append_eq_append_conv)
  then have "length a = length b" using be64_inj assms(2,3) by blast
  with r show ?thesis by (simp add: append_eq_append_conv)
qed

lemma frames_simps [simp]:
  "frames [] = []" "frames (b # bs) = write_frame b @ frames bs" "write_frame b \<noteq> []"
  by (simp_all add: frames_def write_frame_def be64_def)

lemma frames_inj:
  assumes "frames xs = frames ys" and "\<forall>x \<in> set xs. length x < 2 ^ 64" and "\<forall>y \<in> set ys. length y < 2 ^ 64"
  shows "xs = ys"
  using assms
proof (induction xs arbitrary: ys)
  case Nil
  then show ?case by (cases ys) simp_all
next
  case (Cons x xs)
  show ?case
  proof (cases ys)
    case Nil
    with Cons.prems(1) show ?thesis by simp
  next
    case (Cons y zs)
    then have "write_frame x @ frames xs = write_frame y @ frames zs"
      using Cons.prems(1) by simp
    then have "x = y \<and> frames xs = frames zs"
      using Cons.prems(2,3) Cons by (intro write_frame_inj) simp_all
    then show ?thesis using Cons.IH [of zs] Cons.prems(2,3) Cons by simp
  qed
qed

section \<open>What each signature covers\<close>

record PlayerSnapshot =
  sn_character :: string
  sn_name :: string
  sn_persist :: string
  sn_version :: nat
  sn_applied :: nat
  sn_comms :: string
  sn_state :: string
  sn_tier :: string
  sn_account :: string
  sn_aliases :: string

record PrepareRequest =
  pr_snapshot :: "PlayerSnapshot option"
  pr_zone :: zone_id
  pr_room :: string
  pr_epoch :: nat
  pr_sig :: string

record AdoptZoneRequest =
  az_zone :: zone_id
  az_from :: shard_id
  az_to :: shard_id
  az_gen :: nat
  az_sig :: string

text \<open>The getters of a nil message answer zero values.\<close>

definition GetSnapshot :: "PrepareRequest \<Rightarrow> PlayerSnapshot" where
  "GetSnapshot r = (case pr_snapshot r of
     Some s \<Rightarrow> s
   | None \<Rightarrow> \<lparr>sn_character = '''', sn_name = '''', sn_persist = '''', sn_version = 0, sn_applied = 0,
       sn_comms = '''', sn_state = '''', sn_tier = '''', sn_account = '''', sn_aliases = ''''\<rparr>)"

definition snapshot_fields :: "PrepareRequest \<Rightarrow> string list" where
  "snapshot_fields r =
     (let s = GetSnapshot r in
      [''telosmud/handoff/v1'', sn_character s, be64 (pr_epoch r), pr_zone r, pr_room r, sn_name s,
       sn_persist s, be64 (sn_version s), be64 (sn_applied s), sn_comms s, sn_state s, sn_tier s,
       sn_account s, sn_aliases s])"

definition snapshotSigningInput :: "(string \<Rightarrow> string) \<Rightarrow> PrepareRequest \<Rightarrow> string" where
  "snapshotSigningInput H r = H (frames (snapshot_fields r))"

definition adopt_fields :: "AdoptZoneRequest \<Rightarrow> string list" where
  "adopt_fields r = [''telosmud/handoff/v1/adoptzone'', az_zone r, az_from r, az_to r, be64 (az_gen r)]"

definition adoptZoneSigningInput :: "(string \<Rightarrow> string) \<Rightarrow> AdoptZoneRequest \<Rightarrow> string" where
  "adoptZoneSigningInput H r = H (frames (adopt_fields r))"

definition handoffCommitDomain :: string where "handoffCommitDomain = ''telosmud/handoff/v1/commit''"
definition handoffAbortDomain :: string where "handoffAbortDomain = ''telosmud/handoff/v1/abort''"

definition handoffTokenSigningInput :: "(string \<Rightarrow> string) \<Rightarrow> string \<Rightarrow> string \<Rightarrow> shard_id \<Rightarrow> string" where
  "handoffTokenSigningInput H domain token toShardID = H (frames [domain, token, toShardID])"

section \<open>Signing and checking\<close>

definition PrivateKeySize :: nat where "PrivateKeySize = 64"
definition PublicKeySize :: nat where "PublicKeySize = 32"
definition SignatureSize :: nat where "SignatureSize = 64"

text \<open>\<open>signSnapshot\<close>, \<open>signAdoptZone\<close> and \<open>signHandoffToken\<close>: an unusable key signs nothing.\<close>

definition sign_with :: "(string \<Rightarrow> string \<Rightarrow> string) \<Rightarrow> string \<Rightarrow> string \<Rightarrow> string" where
  "sign_with sign priv m = (if length priv \<noteq> PrivateKeySize then '''' else sign priv m)"

definition signSnapshot where
  "signSnapshot H sign priv r = sign_with sign priv (snapshotSigningInput H r)"

definition signAdoptZone where
  "signAdoptZone H sign priv r = sign_with sign priv (adoptZoneSigningInput H r)"

definition signHandoffToken where
  "signHandoffToken H sign priv domain token toShardID =
     sign_with sign priv (handoffTokenSigningInput H domain token toShardID)"

definition well_signed :: "(string \<Rightarrow> string \<Rightarrow> string \<Rightarrow> bool) \<Rightarrow> string \<Rightarrow> string \<Rightarrow> string \<Rightarrow> bool" where
  "well_signed verify pub m sig \<longleftrightarrow>
     length pub = PublicKeySize \<and> length sig = SignatureSize \<and> verify pub m sig"

datatype sig_error = ErrSnapshotSig | ErrAdoptZoneSig | ErrAdoptZoneStale | ErrAdoptZoneNotOwner | ErrHandoffTokenSig

definition verifySnapshot ::
  "(string \<Rightarrow> string) \<Rightarrow> (string \<Rightarrow> string \<Rightarrow> string \<Rightarrow> bool) \<Rightarrow> string \<Rightarrow> PrepareRequest \<Rightarrow> sig_error option" where
  "verifySnapshot H verify pub r =
     (if well_signed verify pub (snapshotSigningInput H r) (pr_sig r) then None else Some ErrSnapshotSig)"

definition verifyAdoptZoneSig ::
  "(string \<Rightarrow> string) \<Rightarrow> (string \<Rightarrow> string \<Rightarrow> string \<Rightarrow> bool) \<Rightarrow> string \<Rightarrow> AdoptZoneRequest \<Rightarrow> shard_id \<Rightarrow> sig_error option" where
  "verifyAdoptZoneSig H verify pub r self =
     (if \<not> well_signed verify pub (adoptZoneSigningInput H r) (az_sig r) then Some ErrAdoptZoneSig
      else if az_to r = '''' \<or> az_to r \<noteq> self then Some ErrAdoptZoneSig else None)"

definition verifyAdoptZoneLease :: "AdoptZoneRequest \<Rightarrow> shard_id \<Rightarrow> nat \<Rightarrow> sig_error option" where
  "verifyAdoptZoneLease r curOwner curGen =
     (if curGen = 0 \<or> az_gen r \<noteq> curGen then Some ErrAdoptZoneStale
      else if az_from r = '''' \<or> az_from r \<noteq> curOwner then Some ErrAdoptZoneNotOwner else None)"

definition verifyAdoptZone ::
  "(string \<Rightarrow> string) \<Rightarrow> (string \<Rightarrow> string \<Rightarrow> string \<Rightarrow> bool) \<Rightarrow> string \<Rightarrow> AdoptZoneRequest \<Rightarrow> shard_id
     \<Rightarrow> shard_id \<Rightarrow> nat \<Rightarrow> sig_error option" where
  "verifyAdoptZone H verify pub r self curOwner curGen =
     (case verifyAdoptZoneSig H verify pub r self of
        Some e \<Rightarrow> Some e
      | None \<Rightarrow> verifyAdoptZoneLease r curOwner curGen)"

definition verifyHandoffToken ::
  "(string \<Rightarrow> string) \<Rightarrow> (string \<Rightarrow> string \<Rightarrow> string \<Rightarrow> bool) \<Rightarrow> string \<Rightarrow> string \<Rightarrow> string \<Rightarrow> shard_id \<Rightarrow> shard_id
     \<Rightarrow> string \<Rightarrow> sig_error option" where
  "verifyHandoffToken H verify pub domain token toShardID self sig =
     (if \<not> well_signed verify pub (handoffTokenSigningInput H domain token toShardID) sig then Some ErrHandoffTokenSig
      else if toShardID = '''' \<or> toShardID \<noteq> self then Some ErrHandoffTokenSig else None)"

section \<open>The gates of the handoff server\<close>

text \<open>The keys of a shard; no verify key (\<open>None\<close>) is a keyless shard.\<close>

record handoff_keys =
  hk_sign :: string
  hk_verify :: "string option"
  hk_insecure :: bool

datatype rpc_status = InvalidArgument | PermissionDenied | Unavailable | FailedPrecondition | NotFound | AlreadyExists | DeadlineExceeded

definition keylessHandoffRefused :: "handoff_keys \<Rightarrow> rpc_status option" where
  "keylessHandoffRefused k =
     (if hk_verify k = None \<and> \<not> hk_insecure k then Some PermissionDenied else None)"

text \<open>The head of \<open>Prepare\<close>: what it refuses, and the snapshot it goes on with.\<close>

definition isInstanceID :: "zone_id \<Rightarrow> bool" where
  "isInstanceID z \<longleftrightarrow> CHR ''#'' \<in> set z"

definition Prepare_admit ::
  "(string \<Rightarrow> string) \<Rightarrow> (string \<Rightarrow> string \<Rightarrow> string \<Rightarrow> bool) \<Rightarrow> handoff_keys \<Rightarrow> PrepareRequest
     \<Rightarrow> rpc_status + PlayerSnapshot" where
  "Prepare_admit H verify k r =
     (case pr_snapshot r of
        None \<Rightarrow> Inl InvalidArgument
      | Some snap \<Rightarrow>
          if sn_character snap = '''' then Inl InvalidArgument
          else
            (case hk_verify k of
               Some pub \<Rightarrow> (if verifySnapshot H verify pub r \<noteq> None then Inl PermissionDenied
                            else if isInstanceID (pr_zone r) then Inl InvalidArgument else Inr snap)
             | None \<Rightarrow>
                 (case keylessHandoffRefused k of
                    Some e \<Rightarrow> Inl e
                  | None \<Rightarrow>
                      let snap' = (if sn_tier snap \<noteq> '''' \<or> sn_account snap \<noteq> ''''
                                   then snap\<lparr>sn_tier := '''', sn_account := ''''\<rparr> else snap)
                      in if isInstanceID (pr_zone r) then Inl InvalidArgument else Inr snap')))"

definition authTokenRPC ::
  "(string \<Rightarrow> string) \<Rightarrow> (string \<Rightarrow> string \<Rightarrow> string \<Rightarrow> bool) \<Rightarrow> handoff_keys \<Rightarrow> shard_id \<Rightarrow> string \<Rightarrow> string
     \<Rightarrow> shard_id \<Rightarrow> string \<Rightarrow> rpc_status option" where
  "authTokenRPC H verify k self domain token toShardID sig =
     (case hk_verify k of
        Some pub \<Rightarrow> (if verifyHandoffToken H verify pub domain token toShardID self sig \<noteq> None
                     then Some PermissionDenied else None)
      | None \<Rightarrow> keylessHandoffRefused k)"

text \<open>\<open>handoffToken\<close>: the first sixteen bytes of the hash of \<open>character/epoch\<close>, in hex (\<open>hex\<close> and the
  decimal printer are arguments).\<close>

definition handoffToken :: "(string \<Rightarrow> string) \<Rightarrow> (string \<Rightarrow> string) \<Rightarrow> (nat \<Rightarrow> string) \<Rightarrow> string \<Rightarrow> nat \<Rightarrow> string" where
  "handoffToken H hex dec character epoch = hex (take 16 (H (character @ ''/'' @ dec epoch)))"

section \<open>A signature speaks for one message only\<close>

text \<open>The four kinds of message, each with exactly what its signature binds.\<close>

datatype signed_msg =
    Signed_Prepare PrepareRequest
  | Signed_Adopt AdoptZoneRequest
  | Signed_Commit string shard_id
  | Signed_Abort string shard_id

fun signed_fields :: "signed_msg \<Rightarrow> string list" where
  "signed_fields (Signed_Prepare r) = snapshot_fields r"
| "signed_fields (Signed_Adopt r) = adopt_fields r"
| "signed_fields (Signed_Commit t s) = [handoffCommitDomain, t, s]"
| "signed_fields (Signed_Abort t s) = [handoffAbortDomain, t, s]"

fun signing_input :: "(string \<Rightarrow> string) \<Rightarrow> signed_msg \<Rightarrow> string" where
  "signing_input H (Signed_Prepare r) = snapshotSigningInput H r"
| "signing_input H (Signed_Adopt r) = adoptZoneSigningInput H r"
| "signing_input H (Signed_Commit t s) = handoffTokenSigningInput H handoffCommitDomain t s"
| "signing_input H (Signed_Abort t s) = handoffTokenSigningInput H handoffAbortDomain t s"

text \<open>Lengths and numbers fit the eight bytes they are written in.\<close>

fun wire_sized :: "signed_msg \<Rightarrow> bool" where
  "wire_sized (Signed_Prepare r) \<longleftrightarrow>
     pr_epoch r < 2 ^ 64 \<and> sn_version (GetSnapshot r) < 2 ^ 64 \<and> sn_applied (GetSnapshot r) < 2 ^ 64 \<and>
     (\<forall>f \<in> set (snapshot_fields r). length f < 2 ^ 64)"
| "wire_sized (Signed_Adopt r) \<longleftrightarrow> az_gen r < 2 ^ 64 \<and> (\<forall>f \<in> set (adopt_fields r). length f < 2 ^ 64)"
| "wire_sized (Signed_Commit t s) \<longleftrightarrow> length t < 2 ^ 64 \<and> length s < 2 ^ 64"
| "wire_sized (Signed_Abort t s) \<longleftrightarrow> length t < 2 ^ 64 \<and> length s < 2 ^ 64"

text \<open>Two messages agree on everything their signature binds.\<close>

fun same_bound :: "signed_msg \<Rightarrow> signed_msg \<Rightarrow> bool" where
  "same_bound (Signed_Prepare a) (Signed_Prepare b) \<longleftrightarrow>
     GetSnapshot a = GetSnapshot b \<and> pr_zone a = pr_zone b \<and> pr_room a = pr_room b \<and> pr_epoch a = pr_epoch b"
| "same_bound (Signed_Adopt a) (Signed_Adopt b) \<longleftrightarrow>
     az_zone a = az_zone b \<and> az_from a = az_from b \<and> az_to a = az_to b \<and> az_gen a = az_gen b"
| "same_bound (Signed_Commit t s) (Signed_Commit t' s') \<longleftrightarrow> t = t' \<and> s = s'"
| "same_bound (Signed_Abort t s) (Signed_Abort t' s') \<longleftrightarrow> t = t' \<and> s = s'"
| "same_bound _ _ \<longleftrightarrow> False"

lemma signing_input_fields: "signing_input H m = H (frames (signed_fields m))"
  by (cases m) (simp_all add: snapshotSigningInput_def adoptZoneSigningInput_def handoffTokenSigningInput_def)

lemma wire_sized_fields: "wire_sized m \<Longrightarrow> f \<in> set (signed_fields m) \<Longrightarrow> length f < 2 ^ 64"
  by (cases m) (auto simp: handoffCommitDomain_def handoffAbortDomain_def)

lemma signed_fields_inj:
  assumes "signed_fields a = signed_fields b" and "wire_sized a" and "wire_sized b"
  shows "same_bound a b"
proof (cases a)
  case (Signed_Prepare r)
  show ?thesis
  proof (cases b)
    case (Signed_Prepare q)
    note f = assms(1) [unfolded Signed_Prepare \<open>a = Signed_Prepare r\<close> signed_fields.simps snapshot_fields_def Let_def]
    have "pr_epoch r = pr_epoch q" "sn_version (GetSnapshot r) = sn_version (GetSnapshot q)"
      "sn_applied (GetSnapshot r) = sn_applied (GetSnapshot q)"
      using f assms(2,3) Signed_Prepare \<open>a = Signed_Prepare r\<close> by (auto intro: be64_inj)
    then have "GetSnapshot r = GetSnapshot q" using f by (intro PlayerSnapshot.equality) simp_all
    with f \<open>pr_epoch r = pr_epoch q\<close> show ?thesis using Signed_Prepare \<open>a = Signed_Prepare r\<close> by simp
  qed (use assms(1) Signed_Prepare in \<open>simp_all add: snapshot_fields_def adopt_fields_def Let_def\<close>)
next
  case (Signed_Adopt r)
  show ?thesis
  proof (cases b)
    case (Signed_Adopt q)
    then show ?thesis
      using assms \<open>a = Signed_Adopt r\<close> by (auto simp: adopt_fields_def intro: be64_inj)
  qed (use assms(1) Signed_Adopt in \<open>simp_all add: snapshot_fields_def adopt_fields_def Let_def\<close>)
next
  case (Signed_Commit t s)
  with assms(1) show ?thesis
    by (cases b) (simp_all add: snapshot_fields_def adopt_fields_def Let_def handoffCommitDomain_def handoffAbortDomain_def)
next
  case (Signed_Abort t s)
  with assms(1) show ?thesis
    by (cases b) (simp_all add: snapshot_fields_def adopt_fields_def Let_def handoffCommitDomain_def handoffAbortDomain_def)
qed

text \<open>
  C17. A signature speaks for one message. Two messages of the handoff protocol, of any of its four kinds,
  whose lengths and numbers fit the wire and whose signed digests are equal (the hash not colliding on the
  two) agree on every bound field: no signature for one operation, destination, generation or snapshot
  passes for another, and no value can slide from one field into the next.
\<close>

theorem signatures_are_unambiguous:
  assumes "signing_input H a = signing_input H b"
    and "H (frames (signed_fields a)) = H (frames (signed_fields b)) \<longrightarrow> frames (signed_fields a) = frames (signed_fields b)"
    and "wire_sized a" and "wire_sized b"
  shows "same_bound a b"
proof -
  have "frames (signed_fields a) = frames (signed_fields b)"
    using assms(1,2) by (simp add: signing_input_fields)
  then have "signed_fields a = signed_fields b"
    using wire_sized_fields assms(3,4) by (intro frames_inj) blast+
  with assms(3,4) show ?thesis by (intro signed_fields_inj)
qed

theorem signatures_are_unambiguous_witness:
  "same_bound (Signed_Adopt \<lparr>az_zone = ''midgaard'', az_from = ''a'', az_to = ''b'', az_gen = 7, az_sig = ''x''\<rparr>)
              (Signed_Adopt \<lparr>az_zone = ''midgaard'', az_from = ''a'', az_to = ''b'', az_gen = 7, az_sig = ''y''\<rparr>)"
  by (rule signatures_are_unambiguous [where H = id])
    (simp_all add: adoptZoneSigningInput_def adopt_fields_def)

text \<open>The keyless path lets no elevation in: an admitted unauthenticated snapshot carries no tier and no account.\<close>

lemma keyless_prepare_carries_no_tier:
  "hk_verify k = None \<Longrightarrow> Prepare_admit H verify k r = Inr s \<Longrightarrow> sn_tier s = '''' \<and> sn_account s = ''''"
  by (auto simp: Prepare_admit_def Let_def split: option.splits if_splits)

lemma keyed_prepare_is_signed:
  "hk_verify k = Some pub \<Longrightarrow> Prepare_admit H verify k r = Inr s \<Longrightarrow>
     well_signed verify pub (snapshotSigningInput H r) (pr_sig r) \<and> pr_snapshot r = Some s"
  by (auto simp: Prepare_admit_def verifySnapshot_def split: option.splits if_splits)

end
