(* ===== verification/Zone_Hosting.thy ===== *)
theory Zone_Hosting
  imports Zone_Lease Directory_Drain Handoff_Sig
begin

text \<open>
  The zones a shard hosts (\<^verbatim>\<open>internal/world/lease.go\<close>, \<^verbatim>\<open>unhost.go\<close>, and the hosting half of
  \<^verbatim>\<open>world.go\<close>): building and tearing down a zone at run time, renewing its lease from a goroutine of its
  own, and the claims that keep a zone from being torn down under an arrival. What the shard does while
  an operation is outside its mutex is the argument \<open>mid\<close>.
\<close>

section \<open>The state of a shard\<close>

text \<open>
  A zone object: its identity (the code compares pointers), the three counters of \<open>zone_quiescent\<close> and the
  \<open>commsRepublishArmed\<close> flag.
\<close>

record zone_obj =
  zo_obj :: nat
  zo_pop :: int
  zo_stashed :: int
  zo_incoming :: int
  zo_commsArmed :: bool

definition zone_quiescent :: "zone_obj \<Rightarrow> bool" where
  "zone_quiescent z \<longleftrightarrow> zo_pop z = 0 \<and> zo_stashed z = 0 \<and> zo_incoming z = 0"

record residency =
  rs_zone :: "nat option"
  rs_inFlight :: bool

text \<open>
  A renewal goroutine: the locals of \<open>renewZoneLease\<close>, whether its context is cancelled and whether it has
  returned. Goroutines are named by their position in \<open>sh_renewers\<close>; \<open>sh_leaseStop\<close> is the map of their
  cancel functions.
\<close>

record renewer =
  rn_zone :: zone_id
  rn_adopted :: bool
  rn_confirmed :: bool
  rn_since :: ms
  rn_cancelled :: bool
  rn_done :: bool

record zone_shard =
  sh_id :: shard_id
  sh_home :: zone_id
  sh_localZones :: "zone_id list"
  sh_leasing :: bool
  sh_leaseTTL :: int
  sh_leaseRenew :: int
  sh_onFence :: bool
  sh_zones :: "zone_id \<rightharpoonup> zone_obj"
  sh_handedOff :: "zone_id set"
  sh_leaseStop :: "zone_id \<rightharpoonup> nat"
  sh_renewers :: "renewer list"
  sh_actors :: "zone_id \<rightharpoonup> nat"
  sh_next :: nat
  sh_runCtx :: bool
  sh_closed :: bool
  sh_draining :: bool
  sh_ejectWindow :: bool
  sh_fenced :: bool
  sh_tokens :: "string \<rightharpoonup> nat"
  sh_residents :: "player_id \<rightharpoonup> residency"
  sh_instances :: "zone_id \<rightharpoonup> string"
  sh_zoneRegion :: "zone_id \<rightharpoonup> string"
  sh_rebalancing :: "zone_id set"
  sh_backoff :: "zone_id \<rightharpoonup> ms"
  sh_deferSince :: "zone_id \<rightharpoonup> ms"
  sh_keys :: handoff_keys

definition WithZoneLeasing :: "shard_id \<Rightarrow> int \<Rightarrow> int \<Rightarrow> bool \<Rightarrow> zone_shard \<Rightarrow> zone_shard" where
  "WithZoneLeasing me ttl renew onFence s =
     s\<lparr>sh_leasing := True, sh_id := me, sh_leaseTTL := ttl, sh_leaseRenew := renew, sh_onFence := onFence\<rparr>"

definition WithLocalZones :: "zone_id list \<Rightarrow> zone_shard \<Rightarrow> zone_shard" where
  "WithLocalZones ids s = (if ids = [] then s else s\<lparr>sh_localZones := sh_localZones s @ ids\<rparr>)"

definition isLocalZone :: "zone_id \<Rightarrow> zone_shard \<Rightarrow> bool" where
  "isLocalZone z s \<longleftrightarrow> z \<in> set (sh_localZones s)"

definition leaseParams :: "zone_shard \<Rightarrow> nat \<times> nat" where
  "leaseParams s =
     (let ttl = (if sh_leaseTTL s \<le> 0 then int DefaultZoneLease else sh_leaseTTL s);
          renew = (if sh_leaseRenew s \<le> 0 then ttl div 3 else sh_leaseRenew s)
      in (nat ttl, nat renew))"

section \<open>Registering and cancelling renewals\<close>

definition upd_renewer :: "nat \<Rightarrow> (renewer \<Rightarrow> renewer) \<Rightarrow> zone_shard \<Rightarrow> zone_shard" where
  "upd_renewer i f s = s\<lparr>sh_renewers := (sh_renewers s)[i := f (sh_renewers s ! i)]\<rparr>"

definition cancel_renewer :: "nat option \<Rightarrow> zone_shard \<Rightarrow> zone_shard" where
  "cancel_renewer c s = (case c of None \<Rightarrow> s | Some i \<Rightarrow> upd_renewer i (\<lambda>r. r\<lparr>rn_cancelled := True\<rparr>) s)"

definition startZoneRenewalAdopting :: "ms \<Rightarrow> zone_id \<Rightarrow> bool \<Rightarrow> zone_shard \<Rightarrow> zone_shard" where
  "startZoneRenewalAdopting now z adopted s =
     (if \<not> sh_leasing s then s
      else if isLocalZone z s then s
      else if sh_leaseStop s z \<noteq> None then s
      else s\<lparr>sh_leaseStop := (sh_leaseStop s)(z \<mapsto> length (sh_renewers s)),
             sh_renewers := sh_renewers s @
               [\<lparr>rn_zone = z, rn_adopted = adopted, rn_confirmed = False, rn_since = now,
                 rn_cancelled = False, rn_done = False\<rparr>]\<rparr>)"

definition startZoneRenewal :: "ms \<Rightarrow> zone_id \<Rightarrow> zone_shard \<Rightarrow> zone_shard" where
  "startZoneRenewal now z s = startZoneRenewalAdopting now z False s"

definition markZoneHandedOff :: "zone_id \<Rightarrow> zone_shard \<Rightarrow> zone_shard" where
  "markZoneHandedOff z s =
     cancel_renewer (sh_leaseStop s z)
       (s\<lparr>sh_handedOff := insert z (sh_handedOff s), sh_leaseStop := (sh_leaseStop s)(z := None)\<rparr>)"

definition zoneHandedOff :: "zone_id \<Rightarrow> zone_shard \<Rightarrow> bool" where
  "zoneHandedOff z s \<longleftrightarrow> z \<in> sh_handedOff s"

definition clearZoneHandedOff :: "zone_id \<Rightarrow> zone_shard \<Rightarrow> zone_shard" where
  "clearZoneHandedOff z s = s\<lparr>sh_handedOff := sh_handedOff s - {z}\<rparr>"

definition retireZoneRenewal :: "zone_id \<Rightarrow> zone_shard \<Rightarrow> zone_shard" where
  "retireZoneRenewal z s = cancel_renewer (sh_leaseStop s z) (s\<lparr>sh_leaseStop := (sh_leaseStop s)(z := None)\<rparr>)"

definition renewingLocked :: "zone_id \<Rightarrow> zone_shard \<Rightarrow> bool" where
  "renewingLocked z s \<longleftrightarrow> sh_leaseStop s z \<noteq> None \<and> \<not> zoneHandedOff z s"

section \<open>Zone actors\<close>

definition armZoneActorLocked :: "zone_id \<Rightarrow> zone_shard \<Rightarrow> nat \<times> zone_shard" where
  "armZoneActorLocked z s =
     (sh_next s, s\<lparr>sh_actors := (sh_actors s)(z \<mapsto> sh_next s), sh_next := sh_next s + 1\<rparr>)"

definition disarmZoneActor :: "zone_id \<Rightarrow> nat \<Rightarrow> zone_shard \<Rightarrow> zone_shard" where
  "disarmZoneActor z a s =
     (if sh_actors s z = Some a then s\<lparr>sh_actors := (sh_actors s)(z := None)\<rparr> else s)"

text \<open>A freshly built zone: no players, no parked flush, nobody on the way.\<close>

definition new_zone :: "nat \<Rightarrow> zone_obj" where
  "new_zone n = \<lparr>zo_obj = n, zo_pop = 0, zo_stashed = 0, zo_incoming = 0, zo_commsArmed = False\<rparr>"

definition adoptLocked :: "zone_id \<Rightarrow> zone_obj \<Rightarrow> zone_shard \<Rightarrow> zone_shard" where
  "adoptLocked z o' s = s\<lparr>sh_zones := (sh_zones s)(z \<mapsto> o')\<rparr>"

section \<open>Resolving a zone for an arrival\<close>

definition upd_zone :: "zone_id \<Rightarrow> (zone_obj \<Rightarrow> zone_obj) \<Rightarrow> zone_shard \<Rightarrow> zone_shard" where
  "upd_zone z f s = s\<lparr>sh_zones := (sh_zones s)(z := map_option f (sh_zones s z))\<rparr>"

definition claimInboundArrival :: "zone_id \<Rightarrow> zone_shard \<Rightarrow> zone_shard" where
  "claimInboundArrival z s = upd_zone z (\<lambda>o'. o'\<lparr>zo_incoming := zo_incoming o' + 1\<rparr>) s"

text \<open>The release is by object: a claim on a zone that has been replaced touches nothing here.\<close>

definition releaseInboundArrival :: "zone_id \<Rightarrow> nat \<Rightarrow> zone_shard \<Rightarrow> zone_shard" where
  "releaseInboundArrival z n s =
     upd_zone z (\<lambda>o'. if zo_obj o' = n then o'\<lparr>zo_incoming := zo_incoming o' - 1\<rparr> else o') s"

definition claimTransferTarget :: "zone_id \<Rightarrow> zone_shard \<Rightarrow> nat option \<times> zone_shard" where
  "claimTransferTarget z s =
     (case sh_zones s z of
        None \<Rightarrow> (None, s)
      | Some o' \<Rightarrow>
          if zoneHandedOff z s \<or> sh_draining s then (None, s)
          else (Some (zo_obj o'), claimInboundArrival z s))"

definition claimEjectTarget :: "zone_id \<Rightarrow> zone_shard \<Rightarrow> nat option \<times> zone_shard" where
  "claimEjectTarget z s =
     (if \<not> sh_ejectWindow s then (None, s)
      else case sh_zones s z of
        None \<Rightarrow> (None, s)
      | Some o' \<Rightarrow>
          if zoneHandedOff z s \<or> isInstanceID z then (None, s)
          else (Some (zo_obj o'), claimInboundArrival z s))"

definition claimArrivalTarget :: "zone_id \<Rightarrow> zone_shard \<Rightarrow> nat option \<times> zone_shard" where
  "claimArrivalTarget z s =
     (case sh_zones s z of
        None \<Rightarrow> (None, s)
      | Some o' \<Rightarrow> (Some (zo_obj o'), claimInboundArrival z s))"

definition indexToken :: "string \<Rightarrow> nat \<Rightarrow> zone_shard \<Rightarrow> zone_shard" where
  "indexToken t n s = s\<lparr>sh_tokens := (sh_tokens s)(t \<mapsto> n)\<rparr>"

definition zoneForToken :: "string \<Rightarrow> zone_shard \<Rightarrow> nat option" where
  "zoneForToken t s = sh_tokens s t"

definition dropToken :: "string \<Rightarrow> zone_shard \<Rightarrow> zone_shard" where
  "dropToken t s = s\<lparr>sh_tokens := (sh_tokens s)(t := None)\<rparr>"

definition indexResident :: "player_id \<Rightarrow> nat \<Rightarrow> zone_shard \<Rightarrow> zone_shard" where
  "indexResident p n s = s\<lparr>sh_residents := (sh_residents s)(p \<mapsto> \<lparr>rs_zone = Some n, rs_inFlight = False\<rparr>)\<rparr>"

text \<open>\<open>forgetResidencyLocked\<close> on one entry: the in-flight mark outlives the zone pointer.\<close>

definition forget_residency :: "residency \<Rightarrow> residency option" where
  "forget_residency r = (if \<not> rs_inFlight r then None else Some (r\<lparr>rs_zone := None\<rparr>))"

definition unindexResident :: "player_id \<Rightarrow> nat \<Rightarrow> zone_shard \<Rightarrow> zone_shard" where
  "unindexResident p n s =
     (case sh_residents s p of
        Some r \<Rightarrow> if rs_zone r = Some n then s\<lparr>sh_residents := (sh_residents s)(p := forget_residency r)\<rparr> else s
      | None \<Rightarrow> s)"

section \<open>Hosting a zone at run time\<close>

datatype host_error = HZ_Not_Running | HZ_Shutting_Down | HZ_No_Content | HZ_Build

text \<open>The content a shard builds from: whether a zone builds completely, and the region it is in.\<close>

record zone_content =
  zc_builds :: "zone_id \<Rightarrow> bool"
  zc_region :: "zone_id \<Rightarrow> string"

definition registerZone :: "string \<Rightarrow> zone_id \<Rightarrow> zone_shard \<Rightarrow> zone_shard" where
  "registerZone region z s =
     (if region = '''' then s else s\<lparr>sh_zoneRegion := (sh_zoneRegion s)(z \<mapsto> region)\<rparr>)"

definition unregisterZone :: "zone_id \<Rightarrow> zone_shard \<Rightarrow> zone_shard" where
  "unregisterZone z s = s\<lparr>sh_zoneRegion := (sh_zoneRegion s)(z := None)\<rparr>"

text \<open>The tail of \<open>HostZone\<close>: publish the object and arm its actor in one hold, then renew as adopting.\<close>

definition publish_zone :: "zone_content \<Rightarrow> ms \<Rightarrow> zone_id \<Rightarrow> zone_shard \<Rightarrow> nat \<times> zone_shard" where
  "publish_zone lc now z s =
     (let n = sh_next s;
          s1 = adoptLocked z (new_zone n) (s\<lparr>sh_next := n + 1\<rparr>);
          s2 = snd (armZoneActorLocked z s1);
          s3 = registerZone (zc_region lc z) z s2
      in (n, startZoneRenewalAdopting now z True s3))"

definition HostZone ::
  "zone_content option \<Rightarrow> (zone_shard \<Rightarrow> zone_shard) \<Rightarrow> ms \<Rightarrow> zone_id \<Rightarrow> zone_shard \<Rightarrow> (host_error + nat) \<times> zone_shard" where
  "HostZone content mid now z s =
     (case sh_zones s z of
        Some o' \<Rightarrow>
          (Inr (zo_obj o'),
           if zoneHandedOff z s \<and> sh_runCtx s then upd_zone z (\<lambda>o'. o'\<lparr>zo_commsArmed := False\<rparr>) (startZoneRenewal now z (clearZoneHandedOff z s))
           else s)
      | None \<Rightarrow>
          if \<not> sh_runCtx s then (Inl HZ_Not_Running, s)
          else if sh_closed s then (Inl HZ_Shutting_Down, s)
          else (case content of
             None \<Rightarrow> (Inl HZ_No_Content, s)
           | Some lc \<Rightarrow>
               if \<not> zc_builds lc z then (Inl HZ_Build, s)
               else
                 (let s1 = mid s in
                  case sh_zones s1 z of
                    Some o' \<Rightarrow> (Inr (zo_obj o'), s1)
                  | None \<Rightarrow>
                      if sh_closed s1 then (Inl HZ_Shutting_Down, s1)
                      else (let (n, s2) = publish_zone lc now z s1 in (Inr n, s2)))))"

section \<open>Tearing a zone down\<close>

datatype unhost_error =
    UH_Local | UH_Home | UH_Read dir_error | UH_Still_Owner | UH_Renewing | UH_Not_Quiescent | UH_Actor_Stuck

definition unhost_ownership :: "dir_error net \<Rightarrow> ms \<Rightarrow> zone_id \<Rightarrow> zones \<Rightarrow> zone_shard \<Rightarrow> unhost_error option" where
  "unhost_ownership net now z d s =
     (if sh_leasing s \<and> \<not> isInstanceID z then
        (case ZoneLease net now z d of
           Inl e \<Rightarrow> Some (UH_Read e)
         | Inr (owner, g) \<Rightarrow>
             if owner = sh_id s then Some UH_Still_Owner
             else if owner = '''' \<and> renewingLocked z s then Some UH_Renewing
             else None)
      else None)"

text \<open>The hold that removes the zone, and the actor's exit when it does exit (\<open>stops\<close>).\<close>

definition remove_zone :: "bool \<Rightarrow> zone_id \<Rightarrow> zone_obj \<Rightarrow> zone_shard \<Rightarrow> zone_shard" where
  "remove_zone stops z o' s =
     (let s1 = unregisterZone z
           (s\<lparr>sh_zones := (sh_zones s)(z := None),
              sh_instances := (sh_instances s)(z := None),
              sh_tokens := (\<lambda>t. if sh_tokens s t = Some (zo_obj o') then None else sh_tokens s t),
              sh_residents := (\<lambda>p. case sh_residents s p of
                 None \<Rightarrow> None
               | Some r \<Rightarrow> if rs_zone r = Some (zo_obj o') then forget_residency r else Some r),
              sh_handedOff := sh_handedOff s - {z},
              sh_leaseStop := (sh_leaseStop s)(z := None)\<rparr>);
          s2 = cancel_renewer (sh_leaseStop s z) s1
      in case sh_actors s z of
           None \<Rightarrow> s2
         | Some a \<Rightarrow> if stops then disarmZoneActor z a s2 else s2)"

definition UnhostZone ::
  "dir_error net \<Rightarrow> ms \<Rightarrow> (zone_shard \<Rightarrow> zone_shard) \<Rightarrow> bool \<Rightarrow> zone_id \<Rightarrow> zones \<Rightarrow> zone_shard
     \<Rightarrow> (unhost_error + unit) \<times> zone_shard" where
  "UnhostZone net now mid stops z d s =
     (case sh_zones s z of
        None \<Rightarrow> (Inr (), s)
      | Some o' \<Rightarrow>
          if isLocalZone z s then (Inl UH_Local, s)
          else if z = sh_home s then (Inl UH_Home, s)
          else (case unhost_ownership net now z d s of
             Some e \<Rightarrow> (Inl e, s)
           | None \<Rightarrow>
               (let s1 = mid s in
                case sh_zones s1 z of
                  None \<Rightarrow> (Inr (), s1)
                | Some o1 \<Rightarrow>
                    if zo_obj o1 \<noteq> zo_obj o' then (Inr (), s1)
                    else if \<not> zone_quiescent o1 then (Inl UH_Not_Quiescent, s1)
                    else (if sh_actors s1 z = None \<or> stops then Inr () else Inl UH_Actor_Stuck,
                          remove_zone stops z o1 s1))))"

definition unadoptZone ::
  "dir_error net \<Rightarrow> ms \<Rightarrow> (zone_shard \<Rightarrow> zone_shard) \<Rightarrow> bool \<Rightarrow> zone_id \<Rightarrow> zones \<Rightarrow> zone_shard \<Rightarrow> zone_shard" where
  "unadoptZone net now mid stops z d s = snd (UnhostZone net now mid stops z d (retireZoneRenewal z s))"

section \<open>The renewal goroutine\<close>

definition adoptConfirmDeadline :: nat where "adoptConfirmDeadline = 60000"

datatype renew_outcome =
    RN_Handed_Off | RN_Error dir_error | RN_Adopting | RN_Abandoned | RN_Fenced | RN_Renewed

definition finish_renewer :: "nat \<Rightarrow> zone_shard \<Rightarrow> zone_shard" where
  "finish_renewer i s = upd_renewer i (\<lambda>r. r\<lparr>rn_done := True\<rparr>) s"

text \<open>
  One tick of \<open>renewZoneLease\<close> by the goroutine \<open>i\<close>: \<open>net\<close> is the fate of its \<open>ClaimZone\<close>, during which the
  shard does \<open>mid\<close>; the rest are the arguments of the compensating \<open>UnhostZone\<close>.
\<close>

definition renew_tick ::
  "dir_error net \<Rightarrow> (zone_shard \<Rightarrow> zone_shard) \<Rightarrow> dir_error net \<Rightarrow> (zone_shard \<Rightarrow> zone_shard) \<Rightarrow> bool \<Rightarrow> ms \<Rightarrow> nat
     \<Rightarrow> zone_shard \<times> zones \<Rightarrow> renew_outcome \<times> zone_shard \<times> zones" where
  "renew_tick net mid unet umid stops now i sd =
     (case sd of (s, d) \<Rightarrow>
        let r = sh_renewers s ! i; z = rn_zone r in
        if zoneHandedOff z s then (RN_Handed_Off, finish_renewer i s, d)
        else
          (case ClaimZone net now z (sh_id s) (fst (leaseParams s)) d of
             (Inl e, d') \<Rightarrow> (RN_Error e, mid s, d')
           | (Inr True, d') \<Rightarrow> (RN_Renewed, upd_renewer i (\<lambda>r. r\<lparr>rn_confirmed := True\<rparr>) (mid s), d')
           | (Inr False, d') \<Rightarrow>
               let s1 = mid s in
               if zoneHandedOff z s1 then (RN_Handed_Off, finish_renewer i s1, d')
               else if \<not> rn_confirmed r then
                 (if adoptConfirmDeadline \<le> now - rn_since r
                  then (RN_Abandoned,
                        (if rn_adopted r then unadoptZone unet now umid stops z d' (finish_renewer i s1)
                         else finish_renewer i s1), d')
                  else (RN_Adopting, s1, d'))
               else (RN_Fenced, finish_renewer i (if sh_onFence s1 then s1\<lparr>sh_fenced := True\<rparr> else s1), d')))"

text \<open>The \<open>ctx.Done\<close> branch: release unless the zone was handed off.\<close>

definition renew_stop :: "dir_error net \<Rightarrow> nat \<Rightarrow> zone_shard \<times> zones \<Rightarrow> zone_shard \<times> zones" where
  "renew_stop net i sd =
     (case sd of (s, d) \<Rightarrow>
        let z = rn_zone (sh_renewers s ! i) in
        (finish_renewer i s, if zoneHandedOff z s then d else snd (ReleaseZone net z (sh_id s) d)))"

definition publishOccupancy ::
  "dir_error net \<Rightarrow> bool \<Rightarrow> ms \<Rightarrow> zone_id \<Rightarrow> zone_shard \<Rightarrow> (zone_id \<Rightarrow> nat timed option) \<Rightarrow> (zone_id \<Rightarrow> nat timed option)" where
  "publishOccupancy net wired now z s d =
     (case sh_zones s z of
        Some o' \<Rightarrow> if wired then snd (SetZoneOccupancy net now z (nat (zo_pop o')) (fst (leaseParams s)) d) else d
      | None \<Rightarrow> d)"

section \<open>Boot\<close>

text \<open>
  \<open>Run\<close>: every boot zone's actor is armed in the hold that publishes the run context, then the renewals
  start. The zones are listed by the caller (the code ranges over its map).
\<close>

definition boot_arm :: "zone_shard \<Rightarrow> zone_id \<Rightarrow> zone_shard" where
  "boot_arm s z = snd (armZoneActorLocked z s)"

definition Run_start :: "ms \<Rightarrow> zone_id list \<Rightarrow> zone_shard \<Rightarrow> zone_shard" where
  "Run_start now zs s = foldl (\<lambda>s z. startZoneRenewal now z s) (foldl boot_arm (s\<lparr>sh_runCtx := True\<rparr>) zs) zs"

definition Run_close :: "zone_shard \<Rightarrow> zone_shard" where
  "Run_close s = s\<lparr>sh_closed := True\<rparr>"

end
