(* ===== verification/Hosting_Invariant.thy ===== *)
theory Hosting_Invariant
  imports Zone_Hosting
begin

text \<open>
  The invariant of a shard's hosting state under every operation of \<open>Zone_Hosting\<close>, whatever runs while an
  operation is outside the mutex; and what it says: one live renewer per zone, none for a zone that was
  given away, an actor that can be stopped for every hosted zone.
\<close>

section \<open>Steps\<close>

text \<open>
  A step is one operation by some goroutine. The operations that leave the mutex in the middle are given
  any number of further steps there. A zone is only marked as handed off by a drain or a rebalance of a
  hosted zone, and a goroutine acts only until it has returned.
\<close>

inductive shard_step :: "zone_shard \<Rightarrow> zone_shard \<Rightarrow> bool" where
  host: "(\<forall>x. shard_step\<^sup>*\<^sup>* x (mid x)) \<Longrightarrow> shard_step s (snd (HostZone content mid now z s))"
| unhost: "(\<forall>x. shard_step\<^sup>*\<^sup>* x (mid x)) \<Longrightarrow> shard_step s (snd (UnhostZone net now mid stops z d s))"
| mark: "sh_zones s z \<noteq> None \<Longrightarrow> shard_step s (markZoneHandedOff z s)"
| renewal_tick: "(\<forall>x. shard_step\<^sup>*\<^sup>* x (mid x)) \<Longrightarrow> (\<forall>x. shard_step\<^sup>*\<^sup>* x (umid x)) \<Longrightarrow>
    i < length (sh_renewers s) \<Longrightarrow> \<not> rn_done (sh_renewers s ! i) \<Longrightarrow>
    shard_step s (fst (snd (renew_tick net mid unet umid stops now i (s, d))))"
| renewal_stop: "i < length (sh_renewers s) \<Longrightarrow> \<not> rn_done (sh_renewers s ! i) \<Longrightarrow> shard_step s (fst (renew_stop net i (s, d)))"
| actor_exit: "sh_zones s z = None \<or> sh_actors s z \<noteq> Some a \<Longrightarrow> shard_step s (disarmZoneActor z a s)"
| claim_transfer: "shard_step s (snd (claimTransferTarget z s))"
| claim_eject: "shard_step s (snd (claimEjectTarget z s))"
| claim_arrival: "shard_step s (snd (claimArrivalTarget z s))"
| release_claim: "shard_step s (releaseInboundArrival z n s)"
| zone_counts: "shard_step s (upd_zone z (\<lambda>o'. o'\<lparr>zo_pop := p, zo_stashed := k\<rparr>) s)"
| token: "shard_step s (indexToken t n s)"
| untoken: "shard_step s (dropToken t s)"
| resident: "shard_step s (indexResident c n s)"
| unresident: "shard_step s (unindexResident c n s)"
| drain_flags: "shard_step s (s\<lparr>sh_draining := b, sh_ejectWindow := w\<rparr>)"
| close: "shard_step s (Run_close s)"

text \<open>The registry of renewals: every cancel function belongs to its zone's goroutine, every live goroutine is registered.\<close>

definition registry_wf :: "(zone_id \<rightharpoonup> nat) \<Rightarrow> renewer list \<Rightarrow> bool" where
  "registry_wf ls rs \<longleftrightarrow>
     (\<forall>z i. ls z = Some i \<longrightarrow> i < length rs \<and> rn_zone (rs ! i) = z \<and> \<not> rn_cancelled (rs ! i)) \<and>
     (\<forall>i < length rs. \<not> rn_cancelled (rs ! i) \<and> \<not> rn_done (rs ! i) \<longrightarrow> ls (rn_zone (rs ! i)) = Some i)"

definition hosting_wf :: "zone_shard \<Rightarrow> bool" where
  "hosting_wf s \<longleftrightarrow>
     registry_wf (sh_leaseStop s) (sh_renewers s) \<and>
     (\<forall>z \<in> sh_handedOff s. sh_leaseStop s z = None \<and> sh_zones s z \<noteq> None) \<and>
     (\<forall>z \<in> set (sh_localZones s). sh_leaseStop s z = None) \<and>
     (sh_runCtx s \<longrightarrow> (\<forall>z. sh_zones s z \<noteq> None \<longrightarrow> sh_actors s z \<noteq> None)) \<and>
     (\<forall>z a. sh_actors s z = Some a \<longrightarrow> a < sh_next s) \<and>
     (\<forall>z o'. sh_zones s z = Some o' \<longrightarrow> zo_obj o' < sh_next s)"

lemmas hosting_defs = startZoneRenewalAdopting_def startZoneRenewal_def clearZoneHandedOff_def
  cancel_renewer_def upd_renewer_def finish_renewer_def armZoneActorLocked_def disarmZoneActor_def
  adoptLocked_def upd_zone_def claimInboundArrival_def releaseInboundArrival_def registerZone_def
  unregisterZone_def new_zone_def isLocalZone_def zoneHandedOff_def

lemma wf_upd_zone:
  assumes "hosting_wf s" and "\<And>o'. zo_obj (f o') = zo_obj o'"
  shows "hosting_wf (upd_zone z f s)"
  using assms by (auto simp: hosting_wf_def upd_zone_def split: if_splits)

text \<open>Fields the invariant does not read.\<close>

definition hosting_view where
  "hosting_view s = (sh_leaseStop s, sh_renewers s, sh_handedOff s, sh_localZones s, sh_runCtx s, sh_zones s, sh_actors s, sh_next s)"

lemma wf_view: "hosting_view s' = hosting_view s \<Longrightarrow> hosting_wf s' = hosting_wf s"
  by (simp add: hosting_wf_def hosting_view_def)

lemma wf_claim:
  "hosting_wf s \<Longrightarrow> hosting_wf (snd (claimTransferTarget z s))"
  "hosting_wf s \<Longrightarrow> hosting_wf (snd (claimEjectTarget z s))"
  "hosting_wf s \<Longrightarrow> hosting_wf (snd (claimArrivalTarget z s))"
  by (auto simp: claimTransferTarget_def claimEjectTarget_def claimArrivalTarget_def claimInboundArrival_def
      split: option.splits intro: wf_upd_zone)

lemma registry_update:
  assumes "registry_wf ls rs" and "\<And>r. rn_zone (f r) = rn_zone r \<and> (rn_cancelled (f r) = rn_cancelled r) \<and> (rn_done r \<longrightarrow> rn_done (f r))"
  shows "registry_wf ls (rs[i := f (rs ! i)])"
proof (cases "i < length rs")
  case True
  have "rn_zone (rs[i := f (rs ! i)] ! j) = rn_zone (rs ! j) \<and> rn_cancelled (rs[i := f (rs ! i)] ! j) = rn_cancelled (rs ! j) \<and>
        (rn_done (rs ! j) \<longrightarrow> rn_done (rs[i := f (rs ! i)] ! j))" if "j < length rs" for j
    using that assms(2) by (cases "i = j") simp_all
  then show ?thesis using assms(1) unfolding registry_wf_def by (metis length_list_update)
next
  case False
  then have "rs[i := f (rs ! i)] = rs" by (simp add: list_update_beyond)
  then show ?thesis using assms(1) by (simp only:)
qed

lemma registry_drop:
  assumes "registry_wf ls rs" and "ls z = Some i"
  shows "registry_wf (ls(z := None)) (rs[i := (rs ! i)\<lparr>rn_cancelled := True\<rparr>])"
proof -
  let ?rs = "rs[i := (rs ! i)\<lparr>rn_cancelled := True\<rparr>]"
  have i: "i < length rs" "rn_zone (rs ! i) = z" using assms unfolding registry_wf_def by blast+
  have other: "?rs ! j = rs ! j" if "j \<noteq> i" for j using that by simp
  have "j < length ?rs \<and> rn_zone (?rs ! j) = y \<and> \<not> rn_cancelled (?rs ! j)" if "(ls(z := None)) y = Some j" for y j
  proof -
    have "y \<noteq> z" "ls y = Some j" using that by (auto split: if_splits)
    then have "j < length rs" "rn_zone (rs ! j) = y" "\<not> rn_cancelled (rs ! j)"
      using assms(1) unfolding registry_wf_def by blast+
    moreover from this have "j \<noteq> i" using i(2) \<open>y \<noteq> z\<close> by blast
    ultimately show ?thesis by simp
  qed
  moreover have "(ls(z := None)) (rn_zone (?rs ! j)) = Some j"
    if "j < length ?rs" "\<not> rn_cancelled (?rs ! j) \<and> \<not> rn_done (?rs ! j)" for j
  proof -
    have "j \<noteq> i" using that i(1) by auto
    then have j: "ls (rn_zone (rs ! j)) = Some j" using that assms(1) unfolding registry_wf_def by simp
    then have "rn_zone (rs ! j) \<noteq> z" using assms(2) \<open>j \<noteq> i\<close> by auto
    with j \<open>j \<noteq> i\<close> show ?thesis by simp
  qed
  ultimately show ?thesis unfolding registry_wf_def by blast
qed

lemma registry_start:
  assumes "registry_wf ls rs" and "ls z = None" and "rn_zone r = z" "\<not> rn_cancelled r"
  shows "registry_wf (ls(z \<mapsto> length rs)) (rs @ [r])"
proof -
  have "j < length (rs @ [r]) \<and> rn_zone ((rs @ [r]) ! j) = y \<and> \<not> rn_cancelled ((rs @ [r]) ! j)"
    if "(ls(z \<mapsto> length rs)) y = Some j" for y j
  proof (cases "y = z")
    case True
    with that have "j = length rs" by simp
    with True assms(3,4) show ?thesis by (simp add: nth_append)
  next
    case False
    with that have "ls y = Some j" by simp
    then have "j < length rs \<and> rn_zone (rs ! j) = y \<and> \<not> rn_cancelled (rs ! j)"
      using assms(1) unfolding registry_wf_def by blast
    then show ?thesis by (simp add: nth_append)
  qed
  moreover have "(ls(z \<mapsto> length rs)) (rn_zone ((rs @ [r]) ! j)) = Some j"
    if "j < length (rs @ [r])" "\<not> rn_cancelled ((rs @ [r]) ! j) \<and> \<not> rn_done ((rs @ [r]) ! j)" for j
  proof (cases "j = length rs")
    case True
    with assms(3) show ?thesis by (simp add: nth_append)
  next
    case False
    with that have "j < length rs" by simp
    with that have "ls (rn_zone (rs ! j)) = Some j" using assms(1) unfolding registry_wf_def by (simp add: nth_append)
    with assms(2) \<open>j < length rs\<close> show ?thesis by (auto simp: nth_append)
  qed
  ultimately show ?thesis unfolding registry_wf_def by blast
qed

lemma wf_update:
  assumes "hosting_wf s" and "\<And>r. rn_zone (f r) = rn_zone r \<and> (rn_cancelled (f r) = rn_cancelled r) \<and> (rn_done r \<longrightarrow> rn_done (f r))"
  shows "hosting_wf (upd_renewer i f s)"
  using assms(1) registry_update [OF _ assms(2)] by (simp add: hosting_wf_def upd_renewer_def)

lemma wf_finish: "hosting_wf s \<Longrightarrow> hosting_wf (finish_renewer i s)"
  by (simp add: finish_renewer_def wf_update)

lemma wf_confirm: "hosting_wf s \<Longrightarrow> hosting_wf (upd_renewer i (\<lambda>r. r\<lparr>rn_confirmed := True\<rparr>) s)"
  by (simp add: wf_update)

text \<open>Dropping a registration together with its goroutine's context.\<close>

lemma wf_unregister:
  assumes "hosting_wf s"
  shows "hosting_wf (cancel_renewer (sh_leaseStop s z) (s\<lparr>sh_leaseStop := (sh_leaseStop s)(z := None)\<rparr>))"
proof (cases "sh_leaseStop s z")
  case None
  then have "(sh_leaseStop s)(z := None) = sh_leaseStop s" by auto
  then show ?thesis using assms None by (simp add: cancel_renewer_def)
next
  case (Some i)
  have "registry_wf ((sh_leaseStop s)(z := None)) ((sh_renewers s)[i := (sh_renewers s ! i)\<lparr>rn_cancelled := True\<rparr>])"
    using registry_drop [where ls = "sh_leaseStop s"] Some assms by (simp add: hosting_wf_def)
  with assms Some show ?thesis by (simp add: hosting_wf_def cancel_renewer_def upd_renewer_def)
qed

lemma wf_retire: "hosting_wf s \<Longrightarrow> hosting_wf (retireZoneRenewal z s)"
  by (simp add: retireZoneRenewal_def wf_unregister)

lemma wf_mark:
  assumes "hosting_wf s" and "sh_zones s z \<noteq> None"
  shows "hosting_wf (markZoneHandedOff z s)"
proof -
  let ?u = "cancel_renewer (sh_leaseStop s z) (s\<lparr>sh_leaseStop := (sh_leaseStop s)(z := None)\<rparr>)"
  have "markZoneHandedOff z s = ?u\<lparr>sh_handedOff := insert z (sh_handedOff s)\<rparr>"
    by (simp add: markZoneHandedOff_def cancel_renewer_def upd_renewer_def split: option.splits)
  moreover have "sh_leaseStop ?u z = None" "sh_zones ?u z \<noteq> None" "sh_handedOff ?u = sh_handedOff s"
    using assms(2) by (auto simp: cancel_renewer_def upd_renewer_def split: option.splits)
  ultimately show ?thesis using wf_unregister [OF assms(1), of z] by (simp add: hosting_wf_def)
qed

lemma wf_start:
  assumes "hosting_wf s" and "z \<notin> sh_handedOff s"
  shows "hosting_wf (startZoneRenewalAdopting now z adopted s)"
proof (cases "sh_leasing s \<and> \<not> isLocalZone z s \<and> sh_leaseStop s z = None")
  case True
  then show ?thesis
    using assms registry_start [of "sh_leaseStop s" "sh_renewers s" z]
    by (simp add: hosting_wf_def startZoneRenewalAdopting_def isLocalZone_def) auto
next
  case False
  then have "startZoneRenewalAdopting now z adopted s = s" by (auto simp: startZoneRenewalAdopting_def)
  with assms show ?thesis by simp
qed

lemma wf_arm: "hosting_wf s \<Longrightarrow> hosting_wf (snd (armZoneActorLocked z s))"
  by (auto simp: hosting_wf_def armZoneActorLocked_def intro: less_SucI)

lemma wf_clear: "hosting_wf s \<Longrightarrow> hosting_wf (clearZoneHandedOff z s)"
  by (auto simp: hosting_wf_def clearZoneHandedOff_def)

lemma wf_register: "hosting_wf (registerZone g z s) = hosting_wf s"
  by (rule wf_view) (simp add: hosting_view_def registerZone_def)

lemma wf_publish:
  assumes "hosting_wf s" and "sh_zones s z = None"
  shows "hosting_wf (snd (publish_zone lc now z s))"
proof -
  let ?n = "sh_next s"
  let ?s1 = "adoptLocked z (new_zone ?n) (s\<lparr>sh_next := ?n + 1\<rparr>)"
  let ?s2 = "snd (armZoneActorLocked z ?s1)"
  have nh: "z \<notin> sh_handedOff s" using assms unfolding hosting_wf_def by blast
  have "hosting_wf ?s2"
    using assms unfolding hosting_wf_def
    by (auto simp: armZoneActorLocked_def adoptLocked_def new_zone_def) (meson less_SucI)+
  moreover have "z \<notin> sh_handedOff (registerZone (zc_region lc z) z ?s2)"
    using nh by (simp add: registerZone_def armZoneActorLocked_def adoptLocked_def)
  ultimately show ?thesis
    by (simp add: publish_zone_def Let_def wf_start wf_register)
qed

lemma wf_host:
  assumes "hosting_wf s" and "\<And>x. hosting_wf x \<Longrightarrow> hosting_wf (mid x)"
  shows "hosting_wf (snd (HostZone content mid now z s))"
proof (cases "sh_zones s z")
  case None
  have "hosting_wf (mid s)" using assms by blast
  with None show ?thesis
    using assms(1) wf_publish
    by (auto simp: HostZone_def Let_def split_beta split: option.splits)
next
  case (Some o')
  have "hosting_wf (startZoneRenewal now z (clearZoneHandedOff z s))"
    unfolding startZoneRenewal_def
    by (intro wf_start wf_clear assms(1)) (simp add: clearZoneHandedOff_def)
  with Some assms(1) show ?thesis by (auto simp: HostZone_def intro: wf_upd_zone)
qed

lemma wf_disarm:
  assumes "hosting_wf s" and "sh_zones s z = None \<or> sh_actors s z \<noteq> Some a"
  shows "hosting_wf (disarmZoneActor z a s)"
  using assms by (auto simp: hosting_wf_def disarmZoneActor_def)

lemma wf_remove:
  assumes "hosting_wf s" and "sh_zones s z = Some o'"
  shows "hosting_wf (remove_zone stops z o' s)"
proof -
  let ?u = "cancel_renewer (sh_leaseStop s z) (s\<lparr>sh_leaseStop := (sh_leaseStop s)(z := None)\<rparr>)"
  define v where "v = ?u\<lparr>sh_zones := (sh_zones s)(z := None), sh_handedOff := sh_handedOff s - {z}\<rparr>"
  define w where "w = cancel_renewer (sh_leaseStop s z) (unregisterZone z
           (s\<lparr>sh_zones := (sh_zones s)(z := None),
              sh_instances := (sh_instances s)(z := None),
              sh_tokens := (\<lambda>t. if sh_tokens s t = Some (zo_obj o') then None else sh_tokens s t),
              sh_residents := (\<lambda>p. case sh_residents s p of
                 None \<Rightarrow> None
               | Some r \<Rightarrow> if rs_zone r = Some (zo_obj o') then forget_residency r else Some r),
              sh_handedOff := sh_handedOff s - {z},
              sh_leaseStop := (sh_leaseStop s)(z := None)\<rparr>))"
  have u: "hosting_wf ?u" by (rule wf_unregister [OF assms(1)])
  have uv: "sh_zones ?u = sh_zones s" "sh_handedOff ?u = sh_handedOff s"
    by (simp_all add: cancel_renewer_def upd_renewer_def split: option.splits)
  have "hosting_wf v" using u uv unfolding hosting_wf_def v_def by auto
  moreover have "hosting_view w = hosting_view v"
    by (simp add: v_def w_def hosting_view_def cancel_renewer_def upd_renewer_def unregisterZone_def split: option.splits)
  ultimately have "hosting_wf w" using wf_view by blast
  moreover have "sh_zones w z = None" by (simp add: w_def cancel_renewer_def upd_renewer_def unregisterZone_def split: option.splits)
  ultimately show ?thesis
    by (simp add: remove_zone_def Let_def w_def [symmetric] wf_disarm split: option.splits)
qed

lemma wf_unhost:
  assumes "hosting_wf s" and "\<And>x. hosting_wf x \<Longrightarrow> hosting_wf (mid x)"
  shows "hosting_wf (snd (UnhostZone net now mid stops z d s))"
proof -
  have "hosting_wf (mid s)" using assms by blast
  then show ?thesis
    using assms(1) wf_remove
    by (auto simp: UnhostZone_def Let_def split: option.splits)
qed

lemma wf_unadopt:
  assumes "hosting_wf s" and "\<And>x. hosting_wf x \<Longrightarrow> hosting_wf (mid x)"
  shows "hosting_wf (unadoptZone net now mid stops z d s)"
  using assms by (simp add: unadoptZone_def wf_unhost wf_retire)

lemma wf_tick:
  assumes "hosting_wf s" and "\<And>x. hosting_wf x \<Longrightarrow> hosting_wf (mid x)" and "\<And>x. hosting_wf x \<Longrightarrow> hosting_wf (umid x)"
  shows "hosting_wf (fst (snd (renew_tick net mid unet umid stops now i (s, d))))"
proof -
  have m: "hosting_wf (mid s)" using assms(1,2) by blast
  have f: "hosting_wf (finish_renewer i (if sh_onFence (mid s) then (mid s)\<lparr>sh_fenced := True\<rparr> else mid s))"
    by (rule wf_finish) (simp add: wf_view [of "(mid s)\<lparr>sh_fenced := True\<rparr>" "mid s"] hosting_view_def m)
  obtain r d' where c: "ClaimZone net now (rn_zone (sh_renewers s ! i)) (sh_id s) (fst (leaseParams s)) d = (r, d')"
    by (cases "ClaimZone net now (rn_zone (sh_renewers s ! i)) (sh_id s) (fst (leaseParams s)) d")
  consider e where "r = Inl e" | "r = Inr True" | "r = Inr False" by (cases r) auto
  then show ?thesis
    using assms(1) m f c wf_unadopt [OF wf_finish [OF m], of umid] assms(3)
    by cases (auto simp: renew_tick_def Let_def wf_finish wf_confirm)
qed

lemma wf_stop: "hosting_wf s \<Longrightarrow> hosting_wf (fst (renew_stop net i (s, d)))"
  by (simp add: renew_stop_def Let_def wf_finish)

lemma wf_view_token:
  "hosting_view (indexToken t n s) = hosting_view s"
  "hosting_view (dropToken t s) = hosting_view s"
  "hosting_view (indexResident c n s) = hosting_view s"
  "hosting_view (s\<lparr>sh_draining := b, sh_ejectWindow := w\<rparr>) = hosting_view s"
  "hosting_view (Run_close s) = hosting_view s"
  by (simp_all add: hosting_view_def indexToken_def dropToken_def indexResident_def Run_close_def)

lemma wf_rely:
  assumes "(\<lambda>x y. shard_step x y \<and> (hosting_wf x \<longrightarrow> hosting_wf y))\<^sup>*\<^sup>* s s'" and "hosting_wf s"
  shows "hosting_wf s'"
  using assms by (induction rule: rtranclp_induct) auto

lemma wf_step:
  assumes "shard_step s s'"
  shows "hosting_wf s \<longrightarrow> hosting_wf s'"
  using assms
proof (induction rule: shard_step.induct)
  case (host mid s content now z)
  then show ?case using wf_host wf_rely by blast
next
  case (unhost mid s net now stops z d)
  then show ?case using wf_unhost wf_rely by blast
next
  case (renewal_tick mid umid i s net unet stops now d)
  then show ?case using wf_tick wf_rely by blast
next
  case (renewal_stop i s net d)
  then show ?case using wf_stop by blast
next
  case (mark s z)
  then show ?case using wf_mark by blast
next
  case (actor_exit s z a)
  then show ?case using wf_disarm by blast
next
  case (release_claim s z n)
  then show ?case unfolding releaseInboundArrival_def by (intro impI wf_upd_zone) simp_all
next
  case (zone_counts s z p k)
  then show ?case by (intro impI wf_upd_zone) simp_all
next
  case (unresident s c n)
  have "hosting_view (unindexResident c n s) = hosting_view s"
    by (simp add: unindexResident_def hosting_view_def split: option.splits)
  then show ?case using wf_view by blast
next
  case (token s t n)
  show ?case using wf_view [OF wf_view_token(1)] by blast
next
  case (untoken s t)
  show ?case using wf_view [OF wf_view_token(2)] by blast
next
  case (resident s c n)
  show ?case using wf_view [OF wf_view_token(3)] by blast
next
  case (drain_flags s b w)
  show ?case using wf_view [OF wf_view_token(4)] by blast
next
  case (close s)
  show ?case using wf_view [OF wf_view_token(5)] by blast
qed (blast intro: wf_claim)+

lemma wf_reachable: "shard_step\<^sup>*\<^sup>* s s' \<Longrightarrow> hosting_wf s \<Longrightarrow> hosting_wf s'"
  by (induction rule: rtranclp_induct) (auto dest: wf_step)

section \<open>A shard at boot\<close>

text \<open>Before \<open>Run\<close>: the boot zones are built, nothing renews, nothing was handed off.\<close>

definition boot_shard :: "zone_id list \<Rightarrow> zone_shard \<Rightarrow> bool" where
  "boot_shard zs s \<longleftrightarrow>
     sh_leaseStop s = Map.empty \<and> sh_renewers s = [] \<and> sh_handedOff s = {} \<and> sh_actors s = Map.empty \<and>
     dom (sh_zones s) = set zs \<and> (\<forall>z o'. sh_zones s z = Some o' \<longrightarrow> zo_obj o' < sh_next s)"

lemma boot_arm_all:
  "hosting_wf (s\<lparr>sh_runCtx := False\<rparr>) \<Longrightarrow> hosting_wf ((foldl boot_arm s zs)\<lparr>sh_runCtx := False\<rparr>) \<and>
     (\<forall>z \<in> set zs. sh_actors (foldl boot_arm s zs) z \<noteq> None) \<and>
     (\<forall>z. sh_actors s z \<noteq> None \<longrightarrow> sh_actors (foldl boot_arm s zs) z \<noteq> None) \<and>
     sh_zones (foldl boot_arm s zs) = sh_zones s \<and> sh_handedOff (foldl boot_arm s zs) = sh_handedOff s"
proof (induction zs arbitrary: s)
  case Nil
  then show ?case by simp
next
  case (Cons z zs)
  have "(boot_arm s z)\<lparr>sh_runCtx := False\<rparr> = snd (armZoneActorLocked z (s\<lparr>sh_runCtx := False\<rparr>))"
    by (simp add: boot_arm_def armZoneActorLocked_def)
  then have w: "hosting_wf ((boot_arm s z)\<lparr>sh_runCtx := False\<rparr>)" using wf_arm [OF Cons.prems] by simp
  have a: "sh_actors (boot_arm s z) z \<noteq> None" "sh_actors s y \<noteq> None \<longrightarrow> sh_actors (boot_arm s z) y \<noteq> None"
    "sh_zones (boot_arm s z) = sh_zones s" "sh_handedOff (boot_arm s z) = sh_handedOff s" for y
    by (simp_all add: boot_arm_def armZoneActorLocked_def)
  note ih = Cons.IH [OF w]
  show ?case using ih a by auto
qed

lemma start_all:
  "hosting_wf s \<Longrightarrow> sh_handedOff s = {} \<Longrightarrow> hosting_wf (foldl (\<lambda>s z. startZoneRenewal now z s) s zs)"
proof (induction zs arbitrary: s)
  case Nil
  then show ?case by simp
next
  case (Cons z zs)
  have "sh_handedOff (startZoneRenewal now z s) = {}" using Cons.prems(2)
    by (simp add: startZoneRenewal_def startZoneRenewalAdopting_def)
  moreover have "hosting_wf (startZoneRenewal now z s)"
    unfolding startZoneRenewal_def using Cons.prems by (intro wf_start) simp_all
  ultimately show ?case using Cons.IH by simp
qed

lemma wf_boot:
  assumes "boot_shard zs s"
  shows "hosting_wf (Run_start now zs s)"
proof -
  let ?s = "s\<lparr>sh_runCtx := True\<rparr>"
  have "hosting_wf (?s\<lparr>sh_runCtx := False\<rparr>)"
    using assms by (auto simp: boot_shard_def hosting_wf_def registry_wf_def)
  note a = boot_arm_all [OF this, of zs]
  have dom: "z \<in> set zs" if "sh_zones s z \<noteq> None" for z using that assms unfolding boot_shard_def by blast
  have "hosting_wf (foldl boot_arm ?s zs)"
  proof -
    have "\<forall>z. sh_zones (foldl boot_arm ?s zs) z \<noteq> None \<longrightarrow> sh_actors (foldl boot_arm ?s zs) z \<noteq> None"
      using a dom by auto
    moreover have "hosting_wf ((foldl boot_arm ?s zs)\<lparr>sh_runCtx := False\<rparr>)" using a by blast
    ultimately show ?thesis unfolding hosting_wf_def by simp
  qed
  moreover have "sh_handedOff (foldl boot_arm ?s zs) = {}" using a assms by (simp add: boot_shard_def)
  ultimately show ?thesis unfolding Run_start_def by (rule start_all)
qed

section \<open>What the invariant says\<close>

definition live_renewer :: "zone_shard \<Rightarrow> nat \<Rightarrow> zone_id \<Rightarrow> bool" where
  "live_renewer s i z \<longleftrightarrow>
     i < length (sh_renewers s) \<and> rn_zone (sh_renewers s ! i) = z \<and>
     \<not> rn_cancelled (sh_renewers s ! i) \<and> \<not> rn_done (sh_renewers s ! i)"

lemma live_renewer_registered: "hosting_wf s \<Longrightarrow> live_renewer s i z \<Longrightarrow> sh_leaseStop s z = Some i"
  by (auto simp: hosting_wf_def registry_wf_def live_renewer_def)


text \<open>A shard with one zone, leasing with the default parameters.\<close>

definition demo_shard :: "shard_id \<Rightarrow> zone_id \<Rightarrow> zone_shard" where
  "demo_shard me home =
     \<lparr>sh_id = me, sh_home = home, sh_localZones = [], sh_leasing = True, sh_leaseTTL = 0, sh_leaseRenew = 0,
      sh_onFence = True, sh_zones = [home \<mapsto> new_zone 0], sh_handedOff = {}, sh_leaseStop = Map.empty,
      sh_renewers = [], sh_actors = Map.empty, sh_next = 1, sh_runCtx = False, sh_closed = False,
      sh_draining = False, sh_ejectWindow = False, sh_fenced = False, sh_tokens = Map.empty,
      sh_residents = Map.empty, sh_instances = Map.empty, sh_zoneRegion = Map.empty, sh_rebalancing = {},
      sh_backoff = Map.empty, sh_deferSince = Map.empty,
      sh_keys = \<lparr>hk_sign = '''', hk_verify = None, hk_insecure = True\<rparr>\<rparr>"

definition demo_content :: zone_content where
  "demo_content = \<lparr>zc_builds = (\<lambda>_. True), zc_region = (\<lambda>_. '''')\<rparr>"

lemmas hosting_demo_defs = demo_shard_def demo_content_def Run_start_def boot_arm_def HostZone_def publish_zone_def Let_def hosting_defs


end
