(* ===== verification/Hosting_Props.thy ===== *)
theory Hosting_Props
  imports Hosting_Invariant
begin

text \<open>
  What hosting guarantees: a teardown never takes a zone that is owned, inhabited or awaited; an adoption
  whose handover never lands is undone; and the one way a hosted zone ends up owned by a shard that no
  longer renews it.
\<close>

section \<open>Teardown\<close>

lemma zoneLease_owner: "fst (zoneLease now z) = zoneOwner now z"
  by (auto simp: zoneLease_def zoneOwner_def split: option.splits)

lemma unhost_ownership_None:
  assumes "unhost_ownership net now z d s = None" and "sh_leasing s" and "\<not> isInstanceID z"
  shows "net = Served \<and> zoneOwner now (d z) \<noteq> sh_id s \<and> (zoneOwner now (d z) = '''' \<longrightarrow> \<not> renewingLocked z s)"
proof (cases net)
  case Served
  obtain w g where w: "zoneLease now (d z) = (w, g)" by (cases "zoneLease now (d z)")
  then have "zoneOwner now (d z) = w" using zoneLease_owner [of now "d z"] by simp
  with Served w assms show ?thesis
    by (auto simp: unhost_ownership_def ZoneLease_def split: if_splits)
qed (use assms in \<open>simp_all add: unhost_ownership_def ZoneLease_def\<close>)

lemma cancel_renewer_fields:
  "sh_zones (cancel_renewer c s) = sh_zones s" "sh_tokens (cancel_renewer c s) = sh_tokens s"
  "sh_residents (cancel_renewer c s) = sh_residents s" "sh_leaseStop (cancel_renewer c s) = sh_leaseStop s"
  "sh_handedOff (cancel_renewer c s) = sh_handedOff s" "sh_zoneRegion (cancel_renewer c s) = sh_zoneRegion s"
  "sh_actors (cancel_renewer c s) = sh_actors s" "sh_instances (cancel_renewer c s) = sh_instances s"
  "sh_fenced (cancel_renewer c s) = sh_fenced s"
  by (simp_all add: cancel_renewer_def upd_renewer_def split: option.splits)

lemma remove_zone_fields:
  "sh_zones (remove_zone stops z o' s) = (sh_zones s)(z := None)"
  "sh_leaseStop (remove_zone stops z o' s) = (sh_leaseStop s)(z := None)"
  "sh_handedOff (remove_zone stops z o' s) = sh_handedOff s - {z}"
  "sh_zoneRegion (remove_zone stops z o' s) = (sh_zoneRegion s)(z := None)"
  "sh_fenced (remove_zone stops z o' s) = sh_fenced s"
  "sh_tokens (remove_zone stops z o' s) t \<noteq> Some (zo_obj o')"
  "sh_residents (remove_zone stops z o' s) p = Some r \<Longrightarrow> rs_zone r \<noteq> Some (zo_obj o')"
  by (auto simp: remove_zone_def Let_def disarmZoneActor_def unregisterZone_def cancel_renewer_fields
      forget_residency_def split: option.splits if_splits)

text \<open>
  C16. A teardown spares live zones. When \<open>UnhostZone\<close> removes a zone, whatever the shard did while the
  ownership was being read: the zone was neither a local bootstrap zone nor the home zone; at the moment
  of removal it had no resident, no parked logout flush and no claimed arrival; the directory had been read and
  named this shard neither as the owner nor, unowned, as a shard about to reclaim it. Nothing on the shard
  points to the removed object afterwards and every other zone is untouched.
\<close>

theorem unhost_spares_live_zones:
  assumes "UnhostZone net now mid stops z d s = (r, s')"
    and "sh_zones s z \<noteq> None" and "sh_zones (mid s) z = Some o1" and "sh_zones s' z = None"
  shows "\<not> isLocalZone z s \<and> z \<noteq> sh_home s \<and>
         zo_pop o1 = 0 \<and> zo_stashed o1 = 0 \<and> zo_incoming o1 = 0 \<and>
         (sh_leasing s \<and> \<not> isInstanceID z \<longrightarrow>
            zoneOwner now (d z) \<noteq> sh_id s \<and> (zoneOwner now (d z) = '''' \<longrightarrow> \<not> renewingLocked z s)) \<and>
         (\<forall>t. sh_tokens s' t \<noteq> Some (zo_obj o1)) \<and>
         (\<forall>p q. sh_residents s' p = Some q \<longrightarrow> rs_zone q \<noteq> Some (zo_obj o1)) \<and>
         sh_leaseStop s' z = None \<and> \<not> zoneHandedOff z s' \<and>
         (\<forall>y. y \<noteq> z \<longrightarrow> sh_zones s' y = sh_zones (mid s) y)"
proof -
  obtain o' where o': "sh_zones s z = Some o'" using assms(2) by auto
  have s': "s' = remove_zone stops z o1 (mid s)" and g: "\<not> isLocalZone z s" "z \<noteq> sh_home s" "zone_quiescent o1"
    and own: "unhost_ownership net now z d s = None"
    using assms o' by (auto simp: UnhostZone_def Let_def split: if_splits option.splits)
  show ?thesis
    using g own unhost_ownership_None [OF own] remove_zone_fields [where o' = o1 and s = "mid s" and stops = stops and z = z]
    unfolding s' by (auto simp: zone_quiescent_def zoneHandedOff_def)
qed

text \<open>A zone handed to \<open>b\<close> and then torn down on \<open>a\<close>; with an arrival claimed meanwhile it would stay.\<close>

definition handed_over :: zone_shard where
  "handed_over = markZoneHandedOff ''darkwood'' (snd (HostZone (Some demo_content) id 5 ''darkwood'' (Run_start 0 [''town''] (demo_shard ''a'' ''town''))))"

definition owned_by_b :: zones where
  "owned_by_b = (\<lambda>_. \<lparr>z_owner = Some ''b'', z_expires = Some 99000, z_gen = Some 3\<rparr>)"

lemmas handed_over_defs = handed_over_def owned_by_b_def markZoneHandedOff_def UnhostZone_def unhost_ownership_def
  ZoneLease_def zoneLease_def zone_quiescent_def remove_zone_def isInstanceID_def hosting_demo_defs

theorem unhost_spares_live_zones_witness:
  "zo_incoming (the (sh_zones handed_over ''darkwood'')) = 0 \<and>
   sh_zones (snd (UnhostZone Served 20 id True ''darkwood'' owned_by_b handed_over)) ''darkwood'' = None \<and>
   fst (UnhostZone Served 20 (snd \<circ> claimArrivalTarget ''darkwood'') True ''darkwood'' owned_by_b handed_over) = Inl UH_Not_Quiescent"
proof -
  have z: "sh_zones handed_over ''darkwood'' = Some (new_zone 2)" by (simp add: handed_over_defs)
  have gone: "sh_zones (snd (UnhostZone Served 20 id True ''darkwood'' owned_by_b handed_over)) ''darkwood'' = None"
    by (simp add: handed_over_defs)
  have stays: "fst (UnhostZone Served 20 (snd \<circ> claimArrivalTarget ''darkwood'') True ''darkwood'' owned_by_b handed_over) = Inl UH_Not_Quiescent"
    by (simp add: handed_over_defs claimArrivalTarget_def)
  obtain r s' where u: "UnhostZone Served 20 id True ''darkwood'' owned_by_b handed_over = (r, s')"
    by (cases "UnhostZone Served 20 id True ''darkwood'' owned_by_b handed_over")
  have h: "sh_zones handed_over ''darkwood'' \<noteq> None" "sh_zones (id handed_over) ''darkwood'' = Some (new_zone 2)"
    "sh_zones s' ''darkwood'' = None"
    using z gone u by simp_all
  have "zo_incoming (new_zone 2) = 0" using unhost_spares_live_zones [OF u h] by blast
  then show ?thesis using z gone stays by (simp only: option.sel)
qed

section \<open>An adoption whose handover never lands\<close>

text \<open>
  The ticks of an unconfirmed renewal. Each entry is the fate of the call, the instant and the directory at
  that instant; a refused or lost claim leaves the directory as it was.
\<close>

fun adopting_ticks :: "(dir_error net \<times> ms \<times> zones) list \<Rightarrow> nat \<Rightarrow> zone_shard \<Rightarrow> zone_shard" where
  "adopting_ticks [] i s = s"
| "adopting_ticks ((net, t, d) # ts) i s =
     (if rn_done (sh_renewers s ! i) then s
      else adopting_ticks ts i (fst (snd (renew_tick net id Served id True t i (s, d)))))"

definition held_elsewhere :: "shard_id \<Rightarrow> zone_id \<Rightarrow> ms \<Rightarrow> zones \<Rightarrow> bool" where
  "held_elsewhere me z t d \<longleftrightarrow> (\<exists>w. zone_holder t (d z) = Some w \<and> w \<noteq> me \<and> w \<noteq> '''')"

lemma claim_held_elsewhere:
  assumes "held_elsewhere me z t d"
  shows "ClaimZone Served t z me ttl d = (Inr False, d)"
    and "ClaimZone net t z me ttl d = (Inr False, d) \<or> (\<exists>e. ClaimZone net t z me ttl d = (Inl e, d))"
proof -
  obtain w where w: "z_owner (d z) = Some w" "w \<noteq> me" "live_expiry t (z_expires (d z))"
    using assms by (auto simp: held_elsewhere_def zone_holder_def split: if_splits)
  then have c: "claimZone me ttl t (d z) = (0, d z)" by (simp add: claimZone_def held_by_other_def)
  then show "ClaimZone Served t z me ttl d = (Inr False, d)" by (simp add: ClaimZone_def on_key_def)
  from c show "ClaimZone net t z me ttl d = (Inr False, d) \<or> (\<exists>e. ClaimZone net t z me ttl d = (Inl e, d))"
    by (cases net) (simp_all add: ClaimZone_def on_key_def)
qed

text \<open>The state an unconfirmed renewal gives up in.\<close>

definition gave_up :: "ms \<Rightarrow> zones \<Rightarrow> nat \<Rightarrow> zone_shard \<Rightarrow> zone_shard" where
  "gave_up t d i s =
     (if rn_adopted (sh_renewers s ! i) then unadoptZone Served t id True (rn_zone (sh_renewers s ! i)) d (finish_renewer i s)
      else finish_renewer i s)"

lemma adopting_tick:
  assumes "r = sh_renewers s ! i" and "\<not> zoneHandedOff (rn_zone r) s" and "\<not> rn_confirmed r"
    and "held_elsewhere (sh_id s) (rn_zone r) t d"
  shows "fst (snd (renew_tick net id Served id True t i (s, d))) = s \<or>
         adoptConfirmDeadline \<le> t - rn_since r \<and> fst (snd (renew_tick net id Served id True t i (s, d))) = gave_up t d i s"
    and "adoptConfirmDeadline \<le> t - rn_since r \<Longrightarrow> fst (snd (renew_tick Served id Served id True t i (s, d))) = gave_up t d i s"
proof -
  note c = claim_held_elsewhere [OF assms(4), where ttl = "fst (leaseParams s)"]
  show "fst (snd (renew_tick net id Served id True t i (s, d))) = s \<or>
         adoptConfirmDeadline \<le> t - rn_since r \<and> fst (snd (renew_tick net id Served id True t i (s, d))) = gave_up t d i s"
    using c(2) [where net = net] assms(2,3) unfolding assms(1) by (cases "adoptConfirmDeadline \<le> t - rn_since (sh_renewers s ! i)") (auto simp: renew_tick_def Let_def gave_up_def)
  show "adoptConfirmDeadline \<le> t - rn_since r \<Longrightarrow> fst (snd (renew_tick Served id Served id True t i (s, d))) = gave_up t d i s"
    using c(1) assms(2,3) unfolding assms(1) by (auto simp: renew_tick_def Let_def gave_up_def)
qed

lemma adopting_ticks_done: "rn_done (sh_renewers s ! i) \<Longrightarrow> adopting_ticks ts i s = s"
  by (cases ts) auto

text \<open>A list of ticks past the deadline ends in a given-up state, whatever calls were lost on the way.\<close>

lemma adopting_ticks_give_up:
  assumes "r = sh_renewers s ! i" and "\<not> zoneHandedOff (rn_zone r) s" and "\<not> rn_confirmed r" and "\<not> rn_done r"
    and "\<forall>(net, t, d) \<in> set ts. held_elsewhere (sh_id s) (rn_zone r) t d"
    and "held_elsewhere (sh_id s) (rn_zone r) T D" and "adoptConfirmDeadline \<le> T - rn_since r"
    and "\<And>t d. rn_done (sh_renewers (gave_up t d i s) ! i)"
  shows "\<exists>t d. held_elsewhere (sh_id s) (rn_zone r) t d \<and> adopting_ticks (ts @ [(Served, T, D)]) i s = gave_up t d i s"
  using assms(5)
proof (induction ts)
  case Nil
  have "adopting_ticks [(Served, T, D)] i s = gave_up T D i s"
    using adopting_tick(2) [OF assms(1-3,6)] assms(1,4,7) by simp
  then show ?case using assms(6) by auto
next
  case (Cons x ts)
  obtain net t d where x: "x = (net, t, d)" by (cases x)
  have h: "held_elsewhere (sh_id s) (rn_zone r) t d" using Cons.prems x by simp
  consider "fst (snd (renew_tick net id Served id True t i (s, d))) = s"
    | "fst (snd (renew_tick net id Served id True t i (s, d))) = gave_up t d i s"
    using adopting_tick(1) [OF assms(1-3) h] by blast
  then show ?case
  proof cases
    case 1
    with Cons show ?thesis using assms(1,4) x by simp
  next
    case 2
    then have "adopting_ticks ((x # ts) @ [(Served, T, D)]) i s = gave_up t d i s"
      using assms(1,4) x by (simp add: adopting_ticks_done assms(8))
    with h show ?thesis by blast
  qed
qed

lemma finish_renewer_simps [simp]:
  "sh_zones (finish_renewer i s) = sh_zones s" "sh_leaseStop (finish_renewer i s) = sh_leaseStop s"
  "sh_handedOff (finish_renewer i s) = sh_handedOff s" "sh_actors (finish_renewer i s) = sh_actors s"
  "sh_home (finish_renewer i s) = sh_home s" "sh_id (finish_renewer i s) = sh_id s"
  "sh_localZones (finish_renewer i s) = sh_localZones s" "sh_leasing (finish_renewer i s) = sh_leasing s"
  "sh_zoneRegion (finish_renewer i s) = sh_zoneRegion s" "sh_fenced (finish_renewer i s) = sh_fenced s"
  "sh_runCtx (finish_renewer i s) = sh_runCtx s"
  by (simp_all add: finish_renewer_def upd_renewer_def)

lemma cancel_renewer_done:
  "rn_done (sh_renewers (cancel_renewer c s) ! i) = rn_done (sh_renewers s ! i)"
proof (cases c)
  case (Some k)
  show ?thesis
    by (cases "k < length (sh_renewers s)"; cases "i = k")
      (simp_all add: Some cancel_renewer_def upd_renewer_def list_update_beyond)
qed (simp add: cancel_renewer_def)

lemma retire_simps [simp]:
  "sh_zones (retireZoneRenewal z s) = sh_zones s" "sh_home (retireZoneRenewal z s) = sh_home s"
  "sh_id (retireZoneRenewal z s) = sh_id s" "sh_localZones (retireZoneRenewal z s) = sh_localZones s"
  "sh_leasing (retireZoneRenewal z s) = sh_leasing s" "sh_leaseStop (retireZoneRenewal z s) = (sh_leaseStop s)(z := None)"
  "sh_handedOff (retireZoneRenewal z s) = sh_handedOff s" "sh_actors (retireZoneRenewal z s) = sh_actors s"
  "sh_zoneRegion (retireZoneRenewal z s) = sh_zoneRegion s" "sh_fenced (retireZoneRenewal z s) = sh_fenced s"
  by (simp_all add: retireZoneRenewal_def cancel_renewer_def upd_renewer_def split: option.splits)

lemma remove_done: "rn_done (sh_renewers (remove_zone stops z o' s) ! i) = rn_done (sh_renewers s ! i)"
  by (simp add: remove_zone_def Let_def disarmZoneActor_def unregisterZone_def cancel_renewer_done split: option.splits)

lemma gave_up_done:
  assumes "i < length (sh_renewers s)"
  shows "rn_done (sh_renewers (gave_up t d i s) ! i)"
proof -
  have f: "rn_done (sh_renewers (finish_renewer i s) ! i)" using assms by (simp add: finish_renewer_def upd_renewer_def)
  have "rn_done (sh_renewers (snd (UnhostZone net t id stops z d x)) ! i) = rn_done (sh_renewers x ! i)" for net stops z x
    by (simp add: UnhostZone_def Let_def remove_done split: option.splits)
  moreover have "rn_done (sh_renewers (retireZoneRenewal z x) ! i) = rn_done (sh_renewers x ! i)" for z x
    by (simp add: retireZoneRenewal_def cancel_renewer_done)
  ultimately show ?thesis using f by (simp add: gave_up_def unadoptZone_def)
qed

text \<open>Retiring first is what lets the teardown through: the zone is quiescent and somebody else owns it.\<close>

lemma unadopt_removes:
  assumes "sh_zones s z = Some o'" and "zone_quiescent o'" and "\<not> isLocalZone z s" and "z \<noteq> sh_home s"
    and "held_elsewhere (sh_id s) z t d"
  shows "unadoptZone Served t id True z d s = remove_zone True z o' (retireZoneRenewal z s)"
proof -
  obtain w where w: "zone_holder t (d z) = Some w" "w \<noteq> sh_id s" "w \<noteq> ''''"
    using assms(5) by (auto simp: held_elsewhere_def)
  then have "fst (zoneLease t (d z)) = w"
    by (auto simp: zone_holder_def zoneLease_def split: if_splits)
  then have "unhost_ownership Served t z d (retireZoneRenewal z s) = None"
    using w(2,3) by (cases "zoneLease t (d z)") (simp add: unhost_ownership_def ZoneLease_def)
  then show ?thesis
    using assms(1-4) by (simp add: unadoptZone_def UnhostZone_def isLocalZone_def Let_def)
qed

text \<open>The shard right after it adopted a zone at \<open>t0\<close>, and the goroutine that renews it.\<close>

lemma adopted_shard:
  fixes t0 :: ms
  assumes "hosting_wf s" and "sh_zones s z = None" and "sh_runCtx s" and "\<not> sh_closed s" and "zc_builds lc z"
    and "sh_leasing s" and "\<not> isLocalZone z s" and "sh_leaseStop s z = None"
  defines "a \<equiv> snd (HostZone (Some lc) id t0 z s)"
  shows "sh_renewers a ! length (sh_renewers s) =
           \<lparr>rn_zone = z, rn_adopted = True, rn_confirmed = False, rn_since = t0, rn_cancelled = False, rn_done = False\<rparr>"
    and "sh_zones a = (sh_zones s)(z \<mapsto> new_zone (sh_next s))" and "sh_handedOff a = sh_handedOff s"
    and "sh_leaseStop a = (sh_leaseStop s)(z \<mapsto> length (sh_renewers s))"
    and "length (sh_renewers a) = Suc (length (sh_renewers s))"
    and "sh_id a = sh_id s" "sh_home a = sh_home s" "sh_localZones a = sh_localZones s" "sh_fenced a = sh_fenced s"
    and "sh_zoneRegion a = (if zc_region lc z = '''' then sh_zoneRegion s else (sh_zoneRegion s)(z \<mapsto> zc_region lc z))"
    and "sh_leasing a = sh_leasing s"
  using assms(2-8) unfolding a_def
  by (simp_all add: HostZone_def publish_zone_def Let_def hosting_defs)

text \<open>
  C18. An abandoned adoption is undone. A shard that built a zone for a handover and is refused its lease,
  tick after tick and with any calls lost, because the handover never lands, has torn the zone down again
  by the first served tick past \<open>adoptConfirmDeadline\<close>, if nobody is in it: its zones, renewals, hand-off
  marks and regions are those from before the adoption, its goroutine has returned and nothing was fenced.
\<close>

theorem abandoned_adoption_is_undone:
  assumes "hosting_wf s" and "sh_zones s z = None" and "sh_zoneRegion s z = None" and "sh_leaseStop s z = None"
    and "sh_runCtx s" and "\<not> sh_closed s" and "zc_builds lc z"
    and "sh_leasing s" and "\<not> isLocalZone z s" and "z \<noteq> sh_home s"
    and "\<forall>(net, t, d) \<in> set ts. held_elsewhere (sh_id s) z t d"
    and "held_elsewhere (sh_id s) z T D" and "t0 + adoptConfirmDeadline \<le> T"
    and "s' = adopting_ticks (ts @ [(Served, T, D)]) (length (sh_renewers s)) (snd (HostZone (Some lc) id t0 z s))"
  shows "sh_zones s' = sh_zones s \<and> sh_leaseStop s' = sh_leaseStop s \<and> sh_handedOff s' = sh_handedOff s \<and>
         sh_zoneRegion s' = sh_zoneRegion s \<and> sh_fenced s' = sh_fenced s \<and> \<not> live_renewer s' (length (sh_renewers s)) z"
proof -
  let ?i = "length (sh_renewers s)" and ?a = "snd (HostZone (Some lc) id t0 z s)"
  note a = adopted_shard [OF assms(1,2,5,6,7,8,9,4), of t0]
  have nh: "\<not> zoneHandedOff z s" using assms(1,2) unfolding hosting_wf_def zoneHandedOff_def by blast
  have gone: "gave_up t d ?i ?a = remove_zone True z (new_zone (sh_next s)) (retireZoneRenewal z (finish_renewer ?i ?a))"
    if "held_elsewhere (sh_id s) z t d" for t d
    using that assms(9,10) a
    by (auto simp: gave_up_def new_zone_def zone_quiescent_def isLocalZone_def intro!: unadopt_removes)
  let ?r = "sh_renewers ?a ! ?i"
  have r: "rn_zone ?r = z" "\<not> rn_confirmed ?r" "\<not> rn_done ?r" "rn_since ?r = t0" "\<not> zoneHandedOff (rn_zone ?r) ?a"
    using a(1,3) nh by (simp_all add: zoneHandedOff_def)
  have late: "adoptConfirmDeadline \<le> T - rn_since ?r" using assms(13) r(4) by simp
  obtain t d where h: "held_elsewhere (sh_id s) z t d" and s': "s' = gave_up t d ?i ?a"
    using adopting_ticks_give_up [OF refl r(5) r(2) r(3), of ts T D] late assms(11,12,14) r(1) a(5,6) gave_up_done
    by auto
  let ?e = "finish_renewer ?i ?a"
  note fields = remove_zone_fields [where z = z and stops = True and o' = "new_zone (sh_next s)" and s = "retireZoneRenewal z ?e"]
  have z0: "(sh_zones s)(z := None) = sh_zones s" "(sh_leaseStop s)(z := None) = sh_leaseStop s"
    "(sh_zoneRegion s)(z := None) = sh_zoneRegion s" "sh_handedOff s - {z} = sh_handedOff s"
    using assms(2,3,4) nh by (auto simp: zoneHandedOff_def)
  have fin: "rn_done (sh_renewers s' ! ?i)" unfolding s' using a(5) by (intro gave_up_done) simp
  have eqs: "sh_zones s' = sh_zones s" "sh_leaseStop s' = sh_leaseStop s" "sh_handedOff s' = sh_handedOff s"
    "sh_zoneRegion s' = sh_zoneRegion s" "sh_fenced s' = sh_fenced s"
    unfolding s' gone [OF h] using fields a z0 by simp_all
  moreover have "\<not> live_renewer s' ?i z" using fin by (simp add: live_renewer_def)
  ultimately show ?thesis by blast
qed

theorem abandoned_adoption_is_undone_witness:
  "sh_zones (adopting_ticks [(Lost_Request (RedisErr ''timeout''), 5005, owned_by_b), (Served, 10005, owned_by_b), (Served, 60005, owned_by_b)]
      1 (snd (HostZone (Some demo_content) id 5 ''darkwood'' (Run_start 0 [''town''] (demo_shard ''a'' ''town''))))) ''darkwood'' = None"
proof -
  let ?b = "Run_start 0 [''town''] (demo_shard ''a'' ''town'')"
  have wf: "hosting_wf ?b" by (rule wf_boot) (auto simp: boot_shard_def demo_shard_def new_zone_def)
  have f: "sh_zones ?b ''darkwood'' = None" "sh_zoneRegion ?b ''darkwood'' = None" "sh_leaseStop ?b ''darkwood'' = None"
    "sh_runCtx ?b" "\<not> sh_closed ?b" "zc_builds demo_content ''darkwood''" "sh_leasing ?b" "\<not> isLocalZone ''darkwood'' ?b"
    "''darkwood'' \<noteq> sh_home ?b" "length (sh_renewers ?b) = 1" "sh_id ?b = ''a''"
    by (simp_all add: hosting_demo_defs)
  have h: "held_elsewhere (sh_id ?b) ''darkwood'' t owned_by_b" if "t < 99000" for t
    using that f(11) by (simp add: held_elsewhere_def owned_by_b_def zone_holder_def)
  show ?thesis
    using abandoned_adoption_is_undone [OF wf f(1-9), of "[(Lost_Request (RedisErr ''timeout''), 5005, owned_by_b), (Served, 10005, owned_by_b)]" 60005 owned_by_b 5]
      f(1,10) by (simp add: h adoptConfirmDeadline_def)
qed

section \<open>A registration that outlives its goroutine\<close>

text \<open>
  C38. The renewal that never comes back. A zone was handed away but is still hosted (the home zone always
  is). It is offered back, the re-adoption starts a renewal, and the offer is not completed within the
  deadline: the goroutine returns but its registration stays. When the zone is offered again, \<open>HostZone\<close>
  reports success and starts nothing, because the zone is hosted and not marked; once that handover lands
  the shard owns and serves a zone no goroutine renews, no later call of \<open>startZoneRenewal\<close> helps, and the
  lease runs out after one lifetime.
\<close>

theorem stale_registration_lapses:
  assumes "hosting_wf s" and "sh_zones s z = Some o'" and "zoneHandedOff z s"
    and "sh_runCtx s" and "sh_leasing s" and "\<not> isLocalZone z s"
    and "\<forall>(net, t, d) \<in> set ts. held_elsewhere (sh_id s) z t d"
    and "held_elsewhere (sh_id s) z T D" and "t0 + adoptConfirmDeadline \<le> T"
    and "b = adopting_ticks (ts @ [(Served, T, D)]) (length (sh_renewers s)) (snd (HostZone content id t0 z s))"
    and "HostZone content id t1 z b = (reply, e)"
    and "handoverZone w (sh_id s) ttl tf rec = (1, rec')"
  shows "reply = Inr (zo_obj o') \<and> sh_zones e z \<noteq> None \<and> (\<forall>i. \<not> live_renewer e i z) \<and>
         (\<forall>now adopted. startZoneRenewalAdopting now z adopted e = e) \<and>
         (\<forall>t < tf + ttl. zoneOwner t rec' = sh_id e) \<and> (\<forall>t \<ge> tf + ttl. zoneOwner t rec' = '''')"
proof -
  let ?i = "length (sh_renewers s)" and ?a = "snd (HostZone content id t0 z s)"
  have ls: "sh_leaseStop s z = None" using assms(1,3) by (auto simp: hosting_wf_def zoneHandedOff_def)
  have a: "sh_renewers ?a ! ?i =
      \<lparr>rn_zone = z, rn_adopted = False, rn_confirmed = False, rn_since = t0, rn_cancelled = False, rn_done = False\<rparr>"
    "length (sh_renewers ?a) = Suc ?i" "sh_leaseStop ?a z = Some ?i" "z \<notin> sh_handedOff ?a" "sh_id ?a = sh_id s"
    "\<exists>o1. sh_zones ?a z = Some o1 \<and> zo_obj o1 = zo_obj o'"
    using assms(2-6) ls by (auto simp: HostZone_def hosting_defs)
  have wf: "hosting_wf ?a" by (rule wf_host [OF assms(1)]) simp
  let ?r = "sh_renewers ?a ! ?i"
  have r: "rn_zone ?r = z" "\<not> rn_confirmed ?r" "\<not> rn_done ?r" "rn_since ?r = t0" "\<not> zoneHandedOff (rn_zone ?r) ?a"
    using a(1,4) by (simp_all add: zoneHandedOff_def)
  have late: "adoptConfirmDeadline \<le> T - rn_since ?r" using assms(9) r(4) by simp
  have "\<exists>t d. b = gave_up t d ?i ?a"
    using adopting_ticks_give_up [OF refl r(5) r(2) r(3), of ts T D] late assms(7,8,10) r(1) a(2,5) gave_up_done
    by auto
  then have b: "b = finish_renewer ?i ?a" using a(1) by (auto simp: gave_up_def)
  have e: "e = b" "reply = Inr (zo_obj o')"
    using assms(11) a(4,6) b by (auto simp: HostZone_def zoneHandedOff_def)
  have wfe: "hosting_wf e" unfolding e(1) b by (rule wf_finish [OF wf])
  have le: "sh_leaseStop e z = Some ?i" unfolding e(1) b using a(3) by simp
  have fin: "rn_done (sh_renewers e ! ?i)" unfolding e(1) b using a(2) by (simp add: finish_renewer_def upd_renewer_def)
  have dead: "\<not> live_renewer e j z" for j
  proof
    assume "live_renewer e j z"
    moreover from this have "j = ?i" using live_renewer_registered [OF wfe] le by fastforce
    ultimately show False using fin by (simp add: live_renewer_def)
  qed
  have "startZoneRenewalAdopting now z ad e = e" for now ad
    using le by (simp add: startZoneRenewalAdopting_def)
  moreover have "sh_zones e z \<noteq> None" "sh_id e = sh_id s" using a(5,6) unfolding e(1) b by auto
  moreover have "zoneOwner t rec' = (if t < tf + ttl then sh_id s else '''')" for t
    using assms(12) by (auto simp: handoverZone_def zoneOwner_def split: if_splits)
  ultimately show ?thesis using e(2) dead by auto
qed

theorem stale_registration_lapses_witness:
  "{i. live_renewer (snd (HostZone None id 70000 ''town''
        (adopting_ticks [(Served, 5005, owned_by_b), (Served, 60005, owned_by_b)] 1
          (snd (HostZone None id 5 ''town'' (markZoneHandedOff ''town'' (Run_start 0 [''town''] (demo_shard ''a'' ''town''))))))))
      i ''town''} = {} \<and>
   zoneOwner 94999 (snd (handoverZone ''b'' ''a'' 15000 80000 (owned_by_b ''town''))) = ''a'' \<and>
   zoneOwner 95000 (snd (handoverZone ''b'' ''a'' 15000 80000 (owned_by_b ''town''))) = ''''"
proof -
  let ?s = "markZoneHandedOff ''town'' (Run_start 0 [''town''] (demo_shard ''a'' ''town''))"
  have wf: "hosting_wf (Run_start 0 [''town''] (demo_shard ''a'' ''town''))"
    by (rule wf_boot) (auto simp: boot_shard_def demo_shard_def new_zone_def)
  have "sh_zones (Run_start 0 [''town''] (demo_shard ''a'' ''town'')) ''town'' \<noteq> None" by (simp add: hosting_demo_defs)
  then have wf': "hosting_wf ?s" by (rule wf_mark [OF wf])
  have f: "sh_zones ?s ''town'' = Some (new_zone 0)" "zoneHandedOff ''town'' ?s" "sh_runCtx ?s" "sh_leasing ?s"
    "\<not> isLocalZone ''town'' ?s" "sh_id ?s = ''a''"
    by (simp_all add: markZoneHandedOff_def hosting_demo_defs)
  have h: "held_elsewhere (sh_id ?s) ''town'' t owned_by_b" if "t < 99000" for t
    using that f(6) by (simp add: held_elsewhere_def owned_by_b_def zone_holder_def)
  have flip: "handoverZone ''b'' (sh_id ?s) 15000 80000 (owned_by_b ''town'') =
      (1, snd (handoverZone ''b'' ''a'' 15000 80000 (owned_by_b ''town'')))"
    by (simp add: f(6) handoverZone_def owned_by_b_def)
  let ?b = "adopting_ticks [(Served, 5005, owned_by_b), (Served, 60005, owned_by_b)] 1 (snd (HostZone None id 5 ''town'' ?s))"
  let ?e = "snd (HostZone None id 70000 ''town'' ?b)"
  have n: "length (sh_renewers ?s) = 1"
    by (simp add: markZoneHandedOff_def hosting_demo_defs)
  have b: "?b = adopting_ticks ([(Served, 5005, owned_by_b)] @ [(Served, 60005, owned_by_b)]) (length (sh_renewers ?s))
      (snd (HostZone None id 5 ''town'' ?s))"
    unfolding n by simp
  have "(\<forall>i. \<not> live_renewer ?e i ''town'') \<and>
      (\<forall>t < 80000 + 15000. zoneOwner t (snd (handoverZone ''b'' ''a'' 15000 80000 (owned_by_b ''town''))) = sh_id ?e) \<and>
      (\<forall>t \<ge> 80000 + 15000. zoneOwner t (snd (handoverZone ''b'' ''a'' 15000 80000 (owned_by_b ''town''))) = '''')"
    using stale_registration_lapses [OF wf' f(1-5) _ h _ b prod.collapse [symmetric] flip] h
    by (simp add: adoptConfirmDeadline_def)
  moreover have "zoneOwner 94999 (snd (handoverZone ''b'' ''a'' 15000 80000 (owned_by_b ''town''))) = ''a''"
    by (simp add: handoverZone_def owned_by_b_def zoneOwner_def)
  ultimately show ?thesis by simp
qed

end
