(* ===== verification/Zone_Handover.thy ===== *)
theory Zone_Handover
  imports Hosting_Props
begin

text \<open>
  Moving a zone between two shards: \<open>AdoptZone\<close> on the receiving side (\<^verbatim>\<open>handoff_server.go\<close>),
  \<open>handoverZoneTo\<close> on the giving side (\<^verbatim>\<open>lease.go\<close>), and the rebalance that drives it
  (\<^verbatim>\<open>rebalance.go\<close>), over a cluster of shards that share one directory.
\<close>

section \<open>The receiving side\<close>

text \<open>Hash, signature and verification, as arguments.\<close>

record crypto =
  cr_hash :: "string \<Rightarrow> string"
  cr_sign :: "string \<Rightarrow> string \<Rightarrow> string"
  cr_verify :: "string \<Rightarrow> string \<Rightarrow> string \<Rightarrow> bool"

definition AdoptZone ::
  "crypto \<Rightarrow> zone_content option \<Rightarrow> (zone_shard \<Rightarrow> zone_shard) \<Rightarrow> dir_error net \<Rightarrow> ms \<Rightarrow> AdoptZoneRequest \<Rightarrow> zones
     \<Rightarrow> zone_shard \<Rightarrow> (rpc_status + bool) \<times> zone_shard" where
  "AdoptZone cr content mid net now req d s =
     (let host = (case HostZone content mid now (az_zone req) s of
                    (Inl e, s') \<Rightarrow> (Inl FailedPrecondition, s')
                  | (Inr _, s') \<Rightarrow> (Inr True, s'))
      in if isInstanceID (az_zone req) then (Inl InvalidArgument, s)
         else case hk_verify (sh_keys s) of
           Some pub \<Rightarrow>
             if verifyAdoptZoneSig (cr_hash cr) (cr_verify cr) pub req (sh_id s) \<noteq> None then (Inl PermissionDenied, s)
             else if \<not> sh_leasing s then (Inl PermissionDenied, s)
             else (case ZoneLease net now (az_zone req) d of
                Inl e \<Rightarrow> (Inl Unavailable, s)
              | Inr (curOwner, curGen) \<Rightarrow>
                  if verifyAdoptZoneLease req curOwner curGen \<noteq> None then (Inl PermissionDenied, s) else host)
         | None \<Rightarrow>
             (case keylessHandoffRefused (sh_keys s) of
                Some e \<Rightarrow> (Inl e, s)
              | None \<Rightarrow> host))"

section \<open>The giving side\<close>

record cluster =
  cl_shards :: "shard_id \<Rightarrow> zone_shard"
  cl_dir :: zones

definition upd_shard :: "shard_id \<Rightarrow> (zone_shard \<Rightarrow> zone_shard) \<Rightarrow> cluster \<Rightarrow> cluster" where
  "upd_shard i f c = c\<lparr>cl_shards := (cl_shards c)(i := f (cl_shards c i))\<rparr>"

text \<open>The fates of the calls of one handover, and the instants of the read and of the flip.\<close>

record handover_env =
  he_now :: ms
  he_read :: "dir_error net"
  he_dial :: bool
  he_rpc :: "rpc_status net"
  he_content :: "zone_content option"
  he_peer_mid :: "zone_shard \<Rightarrow> zone_shard"
  he_peer_read :: "dir_error net"
  he_flip :: "dir_error net"
  he_flip_at :: ms

datatype handover_error =
    HO_Not_Configured | HO_Self | HO_Read dir_error | HO_Not_Owner shard_id | HO_Dial | HO_Adopt rpc_status
  | HO_Flip dir_error | HO_Flip_Refused

definition adopt_request :: "crypto \<Rightarrow> string \<Rightarrow> zone_id \<Rightarrow> shard_id \<Rightarrow> shard_id \<Rightarrow> nat \<Rightarrow> AdoptZoneRequest" where
  "adopt_request cr priv z src dst gen =
     (let r = \<lparr>az_zone = z, az_from = src, az_to = dst, az_gen = gen, az_sig = ''''\<rparr>
      in r\<lparr>az_sig := signAdoptZone (cr_hash cr) (cr_sign cr) priv r\<rparr>)"

definition adopt_rpc ::
  "crypto \<Rightarrow> handover_env \<Rightarrow> AdoptZoneRequest \<Rightarrow> shard_id \<Rightarrow> cluster \<Rightarrow> (rpc_status + (rpc_status + bool)) \<times> cluster" where
  "adopt_rpc cr env req dst c =
     round_trip (he_rpc env)
       (\<lambda>c. let (r, s') = AdoptZone cr (he_content env) (he_peer_mid env) (he_peer_read env) (he_now env) req (cl_dir c) (cl_shards c dst)
            in (r, c\<lparr>cl_shards := (cl_shards c)(dst := s')\<rparr>)) c"

definition handoverZoneTo ::
  "crypto \<Rightarrow> handover_env \<Rightarrow> zone_id \<Rightarrow> shard_id \<Rightarrow> shard_id \<Rightarrow> cluster \<Rightarrow> (handover_error + unit) \<times> cluster" where
  "handoverZoneTo cr env z src dst c =
     (let s = cl_shards c src in
      if \<not> sh_leasing s then (Inl HO_Not_Configured, c)
      else if dst = sh_id s then (Inl HO_Self, c)
      else (case ZoneLease (he_read env) (he_now env) z (cl_dir c) of
         Inl e \<Rightarrow> (Inl (HO_Read e), c)
       | Inr (owner, leaseGen) \<Rightarrow>
           if owner \<noteq> sh_id s then (Inl (HO_Not_Owner owner), c)
           else if \<not> he_dial env then (Inl HO_Dial, c)
           else (case adopt_rpc cr env (adopt_request cr (hk_sign (sh_keys s)) z (sh_id s) dst leaseGen) dst c of
              (Inl e, c1) \<Rightarrow> (Inl (HO_Adopt e), c1)
            | (Inr (Inl e), c1) \<Rightarrow> (Inl (HO_Adopt e), c1)
            | (Inr (Inr _), c1) \<Rightarrow>
                let c2 = upd_shard src (markZoneHandedOff z) c1;
                    (ok, d') = HandoverZone (he_flip env) (he_flip_at env) z (sh_id s) dst (fst (leaseParams s)) (cl_dir c2);
                    c3 = c2\<lparr>cl_dir := d'\<rparr>
                in (case ok of
                      Inl e \<Rightarrow> (Inl (HO_Flip e), c3)
                    | Inr False \<Rightarrow> (Inl HO_Flip_Refused, c3)
                    | Inr True \<Rightarrow> (Inr (), c3)))))"

section \<open>Rebalancing a zone\<close>

definition rebalanceDrainDeadline :: nat where "rebalanceDrainDeadline = 30000"
definition rebalanceDirectiveTTL :: nat where "rebalanceDirectiveTTL = 90000"
definition rebalanceRetryBackoff :: nat where "rebalanceRetryBackoff = 30000"
definition anchorDeferBudget :: nat where "anchorDeferBudget = 180000"

text \<open>What a tick of the owner's renewal does about a pending directive.\<close>

datatype rebalance_action = RA_Nothing | RA_Clear shard_id | RA_Refresh shard_id | RA_Skip | RA_Launch shard_id string

definition failRebalance :: "ms \<Rightarrow> zone_id \<Rightarrow> zone_shard \<Rightarrow> zone_shard" where
  "failRebalance now z s =
     s\<lparr>sh_rebalancing := sh_rebalancing s - {z}, sh_backoff := (sh_backoff s)(z \<mapsto> now + rebalanceRetryBackoff)\<rparr>"

definition succeedRebalance :: "zone_id \<Rightarrow> zone_shard \<Rightarrow> zone_shard" where
  "succeedRebalance z s = s\<lparr>sh_rebalancing := sh_rebalancing s - {z}, sh_backoff := (sh_backoff s)(z := None)\<rparr>"

definition maybeRebalance ::
  "dir_error net \<Rightarrow> dir_error net \<Rightarrow> bool \<Rightarrow> ms \<Rightarrow> zone_id \<Rightarrow> string keys \<Rightarrow> shards \<Rightarrow> zone_shard
     \<Rightarrow> rebalance_action \<times> zone_shard" where
  "maybeRebalance rnet enet wired now z keys dir s =
     (if \<not> wired then (RA_Nothing, s)
      else case ReadRebalance rnet now z keys of
        Inl e \<Rightarrow> (RA_Nothing, s)
      | Inr (toShard, found) \<Rightarrow>
          if \<not> found then (RA_Nothing, s)
          else if toShard = sh_id s then (RA_Clear toShard, s)
          else if (case sh_backoff s z of Some t \<Rightarrow> now < t | None \<Rightarrow> False) then (RA_Nothing, s)
          else if z \<in> sh_rebalancing s then (RA_Refresh toShard, s)
          else let s1 = s\<lparr>sh_rebalancing := insert z (sh_rebalancing s)\<rparr> in
            (case EndpointForShard enet now toShard dir of
               Inl e \<Rightarrow> (RA_Skip, failRebalance now z s1)
             | Inr ep \<Rightarrow> if ep = '''' then (RA_Skip, failRebalance now z s1) else (RA_Launch toShard ep, s1)))"

definition directive_effect :: "dir_error net \<Rightarrow> ms \<Rightarrow> zone_id \<Rightarrow> rebalance_action \<Rightarrow> string keys \<Rightarrow> string keys" where
  "directive_effect net now z a keys =
     (case a of
        RA_Clear to \<Rightarrow> snd (ClearRebalance net now z to keys)
      | RA_Refresh to \<Rightarrow> snd (RefreshRebalance net now z to rebalanceDirectiveTTL keys)
      | _ \<Rightarrow> keys)"

definition anchorDeferExpired :: "ms \<Rightarrow> zone_id \<Rightarrow> zone_shard \<Rightarrow> bool \<times> zone_shard" where
  "anchorDeferExpired now z s =
     (let since = (case sh_deferSince s z of Some t \<Rightarrow> t | None \<Rightarrow> now)
      in (anchorDeferBudget \<le> now - since, s\<lparr>sh_deferSince := (sh_deferSince s)(z \<mapsto> since)\<rparr>))"

definition clearAnchorDefer :: "zone_id \<Rightarrow> zone_shard \<Rightarrow> zone_shard" where
  "clearAnchorDefer z s = s\<lparr>sh_deferSince := (sh_deferSince s)(z := None)\<rparr>"

text \<open>True means the move may proceed; \<open>eject\<close> is the walk of the anchored occupants back to the door.\<close>

definition settleAnchorsBeforeRebalance ::
  "bool \<Rightarrow> (zone_shard \<Rightarrow> zone_shard) \<Rightarrow> ms \<Rightarrow> zone_id \<Rightarrow> zone_shard \<Rightarrow> bool \<times> zone_shard" where
  "settleAnchorsBeforeRebalance anchored eject now z s =
     (if \<not> anchored then (True, clearAnchorDefer z s)
      else let (expired, s1) = anchorDeferExpired now z s in
        if \<not> expired then (False, s1) else (True, clearAnchorDefer z (eject s1)))"

record drain_result =
  dr_redirected :: int
  dr_reclaimed :: int
  dr_infra :: int
  dr_client :: int

datatype rebalance_error = RB_Anchored | RB_Not_Hosted | RB_Handover handover_error

text \<open>
  \<open>RebalanceZone\<close>. After the flip the zone drains until it is quiescent or the deadline passes (\<open>drained\<close>),
  the stragglers are reclaimed (\<open>tally\<close>: the zone's answer, or none in time) and the copy is torn down.
\<close>

definition RebalanceZone ::
  "crypto \<Rightarrow> handover_env \<Rightarrow> bool \<Rightarrow> (zone_shard \<Rightarrow> zone_shard) \<Rightarrow> (cluster \<Rightarrow> cluster) \<Rightarrow> (int \<times> int) option
     \<Rightarrow> dir_error net \<Rightarrow> ms \<Rightarrow> (zone_shard \<Rightarrow> zone_shard) \<Rightarrow> bool \<Rightarrow> zone_id \<Rightarrow> shard_id \<Rightarrow> shard_id \<Rightarrow> cluster
     \<Rightarrow> (rebalance_error + drain_result) \<times> cluster" where
  "RebalanceZone cr env anchored eject drained tally unet unow umid stops z src dst c =
     (let (go, s1) = settleAnchorsBeforeRebalance anchored eject (he_now env) z (cl_shards c src);
          c1 = upd_shard src (\<lambda>_. s1) c
      in if \<not> go then (Inl RB_Anchored, c1)
         else case sh_zones s1 z of
           None \<Rightarrow> (Inl RB_Not_Hosted, c1)
         | Some o' \<Rightarrow>
             (case handoverZoneTo cr env z src dst c1 of
                (Inl e, c2) \<Rightarrow> (Inl (RB_Handover e), c2)
              | (Inr _, c2) \<Rightarrow>
                  let c3 = drained c2;
                      (infra, client) = (case tally of
                         Some t \<Rightarrow> t
                       | None \<Rightarrow> (case sh_zones (cl_shards c3 src) z of Some o3 \<Rightarrow> zo_pop o3 | None \<Rightarrow> 0, 0));
                      moved = zo_pop o' - (infra + client);
                      c4 = upd_shard src (\<lambda>s. snd (UnhostZone unet unow umid stops z (cl_dir c3) s)) c3
                  in (Inr \<lparr>dr_redirected = max 0 moved, dr_reclaimed = infra + client, dr_infra = infra, dr_client = client\<rparr>,
                      c4)))"

text \<open>The end of \<open>runRebalance\<close>: back off, or clear the directive and the flags.\<close>

definition runRebalance_end ::
  "dir_error net \<Rightarrow> ms \<Rightarrow> zone_id \<Rightarrow> shard_id \<Rightarrow> rebalance_error + drain_result \<Rightarrow> zone_shard \<times> string keys
     \<Rightarrow> zone_shard \<times> string keys" where
  "runRebalance_end net now z toShard r sk =
     (case r of
        Inl _ \<Rightarrow> (failRebalance now z (fst sk), snd sk)
      | Inr _ \<Rightarrow> (succeedRebalance z (fst sk), snd (ClearRebalance net now z toShard (snd sk))))"

end
