(* ===== verification/Handover_Props.thy ===== *)
theory Handover_Props
  imports Zone_Handover
begin

text \<open>
  What a zone handover does: the zone moves, once, to the shard that was asked; the request that authorised
  it is dead afterwards; and what is left when the flip itself fails.
\<close>

section \<open>A handover between two sound shards\<close>

text \<open>
  Both shards lease and run, share a working key pair, the source owns the zone until \<open>ex\<close> at generation
  \<open>g\<close>, and the target can build it and does not host it.
\<close>

definition ready :: "crypto \<Rightarrow> handover_env \<Rightarrow> zone_id \<Rightarrow> shard_id \<Rightarrow> shard_id \<Rightarrow> cluster \<Rightarrow> bool" where
  "ready cr env z src dst c \<longleftrightarrow>
     src \<noteq> dst \<and> src \<noteq> '''' \<and> dst \<noteq> '''' \<and> \<not> isInstanceID z \<and>
     sh_id (cl_shards c src) = src \<and> sh_id (cl_shards c dst) = dst \<and>
     hosting_wf (cl_shards c src) \<and> hosting_wf (cl_shards c dst) \<and>
     sh_leasing (cl_shards c src) \<and> sh_leasing (cl_shards c dst) \<and>
     sh_zones (cl_shards c src) z \<noteq> None \<and> sh_zones (cl_shards c dst) z = None \<and>
     sh_runCtx (cl_shards c dst) \<and> \<not> sh_closed (cl_shards c dst) \<and> sh_leaseStop (cl_shards c dst) z = None \<and>
     \<not> isLocalZone z (cl_shards c dst) \<and>
     length (hk_sign (sh_keys (cl_shards c src))) = PrivateKeySize \<and>
     (\<exists>pub. hk_verify (sh_keys (cl_shards c dst)) = Some pub \<and>
        (\<forall>m. well_signed (cr_verify cr) pub m (cr_sign cr (hk_sign (sh_keys (cl_shards c src))) m))) \<and>
     (\<exists>lc. he_content env = Some lc \<and> zc_builds lc z) \<and> he_peer_mid env = id \<and>
     he_dial env \<and> he_read env = Served \<and> he_rpc env = Served \<and> he_peer_read env = Served \<and>
     (\<exists>ex g. cl_dir c z = \<lparr>z_owner = Some src, z_expires = Some ex, z_gen = Some g\<rparr> \<and> 0 < g \<and>
             he_now env < ex \<and> he_flip_at env < ex) \<and> he_now env \<le> he_flip_at env"

text \<open>What the target becomes when it adopts.\<close>

definition adopter :: "handover_env \<Rightarrow> zone_id \<Rightarrow> zone_shard \<Rightarrow> zone_shard" where
  "adopter env z s = snd (HostZone (he_content env) id (he_now env) z s)"

lemma ready_adopts:
  assumes "ready cr env z src dst c" and "z_gen (cl_dir c z) = Some g"
  shows "adopt_rpc cr env (adopt_request cr (hk_sign (sh_keys (cl_shards c src))) z src dst g) dst c =
    (Inr (Inr True), c\<lparr>cl_shards := (cl_shards c)(dst := adopter env z (cl_shards c dst))\<rparr>)"
proof -
  let ?req = "adopt_request cr (hk_sign (sh_keys (cl_shards c src))) z src dst g"
  have req: "az_zone ?req = z" "az_from ?req = src" "az_to ?req = dst" "az_gen ?req = g"
    "az_sig ?req = cr_sign cr (hk_sign (sh_keys (cl_shards c src))) (adoptZoneSigningInput (cr_hash cr) ?req)"
    using assms(1)
    by (simp_all add: adopt_request_def Let_def ready_def signAdoptZone_def sign_with_def adoptZoneSigningInput_def adopt_fields_def)
  obtain pub where pub: "hk_verify (sh_keys (cl_shards c dst)) = Some pub"
    "\<And>m. well_signed (cr_verify cr) pub m (cr_sign cr (hk_sign (sh_keys (cl_shards c src))) m)"
    using assms(1) by (auto simp: ready_def)
  obtain ex where rec: "cl_dir c z = \<lparr>z_owner = Some src, z_expires = Some ex, z_gen = Some g\<rparr>" "0 < g" "he_now env < ex"
    using assms by (auto simp: ready_def)
  obtain lc where lc: "he_content env = Some lc" "zc_builds lc z" using assms(1) by (auto simp: ready_def)
  have sig: "verifyAdoptZoneSig (cr_hash cr) (cr_verify cr) pub ?req dst = None"
    using pub(2) req assms(1) by (simp add: verifyAdoptZoneSig_def ready_def)
  have lease: "ZoneLease Served (he_now env) z (cl_dir c) = Inr (src, g)"
    using rec by (simp add: ZoneLease_def zoneLease_def)
  have fence: "verifyAdoptZoneLease ?req src g = None" using req rec(2) assms(1) by (simp add: verifyAdoptZoneLease_def ready_def)
  obtain n s' where host: "HostZone (Some lc) id (he_now env) z (cl_shards c dst) = (Inr n, s')"
    using assms(1) lc by (auto simp: ready_def HostZone_def Let_def split_beta)
  have "AdoptZone cr (he_content env) (he_peer_mid env) (he_peer_read env) (he_now env) ?req (cl_dir c) (cl_shards c dst) =
        (Inr True, adopter env z (cl_shards c dst))"
    using assms(1) req pub(1) sig lease fence lc host by (simp add: AdoptZone_def Let_def ready_def adopter_def)
  then show ?thesis using assms(1) by (simp add: adopt_rpc_def ready_def)
qed

lemma ready_handover:
  assumes "ready cr env z src dst c"
  defines "c2 \<equiv> upd_shard src (markZoneHandedOff z) (c\<lparr>cl_shards := (cl_shards c)(dst := adopter env z (cl_shards c dst))\<rparr>)"
  shows "handoverZoneTo cr env z src dst c =
     (let (ok, d') = HandoverZone (he_flip env) (he_flip_at env) z src dst (fst (leaseParams (cl_shards c src))) (cl_dir c)
      in (case ok of Inl e \<Rightarrow> Inl (HO_Flip e) | Inr False \<Rightarrow> Inl HO_Flip_Refused | Inr True \<Rightarrow> Inr (), c2\<lparr>cl_dir := d'\<rparr>))"
proof -
  obtain ex g where rec: "cl_dir c z = \<lparr>z_owner = Some src, z_expires = Some ex, z_gen = Some g\<rparr>" "he_now env < ex"
    using assms(1) by (auto simp: ready_def)
  then have g: "z_gen (cl_dir c z) = Some g" by simp
  have lease: "ZoneLease Served (he_now env) z (cl_dir c) = Inr (src, g)"
    using rec by (simp add: ZoneLease_def zoneLease_def)
  have dir: "cl_dir c2 = cl_dir c" by (simp add: c2_def upd_shard_def)
  show ?thesis
    using assms(1) lease ready_adopts [OF assms(1) g] dir
    by (auto simp: handoverZoneTo_def ready_def Let_def split_beta c2_def split: sum.splits bool.splits)
qed

lemma mark_fields:
  "sh_zones (markZoneHandedOff z s) = sh_zones s" "zoneHandedOff z (markZoneHandedOff z s)"
  "sh_fenced (markZoneHandedOff z s) = sh_fenced s" "sh_id (markZoneHandedOff z s) = sh_id s"
  "sh_home (markZoneHandedOff z s) = sh_home s" "sh_localZones (markZoneHandedOff z s) = sh_localZones s"
  "sh_leasing (markZoneHandedOff z s) = sh_leasing s" "sh_leaseStop (markZoneHandedOff z s) = (sh_leaseStop s)(z := None)"
  by (simp_all add: markZoneHandedOff_def cancel_renewer_def upd_renewer_def zoneHandedOff_def split: option.splits)

lemma marked_has_no_renewer:
  assumes "hosting_wf s" and "sh_zones s z \<noteq> None"
  shows "\<not> live_renewer (markZoneHandedOff z s) i z"
  using live_renewer_registered [OF wf_mark [OF assms], of i z] mark_fields(8) [of z s] by auto

text \<open>A renewal goroutine of a zone that was handed off returns at its next tick and never fences.\<close>

lemma handed_off_tick:
  assumes "zoneHandedOff (rn_zone (sh_renewers s ! i)) s"
  shows "renew_tick net mid unet umid stops now i (s, d) = (RN_Handed_Off, finish_renewer i s, d)"
  using assms by (simp add: renew_tick_def Let_def)

lemma adopter_shard:
  assumes "ready cr env z src dst c"
  shows "live_renewer (adopter env z (cl_shards c dst)) (length (sh_renewers (cl_shards c dst))) z"
    and "sh_zones (adopter env z (cl_shards c dst)) z \<noteq> None"
    and "sh_id (adopter env z (cl_shards c dst)) = dst"
    and "\<not> rn_confirmed (sh_renewers (adopter env z (cl_shards c dst)) ! length (sh_renewers (cl_shards c dst)))"
    and "\<not> zoneHandedOff z (adopter env z (cl_shards c dst))"
    and "rn_since (sh_renewers (adopter env z (cl_shards c dst)) ! length (sh_renewers (cl_shards c dst))) = he_now env"
proof -
  obtain lc where lc: "he_content env = Some lc" "zc_builds lc z" using assms by (auto simp: ready_def)
  have h: "hosting_wf (cl_shards c dst)" "sh_zones (cl_shards c dst) z = None" "sh_runCtx (cl_shards c dst)"
    "\<not> sh_closed (cl_shards c dst)" "sh_leasing (cl_shards c dst)" "\<not> isLocalZone z (cl_shards c dst)"
    "sh_leaseStop (cl_shards c dst) z = None" "sh_id (cl_shards c dst) = dst"
    using assms by (simp_all add: ready_def)
  note a = adopted_shard [OF h(1,2,3,4) lc(2) h(5,6,7), of "he_now env"]
  have nh: "z \<notin> sh_handedOff (cl_shards c dst)" using h(1,2) unfolding hosting_wf_def by blast
  show "live_renewer (adopter env z (cl_shards c dst)) (length (sh_renewers (cl_shards c dst))) z"
    "sh_zones (adopter env z (cl_shards c dst)) z \<noteq> None" "sh_id (adopter env z (cl_shards c dst)) = dst"
    "\<not> rn_confirmed (sh_renewers (adopter env z (cl_shards c dst)) ! length (sh_renewers (cl_shards c dst)))"
    "\<not> zoneHandedOff z (adopter env z (cl_shards c dst))"
    "rn_since (sh_renewers (adopter env z (cl_shards c dst)) ! length (sh_renewers (cl_shards c dst))) = he_now env"
    using a nh h(8) by (simp_all add: adopter_def lc(1) live_renewer_def zoneHandedOff_def)
qed

lemma tick_of_owner:
  assumes "live_renewer s i z" and "\<not> zoneHandedOff z s" and "\<not> held_by_other (sh_id s) t (z_owner (d z)) (z_expires (d z))"
  shows "fst (renew_tick Served id unet umid stops t i (s, d)) = RN_Renewed \<and>
         zoneOwner t (snd (snd (renew_tick Served id unet umid stops t i (s, d))) z) =
           (if 0 < fst (leaseParams s) then sh_id s else '''') \<and>
         sh_zones (fst (snd (renew_tick Served id unet umid stops t i (s, d)))) = sh_zones s"
  using assms
  by (auto simp: renew_tick_def Let_def live_renewer_def ClaimZone_def on_key_def claimZone_def zoneOwner_def upd_renewer_def)

lemma leaseParams_pos: "0 < fst (leaseParams s)"
  by (simp add: leaseParams_def DefaultZoneLease_def Let_def)

section \<open>The flip lands\<close>

text \<open>
  C13. A handover moves the zone. Between two sound shards with a working link, \<open>handoverZoneTo\<close> succeeds;
  the directory then names the target for a full lease at the next generation, with no instant in between
  when it names nobody; the source has no goroutine renewing the zone and was not fenced; the target hosts it
  with a live renewal whose next tick confirms the lease; and the source's copy, once empty, can be torn down.
\<close>

theorem handover_moves_the_zone:
  assumes "ready cr env z src dst c" and "he_flip env = Served" and "handoverZoneTo cr env z src dst c = (r, c')"
    and "he_flip_at env \<le> t" and "t < he_flip_at env + fst (leaseParams (cl_shards c src))"
  shows "r = Inr () \<and> zoneOwner t (cl_dir c' z) = dst \<and> z_gen (cl_dir c' z) = hincr (z_gen (cl_dir c z)) \<and>
         (\<forall>i. \<not> live_renewer (cl_shards c' src) i z) \<and>
         sh_fenced (cl_shards c' src) = sh_fenced (cl_shards c src) \<and>
         (\<exists>i. live_renewer (cl_shards c' dst) i z \<and>
              fst (renew_tick Served id unet umid stops t i (cl_shards c' dst, cl_dir c')) = RN_Renewed) \<and>
         sh_zones (cl_shards c' dst) z \<noteq> None \<and>
         (\<forall>o'. sh_zones (cl_shards c src) z = Some o' \<and> zone_quiescent o' \<and> \<not> isLocalZone z (cl_shards c src) \<and>
               z \<noteq> sh_home (cl_shards c src) \<longrightarrow>
               sh_zones (snd (UnhostZone Served t id True z (cl_dir c') (cl_shards c' src))) z = None)"
proof -
  obtain ex g where rec: "cl_dir c z = \<lparr>z_owner = Some src, z_expires = Some ex, z_gen = Some g\<rparr>" "he_flip_at env < ex"
    using assms(1) by (auto simp: ready_def)
  let ?ttl = "fst (leaseParams (cl_shards c src))" and ?a = "adopter env z (cl_shards c dst)"
  let ?m = "markZoneHandedOff z (cl_shards c src)"
  have d: "src \<noteq> dst" "hosting_wf (cl_shards c src)" "sh_zones (cl_shards c src) z \<noteq> None" "sh_id (cl_shards c src) = src"
    "src \<noteq> ''''" "dst \<noteq> ''''" using assms(1) by (simp_all add: ready_def)
  have flip: "handoverZone src dst ?ttl (he_flip_at env) (cl_dir c z) =
      (1, \<lparr>z_owner = Some dst, z_expires = Some (he_flip_at env + ?ttl), z_gen = Some (g + 1)\<rparr>)"
    using rec d(1) by (simp add: handoverZone_def hincr_def)
  have c': "r = Inr ()" "cl_shards c' src = ?m" "cl_shards c' dst = ?a"
    "cl_dir c' z = \<lparr>z_owner = Some dst, z_expires = Some (he_flip_at env + ?ttl), z_gen = Some (g + 1)\<rparr>"
    using assms(2,3) d(1) flip unfolding ready_handover [OF assms(1)]
    by (auto simp: HandoverZone_def on_key_def upd_shard_def)
  have owner: "zoneOwner t (cl_dir c' z) = dst" using c'(4) assms(5) by (simp add: zoneOwner_def)
  note a = adopter_shard [OF assms(1)]
  have tick: "fst (renew_tick Served id unet umid stops t (length (sh_renewers (cl_shards c dst))) (?a, cl_dir c')) = RN_Renewed"
    using tick_of_owner [OF a(1,5)] a(3) c'(4) by (simp add: held_by_other_def)
  have gone: "sh_zones (snd (UnhostZone Served t id True z (cl_dir c') ?m)) z = None"
    if "sh_zones (cl_shards c src) z = Some o'" "zone_quiescent o'" "\<not> isLocalZone z (cl_shards c src)" "z \<noteq> sh_home (cl_shards c src)" for o'
  proof -
    have "unhost_ownership Served t z (cl_dir c') ?m = None"
      using c'(4) assms(5) d by (simp add: unhost_ownership_def ZoneLease_def zoneLease_def mark_fields)
    then show ?thesis
      using that mark_fields [of z "cl_shards c src"] remove_zone_fields(1)
      by (simp add: UnhostZone_def isLocalZone_def Let_def)
  qed
  have none: "\<forall>i. \<not> live_renewer ?m i z" using marked_has_no_renewer [OF d(2,3)] by blast
  have gen: "z_gen (cl_dir c' z) = hincr (z_gen (cl_dir c z))" using c'(4) rec(1) by (simp add: hincr_def)
  show ?thesis unfolding c'(2,3)
    using c'(1) owner gen none mark_fields(3) a(1,2) tick gone by blast
qed

section \<open>The flip is lost\<close>

text \<open>
  C37. A lost flip splits the zone. When the target has adopted and the \<open>HandoverZone\<close> call then fails, the
  source returns an error with the directory unchanged, but it has already stopped renewing: no goroutine of
  the source renews the zone any more and nothing fences it, while it goes on hosting it with everybody in it.
  At the first tick of the target past the source's expiry the target is granted the lease, so two shards
  host the zone and the directory names the one without the players.
\<close>

theorem failed_flip_splits_the_zone:
  assumes "ready cr env z src dst c" and "he_flip env = Lost_Request e" and "handoverZoneTo cr env z src dst c = (r, c')"
    and "z_expires (cl_dir c z) = Some ex" and "ex \<le> t"
  shows "r = Inl (HO_Flip e) \<and> cl_dir c' = cl_dir c \<and>
         sh_zones (cl_shards c' src) z = sh_zones (cl_shards c src) z \<and> sh_zones (cl_shards c' src) z \<noteq> None \<and>
         sh_fenced (cl_shards c' src) = sh_fenced (cl_shards c src) \<and> (\<forall>i. \<not> live_renewer (cl_shards c' src) i z) \<and>
         (\<exists>i. live_renewer (cl_shards c' dst) i z \<and>
              (let (out, s', d') = renew_tick Served id unet umid stops t i (cl_shards c' dst, cl_dir c')
               in out = RN_Renewed \<and> zoneOwner t (d' z) = dst \<and> sh_zones s' z \<noteq> None))"
proof -
  let ?a = "adopter env z (cl_shards c dst)" and ?m = "markZoneHandedOff z (cl_shards c src)"
  have d: "src \<noteq> dst" "hosting_wf (cl_shards c src)" "sh_zones (cl_shards c src) z \<noteq> None"
    using assms(1) by (simp_all add: ready_def)
  have c': "r = Inl (HO_Flip e)" "cl_dir c' = cl_dir c" "cl_shards c' src = ?m" "cl_shards c' dst = ?a"
    using assms(2,3) d(1) unfolding ready_handover [OF assms(1)]
    by (auto simp: HandoverZone_def upd_shard_def)
  note a = adopter_shard [OF assms(1)]
  have lapsed: "\<not> held_by_other (sh_id ?a) t (z_owner (cl_dir c' z)) (z_expires (cl_dir c' z))"
    using assms(4,5) c'(2) by (simp add: held_by_other_iff)
  note tick = tick_of_owner [where d = "cl_dir c'", OF a(1,5) lapsed, where unet = unet and umid = umid and stops = stops]
  have none: "\<forall>i. \<not> live_renewer ?m i z" using marked_has_no_renewer [OF d(2,3)] by blast
  have src: "sh_zones ?m z = sh_zones (cl_shards c src) z" "sh_fenced ?m = sh_fenced (cl_shards c src)"
    by (simp_all add: mark_fields)
  have dst: "let (out, s', d') = renew_tick Served id unet umid stops t (length (sh_renewers (cl_shards c dst))) (?a, cl_dir c')
             in out = RN_Renewed \<and> zoneOwner t (d' z) = dst \<and> sh_zones s' z \<noteq> None"
    using tick a(2,3) leaseParams_pos [of ?a] by (simp add: Let_def split_beta)
  show ?thesis unfolding c'(3,4) using c'(1,2) src d(3) none a(1) dst by auto
qed

section \<open>A concrete cluster\<close>

definition demo_crypto :: crypto where
  "demo_crypto = \<lparr>cr_hash = id, cr_sign = (\<lambda>k m. replicate 64 CHR ''s''), cr_verify = (\<lambda>k m sig. True)\<rparr>"

definition demo_keys :: handoff_keys where
  "demo_keys = \<lparr>hk_sign = replicate 64 CHR ''k'', hk_verify = Some (replicate 32 CHR ''p''), hk_insecure = False\<rparr>"

definition demo_cluster :: cluster where
  "demo_cluster =
     \<lparr>cl_shards = (\<lambda>i. (if i = ''a'' then snd (HostZone (Some demo_content) id 5 ''darkwood'' (Run_start 0 [''town''] (demo_shard ''a'' ''town'')))
                       else Run_start 0 [''keep''] (demo_shard ''b'' ''keep''))\<lparr>sh_keys := demo_keys\<rparr>),
      cl_dir = (\<lambda>_. \<lparr>z_owner = Some ''a'', z_expires = Some 15000, z_gen = Some 3\<rparr>)\<rparr>"

definition demo_env :: "dir_error net \<Rightarrow> handover_env" where
  "demo_env flip = \<lparr>he_now = 6000, he_read = Served, he_dial = True, he_rpc = Served, he_content = Some demo_content,
     he_peer_mid = id, he_peer_read = Served, he_flip = flip, he_flip_at = 6100\<rparr>"

lemma wf_keys: "hosting_wf (s\<lparr>sh_keys := k\<rparr>) = hosting_wf s"
  by (rule wf_view) (simp add: hosting_view_def)

lemma demo_wf:
  "hosting_wf (Run_start 0 [home] (demo_shard me home))"
  "hosting_wf (snd (HostZone (Some demo_content) id 5 z (Run_start 0 [home] (demo_shard me home))))"
proof -
  show "hosting_wf (Run_start 0 [home] (demo_shard me home))"
    by (rule wf_boot) (auto simp: boot_shard_def demo_shard_def new_zone_def)
  then show "hosting_wf (snd (HostZone (Some demo_content) id 5 z (Run_start 0 [home] (demo_shard me home))))"
    by (rule wf_host) simp
qed

lemma demo_ready: "ready demo_crypto (demo_env flip) ''darkwood'' ''a'' ''b'' demo_cluster"
  unfolding ready_def
  by (simp add: demo_cluster_def demo_env_def wf_keys demo_wf isInstanceID_def)
    (simp add: hosting_demo_defs demo_keys_def demo_crypto_def PrivateKeySize_def well_signed_def PublicKeySize_def SignatureSize_def)

theorem handover_moves_the_zone_witness:
  "zoneOwner 20000 (cl_dir (snd (handoverZoneTo demo_crypto (demo_env Served) ''darkwood'' ''a'' ''b'' demo_cluster)) ''darkwood'') = ''b''"
proof -
  have p: "fst (leaseParams (cl_shards demo_cluster ''a'')) = 15000"
    by (simp add: leaseParams_def demo_cluster_def hosting_demo_defs DefaultZoneLease_def)
  have e: "he_flip (demo_env Served) = Served" "he_flip_at (demo_env Served) \<le> 20000"
    "20000 < he_flip_at (demo_env Served) + fst (leaseParams (cl_shards demo_cluster ''a''))"
    unfolding p by (simp_all add: demo_env_def)
  show ?thesis using handover_moves_the_zone [OF demo_ready e(1) prod.collapse [symmetric] e(2,3)] by blast
qed

theorem failed_flip_splits_the_zone_witness:
  "sh_zones (cl_shards (snd (handoverZoneTo demo_crypto (demo_env (Lost_Request (RedisErr ''timeout''))) ''darkwood'' ''a'' ''b'' demo_cluster)) ''a'') ''darkwood'' \<noteq> None"
proof -
  have e: "he_flip (demo_env (Lost_Request (RedisErr ''timeout''))) = Lost_Request (RedisErr ''timeout'')"
    "z_expires (cl_dir demo_cluster ''darkwood'') = Some 15000" "(15000::ms) \<le> 15000"
    by (simp_all add: demo_env_def demo_cluster_def)
  show ?thesis using failed_flip_splits_the_zone [OF demo_ready e(1) prod.collapse [symmetric] e(2,3)] by blast
qed

section \<open>The request is dead\<close>

text \<open>The history in which a flip lands: the generation the request was signed at is superseded.\<close>

lemma flip_supersedes:
  assumes "zone_step\<^sup>*\<^sup>* zone_init s0" and "z_gen (zs_rec s0) = Some g" and "zs_last s0 < zs_now s0"
    and "handoverZone src dst ttl (zs_now s0) (zs_rec s0) = (1, z')"
  shows "zone_step s0 (issue s0 z')" and "g \<in> set (tl (zs_issued (issue s0 z')))"
proof -
  have z': "z' = snd (zone_apply (zs_now s0) (ZHandover src dst ttl) (zs_rec s0))" using assms(4) by simp
  show "zone_step s0 (issue s0 z')" using zone_step.act [OF z'] assms(3) by blast
  have "z_gen z' = Some (g + 1)" using assms(2,4) by (auto simp: handoverZone_def hincr_def split: if_splits)
  moreover have "zs_issued s0 \<noteq> []" "hd (zs_issued s0) = g"
    using gen_inv_reachable [OF assms(1)] assms(2) by (auto simp: gen_inv_def)
  ultimately show "g \<in> set (tl (zs_issued (issue s0 z')))"
    using assms(2) by (cases "zs_issued s0") (auto simp: issue_def)
qed

text \<open>
  C14. An adoption is good for one handover. Once the flip it authorised has landed, a request signed at the
  old generation is refused by every shard that checks signatures, for ever: in every later state of the
  zone's record, losses of the key included, whatever the signature and the signing key, and nothing on the
  shard changes.
\<close>

theorem adoption_is_single_use:
  assumes "zone_step\<^sup>*\<^sup>* zone_init s0" and "z_gen (zs_rec s0) = Some (az_gen req)" and "zs_last s0 < zs_now s0"
    and "handoverZone src dst ttl (zs_now s0) (zs_rec s0) = (1, z')"
    and "zone_step\<^sup>*\<^sup>* (issue s0 z') s1" and "d (az_zone req) = zs_rec s1"
    and "hk_verify (sh_keys s) = Some pub"
  shows "\<exists>e. AdoptZone cr content mid net now req d s = (Inl e, s)"
proof -
  note sup = flip_supersedes [OF assms(1-4)]
  have "zone_step\<^sup>*\<^sup>* zone_init (issue s0 z')" using assms(1) sup(1) by (rule rtranclp.rtrancl_into_rtrancl)
  from superseded_generation_gone [OF this assms(5) sup(2)]
  have "z_gen (d (az_zone req)) \<noteq> Some (az_gen req)" using assms(6) by simp
  then have stale: "verifyAdoptZoneLease req w (snd (zoneLease now (d (az_zone req)))) \<noteq> None" for w
    by (cases "z_gen (d (az_zone req))") (auto simp: verifyAdoptZoneLease_def zoneLease_def)
  obtain w g where l: "zoneLease now (d (az_zone req)) = (w, g)" by (cases "zoneLease now (d (az_zone req))")
  with stale have "verifyAdoptZoneLease req w g \<noteq> None" by simp
  then show ?thesis
    using assms(7) l by (cases net) (auto simp: AdoptZone_def Let_def ZoneLease_def)
qed

theorem adoption_is_single_use_witness:
  "\<exists>e. AdoptZone demo_crypto (Some demo_content) id Served 12 (adopt_request demo_crypto (hk_sign demo_keys) ''darkwood'' ''a'' ''b'' 8)
         (\<lambda>_. \<lparr>z_owner = Some ''b'', z_expires = Some 19, z_gen = Some 9\<rparr>) (cl_shards demo_cluster ''b'') = (Inl e, cl_shards demo_cluster ''b'')"
proof -
  let ?req = "adopt_request demo_crypto (hk_sign demo_keys) ''darkwood'' ''a'' ''b'' 8"
  define s1 where "s1 = zone_init\<lparr>zs_now := 7\<rparr>"
  define s2 where "s2 = issue s1 (snd (zone_apply 7 (ZClaim ''a'' 10) (zs_rec s1)))"
  define s3 where "s3 = s2\<lparr>zs_now := 9\<rparr>"
  note ev = zone_init_def no_zone_def claimZone_def held_by_other_def hincr_def issue_def handoverZone_def s1_def s2_def s3_def
  have "zone_step zone_init s1" unfolding s1_def by (rule zone_step.tick) (simp add: zone_init_def)
  moreover have "zone_step s1 s2"
    unfolding s2_def by (rule zone_step.act [where e = "ZClaim ''a'' 10"]) (simp_all add: ev)
  moreover have "zone_step s2 s3" unfolding s3_def by (rule zone_step.tick) (simp add: ev)
  ultimately have r: "zone_step\<^sup>*\<^sup>* zone_init s3" by (metis rtranclp.simps)
  have q: "az_gen ?req = 8" "az_zone ?req = ''darkwood''" by (simp_all add: adopt_request_def Let_def)
  have h: "z_gen (zs_rec s3) = Some (az_gen ?req)" "zs_last s3 < zs_now s3"
    "handoverZone ''a'' ''b'' 10 (zs_now s3) (zs_rec s3) = (1, \<lparr>z_owner = Some ''b'', z_expires = Some 19, z_gen = Some 9\<rparr>)"
    by (simp_all add: ev q)
  have k: "hk_verify (sh_keys (cl_shards demo_cluster ''b'')) = Some (replicate 32 CHR ''p'')"
    by (simp add: demo_cluster_def demo_keys_def)
  have d: "zs_rec (issue s3 \<lparr>z_owner = Some ''b'', z_expires = Some 19, z_gen = Some 9\<rparr>) = \<lparr>z_owner = Some ''b'', z_expires = Some 19, z_gen = Some 9\<rparr>"
    by (simp add: ev)
  show ?thesis
    by (rule adoption_is_single_use [OF r h rtranclp.rtrancl_refl _ k]) (simp only: d)
qed

end
