(* ===== verification/Player_Handoff.thy ===== *)
theory Player_Handoff
  imports Handoff_Sig Directory_Players Textsan
begin

text \<open>
  One player's session in a zone, and its handoff to a zone of another shard: the handlers of
  \<^verbatim>\<open>internal/world/zone.go\<close> and \<^verbatim>\<open>drain.go\<close> that move a session through freezing, pending, binding,
  link death and teardown, and the coordinator \<open>beginHandoff\<close> of \<^verbatim>\<open>world.go\<close>. A handler takes the zone's
  entry for the player and answers the new entry and what it sends, starts or queues.
\<close>

section \<open>Sessions\<close>

record psess =
  ps_epoch :: nat
  ps_pending :: bool
  ps_frozen :: bool
  ps_handedOff :: bool
  ps_detached :: bool
  ps_streamGone :: bool
  ps_quitting :: bool
  ps_token :: string
  ps_attachGen :: nat
  ps_applied :: nat
  ps_frozenFrom :: "string option"
  ps_room :: "string option"
  ps_placed :: bool
  ps_out :: "nat option"
  ps_drops :: nat
  ps_nonce :: nat
  ps_name :: string
  ps_tier :: string
  ps_account :: string
  ps_pid :: "string option"
  ps_version :: nat
  ps_comms :: string
  ps_aliases :: string
  ps_state :: string
  ps_notice :: string

text \<open>What a handler emits. Saves carry the epoch they are fenced by.\<close>

datatype zeffect =
    E_Text string
  | E_Attached
  | E_Redirect string string
  | E_Disconnect "nat option" string
  | E_Kick nat
  | E_Arrive
  | E_Depart
  | E_Look
  | E_Disengage
  | E_Index_Token string
  | E_Drop_Token string
  | E_Presence_Join
  | E_Presence_Leave
  | E_Start_Tell
  | E_Stop_Tell
  | E_Register nat nat
  | E_Clear_Placement nat nat
  | E_Save_Flush nat
  | E_Save_Final nat
  | E_Stash
  | E_Break_Concentration
  | E_Drop_Script
  | E_Resolve_Pid
  | E_Release_Claim string
  | E_Forward
  | E_Reply "rpc_status option"
  | E_Freeze_Timer nat
  | E_Pending_Timer nat
  | E_Reap_Timer nat
  | E_Begin PlayerSnapshot nat

text \<open>The zone around the session: its rooms, the audit of a carried inventory (missing prototypes, item
  nodes; none for a malformed carry) and what the nesting cap cuts off it.\<close>

record zone_world =
  zw_rooms :: "string list"
  zw_start :: string
  zw_audit :: "string \<Rightarrow> (nat \<times> nat) option"
  zw_truncated :: "string \<Rightarrow> nat"
  zw_print :: "nat \<Rightarrow> bool"

definition resolveRoom :: "zone_world \<Rightarrow> string \<Rightarrow> string option" where
  "resolveRoom w r =
     (if r \<in> set (zw_rooms w) then Some r
      else if zw_start w \<in> set (zw_rooms w) then Some (zw_start w) else None)"

definition slowClientWedgedDrops :: nat where "slowClientWedgedDrops = 256"
definition maxCarryItemNodes :: nat where "maxCarryItemNodes = 512"
definition maxCarryStateBytes :: nat where "maxCarryStateBytes = 256 * 1024"
definition maxPlayerNameRunes :: int where "maxPlayerNameRunes = 20"
definition freezeTTL :: nat where "freezeTTL = 60000"
definition handoffRPCTimeout :: nat where "handoffRPCTimeout = 5000"

section \<open>Leaving: the source side\<close>

definition buildSnapshot :: "player_id \<Rightarrow> psess \<Rightarrow> PlayerSnapshot" where
  "buildSnapshot character s =
     \<lparr>sn_character = character, sn_name = ps_name s,
      sn_persist = (case ps_pid s of Some p \<Rightarrow> p | None \<Rightarrow> ''''),
      sn_version = ps_version s, sn_applied = ps_applied s, sn_comms = ps_comms s, sn_state = ps_state s,
      sn_tier = ps_tier s, sn_account = ps_account s, sn_aliases = ps_aliases s\<rparr>"

definition z_initiateHandoff :: "player_id \<Rightarrow> bool \<Rightarrow> psess \<Rightarrow> psess \<times> zeffect list" where
  "z_initiateHandoff character announce s =
     (let s1 = s\<lparr>ps_frozen := True, ps_frozenFrom := ps_room s, ps_handedOff := False, ps_room := None, ps_placed := False\<rparr>
      in (s1, [E_Disengage] @ (if announce then [E_Depart] else []) @
              [E_Freeze_Timer (ps_attachGen s), E_Begin (buildSnapshot character s1) (ps_epoch s)]))"

definition isGateWedged :: "psess \<Rightarrow> bool" where
  "isGateWedged s \<longleftrightarrow> ps_drops s \<ge> slowClientWedgedDrops"

definition drainPlayer :: "player_id \<Rightarrow> psess option \<Rightarrow> psess option \<times> zeffect list" where
  "drainPlayer character p =
     (case p of
        None \<Rightarrow> (None, [])
      | Some s \<Rightarrow>
          if ps_frozen s \<or> ps_pending s \<or> ps_detached s then (p, [])
          else if isGateWedged s then (p, [])
          else if ps_room s = None then (p, [])
          else (let (s', es) = z_initiateHandoff character False s in (Some s', es)))"

definition z_markHandedOff :: "psess option \<Rightarrow> psess option \<times> zeffect list" where
  "z_markHandedOff p =
     (case p of
        None \<Rightarrow> (None, [])
      | Some s \<Rightarrow> (Some (s\<lparr>ps_handedOff := True, ps_frozenFrom := None\<rparr>), [E_Stop_Tell]))"

definition drop_token :: "psess \<Rightarrow> zeffect list" where
  "drop_token s = (if ps_token s \<noteq> '''' then [E_Drop_Token (ps_token s)] else [])"

definition reapHandedOffOrphan :: "psess \<Rightarrow> psess option \<times> zeffect list" where
  "reapHandedOffOrphan s = (None, drop_token s @ [E_Presence_Leave, E_Stop_Tell])"

definition z_redirect :: "bool \<Rightarrow> string \<Rightarrow> string \<Rightarrow> nat \<Rightarrow> psess option \<Rightarrow> psess option \<times> zeffect list" where
  "z_redirect draining addr token epoch p =
     (case p of
        None \<Rightarrow> (None, [])
      | Some s \<Rightarrow>
          let s1 = s\<lparr>ps_epoch := epoch\<rparr> in
          if ps_handedOff s1 \<and> draining
          then (let (q, es) = reapHandedOffOrphan s1 in (q, E_Redirect addr token # es))
          else (Some s1, [E_Redirect addr token]))"

definition enterLinkDeath :: "psess \<Rightarrow> psess \<times> zeffect list" where
  "enterLinkDeath s =
     (if ps_detached s then (s, [])
      else (s\<lparr>ps_detached := True\<rparr>,
            (if ps_pid s = None then [] else [E_Save_Flush (ps_epoch s)]) @ [E_Reap_Timer (ps_attachGen s)]))"

definition linkDeathAfterThaw :: "psess \<Rightarrow> psess \<times> zeffect list" where
  "linkDeathAfterThaw s = (if \<not> ps_streamGone s then (s, []) else enterLinkDeath s)"

text \<open>The common end of \<open>freezeExpire\<close> and \<open>handoffFailed\<close>: back into the room it tried to leave.\<close>

definition restore_from :: "psess \<Rightarrow> psess \<times> zeffect list" where
  "restore_from s =
     (case ps_frozenFrom s of
        None \<Rightarrow> (s, [E_Disengage])
      | Some r \<Rightarrow> (s\<lparr>ps_room := Some r, ps_placed := True, ps_frozenFrom := None\<rparr>, [E_Disengage, E_Arrive]))"

definition thaw_session :: "string \<Rightarrow> psess \<Rightarrow> psess \<times> zeffect list" where
  "thaw_session reason s =
     (let (s1, es) = restore_from s; (s2, fs) = linkDeathAfterThaw s1
      in (s2, es @ [E_Text (''The way is barred. ('' @ reason @ '')'')] @ fs))"

definition freezeExpire :: "nat \<Rightarrow> psess option \<Rightarrow> psess option \<times> zeffect list" where
  "freezeExpire gen p =
     (case p of
        None \<Rightarrow> (None, [])
      | Some s \<Rightarrow>
          if \<not> ps_frozen s \<or> ps_attachGen s \<noteq> gen then (p, [])
          else if ps_handedOff s then reapHandedOffOrphan s
          else (let (s', es) = thaw_session ''handoff timed out'' (s\<lparr>ps_frozen := False\<rparr>) in (Some s', es)))"

definition z_handoffFailed :: "string \<Rightarrow> nat \<Rightarrow> psess option \<Rightarrow> psess option \<times> zeffect list" where
  "z_handoffFailed reason adoptEpoch p =
     (case p of
        None \<Rightarrow> (None, [])
      | Some s \<Rightarrow>
          let s1 = s\<lparr>ps_frozen := False\<rparr>;
              (s2, es) = (if adoptEpoch > ps_epoch s1
                          then (s1\<lparr>ps_epoch := adoptEpoch\<rparr>, [E_Register adoptEpoch (ps_nonce s1)]) else (s1, []));
              (s3, fs) = thaw_session reason s2
          in (Some s3, es @ fs))"

definition leave :: "bool \<Rightarrow> psess option \<Rightarrow> psess option \<times> zeffect list" where
  "leave saving p =
     (case p of
        None \<Rightarrow> (None, [E_Forward])
      | Some s \<Rightarrow>
          (None,
           (if \<not> saving then [] else if ps_pid s = None then [E_Stash] else [E_Save_Final (ps_epoch s)]) @
           [E_Break_Concentration] @ (if ps_room s \<noteq> None then [E_Depart] else []) @
           [E_Drop_Script, E_Presence_Leave, E_Stop_Tell]))"

definition z_detach :: "bool \<Rightarrow> nat \<Rightarrow> psess option \<Rightarrow> psess option \<times> zeffect list" where
  "z_detach saving out p =
     (case p of
        None \<Rightarrow> (None, [E_Forward])
      | Some s \<Rightarrow>
          if ps_out s \<noteq> Some out then (p, [])
          else if ps_frozen s then (Some (s\<lparr>ps_streamGone := True\<rparr>), [])
          else if ps_quitting s then
            (let (q, es) = leave saving p in (q, E_Clear_Placement (ps_epoch s) (ps_nonce s) # es))
          else (let (s', es) = enterLinkDeath s in (Some s', es)))"

definition reap :: "bool \<Rightarrow> nat \<Rightarrow> psess option \<Rightarrow> psess option \<times> zeffect list" where
  "reap saving gen p =
     (case p of
        None \<Rightarrow> (None, [])
      | Some s \<Rightarrow> if ps_detached s \<and> ps_attachGen s = gen then leave saving p else (p, []))"

section \<open>Arriving: the destination side\<close>

record prepare_msg =
  pm_snap :: PlayerSnapshot
  pm_room :: string
  pm_epoch :: nat
  pm_token :: string

text \<open>The carry caps of \<open>Prepare\<close>: true when the zone refuses the carried state.\<close>

definition carry_refused :: "zone_world \<Rightarrow> string \<Rightarrow> bool" where
  "carry_refused w raw \<longleftrightarrow>
     raw \<noteq> '''' \<and>
     (length raw > maxCarryStateBytes \<or>
      (case zw_audit w raw of
         None \<Rightarrow> False
       | Some (missing, nodes) \<Rightarrow> missing > 0 \<or> nodes > maxCarryItemNodes))"

definition pending_session :: "zone_world \<Rightarrow> prepare_msg \<Rightarrow> nat \<Rightarrow> string \<Rightarrow> psess" where
  "pending_session w m nonce r =
     (let sn = pm_snap m; raw = sn_state sn; good = raw \<noteq> '''' \<and> zw_audit w raw \<noteq> None in
      \<lparr>ps_epoch = pm_epoch m, ps_pending = True, ps_frozen = False, ps_handedOff = False, ps_detached = False,
       ps_streamGone = False, ps_quitting = False, ps_token = pm_token m, ps_attachGen = 0, ps_applied = sn_applied sn,
       ps_frozenFrom = None, ps_room = Some r, ps_placed = False, ps_out = None, ps_drops = 0, ps_nonce = nonce,
       ps_name = CleanName (zw_print w) (sn_name sn) maxPlayerNameRunes,
       ps_tier = sn_tier sn, ps_account = sn_account sn,
       ps_pid = (if sn_persist sn = '''' then None else Some (sn_persist sn)), ps_version = sn_version sn,
       ps_comms = sn_comms sn, ps_aliases = sn_aliases sn, ps_state = (if good then raw else ''''),
       ps_notice = (if good \<and> zw_truncated w raw > 0 then ''Some of your items did not transfer to this area.'' else '''')\<rparr>)"

definition z_prepare :: "zone_world \<Rightarrow> prepare_msg \<Rightarrow> nat \<Rightarrow> psess option \<Rightarrow> psess option \<times> zeffect list" where
  "z_prepare w m nonce p =
     (let refuse = (\<lambda>q e. (q, [E_Reply (Some e), E_Release_Claim ''prepare'']));
          place = (\<lambda>q. case resolveRoom w (pm_room m) of
             None \<Rightarrow> refuse q FailedPrecondition
           | Some r \<Rightarrow>
               if carry_refused w (sn_state (pm_snap m)) then refuse q FailedPrecondition
               else (let s = pending_session w m nonce r
                     in (Some s, [E_Index_Token (pm_token m), E_Pending_Timer (ps_attachGen s), E_Reply None,
                                  E_Release_Claim ''prepare''])))
      in case p of
           None \<Rightarrow> place None
         | Some s \<Rightarrow>
             if ps_pending s \<and> ps_token s = pm_token m then (p, [E_Reply None, E_Release_Claim ''prepare''])
             else if pm_epoch m \<le> ps_epoch s then refuse p FailedPrecondition
             else if ps_frozen s then place None
             else refuse p AlreadyExists)"

definition abortPending :: "string \<Rightarrow> psess option \<Rightarrow> psess option \<times> zeffect list" where
  "abortPending token p =
     (case p of
        None \<Rightarrow> (None, [])
      | Some s \<Rightarrow> if ps_pending s \<and> ps_token s = token then (None, [E_Drop_Token token]) else (p, []))"

definition pendingExpire :: "nat \<Rightarrow> psess option \<Rightarrow> psess option \<times> zeffect list" where
  "pendingExpire gen p =
     (case p of
        None \<Rightarrow> (None, [])
      | Some s \<Rightarrow>
          if ps_pending s \<and> ps_attachGen s = gen then (None, [E_Drop_Token (ps_token s)]) else (p, []))"

section \<open>Attaching a stream\<close>

text \<open>
  The attach message; \<open>am_login\<close> is the room \<open>loginRoom\<close> answers for a fresh login, with the durable id of
  the loaded row, and \<open>am_nonce\<close> the fresh session nonce.
\<close>

record attach_msg =
  am_token :: string
  am_out :: nat
  am_resumeEpoch :: nat
  am_inputSeq :: nat
  am_account :: string
  am_tier :: string
  am_login :: string
  am_pid :: "string option"
  am_nonce :: nat
  am_name :: string

text \<open>The residency index as \<open>residencyFor\<close> answers it: is the character resident in another zone of this
  shard, and is it in flight.\<close>

definition attach_bind :: "zone_world \<Rightarrow> attach_msg \<Rightarrow> psess \<Rightarrow> psess \<times> zeffect list" where
  "attach_bind w m s =
     (let r = (case ps_room s of Some q \<Rightarrow> resolveRoom w q | None \<Rightarrow> resolveRoom w '''');
          s1 = s\<lparr>ps_out := Some (am_out m), ps_pending := False, ps_frozen := False, ps_attachGen := ps_attachGen s + 1\<rparr>;
          s2 = (case r of Some q \<Rightarrow> s1\<lparr>ps_room := Some q, ps_placed := True\<rparr> | None \<Rightarrow> s1)
      in (s2\<lparr>ps_notice := ''''\<rparr>,
          [E_Drop_Token (ps_token s), E_Attached] @ (if r \<noteq> None then [E_Arrive] else []) @ [E_Look] @
          (if ps_notice s \<noteq> '''' then [E_Text (ps_notice s)] else []) @
          [E_Presence_Join, E_Register (ps_epoch s) (ps_nonce s), E_Start_Tell] @
          (if ps_pid s = None then [E_Resolve_Pid] else [])))"

definition attach_resume :: "attach_msg \<Rightarrow> psess \<Rightarrow> psess \<times> zeffect list" where
  "attach_resume m s =
     (let kick = (case ps_out s of Some old \<Rightarrow> (if \<not> ps_detached s \<and> old \<noteq> am_out m then [E_Kick old] else []) | None \<Rightarrow> []);
          applied = (if am_inputSeq m \<ge> 1 \<and> am_inputSeq m \<le> ps_applied s then am_inputSeq m - 1 else ps_applied s)
      in (s\<lparr>ps_applied := applied, ps_out := Some (am_out m),
            ps_account := (if am_account m \<noteq> '''' then am_account m else ps_account s),
            ps_detached := False, ps_epoch := max (ps_epoch s) (am_resumeEpoch m), ps_attachGen := ps_attachGen s + 1\<rparr>,
          kick @ [E_Attached, E_Look]))"

definition fresh_session :: "attach_msg \<Rightarrow> psess" where
  "fresh_session m =
     \<lparr>ps_epoch = (if am_resumeEpoch m < 1 then 1 else am_resumeEpoch m), ps_pending = False, ps_frozen = False,
      ps_handedOff = False, ps_detached = False, ps_streamGone = False, ps_quitting = False, ps_token = '''',
      ps_attachGen = 1, ps_applied = 0, ps_frozenFrom = None, ps_room = None, ps_placed = False,
      ps_out = Some (am_out m), ps_drops = 0, ps_nonce = am_nonce m, ps_name = am_name m, ps_tier = am_tier m,
      ps_account = am_account m, ps_pid = am_pid m, ps_version = 0, ps_comms = '''', ps_aliases = '''',
      ps_state = '''', ps_notice = ''''\<rparr>"

definition join :: "zone_world \<Rightarrow> string \<Rightarrow> psess \<Rightarrow> psess option \<times> zeffect list" where
  "join w room s =
     (case resolveRoom w room of
        None \<Rightarrow> (None, [E_Text ''This world has no rooms yet. There is nowhere to enter.'',
                        E_Disconnect (ps_out s) ''world has no content''])
      | Some r \<Rightarrow>
          (Some (s\<lparr>ps_room := Some r, ps_placed := True\<rparr>),
           [E_Arrive, E_Look, E_Presence_Join, E_Register (ps_epoch s) (ps_nonce s), E_Start_Tell]))"

definition z_attach :: "zone_world \<Rightarrow> bool \<Rightarrow> bool \<Rightarrow> attach_msg \<Rightarrow> psess option \<Rightarrow> psess option \<times> zeffect list" where
  "z_attach w elsewhere inFlight m p0 =
     (let (p, es0) = (case p0 of
            Some s \<Rightarrow> if ps_frozen s \<and> ps_handedOff s
                      then (None, drop_token s @ [E_Presence_Leave, E_Stop_Tell]) else (p0, [])
          | None \<Rightarrow> (p0, []));
          finish = (\<lambda>(q, es). (q, es0 @ es @ [E_Release_Claim ''attach'']));
          reject = (\<lambda>reason. finish (p, [E_Disconnect (Some (am_out m)) reason]))
      in if p = None \<and> am_token m = '''' \<and> (inFlight \<or> elsewhere) then reject ''character is mid-transfer''
         else case p of
           Some s \<Rightarrow>
             if ps_pending s then
               (if am_token m = '''' \<or> am_token m \<noteq> ps_token s then reject ''handoff token invalid''
                else (let (s', es) = attach_bind w m s in finish (Some s', es)))
             else if am_token m \<noteq> '''' then reject ''handoff token invalid''
             else if ps_frozen s then reject ''character is mid-transfer''
             else (let (s', es) = attach_resume m s in finish (Some s', es))
         | None \<Rightarrow>
             if am_token m \<noteq> '''' then reject ''handoff token invalid''
             else (let (q, es) = join w (am_login m) (fresh_session m) in finish (q, E_Attached # es)))"

section \<open>The coordinator\<close>

text \<open>
  \<open>beginHandoff\<close> as its network hops. \<open>co_new\<close> is \<open>newEpoch\<close> as \<open>fail\<close> would report it: zero until
  the mint has answered. The mint is \<open>ClaimCharacter\<close> on the durable row: it raises the row's owner
  epoch above itself and the snapshot's epoch.
\<close>

datatype co_phase = Co_Resolve | Co_Mint | Co_Prepare | Co_Claim

record coord =
  co_phase :: co_phase
  co_snap :: PlayerSnapshot
  co_epoch :: nat
  co_new :: nat
  co_start :: ms

datatype src_msg =
    M_Handed_Off
  | M_Redirect string string nat
  | M_Failed string nat
  | M_Freeze_Expire nat
  | M_Detach nat

definition mint_epoch :: "nat \<Rightarrow> nat \<Rightarrow> nat" where
  "mint_epoch floor row = max row floor + 1"

text \<open>
  The system around one player: the entries of the source and of the destination zone, the placement record,
  the owner epoch of the durable row, the inbox of the source zone, the coordinators in flight, the timers
  armed with their deadlines, the tokens the gate was sent and the placement registrations queued.
\<close>

record hsys =
  hs_now :: ms
  hs_src :: "psess option"
  hs_dst :: "psess option"
  hs_dir :: player_hash
  hs_row :: nat
  hs_inbox :: "src_msg list"
  hs_coords :: "coord list"
  hs_timers :: "(ms \<times> nat) list"
  hs_redirects :: "string list"
  hs_regs :: "(shard_id \<times> zone_id \<times> nat \<times> nat) list"

text \<open>The two ends of the move.\<close>

record route =
  ro_character :: player_id
  ro_src :: shard_id
  ro_srcZone :: zone_id
  ro_dst :: shard_id
  ro_dstZone :: zone_id
  ro_dstRoom :: string
  ro_addr :: string
  ro_token :: "nat \<Rightarrow> string"
  ro_world :: zone_world
  ro_durable :: bool

text \<open>What the effects of a handler start or queue.\<close>

fun absorb :: "shard_id \<Rightarrow> zone_id \<Rightarrow> zeffect \<Rightarrow> hsys \<Rightarrow> hsys" where
  "absorb sh z (E_Freeze_Timer gen) y = y\<lparr>hs_timers := hs_timers y @ [(hs_now y + freezeTTL, gen)]\<rparr>"
| "absorb sh z (E_Begin sn e) y =
     y\<lparr>hs_coords := hs_coords y @ [\<lparr>co_phase = Co_Resolve, co_snap = sn, co_epoch = e, co_new = 0, co_start = hs_now y\<rparr>]\<rparr>"
| "absorb sh z (E_Redirect addr t) y = y\<lparr>hs_redirects := hs_redirects y @ [t]\<rparr>"
| "absorb sh z (E_Register e n) y = y\<lparr>hs_regs := hs_regs y @ [(sh, z, e, n)]\<rparr>"
| "absorb sh z _ y = y"

definition absorb_all :: "shard_id \<Rightarrow> zone_id \<Rightarrow> zeffect list \<Rightarrow> hsys \<Rightarrow> hsys" where
  "absorb_all sh z es y = fold (absorb sh z) es y"

definition src_does :: "route \<Rightarrow> psess option \<times> zeffect list \<Rightarrow> hsys \<Rightarrow> hsys" where
  "src_does ro r y = absorb_all (ro_src ro) (ro_srcZone ro) (snd r) (y\<lparr>hs_src := fst r\<rparr>)"

definition dst_does :: "route \<Rightarrow> psess option \<times> zeffect list \<Rightarrow> hsys \<Rightarrow> hsys" where
  "dst_does ro r y = absorb_all (ro_dst ro) (ro_dstZone ro) (snd r) (y\<lparr>hs_dst := fst r\<rparr>)"

definition post_src :: "src_msg list \<Rightarrow> hsys \<Rightarrow> hsys" where
  "post_src ms y = y\<lparr>hs_inbox := hs_inbox y @ ms\<rparr>"

definition set_coord :: "nat \<Rightarrow> coord \<Rightarrow> hsys \<Rightarrow> hsys" where
  "set_coord i c y = y\<lparr>hs_coords := (hs_coords y)[i := c]\<rparr>"

definition end_coord :: "nat \<Rightarrow> src_msg list \<Rightarrow> hsys \<Rightarrow> hsys" where
  "end_coord i ms y = post_src ms (y\<lparr>hs_coords := take i (hs_coords y) @ drop (Suc i) (hs_coords y)\<rparr>)"

text \<open>A call issued after the conversation's deadline never leaves: its context is already done.\<close>

definition in_time :: "coord \<Rightarrow> hsys \<Rightarrow> 'e \<Rightarrow> 'e net \<Rightarrow> 'e net" where
  "in_time c y late net = (if hs_now y < co_start c + handoffRPCTimeout then net else Lost_Request late)"

definition reply_of :: "zeffect list \<Rightarrow> rpc_status option" where
  "reply_of es = (case filter (\<lambda>e. case e of E_Reply _ \<Rightarrow> True | _ \<Rightarrow> False) es of E_Reply r # _ \<Rightarrow> r | _ \<Rightarrow> None)"

definition co_resolve :: "route \<Rightarrow> nat \<Rightarrow> bool \<Rightarrow> hsys \<Rightarrow> hsys" where
  "co_resolve ro i ok y =
     (let c = hs_coords y ! i in
      if ok \<and> hs_now y < co_start c + handoffRPCTimeout then set_coord i (c\<lparr>co_phase := Co_Mint\<rparr>) y
      else end_coord i [M_Failed ''destination unreachable'' 0] y)"

definition co_mint :: "route \<Rightarrow> nat \<Rightarrow> string net \<Rightarrow> hsys \<Rightarrow> hsys" where
  "co_mint ro i net y =
     (let c = hs_coords y ! i in
      if \<not> ro_durable ro then set_coord i (c\<lparr>co_phase := Co_Prepare, co_new := co_epoch c + 1\<rparr>) y
      else case round_trip net (\<lambda>row. (mint_epoch (co_epoch c) row, mint_epoch (co_epoch c) row)) (hs_row y) of
        (Inl e, row') \<Rightarrow> end_coord i [M_Failed ''destination unreachable'' 0] (y\<lparr>hs_row := row'\<rparr>)
      | (Inr e, row') \<Rightarrow> set_coord i (c\<lparr>co_phase := Co_Prepare, co_new := e\<rparr>) (y\<lparr>hs_row := row'\<rparr>))"

definition co_prepare :: "route \<Rightarrow> nat \<Rightarrow> nat \<Rightarrow> string net \<Rightarrow> hsys \<Rightarrow> hsys" where
  "co_prepare ro i nonce net0 y =
     (let c = hs_coords y ! i;
          net = in_time c y ''deadline'' net0;
          m = \<lparr>pm_snap = co_snap c, pm_room = ro_dstRoom ro, pm_epoch = co_new c, pm_token = ro_token ro (co_new c)\<rparr>;
          (r, y') = round_trip net (\<lambda>y. let d = z_prepare (ro_world ro) m nonce (hs_dst y) in (reply_of (snd d), dst_does ro d y)) y
      in if r = Inr None then set_coord i (c\<lparr>co_phase := Co_Claim\<rparr>) y'
         else end_coord i [M_Failed ''destination rejected the handoff'' (co_new c)] y')"

definition co_claim :: "route \<Rightarrow> nat \<Rightarrow> dir_error net \<Rightarrow> string net \<Rightarrow> hsys \<Rightarrow> hsys" where
  "co_claim ro i net0 abort y =
     (let c = hs_coords y ! i;
          net = in_time c y (RedisErr ''deadline'') net0;
          (r, d') = SetPlayerShard net (ro_character ro) (ro_dst ro) (ro_dstZone ro) (co_new c) (\<lambda>_. hs_dir y);
          y1 = y\<lparr>hs_dir := d' (ro_character ro)\<rparr>
      in if r = Inr True
         then end_coord i [M_Handed_Off, M_Redirect (ro_addr ro) (ro_token ro (co_new c)) (co_new c)] y1
         else (let y2 = snd (round_trip abort (\<lambda>y. ((), dst_does ro (abortPending (ro_token ro (co_new c)) (hs_dst y)) y)) y1)
               in end_coord i [M_Failed ''ownership conflict'' (co_new c)] y2))"

section \<open>Steps\<close>

datatype hevent =
    Ev_Move bool
  | Ev_Drain
  | Ev_Resolve nat bool
  | Ev_Mint nat "string net"
  | Ev_Prepare nat nat "string net"
  | Ev_Claim nat "dir_error net" "string net"
  | Ev_Src bool
  | Ev_Freeze_Timer nat
  | Ev_Detach nat
  | Ev_Reap nat
  | Ev_Resume attach_msg
  | Ev_Bind nat attach_msg
  | Ev_Pending_Timer nat
  | Ev_Register nat "dir_error net"
  | Ev_Dst_Detach nat
  | Ev_Tick nat

definition src_handles :: "bool \<Rightarrow> src_msg \<Rightarrow> psess option \<Rightarrow> psess option \<times> zeffect list" where
  "src_handles draining m p =
     (case m of
        M_Handed_Off \<Rightarrow> z_markHandedOff p
      | M_Redirect addr t e \<Rightarrow> z_redirect draining addr t e p
      | M_Failed reason e \<Rightarrow> z_handoffFailed reason e p
      | M_Freeze_Expire gen \<Rightarrow> freezeExpire gen p
      | M_Detach out \<Rightarrow> z_detach True out p)"

definition in_phase :: "nat \<Rightarrow> co_phase \<Rightarrow> hsys \<Rightarrow> bool" where
  "in_phase i ph y \<longleftrightarrow> i < length (hs_coords y) \<and> co_phase (hs_coords y ! i) = ph"

text \<open>
  One event; none when it cannot happen now. A stream comes back to the source (\<open>Ev_Resume\<close>) only while the
  source holds a copy it did not hand away. A player walks only while its session acts; a stream binds at
  the destination only with a token a redirect carried; a timer posts only once its deadline has passed.
\<close>

fun hstep :: "route \<Rightarrow> hevent \<Rightarrow> hsys \<Rightarrow> hsys option" where
  "hstep ro (Ev_Move announce) y =
     (case hs_src y of
        Some s \<Rightarrow>
          if ps_frozen s \<or> ps_pending s \<or> ps_detached s \<or> ps_room s = None then None
          else (let (s', es) = z_initiateHandoff (ro_character ro) announce s in Some (src_does ro (Some s', es) y))
      | None \<Rightarrow> None)"
| "hstep ro Ev_Drain y = Some (src_does ro (drainPlayer (ro_character ro) (hs_src y)) y)"
| "hstep ro (Ev_Resolve i ok) y = (if in_phase i Co_Resolve y then Some (co_resolve ro i ok y) else None)"
| "hstep ro (Ev_Mint i net) y = (if in_phase i Co_Mint y then Some (co_mint ro i net y) else None)"
| "hstep ro (Ev_Prepare i nonce net) y = (if in_phase i Co_Prepare y then Some (co_prepare ro i nonce net y) else None)"
| "hstep ro (Ev_Claim i net abort) y = (if in_phase i Co_Claim y then Some (co_claim ro i net abort y) else None)"
| "hstep ro (Ev_Src draining) y =
     (case hs_inbox y of
        [] \<Rightarrow> None
      | m # ms \<Rightarrow> Some (src_does ro (src_handles draining m (hs_src y)) (y\<lparr>hs_inbox := ms\<rparr>)))"
| "hstep ro (Ev_Freeze_Timer k) y =
     (if k < length (hs_timers y) \<and> fst (hs_timers y ! k) \<le> hs_now y
      then Some (post_src [M_Freeze_Expire (snd (hs_timers y ! k))] y) else None)"
| "hstep ro (Ev_Detach out) y = Some (post_src [M_Detach out] y)"
| "hstep ro (Ev_Reap gen) y = Some (src_does ro (reap True gen (hs_src y)) y)"
| "hstep ro (Ev_Resume m) y =
     (case hs_src y of
        Some s \<Rightarrow>
          if am_token m = '''' \<and> \<not> (ps_frozen s \<and> ps_handedOff s)
          then Some (src_does ro (z_attach (ro_world ro) False False m (hs_src y)) y) else None
      | None \<Rightarrow> None)"
| "hstep ro (Ev_Bind k m) y =
     (if k < length (hs_redirects y) \<and> am_token m = hs_redirects y ! k \<and> am_token m \<noteq> ''''
      then Some (dst_does ro (z_attach (ro_world ro) False False m (hs_dst y)) y) else None)"
| "hstep ro (Ev_Pending_Timer gen) y = Some (dst_does ro (pendingExpire gen (hs_dst y)) y)"
| "hstep ro (Ev_Register k net) y =
     (if k < length (hs_regs y)
      then (case hs_regs y ! k of (sh, z, e, n) \<Rightarrow>
              Some (y\<lparr>hs_dir := snd (RegisterPlacement net (ro_character ro) sh z e n (\<lambda>_. hs_dir y)) (ro_character ro),
                      hs_regs := take k (hs_regs y) @ drop (Suc k) (hs_regs y)\<rparr>))
      else None)"
| "hstep ro (Ev_Dst_Detach out) y = Some (dst_does ro (z_detach True out (hs_dst y)) y)"
| "hstep ro (Ev_Tick n) y = Some (y\<lparr>hs_now := hs_now y + n\<rparr>)"

fun hrun :: "route \<Rightarrow> hevent list \<Rightarrow> hsys \<Rightarrow> hsys option" where
  "hrun ro [] y = Some y"
| "hrun ro (e # es) y = (case hstep ro e y of None \<Rightarrow> None | Some y' \<Rightarrow> hrun ro es y')"

text \<open>A copy that acts for the player.\<close>

definition acts :: "psess option \<Rightarrow> bool" where
  "acts p \<longleftrightarrow> (case p of Some s \<Rightarrow> \<not> ps_frozen s \<and> \<not> ps_pending s | None \<Rightarrow> False)"

end
