(* ===== verification/Handoff_Invariant.thy ===== *)
theory Handoff_Invariant
  imports Player_Handoff
begin

text \<open>
  The invariant of a player's handoff: while no freeze timer fires into a live conversation, at most one
  coordinator is open and the two copies of the player never act together. Each hop of the coordinator and
  each handler is shown to keep it.
\<close>

section \<open>What the effects add\<close>

definition begun :: "ms \<Rightarrow> zeffect list \<Rightarrow> coord list" where
  "begun t es = concat (map (\<lambda>e. case e of
     E_Begin sn ep \<Rightarrow> [\<lparr>co_phase = Co_Resolve, co_snap = sn, co_epoch = ep, co_new = 0, co_start = t\<rparr>]
   | _ \<Rightarrow> []) es)"

definition redirected :: "zeffect list \<Rightarrow> string list" where
  "redirected es = concat (map (\<lambda>e. case e of E_Redirect a k \<Rightarrow> [k] | _ \<Rightarrow> []) es)"

definition registered :: "shard_id \<Rightarrow> zone_id \<Rightarrow> zeffect list \<Rightarrow> (shard_id \<times> zone_id \<times> nat \<times> nat) list" where
  "registered sh z es = concat (map (\<lambda>e. case e of E_Register e n \<Rightarrow> [(sh, z, e, n)] | _ \<Rightarrow> []) es)"

lemma adds_simps [simp]:
  "begun t [] = []" "redirected [] = []" "registered sh z [] = []"
  "begun t (es @ fs) = begun t es @ begun t fs" "redirected (es @ fs) = redirected es @ redirected fs"
  "registered sh z (es @ fs) = registered sh z es @ registered sh z fs"
  by (simp_all add: begun_def redirected_def registered_def)

lemma adds_Cons [simp]:
  "begun t (e # es) = (case e of
     E_Begin sn ep \<Rightarrow> [\<lparr>co_phase = Co_Resolve, co_snap = sn, co_epoch = ep, co_new = 0, co_start = t\<rparr>]
   | _ \<Rightarrow> []) @ begun t es"
  "redirected (e # es) = (case e of E_Redirect a k \<Rightarrow> [k] | _ \<Rightarrow> []) @ redirected es"
  "registered sh z (e # es) = (case e of E_Register e n \<Rightarrow> [(sh, z, e, n)] | _ \<Rightarrow> []) @ registered sh z es"
  by (simp_all add: begun_def redirected_def registered_def)

lemma absorb_all_fields [simp]:
  "hs_src (absorb_all sh z es y) = hs_src y"
  "hs_dst (absorb_all sh z es y) = hs_dst y"
  "hs_dir (absorb_all sh z es y) = hs_dir y"
  "hs_row (absorb_all sh z es y) = hs_row y"
  "hs_now (absorb_all sh z es y) = hs_now y"
  "hs_inbox (absorb_all sh z es y) = hs_inbox y"
  "hs_coords (absorb_all sh z es y) = hs_coords y @ begun (hs_now y) es"
  "hs_redirects (absorb_all sh z es y) = hs_redirects y @ redirected es"
  "hs_regs (absorb_all sh z es y) = hs_regs y @ registered sh z es"
proof -
  have *: "hs_src (fold (absorb sh z) es y) = hs_src y \<and> hs_dst (fold (absorb sh z) es y) = hs_dst y \<and>
        hs_dir (fold (absorb sh z) es y) = hs_dir y \<and> hs_row (fold (absorb sh z) es y) = hs_row y \<and>
        hs_now (fold (absorb sh z) es y) = hs_now y \<and> hs_inbox (fold (absorb sh z) es y) = hs_inbox y \<and>
        hs_coords (fold (absorb sh z) es y) = hs_coords y @ begun (hs_now y) es \<and>
        hs_redirects (fold (absorb sh z) es y) = hs_redirects y @ redirected es \<and>
        hs_regs (fold (absorb sh z) es y) = hs_regs y @ registered sh z es"
  proof (induction es arbitrary: y)
    case Nil
    then show ?case by simp
  next
    case (Cons e es)
    have "hs_now (absorb sh z e y) = hs_now y"
      by (cases e) simp_all
    then show ?case
      using Cons.IH [of "absorb sh z e y"] by (cases e) simp_all
  qed
  show "hs_src (absorb_all sh z es y) = hs_src y" "hs_dst (absorb_all sh z es y) = hs_dst y"
    "hs_dir (absorb_all sh z es y) = hs_dir y" "hs_row (absorb_all sh z es y) = hs_row y"
    "hs_now (absorb_all sh z es y) = hs_now y" "hs_inbox (absorb_all sh z es y) = hs_inbox y"
    "hs_coords (absorb_all sh z es y) = hs_coords y @ begun (hs_now y) es"
    "hs_redirects (absorb_all sh z es y) = hs_redirects y @ redirected es"
    "hs_regs (absorb_all sh z es y) = hs_regs y @ registered sh z es"
    using * by (simp_all add: absorb_all_def)
qed

section \<open>What each handler does to the entry\<close>

text \<open>An entry that is there and frozen in a handoff not known to have committed.\<close>

definition in_flight :: "psess option \<Rightarrow> bool" where
  "in_flight p \<longleftrightarrow> (\<exists>s. p = Some s \<and> ps_frozen s \<and> \<not> ps_handedOff s \<and> \<not> ps_detached s)"

definition idle :: "psess option \<Rightarrow> bool" where
  "idle p \<longleftrightarrow> (\<forall>s. p = Some s \<longrightarrow> \<not> ps_frozen s)"

definition waiting :: "psess option \<Rightarrow> bool" where
  "waiting p \<longleftrightarrow> (\<forall>s. p = Some s \<longrightarrow> ps_pending s)"

definition gone :: "psess option \<Rightarrow> bool" where
  "gone p \<longleftrightarrow> (\<forall>s. p = Some s \<longrightarrow> ps_frozen s)"

definition given :: "psess option \<Rightarrow> bool" where
  "given p \<longleftrightarrow> (\<forall>s. p = Some s \<longrightarrow> ps_frozen s \<and> ps_handedOff s)"

lemmas entry_states = in_flight_def idle_def waiting_def gone_def given_def

lemma entry_None [simp]:
  "idle None" "waiting None" "gone None" "given None" "\<not> in_flight None" "\<not> acts None"
  by (simp_all add: entry_states acts_def)

lemma quiet_handlers [simp]:
  "begun t (snd (leave b p)) = []" "redirected (snd (leave b p)) = []"
  "begun t (snd (enterLinkDeath s)) = []" "redirected (snd (enterLinkDeath s)) = []"
  "begun t (snd (linkDeathAfterThaw s)) = []" "redirected (snd (linkDeathAfterThaw s)) = []"
  "begun t (drop_token s) = []" "redirected (drop_token s) = []" "registered sh z (drop_token s) = []"
  by (auto simp: leave_def enterLinkDeath_def linkDeathAfterThaw_def drop_token_def split: option.splits)

lemma quiet_restore [simp]:
  "begun t (snd (restore_from s)) = []" "redirected (snd (restore_from s)) = []"
  "begun t (snd (thaw_session r s)) = []" "redirected (snd (thaw_session r s)) = []"
  by (auto simp: restore_from_def thaw_session_def case_prod_beta split: option.splits)

lemma thaw_keeps [simp]:
  "ps_frozen (fst (restore_from s)) = ps_frozen s" "ps_pending (fst (restore_from s)) = ps_pending s"
  "ps_frozen (fst (linkDeathAfterThaw s)) = ps_frozen s"
  "ps_pending (fst (linkDeathAfterThaw s)) = ps_pending s"
  "ps_frozen (fst (enterLinkDeath s)) = ps_frozen s" "ps_pending (fst (enterLinkDeath s)) = ps_pending s"
  "ps_epoch (fst (linkDeathAfterThaw s)) = ps_epoch s" "ps_room (fst (linkDeathAfterThaw s)) = ps_room s"
  "ps_epoch (fst (restore_from s)) = ps_epoch s"
  by (auto simp: restore_from_def linkDeathAfterThaw_def enterLinkDeath_def split: option.splits)

lemma thaw_session_keeps [simp]:
  "ps_frozen (fst (thaw_session r s)) = ps_frozen s" "ps_pending (fst (thaw_session r s)) = ps_pending s"
  "ps_epoch (fst (thaw_session r s)) = ps_epoch s"
  by (simp_all add: thaw_session_def case_prod_beta)

lemma quiet_source [simp]:
  "begun t (snd (z_markHandedOff p)) = []" "redirected (snd (z_markHandedOff p)) = []"
  "begun t (snd (freezeExpire g p)) = []" "redirected (snd (freezeExpire g p)) = []"
  "begun t (snd (z_handoffFailed r e p)) = []" "redirected (snd (z_handoffFailed r e p)) = []"
  "begun t (snd (z_detach b out p)) = []" "redirected (snd (z_detach b out p)) = []"
  "begun t (snd (reap b g p)) = []" "redirected (snd (reap b g p)) = []"
  "begun t (snd (z_redirect d addr k e p)) = []"
  by (auto simp: z_markHandedOff_def freezeExpire_def z_handoffFailed_def z_detach_def reap_def z_redirect_def
      reapHandedOffOrphan_def case_prod_beta Let_def split: option.splits)

lemma quiet_join [simp]:
  "begun t (snd (join w r s)) = []" "redirected (snd (join w r s)) = []"
  "begun t (snd (attach_bind w m s)) = []" "redirected (snd (attach_bind w m s)) = []"
  "begun t (snd (attach_resume m s)) = []" "redirected (snd (attach_resume m s)) = []"
  by (auto simp: join_def attach_bind_def attach_resume_def Let_def split: option.splits)

lemma quiet_attach [simp]:
  "begun t (snd (z_attach w b c m p)) = []" "redirected (snd (z_attach w b c m p)) = []"
  by (auto simp: z_attach_def case_prod_beta Let_def split: option.splits)

lemma quiet_prepare [simp]:
  "begun t (snd (z_prepare w m n p)) = []" "redirected (snd (z_prepare w m n p)) = []"
  "begun t (snd (abortPending k p)) = []" "redirected (snd (abortPending k p)) = []"
  "begun t (snd (pendingExpire g p)) = []" "redirected (snd (pendingExpire g p)) = []"
  by (auto simp: z_prepare_def abortPending_def pendingExpire_def Let_def split: option.splits)

lemma initiate_entry [simp]:
  "in_flight (Some (fst (z_initiateHandoff c a s))) \<longleftrightarrow> \<not> ps_detached s"
  "length (begun t (snd (z_initiateHandoff c a s))) = 1" "redirected (snd (z_initiateHandoff c a s)) = []"
  by (simp_all add: z_initiateHandoff_def in_flight_def Let_def)

text \<open>The destination's copy keeps waiting until a stream binds it.\<close>

lemma waiting_kept:
  assumes "waiting p"
  shows "waiting (fst (z_prepare w m n p))" "waiting (fst (abortPending k p))"
    "waiting (fst (pendingExpire g p))" "waiting (fst (z_detach b out p))"
  using assms
  by (auto simp: waiting_def z_prepare_def pending_session_def abortPending_def pendingExpire_def z_detach_def
      leave_def Let_def case_prod_beta enterLinkDeath_def split: option.splits if_splits)

text \<open>A copy whose handoff is undecided stays in flight under everything but a verdict.\<close>

lemma in_flight_kept:
  assumes "in_flight p"
  shows "in_flight (fst (z_detach b out p))" "fst (reap b g p) = p" "drainPlayer c p = (p, [])"
  using assms
  by (auto simp: in_flight_def z_detach_def reap_def drainPlayer_def Let_def split: option.splits)

lemma failed_thaws: "idle (fst (z_handoffFailed r e p))"
  by (auto simp: idle_def z_handoffFailed_def case_prod_beta Let_def split: option.splits if_splits)

lemma attach_without_token:
  assumes "am_token m = ''''"
  shows "fst (z_attach w False False m (Some s)) =
     (if ps_frozen s \<and> ps_handedOff s then fst (join w (am_login m) (fresh_session m))
      else if ps_pending s \<or> ps_frozen s then Some s else Some (fst (attach_resume m s)))"
  using assms by (simp add: z_attach_def case_prod_beta Let_def)

lemma idle_join: "idle (fst (join w r (fresh_session m)))"
  by (simp add: idle_def join_def fresh_session_def split: option.split)

lemma idle_attach:
  assumes "idle (Some s)" "am_token m = ''''"
  shows "idle (fst (z_attach w False False m (Some s)))"
  using assms by (simp add: attach_without_token idle_def attach_resume_def Let_def)

lemma idle_kept:
  assumes "idle p"
  shows "idle (fst (z_detach b out p))" "idle (fst (reap b g p))" "fst (freezeExpire g p) = p"
  using assms
  by (auto simp: idle_def z_detach_def reap_def leave_def freezeExpire_def case_prod_beta split: option.splits)

text \<open>A copy whose handoff has committed never acts again.\<close>

lemma given_gone: "given p \<Longrightarrow> gone p"
  by (simp add: given_def gone_def)

lemma redirect_entry:
  "fst (z_redirect d addr k e p) =
     (case p of None \<Rightarrow> None
      | Some s \<Rightarrow> if ps_handedOff s \<and> d then None else Some (s\<lparr>ps_epoch := e\<rparr>))"
  by (cases p) (simp_all add: z_redirect_def reapHandedOffOrphan_def Let_def)

lemma gone_detach: "gone p \<Longrightarrow> gone (fst (z_detach b out p))"
  by (cases p) (simp_all add: gone_def z_detach_def)

lemma gone_reap: "gone p \<Longrightarrow> gone (fst (reap b g p))"
  by (cases p) (simp_all add: gone_def reap_def leave_def)

lemma gone_drain: "gone p \<Longrightarrow> drainPlayer c p = (p, [])"
  by (cases p) (simp_all add: gone_def drainPlayer_def)

lemma gone_marked: "gone p \<Longrightarrow> given (fst (z_markHandedOff p))"
  by (cases p) (simp_all add: gone_def given_def z_markHandedOff_def)

lemma gone_redirect: "gone p \<Longrightarrow> gone (fst (z_redirect d addr k e p))"
  by (cases p) (simp_all add: gone_def redirect_entry)

lemmas gone_kept = gone_detach gone_reap gone_drain gone_marked gone_redirect

lemma given_detach: "given p \<Longrightarrow> given (fst (z_detach b out p))"
  by (cases p) (simp_all add: given_def z_detach_def)

lemma given_reap: "given p \<Longrightarrow> given (fst (reap b g p))"
  by (cases p) (simp_all add: given_def reap_def leave_def)

lemma given_redirect: "given p \<Longrightarrow> given (fst (z_redirect d addr k e p))"
  by (cases p) (simp_all add: given_def redirect_entry)

lemma given_expire: "given p \<Longrightarrow> given (fst (freezeExpire g p))"
  by (cases p) (simp_all add: given_def freezeExpire_def reapHandedOffOrphan_def)

lemmas given_kept = given_detach given_reap given_redirect given_expire

lemma frozen_attach_rejected:
  assumes "ps_frozen s" "\<not> ps_handedOff s" "am_token m = ''''"
  shows "fst (z_attach w False False m (Some s)) = Some s"
  using assms by (simp add: attach_without_token)

section \<open>The invariant\<close>

fun is_failed :: "src_msg \<Rightarrow> bool" where
  "is_failed (M_Failed r e) = True"
| "is_failed _ = False"

fun is_commit :: "src_msg \<Rightarrow> bool" where
  "is_commit M_Handed_Off = True"
| "is_commit (M_Redirect a t e) = True"
| "is_commit _ = False"

definition undecided :: "hsys \<Rightarrow> nat" where
  "undecided y = length (hs_coords y) + length (filter is_failed (hs_inbox y))"

definition uncommitted :: "hsys \<Rightarrow> bool" where
  "uncommitted y \<longleftrightarrow>
     filter is_commit (hs_inbox y) = [] \<and> hs_redirects y = [] \<and> waiting (hs_dst y) \<and> undecided y \<le> 1 \<and>
     (if undecided y = 1 then in_flight (hs_src y) else idle (hs_src y))"

definition committed :: "hsys \<Rightarrow> bool" where
  "committed y \<longleftrightarrow>
     undecided y = 0 \<and> gone (hs_src y) \<and> (M_Handed_Off \<notin> set (hs_inbox y) \<longrightarrow> given (hs_src y))"

text \<open>A freeze timer handled while no conversation is open and no verdict is on its way.\<close>

definition calm :: "hevent \<Rightarrow> hsys \<Rightarrow> bool" where
  "calm e y \<longleftrightarrow>
     (case (e, hs_inbox y) of
        (Ev_Src d, M_Freeze_Expire g # ms) \<Rightarrow>
          hs_coords y = [] \<and> (\<forall>m\<in>set ms. \<not> is_failed m \<and> \<not> is_commit m)
      | _ \<Rightarrow> True)"

fun calm_run :: "route \<Rightarrow> hevent list \<Rightarrow> hsys \<Rightarrow> bool" where
  "calm_run ro [] y = True"
| "calm_run ro (e # es) y = (calm e y \<and> (case hstep ro e y of None \<Rightarrow> True | Some y' \<Rightarrow> calm_run ro es y'))"

lemma src_does_fields [simp]:
  "hs_src (src_does ro r y) = fst r" "hs_dst (src_does ro r y) = hs_dst y"
  "hs_inbox (src_does ro r y) = hs_inbox y" "hs_coords (src_does ro r y) = hs_coords y @ begun (hs_now y) (snd r)"
  "hs_redirects (src_does ro r y) = hs_redirects y @ redirected (snd r)" "hs_dir (src_does ro r y) = hs_dir y"
  "hs_row (src_does ro r y) = hs_row y" "hs_now (src_does ro r y) = hs_now y"
  "hs_regs (src_does ro r y) = hs_regs y @ registered (ro_src ro) (ro_srcZone ro) (snd r)"
  by (simp_all add: src_does_def)

lemma dst_does_fields [simp]:
  "hs_dst (dst_does ro r y) = fst r" "hs_src (dst_does ro r y) = hs_src y"
  "hs_inbox (dst_does ro r y) = hs_inbox y" "hs_coords (dst_does ro r y) = hs_coords y @ begun (hs_now y) (snd r)"
  "hs_redirects (dst_does ro r y) = hs_redirects y @ redirected (snd r)" "hs_dir (dst_does ro r y) = hs_dir y"
  "hs_row (dst_does ro r y) = hs_row y" "hs_now (dst_does ro r y) = hs_now y"
  "hs_regs (dst_does ro r y) = hs_regs y @ registered (ro_dst ro) (ro_dstZone ro) (snd r)"
  by (simp_all add: dst_does_def)

lemma post_src_fields [simp]:
  "hs_src (post_src ms y) = hs_src y" "hs_dst (post_src ms y) = hs_dst y"
  "hs_inbox (post_src ms y) = hs_inbox y @ ms" "hs_coords (post_src ms y) = hs_coords y"
  "hs_redirects (post_src ms y) = hs_redirects y" "hs_dir (post_src ms y) = hs_dir y"
  "hs_regs (post_src ms y) = hs_regs y" "hs_row (post_src ms y) = hs_row y" "hs_now (post_src ms y) = hs_now y"
  by (simp_all add: post_src_def)

lemma coord_fields [simp]:
  "hs_src (set_coord i c y) = hs_src y" "hs_dst (set_coord i c y) = hs_dst y"
  "hs_inbox (set_coord i c y) = hs_inbox y" "length (hs_coords (set_coord i c y)) = length (hs_coords y)"
  "hs_redirects (set_coord i c y) = hs_redirects y" "hs_dir (set_coord i c y) = hs_dir y"
  "hs_regs (set_coord i c y) = hs_regs y" "hs_row (set_coord i c y) = hs_row y" "hs_now (set_coord i c y) = hs_now y"
  "hs_src (end_coord i ms y) = hs_src y" "hs_dst (end_coord i ms y) = hs_dst y"
  "hs_inbox (end_coord i ms y) = hs_inbox y @ ms" "hs_regs (end_coord i ms y) = hs_regs y"
  "hs_redirects (end_coord i ms y) = hs_redirects y" "hs_dir (end_coord i ms y) = hs_dir y"
  "hs_row (end_coord i ms y) = hs_row y" "hs_now (end_coord i ms y) = hs_now y"
  by (simp_all add: set_coord_def end_coord_def)

lemma end_coord_length:
  "i < length (hs_coords y) \<Longrightarrow> length (hs_coords (end_coord i ms y)) = length (hs_coords y) - 1"
  by (simp add: end_coord_def)

section \<open>The invariant is kept\<close>

lemma post_src_undecided [simp]:
  "undecided (post_src ms y) = undecided y + length (filter is_failed ms)"
  by (simp add: undecided_def)

lemma post_src_states:
  assumes "filter is_commit ms = []" "filter is_failed ms = []"
  shows "uncommitted y \<Longrightarrow> uncommitted (post_src ms y)" "committed y \<Longrightarrow> committed (post_src ms y)"
proof -
  have "M_Handed_Off \<notin> set ms"
    using assms(1) by (auto simp: filter_empty_conv)
  then show "uncommitted y \<Longrightarrow> uncommitted (post_src ms y)" "committed y \<Longrightarrow> committed (post_src ms y)"
    using assms by (auto simp: uncommitted_def committed_def)
qed

lemma undecided_coord:
  assumes "undecided y \<le> 1" and "i < length (hs_coords y)"
  shows "undecided y = 1" "i = 0" "length (hs_coords y) = 1" "filter is_failed (hs_inbox y) = []"
  using assms by (auto simp: undecided_def) (cases "filter is_failed (hs_inbox y)", auto)

text \<open>The destination's half of a step.\<close>

lemma dst_does_uncommitted:
  assumes "uncommitted y" "waiting (fst r)" "begun (hs_now y) (snd r) = []" "redirected (snd r) = []"
  shows "uncommitted (dst_does ro r y)"
  using assms by (simp add: uncommitted_def undecided_def)

lemma dst_does_committed:
  assumes "committed y" "begun (hs_now y) (snd r) = []"
  shows "committed (dst_does ro r y)"
  using assms by (simp add: committed_def undecided_def)

text \<open>The coordinator's hops.\<close>

lemma set_coord_uncommitted: "uncommitted y \<Longrightarrow> uncommitted (set_coord i c y)"
  by (simp add: uncommitted_def undecided_def)

lemma end_coord_failed:
  assumes "uncommitted y" "i < length (hs_coords y)"
  shows "uncommitted (end_coord i [M_Failed r e] y)"
proof -
  have one: "undecided y = 1" "filter is_failed (hs_inbox y) = []"
    using assms undecided_coord [of y i] by (simp_all add: uncommitted_def)
  then have "undecided (end_coord i [M_Failed r e] y) = 1"
    using assms(2) by (simp add: undecided_def end_coord_length)
  with assms(1) one show ?thesis
    by (simp add: uncommitted_def)
qed

lemma end_coord_commits:
  assumes "uncommitted y" "i < length (hs_coords y)"
  shows "committed (end_coord i [M_Handed_Off, M_Redirect a k e] y)"
proof -
  have one: "undecided y = 1" "length (hs_coords y) = 1" "filter is_failed (hs_inbox y) = []"
    using assms undecided_coord [of y i] by (simp_all add: uncommitted_def)
  then have "undecided (end_coord i [M_Handed_Off, M_Redirect a k e] y) = 0"
    using assms(2) by (simp add: undecided_def end_coord_length)
  moreover have "gone (hs_src y)"
    using assms(1) one by (auto simp: uncommitted_def in_flight_def gone_def)
  ultimately show ?thesis
    by (simp add: committed_def)
qed

lemma other_fields_uncommitted [simp]:
  "uncommitted (y\<lparr>hs_row := r\<rparr>) = uncommitted y" "uncommitted (y\<lparr>hs_dir := d\<rparr>) = uncommitted y"
  "uncommitted (y\<lparr>hs_now := t\<rparr>) = uncommitted y" "uncommitted (y\<lparr>hs_regs := g\<rparr>) = uncommitted y"
  "committed (y\<lparr>hs_row := r\<rparr>) = committed y" "committed (y\<lparr>hs_dir := d\<rparr>) = committed y"
  "committed (y\<lparr>hs_now := t\<rparr>) = committed y" "committed (y\<lparr>hs_regs := g\<rparr>) = committed y"
  by (simp_all add: uncommitted_def committed_def undecided_def)

lemma resolve_uncommitted:
  assumes "uncommitted y" "in_phase i ph y"
  shows "uncommitted (co_resolve ro i ok y)"
  using assms
  by (simp add: co_resolve_def Let_def in_phase_def set_coord_uncommitted end_coord_failed)

lemma mint_uncommitted:
  assumes "uncommitted y" "in_phase i ph y"
  shows "uncommitted (co_mint ro i net y)"
proof -
  have i: "i < length (hs_coords y)"
    using assms(2) by (simp add: in_phase_def)
  have E: "uncommitted (end_coord i [M_Failed r e] (y\<lparr>hs_row := w\<rparr>))" for r e w
    by (rule end_coord_failed) (simp_all add: assms(1) i)
  show ?thesis
    by (cases net) (simp_all add: co_mint_def Let_def set_coord_uncommitted assms(1) E end_coord_failed i)
qed

lemma prepare_uncommitted:
  assumes "uncommitted y" "in_phase i ph y"
  shows "uncommitted (co_prepare ro i nonce net y)"
proof -
  define P where "P m y = (let d = z_prepare (ro_world ro) m nonce (hs_dst y) in (reply_of (snd d), dst_does ro d y))"
    for m and y :: hsys
  have W: "waiting (hs_dst y)" and i: "i < length (hs_coords y)"
    using assms by (simp_all add: uncommitted_def in_phase_def)
  have U: "uncommitted (snd (P m y))" for m
    unfolding P_def Let_def snd_conv by (rule dst_does_uncommitted [OF assms(1) waiting_kept(1) [OF W]]) simp_all
  have len: "hs_coords (snd (P m y)) = hs_coords y" for m
    by (simp add: P_def Let_def)
  have Q: "uncommitted (snd (round_trip n (P m) y))" "length (hs_coords (snd (round_trip n (P m) y))) = length (hs_coords y)" for n :: "string net" and m
    by (cases n; simp add: U len assms(1))+
  show ?thesis
    unfolding co_prepare_def Let_def case_prod_beta P_def [symmetric, unfolded Let_def]
    by (simp add: set_coord_uncommitted end_coord_failed Q i)
qed

lemma claim_decides:
  assumes "uncommitted y" "in_phase i ph y"
  shows "uncommitted (co_claim ro i net abort y) \<or> committed (co_claim ro i net abort y)"
proof -
  define A where "A k y = ((), dst_does ro (abortPending k (hs_dst y)) y)" for k and y :: hsys
  have i: "i < length (hs_coords y)"
    using assms by (simp add: in_phase_def)
  have U: "uncommitted (snd (round_trip abort (A k) y'))"
    "length (hs_coords (snd (round_trip abort (A k) y'))) = length (hs_coords y')"
    if "uncommitted y'" for k y'
  proof -
    have "uncommitted (snd (A k y'))"
      unfolding A_def snd_conv
      by (rule dst_does_uncommitted [OF that waiting_kept(2)]) (use that in \<open>simp_all add: uncommitted_def\<close>)
    then show "uncommitted (snd (round_trip abort (A k) y'))"
      "length (hs_coords (snd (round_trip abort (A k) y'))) = length (hs_coords y')"
      using that by (cases abort; simp add: A_def)+
  qed
  have y1: "uncommitted (y\<lparr>hs_dir := d\<rparr>)" for d
    using assms(1) by simp
  show ?thesis
    unfolding co_claim_def Let_def case_prod_beta A_def [symmetric]
    using end_coord_commits [OF y1, of i] end_coord_failed [OF U(1) [OF y1], of i] U(2) [OF y1] i
    by simp
qed

section \<open>The step and the run\<close>

lemma src_does_undecided:
  assumes "begun (hs_now y) (snd r) = []"
  shows "undecided (src_does ro r y) = undecided y"
  using assms by (simp add: undecided_def)

lemma src_keeps_uncommitted:
  assumes "uncommitted y" "begun (hs_now y) (snd r) = []" "redirected (snd r) = []"
    and "in_flight (hs_src y) \<Longrightarrow> in_flight (fst r)" "idle (hs_src y) \<Longrightarrow> idle (fst r)"
  shows "uncommitted (src_does ro r y)"
  using assms by (auto simp: uncommitted_def undecided_def split: if_splits)

lemma src_keeps_committed:
  assumes "committed y" "begun (hs_now y) (snd r) = []"
    and "gone (hs_src y) \<Longrightarrow> gone (fst r)" "given (hs_src y) \<Longrightarrow> given (fst r)"
  shows "committed (src_does ro r y)"
  using assms by (auto simp: committed_def undecided_def)

text \<open>Taking a message off the inbox.\<close>

lemma inbox_uncommitted:
  assumes U: "uncommitted y" and m: "hs_inbox y = m # ms" and c: "calm (Ev_Src d) y"
  shows "uncommitted (src_does ro (src_handles dr m (hs_src y)) (y\<lparr>hs_inbox := ms\<rparr>))"
proof (cases m)
  case M_Handed_Off
  then show ?thesis using U m by (simp add: uncommitted_def)
next
  case (M_Redirect a k e)
  then show ?thesis using U m by (simp add: uncommitted_def)
next
  case (M_Failed r e)
  then have "undecided y = 1" "undecided (y\<lparr>hs_inbox := ms\<rparr>) = 0"
    using U m by (simp_all add: uncommitted_def undecided_def)
  moreover from this have "undecided (src_does ro (src_handles dr m (hs_src y)) (y\<lparr>hs_inbox := ms\<rparr>)) = 0"
    using M_Failed by (simp add: src_does_undecided src_handles_def)
  ultimately show ?thesis
    using U m M_Failed by (simp add: uncommitted_def src_handles_def failed_thaws)
next
  case (M_Freeze_Expire g)
  have none: "hs_coords y = []" "filter is_failed ms = []"
    using c m M_Freeze_Expire by (auto simp: calm_def filter_empty_conv)
  then have I: "idle (hs_src y)" "undecided (y\<lparr>hs_inbox := ms\<rparr>) = undecided y"
    using U m M_Freeze_Expire by (simp_all add: uncommitted_def undecided_def)
  have "uncommitted (y\<lparr>hs_inbox := ms\<rparr>)"
    using U m M_Freeze_Expire I by (simp add: uncommitted_def)
  then show ?thesis
    using I(1) none M_Freeze_Expire
    by (intro src_keeps_uncommitted) (simp_all add: src_handles_def idle_kept)
next
  case (M_Detach out)
  have "uncommitted (y\<lparr>hs_inbox := ms\<rparr>)"
    using U m M_Detach by (simp add: uncommitted_def undecided_def)
  then show ?thesis
    using M_Detach by (intro src_keeps_uncommitted) (simp_all add: src_handles_def in_flight_kept idle_kept)
qed

lemma inbox_committed:
  assumes C: "committed y" and m: "hs_inbox y = m # ms" and c: "calm (Ev_Src d) y"
  shows "committed (src_does ro (src_handles dr m (hs_src y)) (y\<lparr>hs_inbox := ms\<rparr>))"
proof (cases m)
  case M_Handed_Off
  have "given (fst (z_markHandedOff (hs_src y)))"
    using C by (simp add: committed_def gone_marked)
  then show ?thesis
    using C m M_Handed_Off by (simp add: committed_def undecided_def src_handles_def given_gone)
next
  case (M_Redirect a k e)
  have "committed (y\<lparr>hs_inbox := ms\<rparr>)"
    using C m M_Redirect by (simp add: committed_def undecided_def)
  then show ?thesis
    using M_Redirect by (intro src_keeps_committed) (simp_all add: src_handles_def gone_kept given_kept)
next
  case (M_Failed r e)
  then show ?thesis using C m by (simp add: committed_def undecided_def)
next
  case (M_Freeze_Expire g)
  then have "M_Handed_Off \<notin> set ms"
    using c m by (auto simp: calm_def)
  then have "given (hs_src y)" "committed (y\<lparr>hs_inbox := ms\<rparr>)"
    using C m M_Freeze_Expire by (simp_all add: committed_def undecided_def)
  then show ?thesis
    using M_Freeze_Expire
    by (intro src_keeps_committed) (simp_all add: src_handles_def given_kept given_gone)
next
  case (M_Detach out)
  have "committed (y\<lparr>hs_inbox := ms\<rparr>)"
    using C m M_Detach by (simp add: committed_def undecided_def)
  then show ?thesis
    using M_Detach by (intro src_keeps_committed) (simp_all add: src_handles_def gone_kept given_kept)
qed

text \<open>Setting out: from the idle copy to one in flight.\<close>

lemma initiate_uncommitted:
  assumes U: "uncommitted y" and s: "hs_src y = Some s" "\<not> ps_frozen s" "\<not> ps_detached s"
  shows "uncommitted (src_does ro (Some (fst (z_initiateHandoff c a s)), snd (z_initiateHandoff c a s)) y)"
proof -
  have "\<not> in_flight (hs_src y)"
    using s by (simp add: in_flight_def)
  then have "undecided y = 0"
    using U by (auto simp: uncommitted_def split: if_splits)
  then have "undecided (src_does ro (Some (fst (z_initiateHandoff c a s)), snd (z_initiateHandoff c a s)) y) = 1"
    by (simp add: undecided_def)
  then show ?thesis
    using U s by (simp add: uncommitted_def)
qed

lemma no_coord_committed:
  "committed y \<Longrightarrow> \<not> in_phase i ph y"
  by (simp add: committed_def undecided_def in_phase_def)

lemma drain_uncommitted:
  assumes U: "uncommitted y"
  shows "uncommitted (src_does ro (drainPlayer c (hs_src y)) y)"
proof (cases "drainPlayer c (hs_src y) = (hs_src y, [])")
  case True
  then show ?thesis
    by (simp add: src_keeps_uncommitted [OF U])
next
  case False
  then obtain s where "hs_src y = Some s" "\<not> ps_frozen s" "\<not> ps_detached s"
    and "drainPlayer c (hs_src y) = (Some (fst (z_initiateHandoff c False s)), snd (z_initiateHandoff c False s))"
    by (auto simp: drainPlayer_def case_prod_beta split: option.splits if_splits)
  then show ?thesis
    using initiate_uncommitted [OF U] by simp
qed

lemma resume_uncommitted:
  assumes U: "uncommitted y" and s: "hs_src y = Some s" "am_token m = ''''"
    "\<not> (ps_frozen s \<and> ps_handedOff s)"
  shows "uncommitted (src_does ro (z_attach (ro_world ro) False False m (hs_src y)) y)"
proof (rule src_keeps_uncommitted [OF U])
  show "in_flight (fst (z_attach (ro_world ro) False False m (hs_src y)))" if "in_flight (hs_src y)"
    using that s by (auto simp: in_flight_def attach_without_token)
  show "idle (fst (z_attach (ro_world ro) False False m (hs_src y)))" if "idle (hs_src y)"
    using that s by (simp add: idle_attach)
qed simp_all

lemma resume_committed:
  assumes C: "committed y" and s: "hs_src y = Some s" "am_token m = ''''"
    "\<not> (ps_frozen s \<and> ps_handedOff s)"
  shows "committed (src_does ro (z_attach (ro_world ro) False False m (hs_src y)) y)"
proof (rule src_keeps_committed [OF C])
  have "ps_frozen s"
    using C s by (simp add: committed_def gone_def)
  then show "gone (fst (z_attach (ro_world ro) False False m (hs_src y)))" if "gone (hs_src y)"
    using that s by (simp add: frozen_attach_rejected)
  show "given (fst (z_attach (ro_world ro) False False m (hs_src y)))" if "given (hs_src y)"
    using that s by (simp add: given_def)
qed simp

lemma hstep_uncommitted:
  assumes U: "uncommitted y" and c: "calm e y" and st: "hstep ro e y = Some y'"
  shows "uncommitted y' \<or> committed y'"
proof -
  have W: "waiting (hs_dst y)"
    using U by (simp add: uncommitted_def)
  show ?thesis
  proof (cases e)
    case (Ev_Move a)
    then show ?thesis
      using st initiate_uncommitted [OF U]
      by (auto simp: case_prod_beta split: option.splits if_splits)
  next
    case Ev_Drain
    then show ?thesis using st drain_uncommitted [OF U] by auto
  next
    case (Ev_Resolve i ok)
    then show ?thesis using st resolve_uncommitted [OF U] by (auto split: if_splits)
  next
    case (Ev_Mint i net)
    then show ?thesis using st mint_uncommitted [OF U] by (auto split: if_splits)
  next
    case (Ev_Prepare i n net)
    then show ?thesis using st prepare_uncommitted [OF U] by (auto split: if_splits)
  next
    case (Ev_Claim i net ab)
    then show ?thesis using st claim_decides [OF U, of i Co_Claim ro net ab] by (auto split: if_splits)
  next
    case (Ev_Src d)
    then obtain m ms where "hs_inbox y = m # ms"
      and "y' = src_does ro (src_handles d m (hs_src y)) (y\<lparr>hs_inbox := ms\<rparr>)"
      using st by (auto split: list.splits)
    then show ?thesis using inbox_uncommitted [OF U _ c [unfolded Ev_Src]] by simp
  next
    case (Ev_Freeze_Timer k)
    then show ?thesis using st U by (auto intro: post_src_states(1) split: if_splits)
  next
    case (Ev_Detach out)
    then show ?thesis using st U by (auto intro: post_src_states(1))
  next
    case (Ev_Reap g)
    then show ?thesis
      using st by (auto intro!: src_keeps_uncommitted [OF U] simp: in_flight_kept idle_kept)
  next
    case (Ev_Resume m)
    then show ?thesis using st resume_uncommitted [OF U] by (auto split: option.splits if_splits)
  next
    case (Ev_Bind k m)
    then show ?thesis using st U by (simp add: uncommitted_def)
  next
    case (Ev_Pending_Timer g)
    then show ?thesis
      using st W by (auto intro!: dst_does_uncommitted [OF U] simp: waiting_kept)
  next
    case (Ev_Register k net)
    then show ?thesis using st U by (auto split: if_splits prod.splits)
  next
    case (Ev_Dst_Detach out)
    then show ?thesis
      using st W by (auto intro!: dst_does_uncommitted [OF U] simp: waiting_kept)
  next
    case (Ev_Tick n)
    then show ?thesis using st U by auto
  qed
qed

lemma hstep_committed:
  assumes C: "committed y" and c: "calm e y" and st: "hstep ro e y = Some y'"
  shows "committed y'"
proof (cases e)
  case (Ev_Move a)
  then show ?thesis
    using st C by (auto simp: committed_def gone_def split: option.splits)
next
  case Ev_Drain
  moreover have "drainPlayer (ro_character ro) (hs_src y) = (hs_src y, [])"
    using C by (simp add: committed_def gone_kept)
  ultimately show ?thesis
    using st src_keeps_committed [OF C, of "(hs_src y, [])"] by auto
next
  case (Ev_Resolve i ok)
  then show ?thesis using st no_coord_committed [OF C] by simp
next
  case (Ev_Mint i net)
  then show ?thesis using st no_coord_committed [OF C] by simp
next
  case (Ev_Prepare i n net)
  then show ?thesis using st no_coord_committed [OF C] by simp
next
  case (Ev_Claim i net ab)
  then show ?thesis using st no_coord_committed [OF C] by simp
next
  case (Ev_Src d)
  then obtain m ms where "hs_inbox y = m # ms"
    and "y' = src_does ro (src_handles d m (hs_src y)) (y\<lparr>hs_inbox := ms\<rparr>)"
    using st by (auto split: list.splits)
  then show ?thesis using inbox_committed [OF C _ c [unfolded Ev_Src]] by simp
next
  case (Ev_Freeze_Timer k)
  then show ?thesis using st C by (auto intro: post_src_states(2) split: if_splits)
next
  case (Ev_Detach out)
  then show ?thesis using st C by (auto intro: post_src_states(2))
next
  case (Ev_Reap g)
  then show ?thesis
    using st by (auto intro!: src_keeps_committed [OF C] simp: gone_kept given_kept)
next
  case (Ev_Resume m)
  then show ?thesis using st resume_committed [OF C] by (auto split: option.splits if_splits)
next
  case (Ev_Bind k m)
  then show ?thesis using st C by (auto intro!: dst_does_committed split: if_splits)
next
  case (Ev_Pending_Timer g)
  then show ?thesis using st C by (auto intro!: dst_does_committed)
next
  case (Ev_Register k net)
  then show ?thesis using st C by (auto split: if_splits prod.splits)
next
  case (Ev_Dst_Detach out)
  then show ?thesis using st C by (auto intro!: dst_does_committed)
next
  case (Ev_Tick n)
  then show ?thesis using st C by auto
qed

lemma hrun_either:
  "uncommitted y \<or> committed y \<Longrightarrow> calm_run ro es y \<Longrightarrow> hrun ro es y = Some y' \<Longrightarrow> uncommitted y' \<or> committed y'"
proof (induction es arbitrary: y)
  case Nil
  then show ?case by simp
next
  case (Cons e es)
  then obtain z where z: "hstep ro e y = Some z" "hrun ro es z = Some y'" "calm e y" "calm_run ro es z"
    by (auto split: option.splits)
  then have "uncommitted z \<or> committed z"
    using Cons.prems(1) hstep_uncommitted hstep_committed by blast
  then show ?case
    using Cons.IH z by blast
qed

lemma hrun_committed:
  "committed y \<Longrightarrow> calm_run ro es y \<Longrightarrow> hrun ro es y = Some y' \<Longrightarrow> committed y'"
proof (induction es arbitrary: y)
  case Nil
  then show ?case by simp
next
  case (Cons e es)
  then obtain z where "hstep ro e y = Some z" "hrun ro es z = Some y'" "calm e y" "calm_run ro es z"
    by (auto split: option.splits)
  then show ?case
    using Cons.IH hstep_committed [OF Cons.prems(1)] by blast
qed

end
