(* ===== verification/Handoff_Props.thy ===== *)
theory Handoff_Props
  imports Handoff_Invariant
begin

text \<open>
  What holds of a player's handoff: at most one acting copy while no freeze timer fires into a live
  conversation; a failed attempt gives the player back to the source, in the directory too; and the run in
  which a stale freeze timer leaves two copies at one epoch.
\<close>

section \<open>A concrete crossing\<close>

definition plain_world :: zone_world where
  "plain_world = \<lparr>zw_rooms = [''square'', ''gate''], zw_start = ''square'', zw_audit = (\<lambda>raw. Some (0, 0)),
     zw_truncated = (\<lambda>raw. 0), zw_print = (\<lambda>c. 32 \<le> c)\<rparr>"

definition crossing :: route where
  "crossing = \<lparr>ro_character = ''ann'', ro_src = ''s1'', ro_srcZone = ''mid'', ro_dst = ''s2'', ro_dstZone = ''wood'',
     ro_dstRoom = ''gate'', ro_addr = ''10.0.0.2'', ro_token = (\<lambda>e. CHR ''t'' # replicate e CHR ''x''),
     ro_world = plain_world, ro_durable = True\<rparr>"

definition walker :: psess where
  "walker = \<lparr>ps_epoch = 3, ps_pending = False, ps_frozen = False, ps_handedOff = False, ps_detached = False,
     ps_streamGone = False, ps_quitting = False, ps_token = '''', ps_attachGen = 1, ps_applied = 7,
     ps_frozenFrom = None, ps_room = Some ''square'', ps_placed = True, ps_out = Some 1, ps_drops = 0, ps_nonce = 9,
     ps_name = ''Ann'', ps_tier = '''', ps_account = ''acc'', ps_pid = Some ''p1'', ps_version = 4, ps_comms = '''',
     ps_aliases = '''', ps_state = '''', ps_notice = ''''\<rparr>"

definition at_rest :: hsys where
  "at_rest = \<lparr>hs_now = 0, hs_src = Some walker, hs_dst = None,
     hs_dir = \<lparr>p_shard = Some ''s1'', p_zone = Some ''mid'', p_epoch = Some 3, p_nonce = Some 9\<rparr>, hs_row = 3,
     hs_inbox = [], hs_coords = [], hs_timers = [], hs_redirects = [], hs_regs = []\<rparr>"

definition binding :: "nat \<Rightarrow> attach_msg" where
  "binding e = \<lparr>am_token = CHR ''t'' # replicate e CHR ''x'', am_out = 2, am_resumeEpoch = 0, am_inputSeq = 0,
     am_account = ''acc'', am_tier = '''', am_login = '''', am_pid = None, am_nonce = 0, am_name = ''Ann''\<rparr>"

lemmas crossing_defs = plain_world_def crossing_def walker_def at_rest_def binding_def

section \<open>At most one copy acts\<close>


definition one_crossing :: "hevent list" where
  "one_crossing = [Ev_Move True, Ev_Resolve 0 True, Ev_Mint 0 Served, Ev_Prepare 0 11 Served,
     Ev_Claim 0 Served Served, Ev_Src False, Ev_Src False, Ev_Bind 0 (binding 4)]"

lemmas crossing_eval = crossing_defs z_initiateHandoff_def buildSnapshot_def src_does_def dst_does_def
  absorb_all_def co_resolve_def co_mint_def co_prepare_def co_claim_def in_phase_def set_coord_def end_coord_def
  post_src_def mint_epoch_def in_time_def handoffRPCTimeout_def freezeTTL_def Let_def src_handles_def
  z_markHandedOff_def z_redirect_def reapHandedOffOrphan_def SetPlayerShard_def player_defs
  z_handoffFailed_def thaw_session_def restore_from_def linkDeathAfterThaw_def freezeExpire_def
  resolveRoom_def carry_refused_def reply_of_def acts_def
  z_prepare_def pending_session_def maxCarryStateBytes_def z_attach_def attach_bind_def

lemma one_crossing_runs:
  "\<exists>y. hrun crossing one_crossing at_rest = Some y \<and> hs_redirects y \<noteq> [] \<and> acts (hs_dst y)"
  by (simp add: crossing_eval one_crossing_def)

lemma one_crossing_calm: "calm_run crossing one_crossing at_rest"
  by (simp add: crossing_eval one_crossing_def calm_def)


section \<open>A failed attempt gives the player back\<close>

fun is_hop :: "hevent \<Rightarrow> bool" where
  "is_hop (Ev_Resolve i ok) = True"
| "is_hop (Ev_Mint i net) = True"
| "is_hop (Ev_Prepare i n net) = True"
| "is_hop (Ev_Claim i net ab) = True"
| "is_hop (Ev_Tick n) = True"
| "is_hop _ = False"

text \<open>The conversation of one attempt: still open, or closed with its verdict in the inbox.\<close>

definition talking :: "psess \<Rightarrow> player_hash \<Rightarrow> hsys \<Rightarrow> bool" where
  "talking s d y \<longleftrightarrow>
     hs_src y = Some s \<and> hs_inbox y = [] \<and> hs_regs y = [] \<and> hs_dir y = d \<and>
     (\<exists>c. hs_coords y = [c] \<and> co_epoch c = ps_epoch s \<and>
        (if co_phase c = Co_Prepare \<or> co_phase c = Co_Claim then ps_epoch s < co_new c else co_new c = 0))"

definition failed_with :: "psess \<Rightarrow> player_hash \<Rightarrow> hsys \<Rightarrow> bool" where
  "failed_with s d y \<longleftrightarrow>
     hs_src y = Some s \<and> hs_regs y = [] \<and> hs_coords y = [] \<and>
     (\<exists>r e. hs_inbox y = [M_Failed r e] \<and>
        (hs_dir y = d \<and> (e = 0 \<or> ps_epoch s < e) \<or> ps_epoch s < e \<and> p_epoch (hs_dir y) = Some e))"

definition moved_with :: "route \<Rightarrow> psess \<Rightarrow> hsys \<Rightarrow> bool" where
  "moved_with ro s y \<longleftrightarrow>
     hs_src y = Some s \<and> hs_coords y = [] \<and>
     (\<exists>e. ps_epoch s < e \<and> hs_inbox y = [M_Handed_Off, M_Redirect (ro_addr ro) (ro_token ro e) e] \<and>
        p_shard (hs_dir y) = Some (ro_dst ro) \<and> p_zone (hs_dir y) = Some (ro_dstZone ro) \<and>
        p_epoch (hs_dir y) = Some e)"

lemma registered_prepare [simp]:
  "registered sh z (snd (z_prepare w m n p)) = []" "registered sh z (snd (abortPending k p)) = []"
  by (auto simp: z_prepare_def abortPending_def Let_def split: option.splits)

text \<open>What a message to the destination leaves of the rest of the system.\<close>

lemma dst_quiet:
  assumes "\<And>x. hs_src (snd (f x)) = hs_src x \<and> hs_inbox (snd (f x)) = hs_inbox x \<and> hs_regs (snd (f x)) = hs_regs x \<and>
      hs_dir (snd (f x)) = hs_dir x \<and> hs_coords (snd (f x)) = hs_coords x"
  shows "hs_src (snd (round_trip net f y)) = hs_src y" "hs_inbox (snd (round_trip net f y)) = hs_inbox y"
    "hs_regs (snd (round_trip net f y)) = hs_regs y" "hs_dir (snd (round_trip net f y)) = hs_dir y"
    "hs_coords (snd (round_trip net f y)) = hs_coords y"
  using assms by (cases net; simp)+

lemmas hop_defs = talking_def failed_with_def moved_with_def in_phase_def set_coord_def end_coord_def post_src_def

lemma talking_resolve:
  assumes "talking s d y" "in_phase i Co_Resolve y"
  shows "talking s d (co_resolve ro i ok y) \<or> failed_with s d (co_resolve ro i ok y)"
  using assms by (auto simp: co_resolve_def Let_def hop_defs)

lemma talking_mint:
  assumes "talking s d y" "in_phase i Co_Mint y"
  shows "talking s d (co_mint ro i net y) \<or> failed_with s d (co_mint ro i net y)"
  using assms by (cases net) (auto simp: co_mint_def Let_def hop_defs mint_epoch_def)

lemma talking_prepare:
  assumes "talking s d y" "in_phase i Co_Prepare y"
  shows "talking s d (co_prepare ro i n net y) \<or> failed_with s d (co_prepare ro i n net y)"
proof -
  obtain c where c: "hs_coords y = [c]" "i = 0" "co_phase c = Co_Prepare" "ps_epoch s < co_new c" "co_epoch c = ps_epoch s"
    using assms by (auto simp: talking_def in_phase_def)
  have T: "hs_src y = Some s" "hs_inbox y = []" "hs_regs y = []" "hs_dir y = d"
    using assms(1) by (auto simp: talking_def)
  define P where "P m y = (reply_of (snd (z_prepare (ro_world ro) m n (hs_dst y))), dst_does ro (z_prepare (ro_world ro) m n (hs_dst y)) y)"
    for m and y :: hsys
  have Q: "hs_src (snd (round_trip k (P m) y)) = hs_src y" "hs_inbox (snd (round_trip k (P m) y)) = hs_inbox y"
    "hs_regs (snd (round_trip k (P m) y)) = hs_regs y" "hs_dir (snd (round_trip k (P m) y)) = hs_dir y"
    "hs_coords (snd (round_trip k (P m) y)) = hs_coords y" for k :: "string net" and m
    by (rule dst_quiet; simp add: P_def)+
  show ?thesis
    unfolding co_prepare_def Let_def case_prod_beta P_def [symmetric]
    using c T by (simp add: Q talking_def failed_with_def set_coord_def end_coord_def post_src_def)
qed

lemma claim_dir:
  "fst (SetPlayerShard net pid sh z e (\<lambda>_. h)) = Inr True \<Longrightarrow>
     p_shard (snd (SetPlayerShard net pid sh z e (\<lambda>_. h)) pid) = Some sh \<and>
     p_zone (snd (SetPlayerShard net pid sh z e (\<lambda>_. h)) pid) = Some z \<and>
     p_epoch (snd (SetPlayerShard net pid sh z e (\<lambda>_. h)) pid) = Some e"
  "snd (SetPlayerShard net pid sh z e (\<lambda>_. h)) pid = h \<or>
     p_epoch (snd (SetPlayerShard net pid sh z e (\<lambda>_. h)) pid) = Some e"
  by (cases net; auto simp: SetPlayerShard_def casPlacement_def Let_def split: option.splits if_splits)+

lemma talking_claim:
  assumes "talking s d y" "in_phase i Co_Claim y"
  shows "moved_with ro s (co_claim ro i net ab y) \<or> failed_with s d (co_claim ro i net ab y)"
proof -
  obtain c where c: "hs_coords y = [c]" "i = 0" "co_phase c = Co_Claim" "ps_epoch s < co_new c"
    using assms by (auto simp: talking_def in_phase_def)
  have T: "hs_src y = Some s" "hs_inbox y = []" "hs_regs y = []" "hs_dir y = d"
    using assms(1) by (auto simp: talking_def)
  define A where "A k y = ((), dst_does ro (abortPending k (hs_dst y)) y)" for k and y :: hsys
  have Q: "hs_src (snd (round_trip ab (A k) x)) = hs_src x" "hs_inbox (snd (round_trip ab (A k) x)) = hs_inbox x"
    "hs_regs (snd (round_trip ab (A k) x)) = hs_regs x" "hs_dir (snd (round_trip ab (A k) x)) = hs_dir x"
    "hs_coords (snd (round_trip ab (A k) x)) = hs_coords x" for k x
    by (rule dst_quiet; simp add: A_def)+
  show ?thesis
    unfolding co_claim_def Let_def case_prod_beta A_def [symmetric]
    using c T claim_dir [of "in_time c y (RedisErr ''deadline'') net" "ro_character ro" "ro_dst ro" "ro_dstZone ro" "co_new c" d]
    by (simp add: Q moved_with_def failed_with_def end_coord_def post_src_def)
qed

lemma now_keeps [simp]:
  "talking s d (y\<lparr>hs_now := t\<rparr>) = talking s d y" "failed_with s d (y\<lparr>hs_now := t\<rparr>) = failed_with s d y"
  "moved_with ro s (y\<lparr>hs_now := t\<rparr>) = moved_with ro s y"
  by (simp_all add: talking_def failed_with_def moved_with_def)

lemma closed_no_hop:
  assumes "hs_coords y = []" "is_hop e" "hstep ro e y = Some y'"
  shows "\<exists>t. y' = y\<lparr>hs_now := t\<rparr>"
  using assms by (cases e) (auto simp: in_phase_def)

lemma hop_talking:
  assumes "talking s d y" "is_hop e" "hstep ro e y = Some y'"
  shows "talking s d y' \<or> failed_with s d y' \<or> moved_with ro s y'"
proof (cases e)
  case (Ev_Resolve i ok)
  then show ?thesis
    using assms talking_resolve [OF assms(1), of i ro ok] by (auto split: if_splits)
next
  case (Ev_Mint i net)
  then show ?thesis
    using assms talking_mint [OF assms(1), of i ro net] by (auto split: if_splits)
next
  case (Ev_Prepare i n net)
  then show ?thesis
    using assms talking_prepare [OF assms(1), of i ro n net] by (auto split: if_splits)
next
  case (Ev_Claim i net ab)
  then show ?thesis
    using assms talking_claim [OF assms(1), of i ro net ab] by (auto split: if_splits)
next
  case (Ev_Tick n)
  then show ?thesis
    using assms by auto
qed (use assms(2) in simp_all)

lemma hops_end:
  "talking s d y \<or> failed_with s d y \<or> moved_with ro s y \<Longrightarrow> list_all is_hop es \<Longrightarrow> hrun ro es y = Some y' \<Longrightarrow>
     talking s d y' \<or> failed_with s d y' \<or> moved_with ro s y'"
proof (induction es arbitrary: y)
  case Nil
  then show ?case by simp
next
  case (Cons e es)
  then obtain z where z: "hstep ro e y = Some z" "hrun ro es z = Some y'" and h: "is_hop e" "list_all is_hop es"
    by (auto split: option.splits)
  have "talking s d z \<or> failed_with s d z \<or> moved_with ro s z"
  proof (cases "talking s d y")
    case True
    then show ?thesis using hop_talking h z by blast
  next
    case False
    then have f: "failed_with s d y \<or> moved_with ro s y"
      using Cons.prems(1) by blast
    then have "hs_coords y = []"
      by (auto simp: failed_with_def moved_with_def)
    then obtain t where "z = y\<lparr>hs_now := t\<rparr>"
      using closed_no_hop h(1) z(1) by blast
    then show ?thesis using f by auto
  qed
  then show ?case
    using Cons.IH z h by blast
qed

text \<open>The verdict of a failed attempt, handled by the source and told to the directory.\<close>

lemma failed_entry:
  assumes "ps_frozenFrom s = Some r" "\<not> ps_pending s"
  shows "\<exists>s1. fst (z_handoffFailed why e (Some s)) = Some s1 \<and> \<not> ps_frozen s1 \<and> \<not> ps_pending s1 \<and>
     ps_room s1 = Some r \<and> ps_epoch s1 = max (ps_epoch s) e"
    "registered sh z (snd (z_handoffFailed why e (Some s))) =
      (if ps_epoch s < e then [(sh, z, e, ps_nonce s)] else [])"
  using assms
  by (simp_all add: z_handoffFailed_def Let_def case_prod_beta thaw_session_def restore_from_def
      linkDeathAfterThaw_def enterLinkDeath_def)

lemma register_delivers:
  assumes "p_epoch (hs_dir y) = Some cur" "cur \<le> e" "hs_regs y = [(sh, z, e, n)]"
  shows "\<exists>y2. hstep ro (Ev_Register 0 Served) y = Some y2 \<and> hs_regs y2 = [] \<and> hs_src y2 = hs_src y \<and>
     p_shard (hs_dir y2) = Some sh \<and> p_zone (hs_dir y2) = Some z \<and> p_epoch (hs_dir y2) = Some e"
  using assms by (auto simp: RegisterPlacement_def registerPlacement_def Let_def max_def)

lemma failed_gives_back:
  assumes F: "failed_with s d y" and s: "ps_frozenFrom s = Some r" "\<not> ps_pending s"
    and d: "p_shard d = Some (ro_src ro)" "p_epoch d = Some e0" "e0 \<le> ps_epoch s"
  shows "\<exists>why e y1 s1 y2. hs_inbox y = [M_Failed why e] \<and> hrun ro [Ev_Src False] y = Some y1 \<and>
     hs_src y1 = Some s1 \<and> acts (hs_src y1) \<and> ps_room s1 = Some r \<and> ps_epoch s1 = max (ps_epoch s) e \<and>
     hrun ro (map (\<lambda>_. Ev_Register 0 Served) (hs_regs y1)) y1 = Some y2 \<and> hs_src y2 = Some s1 \<and>
     p_shard (hs_dir y2) = Some (ro_src ro)"
proof -
  obtain why e where ve: "hs_inbox y = [M_Failed why e]"
    and dir: "hs_dir y = d \<and> (e = 0 \<or> ps_epoch s < e) \<or> ps_epoch s < e \<and> p_epoch (hs_dir y) = Some e"
    and y: "hs_src y = Some s" "hs_regs y = []"
    using F by (auto simp: failed_with_def)
  obtain s1 where s1: "fst (z_handoffFailed why e (Some s)) = Some s1" "\<not> ps_frozen s1" "\<not> ps_pending s1"
    "ps_room s1 = Some r" "ps_epoch s1 = max (ps_epoch s) e"
    using failed_entry(1) [OF s] by blast
  define y1 where "y1 = src_does ro (z_handoffFailed why e (Some s)) (y\<lparr>hs_inbox := []\<rparr>)"
  have run: "hrun ro [Ev_Src False] y = Some y1"
    using ve y by (simp add: y1_def src_handles_def)
  have y1: "hs_src y1 = Some s1" "hs_dir y1 = hs_dir y"
    "hs_regs y1 = (if ps_epoch s < e then [(ro_src ro, ro_srcZone ro, e, ps_nonce s)] else [])"
    using s1(1) y failed_entry(2) [OF s] by (simp_all add: y1_def)
  have "\<exists>y2. hrun ro (map (\<lambda>_. Ev_Register 0 Served) (hs_regs y1)) y1 = Some y2 \<and> hs_src y2 = Some s1 \<and>
      p_shard (hs_dir y2) = Some (ro_src ro)"
  proof (cases "ps_epoch s < e")
    case True
    then obtain cur where "p_epoch (hs_dir y1) = Some cur" "cur \<le> e"
      using dir d y1(2) by (cases "hs_dir y = d") auto
    then obtain y2 where "hstep ro (Ev_Register 0 Served) y1 = Some y2" "hs_src y2 = hs_src y1"
      "p_shard (hs_dir y2) = Some (ro_src ro)"
      using register_delivers [of y1 cur e] y1(3) True by auto
    then show ?thesis
      using y1 True by (simp del: hstep.simps)
  next
    case False
    then show ?thesis
      using y1 dir d by auto
  qed
  then show ?thesis
    using ve run y1(1) s1 by (auto simp: acts_def)
qed


text \<open>A claim whose reply is lost, after which the directory already names the destination.\<close>

definition lost_claim :: "hevent list" where
  "lost_claim = [Ev_Resolve 0 True, Ev_Mint 0 Served, Ev_Prepare 0 11 Served,
     Ev_Claim 0 (Lost_Reply (RedisErr ''timeout'')) Served]"

lemma lost_claim_runs:
  "\<exists>y. hrun crossing (Ev_Move True # lost_claim) at_rest = Some y \<and> hs_coords y = [] \<and>
     length (hs_inbox y) = 1 \<and> p_shard (hs_dir y) = Some ''s2''"
  by (simp add: crossing_eval lost_claim_def abortPending_def)


section \<open>A stale freeze timer splits the player\<close>

text \<open>
  The first attempt fails at once and the player is thawed; its freeze timer stays armed, with a generation
  a thaw does not change. Fifty-seven seconds later the player tries again; three seconds into
  that conversation the first timer fires, and the claim commits.
\<close>

definition second_try :: "hevent list" where
  "second_try =
     [Ev_Move True, Ev_Resolve 0 False, Ev_Src False, Ev_Tick 57000,
      Ev_Move True, Ev_Resolve 0 True, Ev_Mint 0 Served, Ev_Prepare 0 11 Served, Ev_Tick 3000,
      Ev_Freeze_Timer 0, Ev_Src False, Ev_Claim 0 Served Served, Ev_Src False, Ev_Src False,
      Ev_Bind 0 (binding 4)]"


end
