(* ===== verification/Shard_Drain.thy ===== *)
theory Shard_Drain
  imports Handover_Props Player_Handoff Directory_Drain
begin

text \<open>
  The graceful drain of a shard, \<^verbatim>\<open>internal/world/drain.go\<close>: \<open>BeginDrain\<close> hands every leased zone to a chosen
  peer, lets the zones fan their players off, waits, reclaims who is left and retires the headroom it
  reserved. The choice of a target, the walk of instance occupants, the wait and the answers of the zones are
  arguments: other goroutines act during them.
\<close>

section \<open>Inside a zone\<close>

definition drainZone :: "(player_id \<times> psess) list \<Rightarrow> (player_id \<times> psess) list \<times> (player_id \<times> zeffect list) list" where
  "drainZone ps =
     (map (\<lambda>(p, s). (p, case fst (drainPlayer p (Some s)) of Some s' \<Rightarrow> s' | None \<Rightarrow> s)) ps,
      map (\<lambda>(p, s). (p, snd (drainPlayer p (Some s)))) ps)"

definition isClientFaultStraggler :: "psess \<Rightarrow> bool" where
  "isClientFaultStraggler s =
     (if ps_frozen s then False
      else if isGateWedged s then True
      else ps_detached s \<or> ps_room s = None)"

definition drainReclaimNotice :: string where
  "drainReclaimNotice =
     ''The server is restarting. You have been disconnected '' @ [CHR 0xE2, CHR 0x80, CHR 0x94] @ '' reconnect to continue.''"

definition drainReclaimReason :: string where "drainReclaimReason = ''server restarting; reconnect''"

text \<open>The tally of infra and of client faults, and what each player is sent.\<close>

fun reclaimStragglers :: "(player_id \<times> psess) list \<Rightarrow> int \<times> int \<Rightarrow> (int \<times> int) \<times> (player_id \<times> zeffect list) list" where
  "reclaimStragglers [] t = (t, [])"
| "reclaimStragglers ((p, s) # ps) (infra, client) =
     (if ps_pending s then reclaimStragglers ps (infra, client)
      else if ps_frozen s \<and> ps_handedOff s then reclaimStragglers ps (infra, client)
      else
        let t = (if isClientFaultStraggler s then (infra, client + 1) else (infra + 1, client));
            (t', out) = reclaimStragglers ps t
        in (t', (if \<not> ps_detached s \<and> \<not> ps_frozen s
                 then [(p, [E_Text drainReclaimNotice, E_Disconnect (ps_out s) drainReclaimReason])] else []) @ out))"

section \<open>The sets of zones\<close>

definition drain_zones :: "zone_shard \<Rightarrow> zone_id list \<Rightarrow> zone_id list" where
  "drain_zones s zs = filter (\<lambda>z. \<not> isLocalZone z s) zs"

definition handover_zones :: "zone_shard \<Rightarrow> zone_id list \<Rightarrow> zone_id list" where
  "handover_zones s zs = filter (\<lambda>z. \<not> isInstanceID z) (drain_zones s zs)"

definition instance_zones :: "zone_shard \<Rightarrow> zone_id list \<Rightarrow> zone_id list" where
  "instance_zones s zs = filter isInstanceID (drain_zones s zs)"

text \<open>A zone object that has been torn down was quiescent: its population reads zero.\<close>

definition zone_pop :: "zone_shard \<Rightarrow> zone_id \<Rightarrow> int" where
  "zone_pop s z = (case sh_zones s z of Some o' \<Rightarrow> zo_pop o' | None \<Rightarrow> 0)"

definition allZonesQuiescent :: "zone_shard \<Rightarrow> zone_id list \<Rightarrow> bool" where
  "allZonesQuiescent s zs \<longleftrightarrow>
     (\<forall>z \<in> set zs. case sh_zones s z of Some o' \<Rightarrow> zone_quiescent o' | None \<Rightarrow> True)"

definition noArrivalsInFlight :: "zone_shard \<Rightarrow> zone_id list \<Rightarrow> bool" where
  "noArrivalsInFlight s zs \<longleftrightarrow>
     (\<forall>z \<in> set zs. case sh_zones s z of Some o' \<Rightarrow> zo_incoming o' = 0 | None \<Rightarrow> True)"

definition ejectInstanceOccupants :: "(cluster \<Rightarrow> cluster) \<Rightarrow> shard_id \<Rightarrow> zone_id list \<Rightarrow> cluster \<Rightarrow> cluster" where
  "ejectInstanceOccupants walk src instances c =
     (if instances = [] then c
      else upd_shard src (\<lambda>s. s\<lparr>sh_ejectWindow := False\<rparr>)
             (walk (upd_shard src (\<lambda>s. s\<lparr>sh_ejectWindow := True\<rparr>) c)))"

section \<open>Handing the zones over\<close>

type_synonym target_chooser = "zone_id \<Rightarrow> int \<Rightarrow> resvs \<Rightarrow> shard_id option \<times> resvs"

text \<open>The state of the loop: the cluster, the reservations, \<open>sentPlayers\<close> and the zones told to drain, with their targets.\<close>

type_synonym drain_loop_state = "cluster \<times> resvs \<times> (shard_id \<times> bool) list \<times> (zone_id \<times> shard_id) list"

definition drain_one ::
  "crypto \<Rightarrow> target_chooser \<Rightarrow> (zone_id \<Rightarrow> handover_env) \<Rightarrow> shard_id \<Rightarrow> zone_id \<Rightarrow> drain_loop_state \<Rightarrow> drain_loop_state" where
  "drain_one cr pick env src z st =
     (case st of (c, r, sent, told) \<Rightarrow>
        (case pick z (zone_pop (cl_shards c src) z) r of
           (None, r') \<Rightarrow> (c, r', sent, told)
         | (Some t, r') \<Rightarrow>
             let sent1 = (if map_of sent t = None then hset t False sent else sent) in
             (case handoverZoneTo cr (env z) z src t c of
                (Inl _, c') \<Rightarrow> (c', r', sent1, told)
              | (Inr _, c') \<Rightarrow> (c', r', hset t True sent1, told @ [(z, t)]))))"

definition drain_loop ::
  "crypto \<Rightarrow> target_chooser \<Rightarrow> (zone_id \<Rightarrow> handover_env) \<Rightarrow> shard_id \<Rightarrow> zone_id list \<Rightarrow> drain_loop_state \<Rightarrow> drain_loop_state" where
  "drain_loop cr pick env src zs st = foldl (\<lambda>st z. drain_one cr pick env src z st) st zs"

section \<open>Retiring the reservations\<close>

definition PresenceReflectWindow :: nat where "PresenceReflectWindow = 12000"

definition retire_target :: "(shard_id \<Rightarrow> dir_error net) \<Rightarrow> ms \<Rightarrow> shard_id \<Rightarrow> resvs \<Rightarrow> shard_id \<times> bool \<Rightarrow> resvs" where
  "retire_target net now me r ts =
     (case ts of (t, sent) \<Rightarrow>
        if sent then snd (ExpireDrainTargetSoon (net t) now t me PresenceReflectWindow r)
        else snd (ReleaseDrainTarget (net t) now t me r))"

definition retireDrainTargets ::
  "bool \<Rightarrow> (shard_id \<Rightarrow> dir_error net) \<Rightarrow> ms \<Rightarrow> shard_id \<Rightarrow> (shard_id \<times> bool) list \<Rightarrow> resvs \<Rightarrow> resvs" where
  "retireDrainTargets wired net now me sent r =
     (if \<not> wired \<or> me = '''' \<or> sent = [] then r else foldl (retire_target net now me) r sent)"

section \<open>The drain\<close>

record drain_env =
  de_order :: "zone_id list"
  de_marker :: bool
  de_mark :: "dir_error net"
  de_unmark :: "dir_error net"
  de_deadline :: nat
  de_walk :: "cluster \<Rightarrow> cluster"
  de_choose :: target_chooser
  de_env :: "zone_id \<Rightarrow> handover_env"
  de_wait :: "cluster \<Rightarrow> cluster"
  de_answer :: "zone_id \<Rightarrow> (int \<times> int) option"
  de_releaser :: bool
  de_retire :: "shard_id \<Rightarrow> dir_error net"
  de_start :: ms
  de_end :: ms

text \<open>A zone that does not answer in time counts its residents as infra faults.\<close>

definition collect_tally :: "(zone_id \<Rightarrow> (int \<times> int) option) \<Rightarrow> zone_shard \<Rightarrow> zone_id list \<Rightarrow> int \<times> int" where
  "collect_tally answer s zs =
     (\<Sum>z\<leftarrow>zs. case answer z of Some (i, k) \<Rightarrow> i | None \<Rightarrow> zone_pop s z,
      \<Sum>z\<leftarrow>zs. case answer z of Some (i, k) \<Rightarrow> k | None \<Rightarrow> 0)"

definition drain_tally :: "int \<Rightarrow> int \<times> int \<Rightarrow> drain_result" where
  "drain_tally initial t =
     \<lparr>dr_redirected = max 0 (initial - (fst t + snd t)), dr_reclaimed = fst t + snd t, dr_infra = fst t, dr_client = snd t\<rparr>"

definition BeginDrain ::
  "crypto \<Rightarrow> drain_env \<Rightarrow> shard_id \<Rightarrow> cluster \<times> resvs \<times> string keys
     \<Rightarrow> drain_result \<times> (cluster \<times> resvs \<times> string keys)" where
  "BeginDrain cr de src st =
     (case st of (c, r, keys) \<Rightarrow>
        let me = sh_id (cl_shards c src);
            c0 = upd_shard src (\<lambda>s. s\<lparr>sh_draining := True\<rparr>) c;
            keys0 = (if de_marker de then snd (SetDraining (de_mark de) (de_start de) me (2 * de_deadline de) keys) else keys);
            zs = drain_zones (cl_shards c0 src) (de_order de);
            c1 = ejectInstanceOccupants (de_walk de) src (instance_zones (cl_shards c0 src) (de_order de)) c0;
            initial = (\<Sum>z\<leftarrow>zs. zone_pop (cl_shards c1 src) z);
            (c2, r2, sent, told) = drain_loop cr (de_choose de) (de_env de) src (handover_zones (cl_shards c0 src) (de_order de)) (c1, r, [], []);
            c3 = de_wait de c2;
            t = collect_tally (de_answer de) (cl_shards c3 src) zs;
            r3 = retireDrainTargets (de_releaser de) (de_retire de) (de_end de) me sent r2;
            keys1 = (if de_marker de then snd (ClearDraining (de_unmark de) me keys0) else keys0)
        in (drain_tally initial t, (c3, r3, keys1)))"

section \<open>What the straggler tally counts\<close>

text \<open>Every resident is exactly one of: arriving, handed off, an infra fault, a client fault.\<close>

lemma reclaim_tally:
  "fst (reclaimStragglers ps (i, k)) =
     (i + int (length (filter (\<lambda>(p, s). \<not> ps_pending s \<and> \<not> (ps_frozen s \<and> ps_handedOff s) \<and> \<not> isClientFaultStraggler s) ps)),
      k + int (length (filter (\<lambda>(p, s). \<not> ps_pending s \<and> \<not> (ps_frozen s \<and> ps_handedOff s) \<and> isClientFaultStraggler s) ps)))"
proof (induction ps arbitrary: i k)
  case Nil
  then show ?case by simp
next
  case (Cons a ps)
  obtain p s where "a = (p, s)" by (cases a)
  then show ?case using Cons.IH by (simp add: case_prod_beta Let_def)
qed

text \<open>Nobody in a handoff, and nobody whose stream is gone, is sent a disconnect.\<close>

lemma reclaim_spares_handoffs:
  "(p, es) \<in> set (snd (reclaimStragglers ps t)) \<Longrightarrow>
     \<exists>s. (p, s) \<in> set ps \<and> \<not> ps_frozen s \<and> \<not> ps_detached s \<and> \<not> ps_pending s"
  by (induction ps t rule: reclaimStragglers.induct) (auto simp: case_prod_beta Let_def split: if_splits)

text \<open>Whoever a drained zone leaves in place is counted: an acting, placed, unwedged player is frozen by the drain.\<close>

lemma drain_moves_the_movable:
  assumes "(p, s) \<in> set ps" "\<not> ps_frozen s" "\<not> ps_pending s" "\<not> ps_detached s" "\<not> isGateWedged s" "ps_room s \<noteq> None"
  shows "\<exists>s'. (p, s') \<in> set (fst (drainZone ps)) \<and> ps_frozen s' \<and> \<not> ps_handedOff s' \<and> ps_frozenFrom s' = ps_room s"
proof -
  have "(p, fst (z_initiateHandoff p False s)) \<in> set (fst (drainZone ps))"
    using assms by (force simp: drainZone_def drainPlayer_def case_prod_beta image_iff)
  then show ?thesis
    by (auto simp: z_initiateHandoff_def Let_def)
qed

section \<open>What the drain leaves reserved\<close>

lemma expire_soon_wf: "resv_wf k \<Longrightarrow> resv_wf (snd (expireDrainTargetSoon me ttl now k))"
  using resv_wf_seen [of k now]
  by (auto simp: expireDrainTargetSoon_def Let_def resv_wf_def distinct_hset split: option.splits resv_val.splits)

lemma hdel_wf: "resv_wf k \<Longrightarrow> resv_wf (snd (hdelDrainer me now k))"
  using resv_wf_seen [of k now] by (simp add: hdelDrainer_def Let_def resv_wf_def hdel_def distinct_filter_fst)

lemma hdel_lapses: "holds_lapse_by 0 me (snd (hdelDrainer me now k))"
  by (auto simp: holds_lapse_by_def hdelDrainer_def Let_def hdel_def)

lemma hset_other: "x \<in> set (hset f v xs) \<Longrightarrow> distinct (map fst xs) \<Longrightarrow> fst x = f \<Longrightarrow> x = (f, v)"
  by (induction f v xs rule: hset.induct) (auto simp: image_iff split: if_splits)

lemma expire_soon_lapses:
  assumes "resv_wf k"
  shows "holds_lapse_by (now + ttl) me (snd (expireDrainTargetSoon me ttl now k))"
proof -
  let ?fs = "r_fields (resv_seen now k)"
  have d: "distinct (map fst ?fs)"
    using resv_wf_seen [OF assms] by (simp add: resv_wf_def)
  show ?thesis
  proof (cases "\<exists>cnt e. map_of ?fs me = Some (Hold cnt e) \<and> now + ttl < e")
    case True
    then obtain cnt e where "map_of ?fs me = Some (Hold cnt e)" "now + ttl < e" by blast
    then show ?thesis
      using d by (auto simp: expireDrainTargetSoon_def Let_def holds_lapse_by_def dest!: hset_other)
  next
    case False
    have "hold_exp (me, v) \<le> now + ttl" if "(me, v) \<in> set ?fs" for v
    proof -
      have "map_of ?fs me = Some v" using that d by simp
      then show ?thesis using False by (cases v) force+
    qed
    moreover have "snd (expireDrainTargetSoon me ttl now k) = resv_seen now k"
      using False by (auto simp: expireDrainTargetSoon_def Let_def not_less split: option.splits resv_val.splits)
    ultimately show ?thesis by (auto simp: holds_lapse_by_def)
  qed
qed

text \<open>Retiring a hold leaves the holds of the other drainers as they are.\<close>

lemma seen_twice: "now \<le> t \<Longrightarrow> resv_seen t (resv_seen now k) = resv_seen t k"
  by (auto simp: resv_seen_def no_resv_def split: option.splits)

lemma hset_filter_other:
  "f \<noteq> d \<Longrightarrow> filter (\<lambda>x. fst x = d \<and> P x) (hset f v xs) = filter (\<lambda>x. fst x = d \<and> P x) xs"
  by (induction f v xs rule: hset.induct) auto

lemma resv_by_fields:
  assumes "filter (\<lambda>x. fst x = d \<and> hold_live t x) fs = filter (\<lambda>x. fst x = d \<and> hold_live t x) (r_fields k)"
  shows "resv_by t d (k\<lparr>r_fields := fs\<rparr>) = resv_by t d k"
  using assms by (simp add: resv_by_def resv_seen_def no_resv_def split: option.split)

lemma expire_soon_others:
  assumes "me \<noteq> d" "now \<le> t"
  shows "resv_by t d (snd (expireDrainTargetSoon me ttl now k)) = resv_by t d k"
proof -
  have "resv_by t d (resv_seen now k) = resv_by t d k"
    using assms(2) by (simp add: resv_by_def seen_twice)
  moreover have "resv_by t d ((resv_seen now k)\<lparr>r_fields := hset me v (r_fields (resv_seen now k))\<rparr>) =
      resv_by t d (resv_seen now k)" for v
    by (rule resv_by_fields) (simp add: hset_filter_other assms(1))
  ultimately show ?thesis
    by (simp add: expireDrainTargetSoon_def Let_def split: option.split resv_val.split)
qed

lemma resv_by_none:
  assumes "filter (\<lambda>x. fst x = d \<and> hold_live t x) (r_fields k) = []"
  shows "resv_by t d k = 0"
proof -
  have "filter (\<lambda>x. fst x = d \<and> hold_live t x) (r_fields (resv_seen t k)) = []"
    using assms resv_seen_fields [of t k] by (auto simp: filter_empty_conv)
  then show ?thesis by (simp add: resv_by_def resv_total_def)
qed

lemma hdel_others:
  assumes "me \<noteq> d" "now \<le> t"
  shows "resv_by t d (snd (hdelDrainer me now k)) = resv_by t d k"
proof -
  let ?k = "resv_seen now k"
  have f: "filter (\<lambda>x. fst x = d \<and> hold_live t x) (hdel me (r_fields ?k)) =
      filter (\<lambda>x. fst x = d \<and> hold_live t x) (r_fields ?k)"
    using assms(1) by (auto simp: hdel_def intro!: filter_cong)
  have seen: "resv_by t d ?k = resv_by t d k"
    using assms(2) by (simp add: resv_by_def seen_twice)
  show ?thesis
  proof (cases "hdel me (r_fields ?k) = []")
    case True
    then have "filter (\<lambda>x. fst x = d \<and> hold_live t x) (r_fields ?k) = []" using f by simp
    then have "resv_by t d ?k = 0" by (rule resv_by_none)
    moreover have "resv_by t d (snd (hdelDrainer me now k)) = 0"
      using True by (intro resv_by_none) (simp add: hdelDrainer_def Let_def)
    ultimately show ?thesis
      using seen by simp
  next
    case False
    then have "snd (hdelDrainer me now k) = ?k\<lparr>r_fields := hdel me (r_fields ?k)\<rparr>"
      by (simp add: hdelDrainer_def Let_def)
    then show ?thesis
      using resv_by_fields [OF f] seen by simp
  qed
qed

text \<open>One target retired, the call reaching the server.\<close>

definition reaches :: "'e net \<Rightarrow> bool" where
  "reaches n \<longleftrightarrow> (\<forall>e. n \<noteq> Lost_Request e)"

lemma reaches_trip: "reaches n \<Longrightarrow> snd (round_trip n script x) = snd (script x)"
  by (cases n) (auto simp: reaches_def)

lemma retire_target_key:
  "retire_target net now me r (t, b) u =
     (if u \<noteq> t \<or> \<not> reaches (net t) then r u
      else if b then snd (expireDrainTargetSoon me PresenceReflectWindow now (r t))
      else snd (hdelDrainer me now (r t)))"
  by (cases "net t") (auto simp: retire_target_def ExpireDrainTargetSoon_def ReleaseDrainTarget_def reaches_def)

lemma retire_fold_key:
  assumes "distinct (map fst sent)"
  shows "foldl (retire_target net now me) r sent u =
     (case map_of sent u of
        None \<Rightarrow> r u
      | Some b \<Rightarrow>
          if \<not> reaches (net u) then r u
          else if b then snd (expireDrainTargetSoon me PresenceReflectWindow now (r u))
          else snd (hdelDrainer me now (r u)))"
  using assms
proof (induction sent arbitrary: r)
  case Nil
  then show ?case by simp
next
  case (Cons a sent)
  obtain t b where a: "a = (t, b)" by (cases a)
  have "map_of sent t = None"
    using Cons.prems a by (simp add: map_of_eq_None_iff image_image)
  then show ?case
    using Cons by (auto simp: a retire_target_key split: option.splits)
qed

text \<open>The loop keeps one entry per target, true exactly for the targets some zone was handed to.\<close>

definition sent_ok :: "(shard_id \<times> bool) list \<times> (zone_id \<times> shard_id) list \<Rightarrow> bool" where
  "sent_ok st \<longleftrightarrow> distinct (map fst (fst st)) \<and> (\<forall>t. map_of (fst st) t = Some True \<longleftrightarrow> t \<in> snd ` set (snd st))"

lemma drain_one_ok:
  assumes "sent_ok (sent, told)" "\<forall>t. resv_wf (r t)"
    and "\<forall>z n r. (\<forall>t. resv_wf (r t)) \<longrightarrow> (\<forall>t. resv_wf (snd (pick z n r) t))"
    and "drain_one cr pick env src z (c, r, sent, told) = (c', r', sent', told')"
  shows "sent_ok (sent', told') \<and> (\<forall>t. resv_wf (r' t))"
proof (cases "fst (pick z (zone_pop (cl_shards c src) z) r)")
  case None
  then show ?thesis
    using assms by (auto simp: drain_one_def case_prod_beta)
next
  case (Some t)
  let ?sent1 = "if map_of sent t = None then hset t False sent else sent"
  have d: "distinct (map fst ?sent1)"
    using assms(1) by (simp add: sent_ok_def distinct_hset)
  have m: "map_of ?sent1 x = Some True \<longleftrightarrow> map_of sent x = Some True" for x
    by (simp add: map_of_hset)
  have one: "sent_ok (?sent1, told)"
    using assms(1) d unfolding sent_ok_def fst_conv snd_conv m by blast
  have two: "sent_ok (hset t True ?sent1, told @ [(z, t)])"
  proof -
    have "map_of (hset t True ?sent1) x = Some True \<longleftrightarrow> x = t \<or> map_of sent x = Some True" for x
      unfolding map_of_hset using m [of x] by simp
    then show ?thesis
      using assms(1) distinct_hset [OF d, of t True] unfolding sent_ok_def fst_conv snd_conv by auto
  qed
  have "(sent', told') = (?sent1, told) \<or> (sent', told') = (hset t True ?sent1, told @ [(z, t)])"
    using assms(4) Some
    by (cases "fst (handoverZoneTo cr (env z) z src t c)") (auto simp: drain_one_def case_prod_beta Let_def)
  moreover have "r' = snd (pick z (zone_pop (cl_shards c src) z) r)"
    using assms(4) Some
    by (cases "fst (handoverZoneTo cr (env z) z src t c)") (auto simp: drain_one_def case_prod_beta Let_def)
  ultimately show ?thesis
    using one two assms(2,3) by auto
qed

lemma drain_loop_ok:
  assumes "sent_ok (sent, told)" "\<forall>t. resv_wf (r t)"
    and "\<forall>z n r. (\<forall>t. resv_wf (r t)) \<longrightarrow> (\<forall>t. resv_wf (snd (pick z n r) t))"
    and "drain_loop cr pick env src zs (c, r, sent, told) = (c', r', sent', told')"
  shows "sent_ok (sent', told') \<and> (\<forall>t. resv_wf (r' t))"
  using assms(1,2,4)
proof (induction zs arbitrary: c r sent told)
  case Nil
  then show ?case by (simp add: drain_loop_def)
next
  case (Cons z zs)
  obtain c1 r1 s1 t1 where o1: "drain_one cr pick env src z (c, r, sent, told) = (c1, r1, s1, t1)"
    by (cases "drain_one cr pick env src z (c, r, sent, told)") auto
  moreover have "drain_loop cr pick env src zs (c1, r1, s1, t1) = (c', r', sent', told')"
    using Cons.prems(3) o1 by (simp add: drain_loop_def)
  ultimately show ?case
    using Cons.IH drain_one_ok [OF Cons.prems(1,2) assms(3)] by blast
qed

text \<open>
  C19. A drain keeps no headroom it does not need. Whatever zones were handed over, refused or lost, once the drain
  has retired its targets (the calls that reach the directory): on a target some zone was handed to it
  holds nothing after one presence window, on a target it reserved and handed nothing to it holds nothing any
  more, on no target does it touch what another drainer holds, and a target it did not choose keeps its key.
\<close>

theorem drain_retires_its_holds:
  assumes "drain_loop cr pick env src zs (c, r, [], []) = (c', r', sent, told)"
    and "\<forall>t. resv_wf (r t)" "\<forall>z n r. (\<forall>t. resv_wf (r t)) \<longrightarrow> (\<forall>t. resv_wf (snd (pick z n r) t))"
    and "me \<noteq> ''''" "r'' = retireDrainTargets True net now me sent r'" "reaches (net t)"
  shows "(t \<in> snd ` set told \<longrightarrow> (\<forall>u \<ge> now + PresenceReflectWindow. resv_by u me (r'' t) = 0)) \<and>
    (t \<in> fst ` set sent \<and> t \<notin> snd ` set told \<longrightarrow> (\<forall>u. resv_by u me (r'' t) = 0)) \<and>
    (\<forall>d u. d \<noteq> me \<longrightarrow> now \<le> u \<longrightarrow> resv_by u d (r'' t) = resv_by u d (r' t)) \<and>
    (t \<notin> fst ` set sent \<longrightarrow> r'' t = r' t)"
proof -
  have ok: "sent_ok (sent, told)" "resv_wf (r' t)"
    using drain_loop_ok [OF _ assms(2,3,1)] by (simp_all add: sent_ok_def)
  have key: "r'' t = (case map_of sent t of None \<Rightarrow> r' t
      | Some b \<Rightarrow> if b then snd (expireDrainTargetSoon me PresenceReflectWindow now (r' t))
                  else snd (hdelDrainer me now (r' t)))"
    using ok(1) assms(4,6) retire_fold_key [of sent net now me r' t]
    by (auto simp: assms(5) retireDrainTargets_def sent_ok_def split: option.split)
  have told: "t \<in> snd ` set told \<longleftrightarrow> map_of sent t = Some True"
    using ok(1) by (simp add: sent_ok_def)
  have mem: "t \<in> fst ` set sent \<longleftrightarrow> map_of sent t \<noteq> None"
    by (simp add: map_of_eq_None_iff)
  have soon: "resv_by u me (snd (expireDrainTargetSoon me PresenceReflectWindow now (r' t))) = 0"
    if "now + PresenceReflectWindow \<le> u" for u
    using holds_lapse_by_zero [OF expire_soon_lapses [OF ok(2)] that] .
  have none: "resv_by u me (snd (hdelDrainer me now (r' t))) = 0" for u
    using holds_lapse_by_zero [OF hdel_lapses, of u] by simp
  show ?thesis
    unfolding told mem key
    using soon none expire_soon_others hdel_others by (auto split: option.split)
qed

text \<open>The result of a drain adds up.\<close>

lemma drain_result_adds_up:
  "dr_reclaimed (fst (BeginDrain cr de src st)) =
     dr_infra (fst (BeginDrain cr de src st)) + dr_client (fst (BeginDrain cr de src st))"
  "0 \<le> dr_redirected (fst (BeginDrain cr de src st))"
  by (simp_all add: BeginDrain_def drain_tally_def case_prod_beta Let_def)

text \<open>A zone handed to a peer on which three players' headroom was reserved.\<close>

definition demo_pick :: target_chooser where
  "demo_pick z n r = (Some ''b'', snd (ReserveDrainTarget Served 6000 ''b'' ''a'' 100 3 42000 r))"

lemma demo_flip: "\<exists>c'. handoverZoneTo demo_crypto (demo_env Served) ''darkwood'' ''a'' ''b'' demo_cluster = (Inr (), c')"
proof -
  have "fst (HandoverZone Served 6100 ''darkwood'' ''a'' ''b'' n (cl_dir demo_cluster)) = Inr True" for n
    by (simp add: HandoverZone_def handoverZone_def demo_cluster_def)
  then show ?thesis
    unfolding ready_handover [OF demo_ready] by (simp add: case_prod_beta demo_env_def)
qed

lemma demo_reserved:
  "snd (ReserveDrainTarget Served 6000 ''b'' ''a'' 100 3 42000 (\<lambda>_. no_resv)) ''b'' =
     \<lparr>r_fields = [(''a'', Hold 3 48000)], r_kexp = Some 49000\<rparr>"
  by (simp add: ReserveDrainTarget_def reserveDrainTarget_def no_resv_def resv_seen_def resv_total_def resv_mine_def Let_def)

theorem drain_retires_its_holds_witness:
  "\<exists>c' r' sent. drain_loop demo_crypto demo_pick (\<lambda>_. demo_env Served) ''a'' [''darkwood''] (demo_cluster, (\<lambda>_. no_resv), [], []) =
      (c', r', sent, [(''darkwood'', ''b'')]) \<and> resv_by 22000 ''a'' (r' ''b'') = 3 \<and>
      resv_by 22000 ''a'' (retireDrainTargets True (\<lambda>_. Served) 10000 ''a'' sent r' ''b'') = 0"
proof -
  obtain c' where c': "handoverZoneTo demo_crypto (demo_env Served) ''darkwood'' ''a'' ''b'' demo_cluster = (Inr (), c')"
    using demo_flip by blast
  let ?r = "snd (ReserveDrainTarget Served 6000 ''b'' ''a'' 100 3 42000 (\<lambda>_. no_resv))"
  have loop: "drain_loop demo_crypto demo_pick (\<lambda>_. demo_env Served) ''a'' [''darkwood''] (demo_cluster, (\<lambda>_. no_resv), [], []) =
      (c', ?r, [(''b'', True)], [(''darkwood'', ''b'')])"
    using c' by (simp add: drain_loop_def drain_one_def demo_pick_def)
  have wf: "\<forall>z n r. (\<forall>t. resv_wf (r t)) \<longrightarrow> (\<forall>t. resv_wf (snd (demo_pick z n r) t))"
    by (simp add: demo_pick_def ReserveDrainTarget_def reserve_wf)
  have held: "resv_by 22000 ''a'' (?r ''b'') = 3"
    unfolding demo_reserved by (simp add: resv_by_def resv_seen_def resv_total_def)
  have gone: "resv_by 22000 ''a'' (retireDrainTargets True (\<lambda>_. Served) 10000 ''a'' [(''b'', True)] ?r ''b'') = 0"
    using drain_retires_its_holds [where net = "\<lambda>_. Served" and me = "''a'' :: shard_id" and t = "''b'' :: shard_id" and now = 10000,
        OF loop _ wf _ refl]
    by (simp add: resv_wf_def no_resv_def reaches_def PresenceReflectWindow_def)
  show ?thesis
    by (intro exI conjI) (rule loop, rule held, rule gone)
qed

end
