(* ===== verification/Spec2Isabelle.thy ===== *)
theory Spec2Isabelle
  imports Zone_Lease Directory_Players Directory_Drain Session_Lock Gate_Session Placement_Plan Placement_Fleet
    Director_Election Director_Scope Telnet Char_Saver Attribute_Lint Check Concentration Verbs Item_Faults
    Handover_Props Handoff_Props Shard_Drain
begin

text \<open>
  telosMUD is a multi-user dungeon server that runs as a fleet. \<^emph>\<open>Gates\<close> hold the players' telnet
  connections and relay lines to \<^emph>\<open>shards\<close>; a shard hosts zones, each a single-threaded actor that runs
  the game rules; \<^emph>\<open>directors\<close> keep the state of a region or of the world and schedule its bosses; Redis
  holds the directory of who owns what, Postgres the characters. Zones move between shards and players
  between zones while they type. The library follows the code under \<^verbatim>\<open>src/internal\<close>, one theory per
  component, and proves what the components promise each other.

  \<^bold>\<open>Conventions.\<close> Handlers are functions from a state record to a result and the new state, with one branch
  for each guard and early return of the code; errors are values of a sum or option type. Redis and
  Postgres are services: a script or a statement is a function of the stored record, the clock the server
  reads is an argument, and the network is an argument (\<open>net\<close> of \<^verbatim>\<open>Prelude\<close>) that may lose a request or
  a reply. Go maps are partial functions, or association lists where the code ranges over them: then the
  list is an arbitrary iteration order. Goroutines are interleaved steps of a state. Go's \<^verbatim>\<open>int\<close> is \<open>int\<close>
  where the code keeps the value far inside 64 bits, \<^verbatim>\<open>float64\<close> is exact (\<^verbatim>\<open>Float64\<close>). Lua, op-lists and
  event subscribers are content and enter as parameters. Locales state interfaces (\<^verbatim>\<open>Lease_Contract\<close>, the
  session lock, the directory as the placement code sees it, the stores as the saver sees them) and
  are interpreted on the model of the code.

  \<^bold>\<open>Fleet.\<close>
  \<^item> \<^verbatim>\<open>Lease_Contract\<close>, \<^verbatim>\<open>Directory_Leases\<close>, \<^verbatim>\<open>Zone_Lease\<close>: the lease scripts of \<^verbatim>\<open>directory/redis.go\<close>
    (\<open>claimZone\<close>, \<open>releaseZone\<close>, \<open>handoverZone\<close>, \<open>claimLease\<close>, \<open>releaseLease\<close> and the shard keys). A granted
    zone stays with its owner for the lease, and a superseded generation never returns.
  \<^item> \<^verbatim>\<open>Directory_Players\<close>: the placement record of a player; a stale handoff is refused for ever.
  \<^item> \<^verbatim>\<open>Directory_Drain\<close>: drain reservations, occupancy and rebalance keys; the live reservations of a
    target fit the largest headroom given, and a refused call can still lose its caller's own hold.
  \<^item> \<^verbatim>\<open>Placement_Plan\<close>, \<^verbatim>\<open>Placement_Fleet\<close>: \<^verbatim>\<open>placement/placement.go\<close>. The planner ends, its plan can be
    executed and balances the load; the pool sweep holds what it won; a drain never stalls for want of a target.
  \<^item> \<^verbatim>\<open>Director_Election\<close>, \<^verbatim>\<open>Director_Scope\<close>: \<^verbatim>\<open>director/\<close> election, state, schedule and signals over
    \<^verbatim>\<open>store/scopestate.go\<close>. At most one fresh leader; versions never repeat; one spawn per life of a boss.
  \<^item> \<^verbatim>\<open>Session_Lock\<close>: \<^verbatim>\<open>sessionlock/\<close> in memory and in Redis, and the renewer of \<^verbatim>\<open>world/server.go\<close>.

  \<^item> \<^verbatim>\<open>Zone_Hosting\<close>, \<^verbatim>\<open>Hosting_Invariant\<close>, \<^verbatim>\<open>Hosting_Props\<close>: a shard's zones, renewal goroutines, actors,
    arrival claims and indexes (\<^verbatim>\<open>world/lease.go\<close>, \<^verbatim>\<open>unhost.go\<close> and the hosting half of \<^verbatim>\<open>world.go\<close>); a step
    relation with a rely condition for what happens while a mutex is dropped. One live renewal per zone, a
    teardown spares live zones, an abandoned adoption is undone; a dead registration can outlive its goroutine.
  \<^item> \<^verbatim>\<open>Zone_Handover\<close>, \<^verbatim>\<open>Handover_Props\<close>: \<open>handoverZoneTo\<close>, \<open>AdoptZone\<close> and the rebalance of a zone over two
    shards and the directory. A handover moves the zone, an adoption is good for one handover; a lost flip splits
    the zone.
  \<^item> \<^verbatim>\<open>Handoff_Sig\<close>: \<^verbatim>\<open>world/handoffsig.go\<close> and the gates of \<^verbatim>\<open>handoff_server.go\<close>. A signature speaks for one
    message only.
  \<^item> \<^verbatim>\<open>Player_Handoff\<close>, \<^verbatim>\<open>Handoff_Invariant\<close>, \<^verbatim>\<open>Handoff_Props\<close>: one player's session in the source and in the
    destination zone (\<^verbatim>\<open>world/zone.go\<close>, \<^verbatim>\<open>drain.go\<close>), and the coordinator \<open>beginHandoff\<close> of \<^verbatim>\<open>world.go\<close> hop by
    hop, with the inbox, the timers and the directory. The copies never act together while no freeze timer
    fires into a live conversation; a failed attempt gives the player back; a stale freeze timer splits them.
  \<^item> \<^verbatim>\<open>Shard_Drain\<close>: \<open>BeginDrain\<close> of \<^verbatim>\<open>world/drain.go\<close> and what it does inside a zone; what a drain
    leaves reserved on its targets.

  \<^bold>\<open>Connection.\<close>
  \<^item> \<^verbatim>\<open>Utf8\<close>, \<^verbatim>\<open>Color_Markup\<close>, \<^verbatim>\<open>Telnet\<close>: \<^verbatim>\<open>telnet/\<close> and \<^verbatim>\<open>colormarkup/\<close>. What is written is safe, lines
    and GMCP frames round trip, and the byte caps can be passed by escaped bytes.
  \<^item> \<^verbatim>\<open>Gate_Session\<close>: the sequenced input buffer of \<^verbatim>\<open>gate/session.go\<close>, the bridge of \<^verbatim>\<open>gate/gate.go\<close> and
    the dedup fence of \<^verbatim>\<open>world/zone.go\<close> as one step relation. Every line typed runs exactly once and in
    order across redirects whose handoff commits; a failed handoff can lose a line.
  \<^item> \<^verbatim>\<open>Textsan\<close>, \<^verbatim>\<open>Targeting\<close>, \<^verbatim>\<open>Verbs\<close>: \<^verbatim>\<open>textsan/\<close>, \<^verbatim>\<open>world/parser.go\<close>, \<^verbatim>\<open>targeting.go\<close> and
    \<^verbatim>\<open>aliases.go\<close>. Cleaned text is clean, staff verbs do not exist for players, aliases stay bounded.

  \<^bold>\<open>Characters.\<close> \<^verbatim>\<open>Char_Store\<close>, \<^verbatim>\<open>Char_Saver\<close>: rows and checkpoints with owner epochs
  (\<^verbatim>\<open>store/character.go\<close>, \<^verbatim>\<open>world/memstore.go\<close>, \<^verbatim>\<open>checkpoint/redis.go\<close>) and the saver of
  \<^verbatim>\<open>world/saver.go\<close>. A superseded session writes nothing, a logout flush lands, a login never rolls back an
  owner that has flushed; a claim can hide a checkpoint.

  \<^bold>\<open>Rules.\<close>
  \<^item> \<^verbatim>\<open>Float64\<close>, \<^verbatim>\<open>Formula\<close>, \<^verbatim>\<open>Attributes\<close>, \<^verbatim>\<open>Attribute_Lint\<close>: \<^verbatim>\<open>world/formula.go\<close> and
    \<^verbatim>\<open>world/attributes.go\<close>. Reads are bounded and equal a fresh derivation; the lint decides acyclicity.
  \<^item> \<^verbatim>\<open>Dice\<close>, \<^verbatim>\<open>Check\<close>: \<^verbatim>\<open>world/dice.go\<close> and \<^verbatim>\<open>world/check.go\<close>. Rolls are bounded, kept dice are the
    extremes, checks never see a screened attribute.
  \<^item> \<^verbatim>\<open>Resources\<close>, \<^verbatim>\<open>Affects\<close>, \<^verbatim>\<open>Affect_Invariant\<close>, \<^verbatim>\<open>Affect_Props\<close>, \<^verbatim>\<open>Concentration\<close>:
    \<^verbatim>\<open>world/resources.go\<close>, \<^verbatim>\<open>affected.go\<close>, \<^verbatim>\<open>affect_runtime.go\<close> and \<^verbatim>\<open>concentration.go\<close>. What affects do
    is what the active ones declare, timed affects end on time, a source concentrates on one affect.
  \<^item> \<^verbatim>\<open>Items\<close>, \<^verbatim>\<open>Item_Verbs\<close>, \<^verbatim>\<open>Crafting\<close>: the entity tree of \<^verbatim>\<open>world/entity.go\<close>, the verbs of
    \<^verbatim>\<open>container.go\<close> and \<^verbatim>\<open>keep.go\<close>, stacks, binding and recipes. \<^verbatim>\<open>Item_Tree\<close> has the invariant and what
    \<open>Move\<close> does to it, \<^verbatim>\<open>Item_Safety\<close> that every verb and op keeps it, \<^verbatim>\<open>Item_Props\<close> and \<^verbatim>\<open>Item_Faults\<close> the
    properties: bound items never change hands, crafting is all or nothing, hand-overs are audited; and four
    ways round the rules (splitting, wearing twice, repeated inputs, taking the corpse).
  \<^bold>\<open>Termination and bounds.\<close> Every function is total. Loops that could run on have a measure: the planner
  by the imbalance, the formula evaluator and the derivation by the finite registry and the path of
  names already entered. The lint's depth-first search carries fuel for its recursion depth, the number
  of attributes, which is proved to be enough (it always returns). The retry loop of the final flush has
  the eight attempts of the code.

  \<^bold>\<open>Not modelled.\<close> The interpreter behind the Lua sandbox and the scripts it runs, the SQL of content,
  account and audit tables, content parsing and pulling, OAuth, the hash and Ed25519 behind the signatures, NATS, metrics, logging,
  web pages and process start-up: code that is I/O or that only calls third-party packages. Of the zone
  actor the parts named above are modelled; the rest of its commands and ops is not.
\<close>

end
